(* ===== verification/Prelude.thy ===== *)
theory Prelude
  imports Main "HOL-Library.Word" "HOL-Library.Monad_Syntax"
begin

text \<open>
  Shared vocabulary of the development: the machine types the Go sources use, Go's
  comparison of strings, \<open>slices.Insert\<close>, and the generic lemmas on lists sorted by a
  strict order, on options and on maps that the component theories share.

  \<^item> \<open>byte\<close>, \<open>u16\<close>, \<open>u32\<close>, \<open>u64\<close> are Go's unsigned integers; \<open>rune\<close> is Go's
    \<open>rune\<close> read as an unsigned 32-bit pattern, which is how \<open>unicode/utf8\<close> reads it.
  \<^item> A Go \<open>string\<close> is an immutable byte sequence and is modelled by \<^typ>\<open>string\<close>, whose
    characters are exactly the 256 byte values.
  \<^item> \<open>uuid\<close> is the 16-byte value of \<open>github.com/google/uuid\<close>. The package itself is a
    third-party library: its \<open>String\<close> and \<open>Parse\<close> are parameters of the definitions
    that use them.
\<close>

type_synonym byte = "8 word"
type_synonym u16 = "16 word"
type_synonym u32 = "32 word"
type_synonym u64 = "64 word"
type_synonym rune = "32 word"
type_synonym uuid = "128 word"

named_theorems wire \<open>reading back what the encoders of the wire formats write\<close>
named_theorems step_simps \<open>unfolding rules of the components' operations\<close>

subsection \<open>Go's order on strings\<close>

text \<open>Go compares strings byte by byte; a proper prefix is smaller.\<close>

fun go_less :: "string \<Rightarrow> string \<Rightarrow> bool" where
  "go_less _ [] = False"
| "go_less [] (_ # _) = True"
| "go_less (c # cs) (d # ds) =
     (of_char c < (of_char d :: nat) \<or> (c = d \<and> go_less cs ds))"

lemma go_less_irrefl [simp]: "\<not> go_less s s"
  by (induction s) auto

lemma go_less_trans: "go_less s t \<Longrightarrow> go_less t u \<Longrightarrow> go_less s u"
proof (induction s t arbitrary: u rule: go_less.induct)
  case (3 c cs d ds)
  then show ?case by (cases u) (auto intro: less_trans)
qed (auto elim: go_less.elims)

lemma go_less_linear: "go_less s t \<or> s = t \<or> go_less t s"
proof (induction s t rule: go_less.induct)
  case (1 s)
  then show ?case by (cases s) auto
next
  case (3 c cs d ds)
  have "of_char c < (of_char d :: nat) \<or> c = d \<or> of_char d < (of_char c :: nat)"
    by (metis linorder_neqE_nat of_char_eq_iff)
  with 3 show ?case by auto
qed auto

lemma go_less_asym: "go_less s t \<Longrightarrow> \<not> go_less t s"
  using go_less_irrefl go_less_trans by blast

subsection \<open>Slices\<close>

text \<open>
  \<open>slices.Insert(s, i, x)\<close> with \<open>i \<le> len(s)\<close>; the caller checks the bound, since Go
  panics beyond it.
\<close>

definition slices_insert :: "'a list \<Rightarrow> nat \<Rightarrow> 'a \<Rightarrow> 'a list" where
  "slices_insert xs i x = take i xs @ x # drop i xs"

lemma length_slices_insert [simp]: "length (slices_insert xs i x) = Suc (length xs)"
  by (simp add: slices_insert_def)

lemma set_slices_insert [simp]: "set (slices_insert xs i x) = insert x (set xs)"
proof -
  have "set xs = set (take i xs) \<union> set (drop i xs)"
    by (metis append_take_drop_id set_append)
  then show ?thesis by (auto simp: slices_insert_def)
qed

lemma map_slices_insert: "map f (slices_insert xs i x) = slices_insert (map f xs) i (f x)"
  by (simp add: slices_insert_def take_map drop_map)

lemma distinct_slices_insert [simp]:
  "distinct (slices_insert xs i x) \<longleftrightarrow> x \<notin> set xs \<and> distinct xs"
proof -
  have *: "distinct (take i xs @ drop i xs) \<longleftrightarrow> distinct xs"
    by simp
  have **: "set xs = set (take i xs) \<union> set (drop i xs)"
    by (metis append_take_drop_id set_append)
  show ?thesis
    unfolding slices_insert_def ** using * by (auto simp del: append_take_drop_id)
qed

lemma list_comprehension_filter: "[f x. x \<leftarrow> xs, P x] = map f (filter P xs)"
  by (induction xs) auto

subsection \<open>Options\<close>

lemma option_eqI: "(\<And>y. a = Some y \<longleftrightarrow> b = Some y) \<Longrightarrow> a = b"
  by (cases a; cases b) auto

subsection \<open>Words\<close>

lemma word_less_Suc:
  fixes c :: "'a::len word"
  assumes "a \<le> c" and "c \<noteq> - 1"
  shows "a < c + 1"
proof -
  have "1 + c \<noteq> 0" using assms(2) by (metis add_eq_0_iff)
  then have "unat (c + 1) = Suc (unat c)" by (metis unatSuc add.commute)
  then show ?thesis using assms(1) by (simp add: word_less_nat_alt word_le_nat_alt)
qed

text \<open>
  A byte is a slice of eight bits of the word it was cut from, and neighbouring slices join:
  the codecs of the wire formats are inverse to each other because of these two facts.
\<close>

lemma take_bit_self: "unat v < 2 ^ n \<Longrightarrow> take_bit n v = v" for v :: "'a::len word"
  by (simp add: word_unat_eq_iff unsigned_take_bit_eq take_bit_nat_eq_self)

lemma byte_slice: "ucast (ucast x :: byte) = take_bit 8 x" for x :: "'a::len word"
  by (rule bit_eqI) (auto simp: bit_unsigned_iff bit_take_bit_iff)

lemma join_slices: "or (push_bit k (take_bit j (drop_bit k v))) (take_bit k v) = take_bit (k + j) v"
  for v :: "'a::len word"
  by (rule bit_eqI) (auto simp: bit_push_bit_iff bit_or_iff bit_take_bit_iff bit_drop_bit_eq dest: bit_imp_le_length)

lemmas join_bytes = join_slices [of 8 8] join_slices [of 16 8] join_slices [of 24 8] join_slices [of 32 8]
  join_slices [of 40 8] join_slices [of 48 8] join_slices [of 8 6] join_slices [of 24 6] join_slices [of 56 6]

text \<open>The bytes of a Go string.\<close>

definition bytes_of_string :: "string \<Rightarrow> byte list" where
  "bytes_of_string s = map (\<lambda>c. of_nat (of_char c)) s"

definition string_of_bytes :: "byte list \<Rightarrow> string" where
  "string_of_bytes bs = map (\<lambda>b. char_of (unat b)) bs"

lemma length_bytes_of_string [simp]: "length (bytes_of_string s) = length s"
  by (simp add: bytes_of_string_def)

lemma string_of_bytes_of_string [simp]: "string_of_bytes (bytes_of_string s) = s"
proof -
  have "of_char c < (256 :: nat)" for c :: char by (metis of_char_mod_256 mod_less_divisor zero_less_numeral)
  then show ?thesis
    by (simp add: bytes_of_string_def string_of_bytes_def map_idI unat_of_nat take_bit_nat_eq_self)
qed

text \<open>Two lower-case hexadecimal digits.\<close>

definition hex_byte :: "nat \<Rightarrow> string" where
  "hex_byte b =
     (let digit = (\<lambda>d. if d < 10 then char_of (48 + d) else char_of (87 + d :: nat))
      in [digit (b div 16), digit (b mod 16)])"

text \<open>
  Go's \<open>int64\<close> as an integer with the wrap-around written out: \<open>i64\<close> reduces the result of
  an operation to the 64-bit two's complement range.
\<close>

type_synonym int64 = int

definition i64 :: "int \<Rightarrow> int64" where
  "i64 x = signed_take_bit 63 x"

lemma i64_id: "- (2 ^ 63) \<le> x \<Longrightarrow> x < 2 ^ 63 \<Longrightarrow> i64 x = x"
  unfolding i64_def by (rule signed_take_bit_int_eq_self) simp_all

subsection \<open>Lists sorted by a strict order\<close>

lemma sorted_wrt_same_set_eq:
  assumes "sorted_wrt R xs" and "sorted_wrt R ys" and "set xs = set ys"
    and irrefl: "\<And>x. x \<in> set xs \<Longrightarrow> \<not> R x x"
    and asym: "\<And>x y. x \<in> set xs \<Longrightarrow> y \<in> set xs \<Longrightarrow> R x y \<Longrightarrow> \<not> R y x"
  shows "xs = ys"
  using assms
proof (induction xs arbitrary: ys)
  case Nil
  then show ?case by simp
next
  case (Cons x xs)
  from Cons.prems(3) obtain y ys' where ys: "ys = y # ys'" by (cases ys) auto
  have xy: "x = y"
  proof (rule ccontr)
    assume ne: "x \<noteq> y"
    with Cons.prems(3) ys have "y \<in> set xs" and "x \<in> set ys'" by auto
    with Cons.prems(1,2) ys have "R x y" and "R y x" by auto
    with Cons.prems(5) [of x y] \<open>y \<in> set xs\<close> show False by simp
  qed
  have "x \<notin> set xs" and "x \<notin> set ys'"
    using Cons.prems(1,2) Cons.prems(4) [of x] ys xy by auto
  with Cons.prems(3) ys xy have same: "set xs = set ys'" by auto
  have "xs = ys'"
  proof (rule Cons.IH [OF _ _ same])
    show "sorted_wrt R xs" and "sorted_wrt R ys'"
      using Cons.prems(1,2) ys by simp_all
    show "\<not> R z z" if "z \<in> set xs" for z
      using Cons.prems(4) that by simp
    show "\<not> R w z" if "z \<in> set xs" "w \<in> set xs" "R z w" for z w
      using Cons.prems(5) that by simp
  qed
  with ys xy show ?case by simp
qed

lemma sorted_wrt_slices_insert:
  assumes "sorted_wrt R xs"
    and "\<And>y. y \<in> set (take i xs) \<Longrightarrow> R y x" and "\<And>y. y \<in> set (drop i xs) \<Longrightarrow> R x y"
  shows "sorted_wrt R (slices_insert xs i x)"
proof -
  have "sorted_wrt R (take i xs @ drop i xs)"
    using assms(1) by simp
  then have "sorted_wrt R (take i xs)" "sorted_wrt R (drop i xs)"
    "\<forall>a \<in> set (take i xs). \<forall>b \<in> set (drop i xs). R a b"
    unfolding sorted_wrt_append by blast+
  then show ?thesis
    using assms(2,3) unfolding slices_insert_def by (simp add: sorted_wrt_append)
qed

end
