(* ===== verification/Disk.thy ===== *)
theory Disk
  imports Prelude
begin

text \<open>
  What the file-based stores use of Go's \<open>os\<close>, \<open>bufio\<close> and \<open>time\<close>: a directory as a map from
  names to entries, \<open>os.WriteFile\<close> and an appending write with their failures, and the
  line splitting of \<open>bufio.Scanner\<close> with its bound on the length of a line.

  A failure of the operating system is an input: every operation that writes takes the
  outcome \<open>write_io\<close> of the write. A \<open>time.Time\<close> is the number of nanoseconds since the
  epoch, UTC.
\<close>

type_synonym go_time = int

text \<open>\<open>uuid.Nil\<close> and \<open>time.Time{}\<close>, what is left when the parsers fail and the error is dropped.\<close>

definition uuid_or_nil :: "uuid option \<Rightarrow> uuid" where
  "uuid_or_nil u = (case u of None \<Rightarrow> 0 | Some i \<Rightarrow> i)"

definition time_or_zero :: "go_time option \<Rightarrow> go_time" where
  "time_or_zero t = (case t of None \<Rightarrow> - 62135596800000000000 | Some i \<Rightarrow> i)"

text \<open>A text form of times that satisfies what is required of one, for the examples.\<close>

definition unary_text :: "go_time \<Rightarrow> string" where
  "unary_text t = (if t < 0 then CHR ''-'' else CHR ''+'') # replicate (nat \<bar>t\<bar>) CHR ''1''"

definition unary_parse :: "string \<Rightarrow> go_time option" where
  "unary_parse s = (case s of [] \<Rightarrow> None
     | c # ds \<Rightarrow> Some (if c = CHR ''-'' then - int (length ds) else int (length ds)))"

lemma unary_parse_text [simp]: "unary_parse (unary_text t) = Some t"
  by (simp add: unary_text_def unary_parse_def)

datatype dirent = SubDir | Unreadable | RegFile string

type_synonym dir = "string \<rightharpoonup> dirent"

text \<open>
  \<open>OpenFails\<close>: the file cannot be opened, nothing changes. \<open>WriteFails n\<close>: only the first
  \<open>n\<close> bytes reach the file.
\<close>

datatype write_io = Writes | OpenFails | WriteFails nat

definition io_ok :: "write_io \<Rightarrow> bool" where
  "io_ok io = (io = Writes)"

fun written :: "write_io \<Rightarrow> string \<Rightarrow> string" where
  "written Writes s = s"
| "written OpenFails s = []"
| "written (WriteFails n) s = take n s"

text \<open>
  \<open>os.WriteFile\<close> truncates the file when it opens it. A directory or a file without
  permissions cannot be opened.
\<close>

definition WriteFile :: "write_io \<Rightarrow> string \<Rightarrow> string \<Rightarrow> dir \<Rightarrow> dir \<times> bool" where
  "WriteFile io name s d =
     (if io = OpenFails \<or> d name = Some SubDir \<or> d name = Some Unreadable then (d, False)
      else (d(name \<mapsto> RegFile (written io s)), io_ok io))"

text \<open>An open with \<open>O_APPEND|O_CREATE\<close> followed by one write.\<close>

definition file_contents :: "dir \<Rightarrow> string \<Rightarrow> string" where
  "file_contents d name = (case d name of Some (RegFile s) \<Rightarrow> s | _ \<Rightarrow> [])"

definition AppendFile :: "write_io \<Rightarrow> string \<Rightarrow> string \<Rightarrow> dir \<Rightarrow> dir \<times> bool" where
  "AppendFile io name s d =
     (if io = OpenFails \<or> d name = Some SubDir \<or> d name = Some Unreadable then (d, False)
      else (d(name \<mapsto> RegFile (file_contents d name @ written io s)), io_ok io))"

subsection \<open>Lines\<close>

definition LF :: char where "LF = CHR 0x0A"

definition CR :: char where "CR = CHR 0x0D"

definition dropCR :: "string \<Rightarrow> string" where
  "dropCR l = (if l \<noteq> [] \<and> last l = CR then butlast l else l)"

text \<open>
  \<open>bufio.Scanner\<close> with \<open>ScanLines\<close> and a buffer of \<open>cap\<close> bytes. A line that does not fit
  into the buffer together with its end stops the scan for good (\<open>ErrTooLong\<close>).
\<close>

function scan_lines :: "nat \<Rightarrow> string \<Rightarrow> string list" where
  "scan_lines cap s =
     (if s = [] then []
      else let l = takeWhile (\<lambda>c. c \<noteq> LF) s
           in if length l \<ge> cap then []
              else dropCR l # scan_lines cap (drop (Suc (length l)) s))"
  by pat_completeness auto
termination
  by (relation "measure (\<lambda>(cap, s). length s)") auto

declare scan_lines.simps [simp del]

lemma scan_lines_Nil [simp]: "scan_lines cap [] = []"
  by (simp add: scan_lines.simps)

definition good_line :: "nat \<Rightarrow> string \<Rightarrow> bool" where
  "good_line cap l \<longleftrightarrow> LF \<notin> set l \<and> length l < cap \<and> (l \<noteq> [] \<longrightarrow> last l \<noteq> CR)"

lemma scan_lines_Cons:
  assumes "good_line cap l"
  shows "scan_lines cap (l @ LF # s) = l # scan_lines cap s"
proof -
  have tw: "takeWhile (\<lambda>c. c \<noteq> LF) (l @ LF # s) = l"
    using assms by (subst takeWhile_append2) (auto simp: good_line_def)
  have "dropCR l = l" using assms by (auto simp: good_line_def dropCR_def)
  then show ?thesis
    using assms by (subst scan_lines.simps) (simp add: tw Let_def good_line_def)
qed

lemma scan_lines_concat:
  "list_all (good_line cap) ls \<Longrightarrow> scan_lines cap (concat (map (\<lambda>l. l @ [LF]) ls)) = ls"
  by (induction ls) (simp_all add: scan_lines_Cons)

text \<open>Everything after a line that is too long is lost.\<close>

lemma scan_lines_too_long:
  assumes "LF \<notin> set l" and "length l \<ge> cap" and "cap > 0"
  shows "scan_lines cap (l @ s) = []"
proof -
  have "length (takeWhile (\<lambda>c. c \<noteq> LF) (l @ s)) \<ge> length l"
    using assms(1) by (subst takeWhile_append2) auto
  then show ?thesis using assms(2) by (subst scan_lines.simps) (simp add: Let_def)
qed

end
