(* ===== verification/Event_Store.thy ===== *)
theory Event_Store
  imports Disk
begin

text \<open>
  Events and the interface \<open>EventStore\<close> of \<open>domain/repository.go\<close>, as the locale \<open>event_store\<close>,
  with what its clients may conclude, and the in-memory implementation
  \<open>adapter/memory/event_store.go\<close>.
\<close>

subsection \<open>Events\<close>

type_synonym EventType = string

definition EventCRDTOp :: EventType where "EventCRDTOp = ''crdt_op''"
definition EventEntryCreate :: EventType where "EventEntryCreate = ''entry_create''"
definition EventEntryDelete :: EventType where "EventEntryDelete = ''entry_delete''"

record Event =
  ev_EntryID :: uuid
  ev_ServerSeq :: int64
  ev_RequestID :: uuid
  ev_EventType :: EventType
  ev_SiteID :: uuid
  ev_Payload :: string
  ev_CreatedAt :: go_time

text \<open>The only error an implementation reports is a failed write of its file.\<close>

datatype StoreError = ErrAppendToFile

subsection \<open>The interface\<close>

text \<open>
  \<open>log s k\<close> is the history of entry \<open>k\<close>. The environment \<open>x\<close> of an \<open>append\<close> is what the
  outside decides: the clock and, for a store on disk, the outcome of the write.
\<close>

locale event_store =
  fixes append :: "'x \<Rightarrow> 's \<Rightarrow> Event \<Rightarrow> 's \<times> (StoreError + int64)"
    and list_after :: "'s \<Rightarrow> uuid \<Rightarrow> int64 \<Rightarrow> Event list"
    and max_seq :: "'s \<Rightarrow> uuid \<Rightarrow> int64"
    and inv :: "'s \<Rightarrow> bool"
    and log :: "'s \<Rightarrow> uuid \<Rightarrow> Event list"
    and requests :: "'s \<Rightarrow> uuid set"
    and now :: "'x \<Rightarrow> go_time"
    and fails :: "'x \<Rightarrow> 's \<Rightarrow> Event \<Rightarrow> bool"
  assumes list_after_log: "inv s \<Longrightarrow> list_after s k a = filter (\<lambda>e. ev_ServerSeq e > a) (log s k)"
    and max_seq_log: "inv s \<Longrightarrow> max_seq s k = int (length (log s k))"
    and numbered: "inv s \<Longrightarrow> map ev_ServerSeq (log s k) = map int [1..<Suc (length (log s k))]"
    and append_dup: "inv s \<Longrightarrow> ev_RequestID e \<in> requests s \<Longrightarrow> append x s e = (s, Inr 0)"
    and append_new: "inv s \<Longrightarrow> ev_RequestID e \<notin> requests s
      \<Longrightarrow> length (log s (ev_EntryID e)) < 2 ^ 63 - 1 \<Longrightarrow> append x s e = (s', res)
      \<Longrightarrow> inv s' \<and> requests s' = insert (ev_RequestID e) (requests s)
        \<and> log s' = (log s)(ev_EntryID e := log s (ev_EntryID e)
             @ [e\<lparr>ev_ServerSeq := int (length (log s (ev_EntryID e))) + 1, ev_CreatedAt := now x\<rparr>])
        \<and> res = (if fails x s e then Inl ErrAppendToFile
                 else Inr (int (length (log s (ev_EntryID e))) + 1))"
begin

text \<open>The events after sequence number \<open>n\<close> are the log without its first \<open>n\<close> entries.\<close>

lemma log_nth_seq: "inv s \<Longrightarrow> i < length (log s k) \<Longrightarrow> ev_ServerSeq (log s k ! i) = int i + 1"
  using arg_cong [OF numbered, of s "\<lambda>l. l ! i" k] by (simp del: upt_Suc)

lemma list_after_drop:
  assumes "inv s" and "0 \<le> a"
  shows "list_after s k a = drop (nat a) (log s k)"
proof -
  have aux: "filter (\<lambda>e. ev_ServerSeq e > a) l = drop (nat a - m) l"
    if "\<And>i. i < length l \<Longrightarrow> ev_ServerSeq (l ! i) = int (m + i) + 1" for l :: "Event list" and m
    using that
  proof (induction l arbitrary: m)
    case (Cons e l)
    have e: "ev_ServerSeq e = int m + 1" using Cons.prems [of 0] by simp
    have "ev_ServerSeq (l ! i) = int (Suc m + i) + 1" if "i < length l" for i
      using Cons.prems [of "Suc i"] that by simp
    from Cons.IH [OF this] show ?case
      using e assms(2) by (auto simp: drop_Cons' Suc_diff_le split: if_splits)
  qed simp
  show ?thesis
    using aux [of "log s k" 0] log_nth_seq [OF assms(1)] list_after_log [OF assms(1)] by simp
qed

text \<open>
  Catching up: what a client that has the events up to \<open>a\<close> gets is exactly what it lacks,
  consecutively numbered and ending with \<open>max_seq\<close>.
\<close>

lemma catch_up:
  assumes "inv s" and "0 \<le> a" and "a \<le> max_seq s k"
  shows "take (nat a) (log s k) @ list_after s k a = log s k"
    and "map ev_ServerSeq (list_after s k a) = map int [nat a + 1..<nat (max_seq s k) + 1]"
proof -
  show "take (nat a) (log s k) @ list_after s k a = log s k"
    by (simp add: list_after_drop [OF assms(1,2)])
  have "map ev_ServerSeq (list_after s k a) = drop (nat a) (map int [1..<Suc (length (log s k))])"
    unfolding list_after_drop [OF assms(1,2)] drop_map [symmetric]
    by (simp only: numbered [OF assms(1)])
  also have "\<dots> = map int [nat a + 1..<nat (max_seq s k) + 1]"
    using max_seq_log [OF assms(1)] by (simp add: drop_map del: upt_Suc)
  finally show "map ev_ServerSeq (list_after s k a) = map int [nat a + 1..<nat (max_seq s k) + 1]" .
qed

text \<open>A second append of the same request is refused and changes nothing.\<close>

lemma append_twice:
  assumes "inv s" and "length (log s (ev_EntryID e)) < 2 ^ 63 - 1"
    and "append x s e = (s', res)" and "ev_RequestID e' = ev_RequestID e"
  shows "append x' s' e' = (s', Inr 0)"
proof (cases "ev_RequestID e \<in> requests s")
  case True
  then show ?thesis using append_dup [OF assms(1)] assms(3,4) by simp
next
  case False
  from append_new [OF assms(1) False assms(2,3)] show ?thesis
    using append_dup [of s' e' x'] assms(4) by auto
qed

end

subsection \<open>The in-memory store\<close>

record EventStore =
  es_events :: "uuid \<rightharpoonup> Event list"
  es_seqs :: "uuid \<rightharpoonup> int64"
  es_seen :: "uuid set"

text \<open>Reading a missing key of a Go map gives the zero value.\<close>

definition events_of :: "(uuid \<rightharpoonup> Event list) \<Rightarrow> uuid \<Rightarrow> Event list" where
  "events_of m k = (case m k of None \<Rightarrow> [] | Some es \<Rightarrow> es)"

definition seq_of :: "(uuid \<rightharpoonup> int64) \<Rightarrow> uuid \<Rightarrow> int64" where
  "seq_of m k = (case m k of None \<Rightarrow> 0 | Some n \<Rightarrow> n)"

definition NewEventStore :: EventStore where
  "NewEventStore = \<lparr>es_events = Map.empty, es_seqs = Map.empty, es_seen = {}\<rparr>"

definition mem_Append :: "go_time \<Rightarrow> EventStore \<Rightarrow> Event \<Rightarrow> EventStore \<times> (StoreError + int64)" where
  "mem_Append t s event =
     (if ev_RequestID event \<in> es_seen s then (s, Inr 0)
      else
        (let seq = i64 (seq_of (es_seqs s) (ev_EntryID event) + 1);
             event' = event\<lparr>ev_ServerSeq := seq, ev_CreatedAt := t\<rparr>
         in (s\<lparr>es_seen := insert (ev_RequestID event) (es_seen s),
               es_seqs := (es_seqs s)(ev_EntryID event \<mapsto> seq),
               es_events := (es_events s)(ev_EntryID event \<mapsto>
                 events_of (es_events s) (ev_EntryID event) @ [event'])\<rparr>,
             Inr seq)))"

definition mem_ListAfter :: "EventStore \<Rightarrow> uuid \<Rightarrow> int64 \<Rightarrow> Event list" where
  "mem_ListAfter s entryID afterSeq =
     filter (\<lambda>e. ev_ServerSeq e > afterSeq) (events_of (es_events s) entryID)"

definition mem_MaxServerSeq :: "EventStore \<Rightarrow> uuid \<Rightarrow> int64" where
  "mem_MaxServerSeq s entryID = seq_of (es_seqs s) entryID"

subsection \<open>The invariant of both stores\<close>

text \<open>The sequence number of an entry is the length of its log, and the log is numbered from 1.\<close>

definition numbered_log :: "Event list \<Rightarrow> bool" where
  "numbered_log es \<longleftrightarrow> map ev_ServerSeq es = map int [1..<Suc (length es)]"

definition store_inv ::
  "(uuid \<rightharpoonup> Event list) \<Rightarrow> (uuid \<rightharpoonup> int64) \<Rightarrow> bool" where
  "store_inv es sq \<longleftrightarrow>
     (\<forall>k. numbered_log (events_of es k) \<and> seq_of sq k = int (length (events_of es k)))"

lemma numbered_log_Nil [simp]: "numbered_log []"
  by (simp add: numbered_log_def)

lemma numbered_log_snoc:
  "numbered_log es \<Longrightarrow> ev_ServerSeq e = int (length es) + 1 \<Longrightarrow> numbered_log (es @ [e])"
  by (simp add: numbered_log_def)

lemma store_inv_empty: "store_inv Map.empty Map.empty"
  by (simp add: store_inv_def events_of_def seq_of_def)

lemma store_inv_snoc:
  assumes "store_inv es sq" and "ev_ServerSeq e = int (length (events_of es k)) + 1"
  shows "store_inv (es(k \<mapsto> events_of es k @ [e])) (sq(k \<mapsto> int (length (events_of es k)) + 1))"
proof -
  have "numbered_log (events_of es k @ [e])"
    using assms by (intro numbered_log_snoc) (auto simp: store_inv_def)
  then show ?thesis
    using assms(1) by (auto simp: store_inv_def events_of_def seq_of_def)
qed

lemma next_seq:
  assumes "store_inv es sq" and "length (events_of es k) < 2 ^ 63 - 1"
  shows "i64 (seq_of sq k + 1) = int (length (events_of es k)) + 1"
proof -
  have "seq_of sq k + 1 = int (length (events_of es k)) + 1"
    using assms(1) by (simp add: store_inv_def)
  moreover have "i64 \<dots> = \<dots>"
    using assms(2) by (intro i64_id) auto
  ultimately show ?thesis by simp
qed

definition mem_inv :: "EventStore \<Rightarrow> bool" where
  "mem_inv s \<longleftrightarrow> store_inv (es_events s) (es_seqs s)"

definition mem_log :: "EventStore \<Rightarrow> uuid \<Rightarrow> Event list" where
  "mem_log s = events_of (es_events s)"

interpretation mem: event_store mem_Append mem_ListAfter mem_MaxServerSeq mem_inv mem_log es_seen
  "\<lambda>t. t" "\<lambda>_ _ _. False"
proof
  show "mem_ListAfter s k a = filter (\<lambda>e. ev_ServerSeq e > a) (mem_log s k)" for s k a
    by (simp add: mem_ListAfter_def mem_log_def)
  show "mem_MaxServerSeq s k = int (length (mem_log s k))" if "mem_inv s" for s k
    using that by (simp add: mem_MaxServerSeq_def mem_inv_def mem_log_def store_inv_def)
  show "map ev_ServerSeq (mem_log s k) = map int [1..<Suc (length (mem_log s k))]"
    if "mem_inv s" for s k
    using that unfolding mem_inv_def mem_log_def store_inv_def numbered_log_def by blast
  show "mem_Append x s e = (s, Inr 0)" if "ev_RequestID e \<in> es_seen s" for x s e
    using that by (simp add: mem_Append_def)
next
  fix s e x s' res
  assume inv: "mem_inv s" and new: "ev_RequestID e \<notin> es_seen s"
    and len: "length (mem_log s (ev_EntryID e)) < 2 ^ 63 - 1" and app: "mem_Append x s e = (s', res)"
  let ?k = "ev_EntryID e"
  have seq: "i64 (seq_of (es_seqs s) ?k + 1) = int (length (mem_log s ?k)) + 1"
    using next_seq inv len unfolding mem_inv_def mem_log_def by blast
  let ?e = "e\<lparr>ev_ServerSeq := int (length (mem_log s ?k)) + 1, ev_CreatedAt := x\<rparr>"
  have s': "s' = s\<lparr>es_seen := insert (ev_RequestID e) (es_seen s),
      es_seqs := (es_seqs s)(?k \<mapsto> int (length (mem_log s ?k)) + 1),
      es_events := (es_events s)(?k \<mapsto> mem_log s ?k @ [?e])\<rparr>"
    and res: "res = Inr (int (length (mem_log s ?k)) + 1)"
    using app new by (auto simp: mem_Append_def seq Let_def mem_log_def)
  have "mem_inv s'"
    using store_inv_snoc [of "es_events s" "es_seqs s" ?e ?k] inv
    by (simp add: mem_inv_def s' mem_log_def)
  moreover have "mem_log s' = (mem_log s)(?k := mem_log s ?k @ [?e])"
    by (auto simp: mem_log_def s' events_of_def)
  ultimately show "mem_inv s' \<and> es_seen s' = insert (ev_RequestID e) (es_seen s)
      \<and> mem_log s' = (mem_log s)(?k := mem_log s ?k @ [?e])
      \<and> res = (if False then Inl ErrAppendToFile else Inr (int (length (mem_log s ?k)) + 1))"
    by (simp add: s' res)
qed

lemma mem_inv_New: "mem_inv NewEventStore"
  using store_inv_empty by (simp add: mem_inv_def NewEventStore_def)

end
