(* ===== verification/File_Event_Store.thy ===== *)
theory File_Event_Store
  imports Event_Store
begin

text \<open>
  The event store on disk, \<open>adapter/jsonfile/event_store.go\<close>: one file of JSON lines per
  entry, read back at start-up.

  The text forms are parameters, collected in the record \<open>event_codec\<close>: \<open>json.Marshal\<close> and
  \<open>json.Unmarshal\<close> of \<open>eventJSON\<close>, \<open>uuid.String\<close> and \<open>uuid.Parse\<close>, and \<open>time.Format\<close> and
  \<open>time.Parse\<close> with \<open>RFC3339Nano\<close>. What the code relies on is \<open>codec_ok\<close>.
\<close>

record eventJSON =
  ej_EntryID :: string
  ej_ServerSeq :: int64
  ej_RequestID :: string
  ej_EventType :: string
  ej_SiteID :: string
  ej_Payload :: string
  ej_CreatedAt :: string

record event_codec =
  marshal_event :: "eventJSON \<Rightarrow> string option"
  unmarshal_event :: "string \<Rightarrow> eventJSON option"
  uuid_string :: "uuid \<Rightarrow> string"
  uuid_parse :: "string \<Rightarrow> uuid option"
  time_format :: "go_time \<Rightarrow> string"
  time_parse :: "string \<Rightarrow> go_time option"

record FileEventStore = EventStore +
  es_dir :: dir

subsection \<open>Loading\<close>

definition load_line :: "event_codec \<Rightarrow> uuid \<Rightarrow> FileEventStore \<Rightarrow> string \<Rightarrow> FileEventStore" where
  "load_line cdc entryID s l =
     (case unmarshal_event cdc l of
        None \<Rightarrow> s
      | Some ej \<Rightarrow>
          (let requestID = uuid_or_nil (uuid_parse cdc (ej_RequestID ej));
               ev = \<lparr>ev_EntryID = entryID, ev_ServerSeq = ej_ServerSeq ej, ev_RequestID = requestID,
                     ev_EventType = ej_EventType ej,
                     ev_SiteID = uuid_or_nil (uuid_parse cdc (ej_SiteID ej)),
                     ev_Payload = ej_Payload ej,
                     ev_CreatedAt = time_or_zero (time_parse cdc (ej_CreatedAt ej))\<rparr>;
               s1 = s\<lparr>es_events := (es_events s)(entryID \<mapsto> events_of (es_events s) entryID @ [ev]),
                       es_seen := insert requestID (es_seen s)\<rparr>
           in if ej_ServerSeq ej > seq_of (es_seqs s1) entryID
              then s1\<lparr>es_seqs := (es_seqs s1)(entryID \<mapsto> ej_ServerSeq ej)\<rparr>
              else s1))"

definition jsonl :: string where "jsonl = ''.jsonl''"

definition HasSuffix :: "string \<Rightarrow> string \<Rightarrow> bool" where
  "HasSuffix s suf \<longleftrightarrow> length suf \<le> length s \<and> drop (length s - length suf) s = suf"

definition TrimSuffix :: "string \<Rightarrow> string \<Rightarrow> string" where
  "TrimSuffix s suf = (if HasSuffix s suf then take (length s - length suf) s else s)"

definition line_cap :: nat where "line_cap = 1024 * 1024"

text \<open>The loop over the directory; \<open>None\<close> is the error of a file that cannot be opened.\<close>

fun load_files :: "event_codec \<Rightarrow> string list \<Rightarrow> FileEventStore \<Rightarrow> FileEventStore option" where
  "load_files cdc [] s = Some s"
| "load_files cdc (n # ns) s =
     (if es_dir s n = Some SubDir \<or> \<not> HasSuffix n jsonl then load_files cdc ns s
      else (case uuid_parse cdc (TrimSuffix n jsonl) of
              None \<Rightarrow> load_files cdc ns s
            | Some entryID \<Rightarrow>
                (case es_dir s n of
                   Some (RegFile c) \<Rightarrow>
                     load_files cdc ns (foldl (load_line cdc entryID) s (scan_lines line_cap c))
                 | _ \<Rightarrow> None)))"

text \<open>\<open>names\<close> is what \<open>os.ReadDir\<close> returns; its error is ignored by the code.\<close>

definition loadAll ::
  "event_codec \<Rightarrow> string list option \<Rightarrow> FileEventStore \<Rightarrow> FileEventStore option" where
  "loadAll cdc names s = (case names of None \<Rightarrow> Some s | Some ns \<Rightarrow> load_files cdc ns s)"

definition NewFileEventStore ::
  "event_codec \<Rightarrow> bool \<Rightarrow> string list option \<Rightarrow> dir \<Rightarrow> FileEventStore option" where
  "NewFileEventStore cdc mkdir_ok names d =
     (if \<not> mkdir_ok then None
      else loadAll cdc names
             \<lparr>es_events = Map.empty, es_seqs = Map.empty, es_seen = {}, es_dir = d\<rparr>)"

subsection \<open>Appending\<close>

definition event_json :: "event_codec \<Rightarrow> Event \<Rightarrow> eventJSON" where
  "event_json cdc event =
     \<lparr>ej_EntryID = uuid_string cdc (ev_EntryID event), ej_ServerSeq = ev_ServerSeq event,
      ej_RequestID = uuid_string cdc (ev_RequestID event), ej_EventType = ev_EventType event,
      ej_SiteID = uuid_string cdc (ev_SiteID event), ej_Payload = ev_Payload event,
      ej_CreatedAt = time_format cdc (ev_CreatedAt event)\<rparr>"

definition event_path :: "event_codec \<Rightarrow> uuid \<Rightarrow> string" where
  "event_path cdc entryID = uuid_string cdc entryID @ jsonl"

text \<open>The file is opened, and so created, before the event is marshalled.\<close>

definition appendToFile :: "event_codec \<Rightarrow> write_io \<Rightarrow> dir \<Rightarrow> Event \<Rightarrow> dir \<times> bool" where
  "appendToFile cdc io d event =
     (let path = event_path cdc (ev_EntryID event)
      in case marshal_event cdc (event_json cdc event) of
           None \<Rightarrow> (if io = OpenFails then (d, False) else (fst (AppendFile Writes path [] d), False))
         | Some data \<Rightarrow> AppendFile io path (data @ [LF]) d)"

definition file_Append ::
  "event_codec \<Rightarrow> go_time \<times> write_io \<Rightarrow> FileEventStore \<Rightarrow> Event
     \<Rightarrow> FileEventStore \<times> (StoreError + int64)" where
  "file_Append cdc x s event =
     (if ev_RequestID event \<in> es_seen s then (s, Inr 0)
      else
        (let seq = i64 (seq_of (es_seqs s) (ev_EntryID event) + 1);
             event' = event\<lparr>ev_ServerSeq := seq, ev_CreatedAt := fst x\<rparr>;
             s1 = s\<lparr>es_seen := insert (ev_RequestID event) (es_seen s),
                    es_seqs := (es_seqs s)(ev_EntryID event \<mapsto> seq),
                    es_events := (es_events s)(ev_EntryID event \<mapsto>
                      events_of (es_events s) (ev_EntryID event) @ [event'])\<rparr>;
             (d, ok) = appendToFile cdc (snd x) (es_dir s1) event'
         in if \<not> ok then (s1\<lparr>es_dir := d\<rparr>, Inl ErrAppendToFile)
            else (s1\<lparr>es_dir := d\<rparr>, Inr seq)))"

definition file_ListAfter :: "FileEventStore \<Rightarrow> uuid \<Rightarrow> int64 \<Rightarrow> Event list" where
  "file_ListAfter s entryID afterSeq =
     filter (\<lambda>e. ev_ServerSeq e > afterSeq) (events_of (es_events s) entryID)"

definition file_MaxServerSeq :: "FileEventStore \<Rightarrow> uuid \<Rightarrow> int64" where
  "file_MaxServerSeq s entryID = seq_of (es_seqs s) entryID"

text \<open>The keys of the map, in whatever order Go visits them.\<close>

definition EntryIDs :: "FileEventStore \<Rightarrow> uuid set" where
  "EntryIDs s = dom (es_events s)"

subsection \<open>The interface\<close>

definition file_inv :: "FileEventStore \<Rightarrow> bool" where
  "file_inv s \<longleftrightarrow> store_inv (es_events s) (es_seqs s)"

definition file_log :: "FileEventStore \<Rightarrow> uuid \<Rightarrow> Event list" where
  "file_log s = events_of (es_events s)"

definition append_fails ::
  "event_codec \<Rightarrow> go_time \<times> write_io \<Rightarrow> FileEventStore \<Rightarrow> Event \<Rightarrow> bool" where
  "append_fails cdc x s e \<longleftrightarrow>
     \<not> snd (appendToFile cdc (snd x) (es_dir s)
              (e\<lparr>ev_ServerSeq := int (length (file_log s (ev_EntryID e))) + 1, ev_CreatedAt := fst x\<rparr>))"

interpretation disk: event_store "file_Append cdc" file_ListAfter file_MaxServerSeq file_inv file_log
  es_seen fst "append_fails cdc" for cdc
proof
  show "file_ListAfter s k a = filter (\<lambda>e. ev_ServerSeq e > a) (file_log s k)" for s k a
    by (simp add: file_ListAfter_def file_log_def)
  show "file_MaxServerSeq s k = int (length (file_log s k))" if "file_inv s" for s k
    using that by (simp add: file_MaxServerSeq_def file_inv_def file_log_def store_inv_def)
  show "map ev_ServerSeq (file_log s k) = map int [1..<Suc (length (file_log s k))]"
    if "file_inv s" for s k
    using that unfolding file_inv_def file_log_def store_inv_def numbered_log_def by blast
  show "file_Append cdc x s e = (s, Inr 0)" if "ev_RequestID e \<in> es_seen s" for x s e
    using that by (simp add: file_Append_def)
next
  fix s e x s' res
  assume inv: "file_inv s" and new: "ev_RequestID e \<notin> es_seen s"
    and len: "length (file_log s (ev_EntryID e)) < 2 ^ 63 - 1"
    and app: "file_Append cdc x s e = (s', res)"
  let ?k = "ev_EntryID e"
  let ?n = "int (length (file_log s ?k)) + 1"
  let ?e = "e\<lparr>ev_ServerSeq := ?n, ev_CreatedAt := fst x\<rparr>"
  have seq: "i64 (seq_of (es_seqs s) ?k + 1) = ?n"
    using next_seq inv len unfolding file_inv_def file_log_def by blast
  have s': "s' = s\<lparr>es_seen := insert (ev_RequestID e) (es_seen s),
      es_seqs := (es_seqs s)(?k \<mapsto> ?n), es_events := (es_events s)(?k \<mapsto> file_log s ?k @ [?e]),
      es_dir := fst (appendToFile cdc (snd x) (es_dir s) ?e)\<rparr>"
    and res: "res = (if append_fails cdc x s e then Inl ErrAppendToFile else Inr ?n)"
    using app new
    by (auto simp: file_Append_def append_fails_def seq Let_def file_log_def split: prod.splits if_splits)
  have "file_inv s'"
    using store_inv_snoc [of "es_events s" "es_seqs s" ?e ?k] inv
    by (simp add: file_inv_def s' file_log_def)
  moreover have "file_log s' = (file_log s)(?k := file_log s ?k @ [?e])"
    by (auto simp: file_log_def s' events_of_def)
  ultimately show "file_inv s' \<and> es_seen s' = insert (ev_RequestID e) (es_seen s)
      \<and> file_log s' = (file_log s)(?k := file_log s ?k @ [?e])
      \<and> res = (if append_fails cdc x s e then Inl ErrAppendToFile else Inr ?n)"
    by (simp add: s' res)
qed

end
