(* ===== verification/Uuid.thy ===== *)
theory Uuid
  imports Prelude
begin

text \<open>
  \<open>github.com/google/uuid\<close> is a third-party package, so its \<open>String\<close> and \<open>Parse\<close> are
  parameters \<open>ustr\<close> and \<open>uparse\<close> of the model, and what the code relies on is the locale
  \<open>uuid_codec\<close>: parsing the text of an identifier gives it back. The canonical text of
  RFC 9562 (32 lower-case hexadecimal digits in groups of 8-4-4-4-12), which the package
  documents for \<open>String\<close>, and a parser of exactly that form satisfy it.
\<close>

locale uuid_codec =
  fixes ustr :: "uuid \<Rightarrow> string" and uparse :: "string \<Rightarrow> uuid option"
  assumes parse_string: "uparse (ustr u) = Some u"
begin

lemma string_inj: "inj ustr"
  by (rule injI) (metis option.inject parse_string)

end

subsection \<open>The canonical text\<close>

definition nibble :: "uuid \<Rightarrow> nat \<Rightarrow> nat" where
  "nibble u i = unat (take_bit 4 (drop_bit (4 * i) u))"

definition hex_digit :: "nat \<Rightarrow> char" where
  "hex_digit d = (if d < 10 then char_of (48 + d) else char_of (87 + d))"

definition unhex :: "char \<Rightarrow> nat option" where
  "unhex c =
     (let n = of_char c :: nat in
      if 48 \<le> n \<and> n \<le> 57 then Some (n - 48) else if 97 \<le> n \<and> n \<le> 102 then Some (n - 87)
      else None)"

definition add_dashes :: "string \<Rightarrow> string" where
  "add_dashes ds = take 8 ds @ ''-'' @ take 4 (drop 8 ds) @ ''-'' @ take 4 (drop 12 ds)
     @ ''-'' @ take 4 (drop 16 ds) @ ''-'' @ drop 20 ds"

definition drop_dashes :: "string \<Rightarrow> string" where
  "drop_dashes s = take 8 s @ take 4 (drop 9 s) @ take 4 (drop 14 s) @ take 4 (drop 19 s)
     @ drop 24 s"

definition uuid_hex :: "uuid \<Rightarrow> string" where
  "uuid_hex u = add_dashes (map (\<lambda>i. hex_digit (nibble u i)) (rev [0..<32]))"

definition of_nibbles :: "nat list \<Rightarrow> uuid" where
  "of_nibbles ds = horner_sum of_bool 2 (concat (map (\<lambda>d. map (bit d) [0..<4]) ds))"

definition unhex_canonical :: "string \<Rightarrow> uuid option" where
  "unhex_canonical s =
     (let ds = map unhex (rev (drop_dashes s)) in
      if length s = 36 \<and> add_dashes (drop_dashes s) = s \<and> list_all (\<lambda>d. d \<noteq> None) ds
      then Some (of_nibbles (map the ds)) else None)"

lemma unhex_digit: "d < 16 \<Longrightarrow> unhex (hex_digit d) = Some d"
  by (auto simp: unhex_def hex_digit_def Let_def)

lemma nibble_less: "nibble u i < 16"
  using take_bit_nat_less_exp [of 4 "unat (drop_bit (4 * i) u)"]
  by (simp add: nibble_def unsigned_take_bit_eq)

lemma bit_nibble: "j < 4 \<Longrightarrow> bit (nibble u i) j \<longleftrightarrow> bit u (4 * i + j)"
  by (simp add: nibble_def unsigned_take_bit_eq bit_take_bit_iff bit_unsigned_iff bit_drop_bit_eq)

lemma five_groups:
  assumes "length ds = 32"
  obtains a b c d e where "ds = a @ b @ c @ d @ e" and "length a = 8" and "length b = 4"
    and "length c = 4" and "length d = 4" and "length e = 12"
proof -
  have "ds = take 8 ds @ take 4 (drop 8 ds) @ take 4 (drop 12 ds) @ take 4 (drop 16 ds) @ drop 20 ds"
    using append_take_drop_id [of 8 ds] append_take_drop_id [of 4 "drop 8 ds"]
      append_take_drop_id [of 4 "drop 12 ds"] append_take_drop_id [of 4 "drop 16 ds"]
    by (simp del: append_take_drop_id)
  then show thesis by (rule that) (simp_all add: assms)
qed

lemma drop_add_dashes:
  assumes "length ds = 32"
  shows "drop_dashes (add_dashes ds) = ds" and "length (add_dashes ds) = 36"
proof -
  obtain a b c d e where ds: "ds = a @ b @ c @ d @ e" "length a = 8" "length b = 4"
    "length c = 4" "length d = 4" "length e = 12"
    by (rule five_groups [OF assms])
  show "drop_dashes (add_dashes ds) = ds"
    using ds by (simp add: add_dashes_def drop_dashes_def)
  show "length (add_dashes ds) = 36"
    using ds by (simp add: add_dashes_def)
qed

lemma map_blocks:
  "concat (map (\<lambda>i. map (\<lambda>j. f (4 * i + j)) [0..<4]) [0..<n]) = map f [0..<4 * n]"
proof (induction n)
  case (Suc n)
  have "map (\<lambda>j. f (4 * n + j)) [0..<4] = map f (map (\<lambda>j. j + 4 * n) [0..<4])"
    by (simp only: map_map comp_def add.commute)
  also have "\<dots> = map f [4 * n..<4 + 4 * n]" by (simp only: map_add_upt)
  finally have "map (\<lambda>j. f (4 * n + j)) [0..<4] = map f [4 * n..<4 + 4 * n]" .
  moreover have "[0..<4 * Suc n] = [0..<4 * n] @ [4 * n..<4 + 4 * n]"
    using upt_add_eq_append [of 0 "4 * n" 4] by (simp add: add.commute)
  ultimately show ?case using Suc by (simp only: upt_Suc_append map_append concat_append) simp
qed simp

lemma of_nibbles_nibble: "of_nibbles (map (nibble u) [0..<32]) = u"
proof -
  have "map (bit (nibble u i)) [0..<4] = map (\<lambda>j. bit u (4 * i + j)) [0..<4]" for i
    by (simp add: bit_nibble)
  then have "of_nibbles (map (nibble u) [0..<32]) = horner_sum of_bool 2 (map (bit u) [0..<128])"
    using map_blocks [of "bit u" 32] by (simp only: of_nibbles_def comp_def map_map) simp
  also have "\<dots> = take_bit 128 u" by (rule horner_sum_bit_eq_take_bit)
  finally show ?thesis by (simp add: take_bit_word_eq_self)
qed

lemma unhex_uuid_hex: "unhex_canonical (uuid_hex u) = Some u"
proof -
  define ds where "ds = map (\<lambda>i. hex_digit (nibble u i)) (rev [0..<32])"
  have len: "length ds = 32" by (simp add: ds_def)
  have un: "map unhex (rev ds) = map (\<lambda>i. Some (nibble u i)) [0..<32]"
    by (simp add: ds_def rev_map comp_def unhex_digit nibble_less del: upt_rec_numeral)
  have "unhex_canonical (add_dashes ds) = Some (of_nibbles (map (nibble u) [0..<32]))"
    unfolding unhex_canonical_def drop_add_dashes [OF len] un Let_def
    by (simp add: list_all_iff comp_def del: upt_rec_numeral)
  then show ?thesis by (simp add: uuid_hex_def ds_def of_nibbles_nibble)
qed

interpretation canonical: uuid_codec uuid_hex unhex_canonical
  by unfold_locales (rule unhex_uuid_hex)

end
