(* ===== verification/Event_Reload.thy ===== *)
theory Event_Reload
  imports File_Event_Store Uuid
begin

text \<open>
  Start-up of the event store on disk: what \<open>loadAll\<close> rebuilds from the files \<open>Append\<close> wrote,
  and what is lost when a write fails.
\<close>

subsection \<open>What the text forms have to satisfy\<close>

text \<open>
  \<open>json.Marshal\<close> compacts an embedded \<open>json.RawMessage\<close>, so the payload that is read back is
  the compacted one; a JSON object contains no line feed and does not end in a carriage return.
\<close>

definition codec_ok :: "event_codec \<Rightarrow> (string \<Rightarrow> string) \<Rightarrow> bool" where
  "codec_ok cdc compact \<longleftrightarrow>
     (\<forall>u. uuid_parse cdc (uuid_string cdc u) = Some u)
     \<and> (\<forall>t. time_parse cdc (time_format cdc t) = Some t)
     \<and> (\<forall>ej l. marshal_event cdc ej = Some l \<longrightarrow> LF \<notin> set l \<and> (l \<noteq> [] \<longrightarrow> last l \<noteq> CR)
           \<and> unmarshal_event cdc l = Some (ej\<lparr>ej_Payload := compact (ej_Payload ej)\<rparr>))"

definition stored :: "(string \<Rightarrow> string) \<Rightarrow> Event \<Rightarrow> Event" where
  "stored compact e = e\<lparr>ev_Payload := compact (ev_Payload e)\<rparr>"

definition event_line :: "event_codec \<Rightarrow> Event \<Rightarrow> string" where
  "event_line cdc e = the (marshal_event cdc (event_json cdc e))"

definition marshals :: "event_codec \<Rightarrow> Event \<Rightarrow> bool" where
  "marshals cdc e \<longleftrightarrow> marshal_event cdc (event_json cdc e) \<noteq> None"

definition log_file :: "event_codec \<Rightarrow> Event list \<Rightarrow> string" where
  "log_file cdc es = concat (map (\<lambda>l. l @ [LF]) (map (event_line cdc) es))"

definition disk_ok :: "event_codec \<Rightarrow> FileEventStore \<Rightarrow> bool" where
  "disk_ok cdc s \<longleftrightarrow>
     (\<forall>k. es_dir s (event_path cdc k) =
        (if file_log s k = [] then None else Some (RegFile (log_file cdc (file_log s k)))))
     \<and> dom (es_dir s) = event_path cdc ` {k. file_log s k \<noteq> []}
     \<and> (\<forall>k. \<forall>e \<in> set (file_log s k). ev_EntryID e = k \<and> marshals cdc e)
     \<and> es_seen s = (\<Union>k. ev_RequestID ` set (file_log s k))"

lemma numbered_log_stored [simp]: "numbered_log (map (stored compact) es) = numbered_log es"
  by (simp add: numbered_log_def comp_def stored_def)

lemma event_path_inj: "codec_ok cdc compact \<Longrightarrow> event_path cdc k = event_path cdc k' \<longleftrightarrow> k = k'"
  unfolding event_path_def codec_ok_def by (metis append_same_eq option.inject)

lemma event_path_suffix:
  "HasSuffix (event_path cdc k) jsonl" "TrimSuffix (event_path cdc k) jsonl = uuid_string cdc k"
  by (simp_all add: HasSuffix_def TrimSuffix_def event_path_def)

subsection \<open>Loading one file\<close>

lemma load_line_stored:
  assumes "codec_ok cdc compact" and "marshals cdc e" and "ev_EntryID e = k"
    and "ev_ServerSeq e = seq_of (es_seqs s) k + 1"
  shows "load_line cdc k s (event_line cdc e) =
    s\<lparr>es_events := (es_events s)(k \<mapsto> events_of (es_events s) k @ [stored compact e]),
      es_seen := insert (ev_RequestID e) (es_seen s), es_seqs := (es_seqs s)(k \<mapsto> ev_ServerSeq e)\<rparr>"
proof -
  from assms(2) have "marshal_event cdc (event_json cdc e) = Some (event_line cdc e)"
    by (auto simp: marshals_def event_line_def)
  then have "unmarshal_event cdc (event_line cdc e)
      = Some ((event_json cdc e)\<lparr>ej_Payload := compact (ev_Payload e)\<rparr>)"
    using assms(1) by (simp add: codec_ok_def event_json_def)
  moreover have "stored compact e = \<lparr>ev_EntryID = ev_EntryID e, ev_ServerSeq = ev_ServerSeq e,
      ev_RequestID = ev_RequestID e, ev_EventType = ev_EventType e, ev_SiteID = ev_SiteID e,
      ev_Payload = compact (ev_Payload e), ev_CreatedAt = ev_CreatedAt e\<rparr>"
    by (cases e) (simp add: stored_def)
  ultimately show ?thesis
    using assms by (simp add: load_line_def event_json_def codec_ok_def uuid_or_nil_def
        time_or_zero_def Let_def)
qed

lemma foldl_load_line:
  assumes ok: "codec_ok cdc compact"
    and "numbered_log (pre @ es)" and "\<And>e. e \<in> set es \<Longrightarrow> ev_EntryID e = k \<and> marshals cdc e"
    and "seq_of (es_seqs s) k = int (length pre)"
  shows "\<exists>s'. foldl (load_line cdc k) s (map (event_line cdc) es) = s'
    \<and> events_of (es_events s') = (events_of (es_events s))
        (k := events_of (es_events s) k @ map (stored compact) es)
    \<and> seq_of (es_seqs s') = (seq_of (es_seqs s))(k := int (length (pre @ es)))
    \<and> es_seen s' = es_seen s \<union> ev_RequestID ` set es \<and> es_dir s' = es_dir s"
  using assms(2-)
proof (induction es arbitrary: pre s)
  case Nil
  then show ?case by auto
next
  case (Cons e es)
  have "ev_ServerSeq e = int (length pre) + 1"
    using arg_cong [OF Cons.prems(1) [unfolded numbered_log_def], of "\<lambda>l. l ! length pre"]
    by (simp add: nth_append del: upt_Suc)
  then have step: "load_line cdc k s (event_line cdc e) =
    s\<lparr>es_events := (es_events s)(k \<mapsto> events_of (es_events s) k @ [stored compact e]),
      es_seen := insert (ev_RequestID e) (es_seen s), es_seqs := (es_seqs s)(k \<mapsto> int (length pre) + 1)\<rparr>"
    using load_line_stored [OF ok, of e k s] Cons.prems(2,3) by simp
  let ?s = "load_line cdc k s (event_line cdc e)"
  have s: "events_of (es_events ?s) = (events_of (es_events s))(k := events_of (es_events s) k @ [stored compact e])"
    "seq_of (es_seqs ?s) = (seq_of (es_seqs s))(k := int (length (pre @ [e])))"
    "es_seen ?s = insert (ev_RequestID e) (es_seen s)" "es_dir ?s = es_dir s"
    unfolding step by (auto simp: events_of_def seq_of_def)
  have "numbered_log ((pre @ [e]) @ es)" using Cons.prems(1) by simp
  from Cons.IH [OF this, of ?s] Cons.prems(2) s(2) show ?case by (auto simp: s)
qed

lemma load_file:
  assumes ok: "codec_ok cdc compact" and num: "numbered_log es"
    and es: "\<And>e. e \<in> set es \<Longrightarrow> ev_EntryID e = k \<and> marshals cdc e \<and> length (event_line cdc e) < line_cap"
    and empty: "events_of (es_events s) k = []" "seq_of (es_seqs s) k = 0"
  shows "\<exists>s'. foldl (load_line cdc k) s (scan_lines line_cap (log_file cdc es)) = s'
    \<and> events_of (es_events s') = (events_of (es_events s))(k := map (stored compact) es)
    \<and> seq_of (es_seqs s') = (seq_of (es_seqs s))(k := int (length es))
    \<and> es_seen s' = es_seen s \<union> ev_RequestID ` set es \<and> es_dir s' = es_dir s"
proof -
  have "good_line line_cap (event_line cdc e)" if "e \<in> set es" for e
    using es [OF that] ok unfolding codec_ok_def good_line_def marshals_def event_line_def by auto
  then have "scan_lines line_cap (log_file cdc es) = map (event_line cdc) es"
    unfolding log_file_def by (intro scan_lines_concat) (auto simp: list_all_iff)
  with foldl_load_line [OF ok, of "[]" es k s] num es empty show ?thesis by auto
qed

subsection \<open>Loading the directory\<close>

lemma load_files_ok:
  assumes ok: "codec_ok cdc compact"
    and "distinct ks" and "\<And>k. k \<in> set ks \<Longrightarrow> d (event_path cdc k) = Some (RegFile (log_file cdc (L k)))"
    and "\<And>k. numbered_log (L k)"
    and "\<And>k e. e \<in> set (L k) \<Longrightarrow> ev_EntryID e = k \<and> marshals cdc e \<and> length (event_line cdc e) < line_cap"
    and "es_dir s = d"
    and "\<And>k. k \<in> set ks \<Longrightarrow> events_of (es_events s) k = [] \<and> seq_of (es_seqs s) k = 0"
  shows "\<exists>s'. load_files cdc (map (event_path cdc) ks) s = Some s'
    \<and> (\<forall>k. events_of (es_events s') k =
           (if k \<in> set ks then map (stored compact) (L k) else events_of (es_events s) k))
    \<and> (\<forall>k. seq_of (es_seqs s') k = (if k \<in> set ks then int (length (L k)) else seq_of (es_seqs s) k))
    \<and> es_seen s' = es_seen s \<union> (\<Union>k \<in> set ks. ev_RequestID ` set (L k)) \<and> es_dir s' = d"
  using assms(2-)
proof (induction ks arbitrary: s)
  case Nil
  then show ?case by simp
next
  case (Cons k ks)
  obtain s1 where s1: "foldl (load_line cdc k) s (scan_lines line_cap (log_file cdc (L k))) = s1"
    "events_of (es_events s1) = (events_of (es_events s))(k := map (stored compact) (L k))"
    "seq_of (es_seqs s1) = (seq_of (es_seqs s))(k := int (length (L k)))"
    "es_seen s1 = es_seen s \<union> ev_RequestID ` set (L k)" "es_dir s1 = d"
    using load_file [OF ok, of "L k" k s] Cons.prems(3-6) by auto
  have "load_files cdc (map (event_path cdc) (k # ks)) s = load_files cdc (map (event_path cdc) ks) s1"
    using ok Cons.prems(2,5) s1(1)
    by (simp add: event_path_suffix codec_ok_def)
  moreover have "\<exists>s'. load_files cdc (map (event_path cdc) ks) s1 = Some s'
    \<and> (\<forall>k. events_of (es_events s') k =
           (if k \<in> set ks then map (stored compact) (L k) else events_of (es_events s1) k))
    \<and> (\<forall>k. seq_of (es_seqs s') k = (if k \<in> set ks then int (length (L k)) else seq_of (es_seqs s1) k))
    \<and> es_seen s' = es_seen s1 \<union> (\<Union>k \<in> set ks. ev_RequestID ` set (L k)) \<and> es_dir s' = d"
    by (rule Cons.IH) (use Cons.prems s1 in auto)
  ultimately show ?case using s1 Cons.prems(1) by auto
qed

subsection \<open>Stores whose writes all succeeded\<close>

inductive written_store :: "event_codec \<Rightarrow> FileEventStore \<Rightarrow> bool" for cdc where
  fresh: "written_store cdc \<lparr>es_events = Map.empty, es_seqs = Map.empty, es_seen = {}, es_dir = Map.empty\<rparr>"
| append: "written_store cdc s \<Longrightarrow> length (file_log s (ev_EntryID e)) < 2 ^ 63 - 1
    \<Longrightarrow> file_Append cdc (t, Writes) s e = (s', Inr n) \<Longrightarrow> written_store cdc s'"

lemma appendToFile_ok:
  "appendToFile cdc Writes d e = (d', True) \<Longrightarrow>
     marshals cdc e \<and> d' = d(event_path cdc (ev_EntryID e) \<mapsto>
       RegFile (file_contents d (event_path cdc (ev_EntryID e)) @ event_line cdc e @ [LF]))"
  by (auto simp: appendToFile_def marshals_def event_line_def AppendFile_def Let_def
      split: option.splits if_splits)

lemma union_log_snoc:
  "(\<Union>k. f ` set ((L(k0 := L k0 @ [e])) k)) = insert (f e) (\<Union>k. f ` set (L k))"
proof -
  have "f ` set ((L(k0 := L k0 @ [e])) k) = f ` set (L k) \<union> (if k = k0 then {f e} else {})" for k
    by auto
  then show ?thesis by (simp only: UN_Un_distrib) auto
qed

lemma disk_ok_append:
  assumes ok: "codec_ok cdc compact" and inv: "file_inv s" and disk: "disk_ok cdc s"
    and len: "length (file_log s (ev_EntryID e)) < 2 ^ 63 - 1"
    and app: "file_Append cdc (t, Writes) s e = (s', Inr n)"
  shows "disk_ok cdc s'"
proof (cases "ev_RequestID e \<in> es_seen s")
  case True
  then show ?thesis using app disk by (simp add: file_Append_def)
next
  case False
  let ?k = "ev_EntryID e"
  let ?e = "e\<lparr>ev_ServerSeq := int (length (file_log s ?k)) + 1, ev_CreatedAt := t\<rparr>"
  from disk.append_new [OF inv False len app] have
    s': "es_seen s' = insert (ev_RequestID e) (es_seen s)"
      "file_log s' = (file_log s)(?k := file_log s ?k @ [?e])" "\<not> append_fails cdc (t, Writes) s e"
    by (auto split: if_splits)
  have seq: "i64 (seq_of (es_seqs s) ?k + 1) = int (length (file_log s ?k)) + 1"
    using next_seq inv len unfolding file_inv_def file_log_def by blast
  have d': "appendToFile cdc Writes (es_dir s) ?e = (es_dir s', True)"
    using app False s'(3) unfolding file_Append_def append_fails_def seq Let_def
    by (auto split: prod.splits if_splits)
  note a = appendToFile_ok [OF d']
  have cont: "file_contents (es_dir s) (event_path cdc ?k) = log_file cdc (file_log s ?k)"
    using disk by (auto simp: disk_ok_def file_contents_def log_file_def)
  have dir: "es_dir s' = (es_dir s)(event_path cdc ?k \<mapsto> RegFile (log_file cdc (file_log s' ?k)))"
    using a cont by (simp add: s'(2) log_file_def)
  have log: "file_log s' k = (if k = ?k then file_log s ?k @ [?e] else file_log s k)" for k
    by (simp add: s'(2))
  show ?thesis
    unfolding disk_ok_def
  proof (intro conjI allI)
    show "es_dir s' (event_path cdc k) =
        (if file_log s' k = [] then None else Some (RegFile (log_file cdc (file_log s' k))))" for k
      using disk by (simp add: dir event_path_inj [OF ok] disk_ok_def log)
    show "dom (es_dir s') = event_path cdc ` {k. file_log s' k \<noteq> []}"
      using disk by (auto simp: dir log disk_ok_def)
    show "\<forall>e \<in> set (file_log s' k). ev_EntryID e = k \<and> marshals cdc e" for k
      using disk a by (auto simp: log disk_ok_def)
    show "es_seen s' = (\<Union>k. ev_RequestID ` set (file_log s' k))"
      using disk unfolding disk_ok_def s'(1,2) union_log_snoc by simp
  qed
qed

lemma written_store_ok:
  assumes "codec_ok cdc compact"
  shows "written_store cdc s \<Longrightarrow> file_inv s \<and> disk_ok cdc s"
proof (induction rule: written_store.induct)
  case fresh
  then show ?case using store_inv_empty
    by (simp add: file_inv_def disk_ok_def file_log_def events_of_def)
next
  case (append s e t s' n)
  have "file_inv s'"
  proof (cases "ev_RequestID e \<in> es_seen s")
    case True
    then show ?thesis using append by (simp add: file_Append_def)
  next
    case False
    then show ?thesis using disk.append_new append by blast
  qed
  moreover have "disk_ok cdc s'"
    using disk_ok_append [OF assms] append by blast
  ultimately show ?case by blast
qed

lemma reload_log:
  assumes ok: "codec_ok cdc compact" and run: "written_store cdc s"
    and fits: "\<And>k e. e \<in> set (file_log s k) \<Longrightarrow> length (event_line cdc e) < line_cap"
    and names: "distinct names" "set names = dom (es_dir s)"
  shows "\<exists>s'. NewFileEventStore cdc True (Some names) (es_dir s) = Some s' \<and> file_inv s'
    \<and> (\<forall>k. file_log s' k = map (stored compact) (file_log s k))
    \<and> (\<forall>k. file_MaxServerSeq s' k = file_MaxServerSeq s k) \<and> es_seen s' = es_seen s"
proof -
  have inv: "file_inv s" and disk: "disk_ok cdc s" using written_store_ok [OF ok run] by auto
  let ?K = "{k. file_log s k \<noteq> []}"
  have "set names = event_path cdc ` ?K" using names(2) disk by (simp add: disk_ok_def)
  moreover from this obtain ks where names_ks: "names = map (event_path cdc) ks"
    using ex_map_conv [of names "event_path cdc"] by auto
  ultimately have "event_path cdc ` set ks = event_path cdc ` ?K" by simp
  then have ks: "names = map (event_path cdc) ks" "set ks = ?K"
    using names_ks inj_image_eq_iff [OF injI, of "event_path cdc"] event_path_inj [OF ok] by auto
  have dist: "distinct ks" using names(1) ks(1) by (simp add: distinct_map)
  define e0 where "e0 = \<lparr>es_events = Map.empty, es_seqs = Map.empty, es_seen = {}, es_dir = es_dir s\<rparr>"
  have "\<exists>s'. load_files cdc (map (event_path cdc) ks) e0 = Some s'
    \<and> (\<forall>k. events_of (es_events s') k =
           (if k \<in> set ks then map (stored compact) (file_log s k) else events_of (es_events e0) k))
    \<and> (\<forall>k. seq_of (es_seqs s') k = (if k \<in> set ks then int (length (file_log s k)) else seq_of (es_seqs e0) k))
    \<and> es_seen s' = es_seen e0 \<union> (\<Union>k \<in> set ks. ev_RequestID ` set (file_log s k)) \<and> es_dir s' = es_dir s"
    by (rule load_files_ok [OF ok dist])
      (use disk fits ks(2) inv in \<open>auto simp: disk_ok_def e0_def events_of_def seq_of_def file_inv_def
          file_log_def store_inv_def\<close>)
  then obtain s' where s': "load_files cdc names e0 = Some s'"
    "\<And>k. events_of (es_events s') k = map (stored compact) (file_log s k)"
    "\<And>k. seq_of (es_seqs s') k = int (length (file_log s k))"
    "es_seen s' = (\<Union>k \<in> ?K. ev_RequestID ` set (file_log s k))"
    unfolding ks by (auto simp: e0_def events_of_def seq_of_def)
  have "(\<Union>k \<in> ?K. ev_RequestID ` set (file_log s k)) = (\<Union>k. ev_RequestID ` set (file_log s k))"
    by force
  then have seen: "es_seen s' = es_seen s" using disk unfolding s'(4) disk_ok_def by simp
  have "file_inv s'"
    using inv by (simp add: file_inv_def store_inv_def s'(2,3) file_log_def)
  moreover have "file_MaxServerSeq s' k = file_MaxServerSeq s k" for k
    using inv by (simp add: file_MaxServerSeq_def s'(3) file_inv_def store_inv_def file_log_def)
  ultimately show ?thesis
    using s'(1,2) seen by (auto simp: NewFileEventStore_def loadAll_def e0_def file_log_def)
qed

subsection \<open>Properties\<close>

text \<open>
  C8: start-up after a clean run. Reading the directory of a store whose writes all succeeded
  (every line within the scanner's buffer) gives back the same logs, sequence numbers and seen
  requests, in whatever order the directory is read; only the payloads come back compacted.
\<close>

theorem reload_restores_log:
  assumes ok: "codec_ok cdc compact" and run: "written_store cdc s"
    and fits: "\<And>k e. e \<in> set (file_log s k) \<Longrightarrow> length (event_line cdc e) < line_cap"
    and names: "distinct names" "set names = dom (es_dir s)"
  shows "\<exists>s'. NewFileEventStore cdc True (Some names) (es_dir s) = Some s' \<and> file_inv s'
    \<and> (\<forall>k. file_log s' k = map (stored compact) (file_log s k))
    \<and> (\<forall>k. file_MaxServerSeq s' k = file_MaxServerSeq s k) \<and> es_seen s' = es_seen s"
  by (rule reload_log [OF assms])

text \<open>A codec that knows one event, and a store that holds it.\<close>

definition ex_json :: eventJSON where
  "ex_json = \<lparr>ej_EntryID = uuid_hex 1, ej_ServerSeq = 1, ej_RequestID = uuid_hex 2,
     ej_EventType = EventCRDTOp, ej_SiteID = uuid_hex 3, ej_Payload = ''{}'', ej_CreatedAt = unary_text 0\<rparr>"

definition ex_codec :: event_codec where
  "ex_codec = \<lparr>marshal_event = (\<lambda>ej. if ej = ex_json then Some ''{}'' else None),
     unmarshal_event = (\<lambda>l. if l = ''{}'' then Some ex_json else None),
     uuid_string = uuid_hex, uuid_parse = unhex_canonical, time_format = unary_text, time_parse = unary_parse\<rparr>"

definition ex_event :: Event where
  "ex_event = \<lparr>ev_EntryID = 1, ev_ServerSeq = 0, ev_RequestID = 2, ev_EventType = EventCRDTOp,
     ev_SiteID = 3, ev_Payload = ''{}'', ev_CreatedAt = 0\<rparr>"

definition ex_empty_store :: FileEventStore where
  "ex_empty_store = \<lparr>es_events = Map.empty, es_seqs = Map.empty, es_seen = {}, es_dir = Map.empty\<rparr>"

definition ex_store :: FileEventStore where
  "ex_store = fst (file_Append ex_codec (0, Writes) ex_empty_store ex_event)"

lemma ex_codec_ok: "codec_ok ex_codec (\<lambda>p. p)"
  by (auto simp: codec_ok_def ex_codec_def unhex_uuid_hex LF_def CR_def
      split: if_splits)

lemma ex_store_eq:
  "file_Append ex_codec (0, Writes) ex_empty_store ex_event = (ex_store, Inr 1)
   \<and> es_dir ex_store = [event_path ex_codec 1 \<mapsto> RegFile ''{}\<newline>'']
   \<and> file_log ex_store = (\<lambda>_. [])(1 := [ex_event\<lparr>ev_ServerSeq := 1\<rparr>])"
  by (auto simp: ex_store_def file_Append_def ex_empty_store_def ex_event_def appendToFile_def
      AppendFile_def event_json_def ex_codec_def ex_json_def seq_of_def events_of_def i64_id
      file_contents_def io_ok_def file_log_def LF_def Let_def)

lemma ex_store_written: "written_store ex_codec ex_store"
proof (rule written_store.append)
  show "written_store ex_codec ex_empty_store"
    unfolding ex_empty_store_def by (rule written_store.fresh)
  show "length (file_log ex_empty_store (ev_EntryID ex_event)) < 2 ^ 63 - 1"
    by (simp add: file_log_def ex_empty_store_def events_of_def)
  show "file_Append ex_codec (0, Writes) ex_empty_store ex_event = (ex_store, Inr 1)"
    using ex_store_eq by blast
qed

theorem reload_restores_log_witness:
  "\<exists>s'. NewFileEventStore ex_codec True (Some [event_path ex_codec 1]) (es_dir ex_store) = Some s'
    \<and> file_inv s' \<and> (\<forall>k. file_log s' k = map (stored (\<lambda>p. p)) (file_log ex_store k))
    \<and> (\<forall>k. file_MaxServerSeq s' k = file_MaxServerSeq ex_store k) \<and> es_seen s' = es_seen ex_store"
  by (rule reload_restores_log [OF ex_codec_ok ex_store_written])
    (use ex_store_eq in \<open>auto simp: event_line_def ex_codec_def event_json_def ex_event_def ex_json_def
      line_cap_def split: if_splits\<close>)

text \<open>
  C21: a failed write is not retried. When the file cannot be opened, \<open>Append\<close> reports an
  error, yet the request is already marked as seen and the event is in the log in memory: the
  client's retry is acknowledged as a duplicate (sequence number 0), whatever the disk does
  then, and the event is never written.
\<close>

theorem failed_append_never_written:
  assumes "file_inv s" and "ev_RequestID e \<notin> es_seen s"
    and "length (file_log s (ev_EntryID e)) < 2 ^ 63 - 1"
  shows "\<exists>s'. file_Append cdc (t, OpenFails) s e = (s', Inl ErrAppendToFile)
    \<and> es_dir s' = es_dir s \<and> (\<forall>x. file_Append cdc x s' e = (s', Inr 0))
    \<and> length (file_log s' (ev_EntryID e)) = length (file_log s (ev_EntryID e)) + 1"
proof -
  obtain s' res where app: "file_Append cdc (t, OpenFails) s e = (s', res)"
    by (cases "file_Append cdc (t, OpenFails) s e")
  have fails: "appendToFile cdc OpenFails d e' = (d, False)" for d e'
    by (simp add: appendToFile_def AppendFile_def Let_def split: option.splits)
  have "res = Inl ErrAppendToFile" "file_log s' (ev_EntryID e) = file_log s (ev_EntryID e)
      @ [e\<lparr>ev_ServerSeq := int (length (file_log s (ev_EntryID e))) + 1, ev_CreatedAt := t\<rparr>]"
    using disk.append_new [OF assms app] by (simp_all add: append_fails_def fails)
  moreover have "es_dir s' = es_dir s"
    using app assms(2) by (auto simp: file_Append_def fails Let_def)
  ultimately show ?thesis
    using app disk.append_twice [OF assms(1,3) app] by auto
qed

theorem failed_append_never_written_witness:
  "\<exists>s'. file_Append ex_codec (0, OpenFails) ex_empty_store ex_event = (s', Inl ErrAppendToFile)
    \<and> es_dir s' = es_dir ex_empty_store \<and> (\<forall>x. file_Append ex_codec x s' ex_event = (s', Inr 0))
    \<and> length (file_log s' (ev_EntryID ex_event)) = length (file_log ex_empty_store (ev_EntryID ex_event)) + 1"
proof (rule failed_append_never_written)
  show "file_inv ex_empty_store"
    using store_inv_empty by (simp add: file_inv_def ex_empty_store_def)
qed (auto simp: ex_empty_store_def file_log_def events_of_def)

text \<open>
  the sync protocol of a client. A client that has received the events up to \<open>a\<close> and asks
  for the rest gets exactly the part of the log it lacks, in order and consecutively numbered
  up to the reported maximum; this holds for the store in memory and for the one on disk.
\<close>

theorem list_after_catches_up:
  assumes "0 \<le> a" and "mem_inv s" and "a \<le> mem_MaxServerSeq s k"
    and "file_inv f" and "a \<le> file_MaxServerSeq f k"
  shows "take (nat a) (mem_log s k) @ mem_ListAfter s k a = mem_log s k
      \<and> map ev_ServerSeq (mem_ListAfter s k a) = map int [nat a + 1..<nat (mem_MaxServerSeq s k) + 1]
      \<and> take (nat a) (file_log f k) @ file_ListAfter f k a = file_log f k
      \<and> map ev_ServerSeq (file_ListAfter f k a) = map int [nat a + 1..<nat (file_MaxServerSeq f k) + 1]"
  using mem.catch_up [of s a k] disk.catch_up [of f a k] assms by blast

theorem list_after_catches_up_witness:
  "take (nat 0) (mem_log NewEventStore 1) @ mem_ListAfter NewEventStore 1 0 = mem_log NewEventStore 1
   \<and> take (nat 0) (file_log ex_store 1) @ file_ListAfter ex_store 1 0 = file_log ex_store 1"
  using list_after_catches_up [of 0 NewEventStore 1 ex_store] mem_inv_New
    written_store_ok [OF ex_codec_ok ex_store_written]
  by (simp add: mem_MaxServerSeq_def NewEventStore_def seq_of_def disk.max_seq_log)

end
