(* ===== verification/Slices.thy ===== *)
theory Slices
  imports Prelude
begin

text \<open>
  Go maps of slices, \<open>map[K][]T\<close>, as both servers keep their subscribers. A loop over a slice
  may go on reading it after the lock that protects the map was released, so the model has the
  backing arrays: \<open>sl_arrays\<close> is the heap, a slice is the address of its array and a length,
  and the capacity is the length of the array. Elements are numbers, the identities of
  interface values or channels. How far \<open>append\<close> grows an array is left to Go: \<open>grow\<close> is the
  extra capacity it adds.
\<close>

subsection \<open>Maps of slices\<close>

type_synonym subscriber = nat

record 'k slice_map =
  sl_arrays :: "nat \<rightharpoonup> subscriber option list"
  sl_next :: nat
  sl_map :: "'k \<rightharpoonup> nat \<times> nat"

definition no_slices :: "'k slice_map" where
  "no_slices = \<lparr>sl_arrays = Map.empty, sl_next = 0, sl_map = Map.empty\<rparr>"

text \<open>\<open>append(s, x)\<close>: in place while there is capacity, otherwise into a new array.\<close>

definition go_append ::
  "nat \<Rightarrow> 'k slice_map \<Rightarrow> (nat \<times> nat) option \<Rightarrow> subscriber \<Rightarrow> 'k slice_map \<times> (nat \<times> nat)" where
  "go_append grow s hdr x =
     (let (old, len) = (case hdr of None \<Rightarrow> ([], 0)
                        | Some (a, n) \<Rightarrow> (case sl_arrays s a of None \<Rightarrow> [] | Some xs \<Rightarrow> xs, n))
      in case hdr of
           Some (a, n) \<Rightarrow>
             if n < length old
             then (s\<lparr>sl_arrays := (sl_arrays s)(a \<mapsto> old[n := Some x])\<rparr>, (a, Suc n))
             else (s\<lparr>sl_arrays := (sl_arrays s)(sl_next s \<mapsto> take n old @ [Some x] @ replicate grow None),
                     sl_next := Suc (sl_next s)\<rparr>, (sl_next s, Suc n))
         | None \<Rightarrow>
             (s\<lparr>sl_arrays := (sl_arrays s)(sl_next s \<mapsto> [Some x] @ replicate grow None),
                sl_next := Suc (sl_next s)\<rparr>, (sl_next s, 1)))"

definition map_append :: "nat \<Rightarrow> 'k slice_map \<Rightarrow> 'k \<Rightarrow> subscriber \<Rightarrow> 'k slice_map" where
  "map_append grow s key sub =
     (let (s', hdr) = go_append grow s (sl_map s key) sub
      in s'\<lparr>sl_map := (sl_map s')(key \<mapsto> hdr)\<rparr>)"

text \<open>\<open>m[k] = append(m[k], x)\<close> above; here the position of the first element equal to \<open>sub\<close>.\<close>

fun find_sub :: "subscriber option list \<Rightarrow> subscriber \<Rightarrow> nat option" where
  "find_sub [] sub = None"
| "find_sub (y # ys) sub = (if y = Some sub then Some 0 else map_option Suc (find_sub ys sub))"

text \<open>
  \<open>append(subs[:i], subs[i+1:]...)\<close> always fits, so it moves the tail down in the same array;
  the last of the old elements stays behind the new end.
\<close>

definition map_remove :: "'k slice_map \<Rightarrow> 'k \<Rightarrow> subscriber \<Rightarrow> 'k slice_map" where
  "map_remove s key sub =
     (case sl_map s key of
        None \<Rightarrow> s
      | Some (a, n) \<Rightarrow>
          (let xs = (case sl_arrays s a of None \<Rightarrow> [] | Some xs \<Rightarrow> xs)
           in case find_sub (take n xs) sub of
                None \<Rightarrow> s
              | Some i \<Rightarrow>
                  s\<lparr>sl_arrays := (sl_arrays s)(a \<mapsto>
                       take i xs @ drop (Suc i) (take n xs) @ drop (n - 1) xs),
                    sl_map := (sl_map s)(key \<mapsto> (a, n - 1))\<rparr>))"

text \<open>
  A \<open>range\<close> loop in steps: it copies the slice header, then reads one element after the other
  from the array as it is at that moment. \<open>rl_seen\<close> are the elements so far.
\<close>

record range_loop =
  rl_slice :: "nat \<times> nat"
  rl_pos :: nat
  rl_seen :: "subscriber list"

definition range_begin :: "'k slice_map \<Rightarrow> 'k \<Rightarrow> range_loop" where
  "range_begin s key =
     \<lparr>rl_slice = (case sl_map s key of None \<Rightarrow> (0, 0) | Some h \<Rightarrow> h),
      rl_pos = 0, rl_seen = []\<rparr>"

definition range_done :: "range_loop \<Rightarrow> bool" where
  "range_done b \<longleftrightarrow> rl_pos b \<ge> snd (rl_slice b)"

text \<open>No element, or a nil one: \<open>None\<close>.\<close>

definition range_step :: "'k slice_map \<Rightarrow> range_loop \<Rightarrow> range_loop option" where
  "range_step s b =
     (case sl_arrays s (fst (rl_slice b)) of
        None \<Rightarrow> None
      | Some xs \<Rightarrow>
          (if rl_pos b < length xs
           then (case xs ! rl_pos b of
                   None \<Rightarrow> None
                 | Some x \<Rightarrow> Some (b\<lparr>rl_pos := Suc (rl_pos b), rl_seen := rl_seen b @ [x]\<rparr>))
           else None))"

text \<open>The loop with nothing in between.\<close>

function range_run :: "'k slice_map \<Rightarrow> range_loop \<Rightarrow> subscriber list option" where
  "range_run s b =
     (if range_done b then Some (rl_seen b)
      else (case range_step s b of None \<Rightarrow> None | Some b' \<Rightarrow> range_run s b'))"
  by pat_completeness auto
termination
  by (relation "measure (\<lambda>(s, b). snd (rl_slice b) - rl_pos b)")
    (auto simp: range_done_def range_step_def split: option.splits if_splits)

declare range_run.simps [simp del]

subsection \<open>The slices as lists\<close>

definition subs_of :: "'k slice_map \<Rightarrow> 'k \<Rightarrow> subscriber list" where
  "subs_of s k = (case sl_map s k of None \<Rightarrow> []
     | Some (a, n) \<Rightarrow> map the (take n (the (sl_arrays s a))))"

definition slice_ok :: "'k slice_map \<Rightarrow> nat \<times> nat \<Rightarrow> bool" where
  "slice_ok s h \<longleftrightarrow> (\<exists>xs. sl_arrays s (fst h) = Some xs \<and> snd h \<le> length xs
     \<and> None \<notin> set (take (snd h) xs) \<and> fst h < sl_next s)"

definition subs_wf :: "'k slice_map \<Rightarrow> bool" where
  "subs_wf s \<longleftrightarrow> (\<forall>k h. sl_map s k = Some h \<longrightarrow> slice_ok s h)
     \<and> (\<forall>k k' h h'. sl_map s k = Some h \<longrightarrow> sl_map s k' = Some h' \<longrightarrow> fst h = fst h' \<longrightarrow> k = k')"

lemma subs_wf_no_slices: "subs_wf no_slices"
  by (simp add: subs_wf_def no_slices_def)

lemma subs_wfD:
  "subs_wf s \<Longrightarrow> sl_map s k = Some h \<Longrightarrow> slice_ok s h"
  "subs_wf s \<Longrightarrow> sl_map s k = Some h \<Longrightarrow> sl_map s k' = Some h' \<Longrightarrow> fst h = fst h' \<Longrightarrow> k = k'"
  unfolding subs_wf_def by blast+

text \<open>Changing one array, which belongs to key \<open>k\<close> alone.\<close>

lemma subs_update:
  assumes wf: "subs_wf s" and ok: "n \<le> length ys" "None \<notin> set (take n ys)"
    and own: "\<And>k' h. sl_map s k' = Some h \<Longrightarrow> fst h = a \<Longrightarrow> k' = k"
    and a: "a < nx" "sl_next s \<le> nx"
    and s'_def: "s' = s\<lparr>sl_arrays := (sl_arrays s)(a \<mapsto> ys), sl_next := nx,
      sl_map := (sl_map s)(k \<mapsto> (a, n))\<rparr>"
    and L: "map the (take n ys) = L"
  shows "subs_wf s' \<and> subs_of s' = (subs_of s)(k := L)"
proof
  have other: "sl_arrays s' (fst h) = sl_arrays s (fst h)"
    if "sl_map s k' = Some h" "k' \<noteq> k" for k' h
    using own [OF that(1)] that(2) by (auto simp: s'_def)
  have "slice_ok s' h" if "sl_map s' k' = Some h" for k' h
  proof (cases "k' = k")
    case True
    then show ?thesis using that ok a by (auto simp: s'_def slice_ok_def)
  next
    case False
    then have "sl_map s k' = Some h" using that by (simp add: s'_def)
    moreover from this have "slice_ok s h" using wf unfolding subs_wf_def by blast
    moreover have "sl_next s \<le> sl_next s'" using a(2) by (simp add: s'_def)
    ultimately show ?thesis
      using other [of k' h] False unfolding slice_ok_def by auto
  qed
  moreover have "k1 = k2" if "sl_map s' k1 = Some h1" "sl_map s' k2 = Some h2"
    "fst h1 = fst h2" for k1 k2 h1 h2
  proof -
    have upd: "sl_map s' = (sl_map s)(k \<mapsto> (a, n))" by (simp add: s'_def)
    consider "k1 = k" "k2 = k" | "k1 = k" "k2 \<noteq> k" | "k1 \<noteq> k" "k2 = k" | "k1 \<noteq> k" "k2 \<noteq> k" by blast
    then show ?thesis
    proof cases
      case 2
      then have "k2 = k" using own [of k2 h2] that unfolding upd by auto
      then show ?thesis using 2 by simp
    next
      case 3
      then have "k1 = k" using own [of k1 h1] that unfolding upd by auto
      then show ?thesis using 3 by simp
    next
      case 4
      then show ?thesis using subs_wfD(2) [OF wf, of k1 h1 k2 h2] that unfolding upd by simp
    qed simp
  qed
  ultimately show "subs_wf s'" unfolding subs_wf_def by blast
  show "subs_of s' = (subs_of s)(k := L)"
    unfolding L [symmetric]
  proof
    fix k'
    show "subs_of s' k' = ((subs_of s)(k := map the (take n ys))) k'"
      using own [of k'] by (auto simp: subs_of_def s'_def split: option.splits)
  qed
qed

lemma subs_wf_slice:
  assumes "subs_wf s" and "sl_map s k = Some (a, n)"
  obtains xs where "sl_arrays s a = Some xs" "n \<le> length xs" "None \<notin> set (take n xs)" "a < sl_next s"
    "subs_of s k = map the (take n xs)"
    "\<And>k' h. sl_map s k' = Some h \<Longrightarrow> fst h = a \<Longrightarrow> k' = k"
proof -
  have "slice_ok s (a, n)" using assms by (rule subs_wfD(1))
  then obtain xs where xs: "sl_arrays s a = Some xs" "n \<le> length xs" "None \<notin> set (take n xs)"
    "a < sl_next s"
    unfolding slice_ok_def fst_conv snd_conv by blast
  have "k' = k" if "sl_map s k' = Some h" "fst h = a" for k' h
    using subs_wfD(2) [OF assms(1) that(1) assms(2)] that(2) by simp
  moreover have "subs_of s k = map the (take n xs)" using assms(2) xs(1) by (simp add: subs_of_def)
  ultimately show thesis by (intro that [OF xs]) assumption+
qed

lemma fresh_address: "subs_wf s \<Longrightarrow> sl_map s k' = Some h \<Longrightarrow> fst h = sl_next s \<Longrightarrow> False"
  using subs_wfD(1) [of s k' h] by (auto simp: slice_ok_def)

text \<open>\<open>map_append\<close> adds at the end of the list of its key.\<close>

lemma map_append_refines:
  assumes wf: "subs_wf s"
  shows "subs_wf (map_append grow s k x) \<and> subs_of (map_append grow s k x) = (subs_of s)(k := subs_of s k @ [x])"
proof (cases "sl_map s k")
  case None
  let ?ys = "[Some x] @ replicate grow None"
  have eq: "map_append grow s k x = s\<lparr>sl_arrays := (sl_arrays s)(sl_next s \<mapsto> ?ys), sl_next := Suc (sl_next s),
      sl_map := (sl_map s)(k \<mapsto> (sl_next s, 1))\<rparr>"
    using None by (simp add: map_append_def go_append_def)
  have "subs_of s k = []" using None by (simp add: subs_of_def)
  then show ?thesis
    by (intro subs_update [OF wf _ _ _ _ _ eq]) (auto dest: fresh_address [OF wf])
next
  case (Some h)
  obtain a n where h: "h = (a, n)" by (cases h)
  obtain xs where xs: "sl_arrays s a = Some xs" "n \<le> length xs" "None \<notin> set (take n xs)" "a < sl_next s"
    "subs_of s k = map the (take n xs)" "\<And>k' h. sl_map s k' = Some h \<Longrightarrow> fst h = a \<Longrightarrow> k' = k"
    by (rule subs_wf_slice [OF wf Some [unfolded h]]) (rule that)
  show ?thesis
  proof (cases "n < length xs")
    case True
    let ?ys = "xs[n := Some x]"
    have tk: "take (Suc n) ?ys = take n xs @ [Some x]"
      using True by (simp add: take_Suc_conv_app_nth)
    have eq: "map_append grow s k x = s\<lparr>sl_arrays := (sl_arrays s)(a \<mapsto> ?ys), sl_next := sl_next s,
        sl_map := (sl_map s)(k \<mapsto> (a, Suc n))\<rparr>"
      using Some h xs(1) True by (simp add: map_append_def go_append_def)
    show ?thesis
      by (rule subs_update [OF wf _ _ xs(6) xs(4) _ eq]) (use xs(3,5) True in \<open>simp_all add: tk\<close>)
  next
    case False
    then have n: "n = length xs" using xs(2) by simp
    let ?ys = "xs @ [Some x] @ replicate grow None"
    have eq: "map_append grow s k x = s\<lparr>sl_arrays := (sl_arrays s)(sl_next s \<mapsto> ?ys), sl_next := Suc (sl_next s),
        sl_map := (sl_map s)(k \<mapsto> (sl_next s, Suc n))\<rparr>"
      using Some h xs(1) n by (simp add: map_append_def go_append_def)
    show ?thesis
      by (rule subs_update [OF wf _ _ _ _ _ eq])
        (use xs(3,5) n fresh_address [OF wf] in \<open>auto dest: fresh_address [OF wf]\<close>)
  qed
qed

text \<open>\<open>map_remove\<close> removes the first occurrence.\<close>

lemma find_sub_Some:
  "find_sub ys x = Some i \<Longrightarrow> i < length ys \<and> ys ! i = Some x
     \<and> take i ys @ drop (Suc i) ys = remove1 (Some x) ys"
  by (induction ys arbitrary: i) (auto split: if_splits)

lemma find_sub_None: "find_sub ys x = None \<longleftrightarrow> Some x \<notin> set ys"
  by (induction ys) auto

lemma map_the_remove1:
  "None \<notin> set ys \<Longrightarrow> map the (remove1 (Some x) ys) = remove1 x (map the ys)"
  by (induction ys) auto

lemma in_map_the: "None \<notin> set ys \<Longrightarrow> x \<in> set (map the ys) \<longleftrightarrow> Some x \<in> set ys"
  by (induction ys) auto

lemma map_remove_refines:
  assumes wf: "subs_wf s"
  shows "subs_wf (map_remove s k x) \<and> subs_of (map_remove s k x) = (subs_of s)(k := remove1 x (subs_of s k))"
proof (cases "sl_map s k")
  case None
  then show ?thesis using wf by (auto simp: map_remove_def subs_of_def)
next
  case (Some h)
  obtain a n where h: "h = (a, n)" by (cases h)
  obtain xs where xs: "sl_arrays s a = Some xs" "n \<le> length xs" "None \<notin> set (take n xs)" "a < sl_next s"
    "subs_of s k = map the (take n xs)" "\<And>k' h. sl_map s k' = Some h \<Longrightarrow> fst h = a \<Longrightarrow> k' = k"
    by (rule subs_wf_slice [OF wf Some [unfolded h]]) (rule that)
  show ?thesis
  proof (cases "find_sub (take n xs) x")
    case None
    then have "x \<notin> set (subs_of s k)"
      using xs(3,5) in_map_the [of "take n xs" x] by (simp add: find_sub_None)
    then show ?thesis
      using None Some h xs(1) wf by (simp add: map_remove_def remove1_idem)
  next
    case (Some i)
    let ?ys = "take i xs @ drop (Suc i) (take n xs) @ drop (n - 1) xs"
    note i = find_sub_Some [OF Some]
    have eq: "take (n - 1) ?ys = remove1 (Some x) (take n xs)"
    proof -
      have "i < n" using i by simp
      then have "take i (take n xs) = take i xs" by simp
      then have "take i xs @ drop (Suc i) (take n xs) = remove1 (Some x) (take n xs)" using i by simp
      moreover have "length (take i xs @ drop (Suc i) (take n xs)) = n - 1" using i xs(2) by simp
      ultimately have "take (n - 1) ((take i xs @ drop (Suc i) (take n xs)) @ drop (n - 1) xs)
          = remove1 (Some x) (take n xs)"
        by (simp only: take_append) simp
      then show ?thesis by (simp only: append_assoc)
    qed
    have eqs: "map_remove s k x = s\<lparr>sl_arrays := (sl_arrays s)(a \<mapsto> ?ys), sl_next := sl_next s,
        sl_map := (sl_map s)(k \<mapsto> (a, n - 1))\<rparr>"
      using Some \<open>sl_map s k = Some h\<close> h xs(1) by (simp add: map_remove_def)
    have "n - 1 \<le> length ?ys" using i xs(2) by auto
    moreover have "None \<notin> set (take (n - 1) ?ys)"
      unfolding eq using xs(3) by (rule notin_set_remove1)
    ultimately show ?thesis
      by (rule subs_update [OF wf _ _ xs(6) xs(4) _ eqs])
        (simp_all only: eq map_the_remove1 [OF xs(3)] xs(5) order_refl)
  qed
qed

lemma map_delete_refines:
  assumes "subs_wf s"
  shows "subs_wf (s\<lparr>sl_map := (sl_map s)(k := None)\<rparr>)
    \<and> subs_of (s\<lparr>sl_map := (sl_map s)(k := None)\<rparr>) = (subs_of s)(k := [])"
proof
  show "subs_wf (s\<lparr>sl_map := (sl_map s)(k := None)\<rparr>)"
    using assms by (auto simp: subs_wf_def slice_ok_def split: if_splits)
  show "subs_of (s\<lparr>sl_map := (sl_map s)(k := None)\<rparr>) = (subs_of s)(k := [])"
    by (auto simp: fun_eq_iff subs_of_def split: option.splits)
qed

subsection \<open>Loops\<close>

text \<open>A loop that is under way and still sees the list \<open>L\<close>.\<close>

definition range_view :: "'k slice_map \<Rightarrow> range_loop \<Rightarrow> subscriber list \<Rightarrow> bool" where
  "range_view s b L \<longleftrightarrow> length L = snd (rl_slice b) \<and> rl_pos b \<le> length L
     \<and> rl_seen b = take (rl_pos b) L
     \<and> (L \<noteq> [] \<longrightarrow> (\<exists>xs. sl_arrays s (fst (rl_slice b)) = Some xs \<and> fst (rl_slice b) < sl_next s
           \<and> length L \<le> length xs \<and> take (length L) xs = map Some L))"

lemma map_Some_the: "None \<notin> set ys \<Longrightarrow> map Some (map the ys) = ys"
  by (induction ys) auto

lemma range_view_begin:
  assumes "subs_wf s"
  shows "range_view s (range_begin s k) (subs_of s k)"
proof (cases "sl_map s k")
  case None
  then show ?thesis by (simp add: range_view_def range_begin_def subs_of_def)
next
  case (Some h)
  obtain a n where h: "h = (a, n)" by (cases h)
  obtain xs where xs: "sl_arrays s a = Some xs" "n \<le> length xs" "None \<notin> set (take n xs)" "a < sl_next s"
    "subs_of s k = map the (take n xs)"
    by (rule subs_wf_slice [OF assms Some [unfolded h]]) (rule that)
  have len: "length (map the (take n xs)) = n" using xs(2) by simp
  show ?thesis
    unfolding range_view_def range_begin_def Some h xs(5) len
    using xs map_Some_the [OF xs(3)] by simp
qed

lemma range_view_step:
  assumes "range_view s b L" and "\<not> range_done b"
  shows "\<exists>b'. range_step s b = Some b' \<and> range_view s b' L \<and> rl_slice b' = rl_slice b \<and> rl_pos b' = Suc (rl_pos b)"
proof -
  have pos: "rl_pos b < length L" using assms by (simp add: range_view_def range_done_def)
  then obtain xs where xs: "sl_arrays s (fst (rl_slice b)) = Some xs" "length L \<le> length xs"
    "take (length L) xs = map Some L" "fst (rl_slice b) < sl_next s"
    using assms(1) unfolding range_view_def by force
  have "xs ! rl_pos b = take (length L) xs ! rl_pos b" using pos by simp
  then have "xs ! rl_pos b = Some (L ! rl_pos b)" using pos by (simp add: xs(3))
  then have "range_step s b = Some (b\<lparr>rl_pos := Suc (rl_pos b), rl_seen := rl_seen b @ [L ! rl_pos b]\<rparr>)"
    using xs(1,2) pos by (simp add: range_step_def)
  then show ?thesis
    using assms(1) pos xs by (auto simp: range_view_def take_Suc_conv_app_nth)
qed

lemma range_run_view: "range_view s b L \<Longrightarrow> range_run s b = Some L"
proof (induction s b rule: range_run.induct)
  case (1 s b)
  show ?case
  proof (cases "range_done b")
    case True
    then have "rl_pos b = length L" using 1(2) by (simp add: range_done_def range_view_def)
    then show ?thesis using True 1(2) by (subst range_run.simps) (simp add: range_view_def)
  next
    case False
    from range_view_step [OF 1(2) False] obtain b' where "range_step s b = Some b'" "range_view s b' L" by blast
    then show ?thesis using 1(1) [OF False, of b'] False by (subst range_run.simps) simp
  qed
qed

text \<open>An \<open>append\<close>, under whatever key, never disturbs a loop under way.\<close>

lemma range_view_append:
  assumes wf: "subs_wf s" and view: "range_view s b L"
    and len: "\<And>k h. sl_map s k = Some h \<Longrightarrow> fst h = fst (rl_slice b) \<Longrightarrow> length L \<le> snd h"
  shows "range_view (map_append grow s k x) b L"
proof (cases "L = []")
  case True
  then show ?thesis using view by (simp add: range_view_def)
next
  case False
  let ?a = "fst (rl_slice b)"
  obtain xs where xs: "sl_arrays s ?a = Some xs" "?a < sl_next s" "length L \<le> length xs"
    "take (length L) xs = map Some L"
    using view False unfolding range_view_def by blast
  have "\<exists>ys. sl_arrays (map_append grow s k x) ?a = Some ys \<and> ?a < sl_next (map_append grow s k x)
      \<and> length L \<le> length ys \<and> take (length L) ys = map Some L"
  proof (cases "sl_map s k")
    case None
    then show ?thesis using xs by (simp add: map_append_def go_append_def)
  next
    case (Some h)
    obtain a n where h: "h = (a, n)" by (cases h)
    show ?thesis
    proof (cases "a = ?a \<and> n < length xs")
      case True
      then have "length L \<le> n" using len [OF Some] by (simp add: h)
      then show ?thesis using Some h xs True by (simp add: map_append_def go_append_def)
    next
      case False
      obtain zs where "sl_arrays s a = Some zs" using subs_wf_slice [OF wf Some [unfolded h]] by metis
      then show ?thesis using Some h xs False by (auto simp: map_append_def go_append_def)
    qed
  qed
  then show ?thesis using view unfolding range_view_def by auto
qed

text \<open>A loop interleaved with \<open>append\<close>s.\<close>

inductive range_reach :: "'k slice_map \<Rightarrow> 'k \<Rightarrow> 'k slice_map \<Rightarrow> range_loop \<Rightarrow> bool" for s0 k where
  start: "range_reach s0 k s0 (range_begin s0 k)"
| subscribe: "range_reach s0 k s b \<Longrightarrow> range_reach s0 k (map_append grow s k' x) b"
| send: "range_reach s0 k s b \<Longrightarrow> \<not> range_done b \<Longrightarrow> range_step s b = Some b' \<Longrightarrow> range_reach s0 k s b'"

definition range_inv :: "'k slice_map \<Rightarrow> range_loop \<Rightarrow> subscriber list \<Rightarrow> bool" where
  "range_inv s b L \<longleftrightarrow> subs_wf s \<and> range_view s b L
     \<and> (\<forall>k h. sl_map s k = Some h \<longrightarrow> fst h = fst (rl_slice b) \<longrightarrow> length L \<le> snd h)"

lemma go_append_header:
  assumes "go_append grow s hdr x = (s', h')"
  shows "sl_map s' = sl_map s
    \<and> (fst h' = sl_next s \<or> (\<exists>a n. hdr = Some (a, n) \<and> h' = (a, Suc n)))"
  using assms by (auto simp: go_append_def split: option.splits if_splits)

lemma range_inv_append:
  assumes "range_inv s b L"
  shows "range_inv (map_append grow s k x) b L"
proof -
  have wf: "subs_wf s" and view: "range_view s b L"
    and len: "\<And>k h. sl_map s k = Some h \<Longrightarrow> fst h = fst (rl_slice b) \<Longrightarrow> length L \<le> snd h"
    using assms unfolding range_inv_def by blast+
  obtain s' h' where app: "go_append grow s (sl_map s k) x = (s', h')"
    by (cases "go_append grow s (sl_map s k) x")
  note hdr = go_append_header [OF app]
  have "length L \<le> snd h'" if "fst h' = fst (rl_slice b)"
  proof (cases "fst h' = sl_next s")
    case True
    then show ?thesis using that view unfolding range_view_def by (cases "L = []") auto
  next
    case False
    then obtain a n where "sl_map s k = Some (a, n)" "h' = (a, Suc n)" using hdr by blast
    then show ?thesis using len [of k "(a, n)"] that by simp
  qed
  moreover have "sl_map (map_append grow s k x) = (sl_map s)(k \<mapsto> h')"
    using hdr by (simp add: map_append_def app)
  ultimately have "length L \<le> snd h"
    if "sl_map (map_append grow s k x) k1 = Some h" "fst h = fst (rl_slice b)" for k1 h
    using that len [of k1 h] by (auto split: if_splits)
  moreover have "range_view (map_append grow s k x) b L"
    by (rule range_view_append [OF wf view]) (rule len)
  ultimately show ?thesis using map_append_refines [OF wf, of grow k x] unfolding range_inv_def by blast
qed

lemma range_reach_inv:
  assumes "subs_wf s0"
  shows "range_reach s0 k s b \<Longrightarrow> range_inv s b (subs_of s0 k)"
proof (induction rule: range_reach.induct)
  case start
  have "length (subs_of s0 k) \<le> snd h"
    if "sl_map s0 k' = Some h" "fst h = fst (rl_slice (range_begin s0 k))" for k' h
  proof (cases "sl_map s0 k")
    case None
    then show ?thesis by (simp add: subs_of_def)
  next
    case (Some h0)
    then have "k' = k" using subs_wfD(2) [OF assms that(1) Some] that(2) by (simp add: range_begin_def)
    then show ?thesis using that(1) by (cases h) (simp add: subs_of_def)
  qed
  then show ?case using assms range_view_begin [OF assms, of k] unfolding range_inv_def by blast
next
  case (subscribe s b grow k' x)
  then show ?case by (intro range_inv_append)
next
  case (send s b b')
  have "range_view s b (subs_of s0 k)" using send.IH by (simp add: range_inv_def)
  from range_view_step [OF this send.hyps(2)] send.hyps(3) send.IH show ?case
    unfolding range_inv_def by auto
qed

end
