(* ===== verification/Sync_Service.thy ===== *)
theory Sync_Service
  imports Event_Reload Slices
begin

text \<open>
  \<open>application/sync_service.go\<close>: the subscribers of an entry, the recording of operations and
  the difference a client asks for.

  The subscribers are kept in a map of Go slices, and \<open>Broadcast\<close> goes on reading a slice after
  it has released the lock: the service is the map of \<open>Slices\<close>, with its backing arrays. A
  subscriber is a number, its identity.
\<close>

subsection \<open>Messages\<close>

record SyncOp =
  so_RequestID :: uuid
  so_ServerSeq :: int64
  so_Payload :: string

record SyncMessage =
  sm_EntryID :: uuid
  sm_Ops :: "SyncOp list"
  sm_LatestServerSeq :: int64

record AckMessage =
  am_RequestID :: uuid
  am_EntryID :: uuid
  am_ServerSeq :: int64

subsection \<open>Subscribers\<close>

type_synonym SyncService = "uuid slice_map"

definition NewSyncService :: SyncService where
  "NewSyncService = no_slices"

definition Subscribe :: "nat \<Rightarrow> SyncService \<Rightarrow> uuid \<Rightarrow> subscriber \<Rightarrow> SyncService" where
  "Subscribe grow s entryID sub = map_append grow s entryID sub"

definition Unsubscribe :: "SyncService \<Rightarrow> uuid \<Rightarrow> subscriber \<Rightarrow> SyncService" where
  "Unsubscribe s entryID sub = map_remove s entryID sub"

text \<open>A call of \<open>Send\<close> on a nil interface panics: \<open>None\<close>. The result are the receivers.\<close>

definition Broadcast :: "SyncService \<Rightarrow> uuid \<Rightarrow> subscriber list option" where
  "Broadcast s entryID = range_run s (range_begin s entryID)"

subsection \<open>Operations and differences\<close>

text \<open>
  The event store is an interface value of the service: its methods are arguments, a failed
  call returns the error. Tracing spans are left out.
\<close>

definition HandleOp ::
  "('s \<Rightarrow> Event \<Rightarrow> 's \<times> (StoreError + int64)) \<Rightarrow> 's \<Rightarrow> uuid \<Rightarrow> uuid \<Rightarrow> uuid \<Rightarrow> string
     \<Rightarrow> 's \<times> (StoreError + AckMessage)" where
  "HandleOp appendf st entryID siteID requestID payload =
     (let event = \<lparr>ev_EntryID = entryID, ev_ServerSeq = 0, ev_RequestID = requestID,
                   ev_EventType = EventCRDTOp, ev_SiteID = siteID, ev_Payload = payload,
                   ev_CreatedAt = time_or_zero None\<rparr>
      in case appendf st event of
           (st', Inl e) \<Rightarrow> (st', Inl e)
         | (st', Inr serverSeq) \<Rightarrow>
             (st', Inr \<lparr>am_RequestID = requestID, am_EntryID = entryID, am_ServerSeq = serverSeq\<rparr>))"

definition sync_op :: "Event \<Rightarrow> SyncOp" where
  "sync_op e = \<lparr>so_RequestID = ev_RequestID e, so_ServerSeq = ev_ServerSeq e, so_Payload = ev_Payload e\<rparr>"

definition GetDiff ::
  "('s \<Rightarrow> uuid \<Rightarrow> int64 \<Rightarrow> StoreError + Event list) \<Rightarrow> ('s \<Rightarrow> uuid \<Rightarrow> StoreError + int64)
     \<Rightarrow> 's \<Rightarrow> uuid \<Rightarrow> int64 \<Rightarrow> StoreError + SyncMessage" where
  "GetDiff list_after max_seq st entryID afterSeq =
     (case list_after st entryID afterSeq of
        Inl e \<Rightarrow> Inl e
      | Inr events \<Rightarrow>
          (let ops = map sync_op events
           in case max_seq st entryID of
                Inl e \<Rightarrow> Inl e
              | Inr maxSeq \<Rightarrow>
                  Inr \<lparr>sm_EntryID = entryID, sm_Ops = ops, sm_LatestServerSeq = maxSeq\<rparr>))"

lemma subs_wf_New: "subs_wf NewSyncService"
  unfolding NewSyncService_def by (rule subs_wf_no_slices)

lemmas sync_slices = Subscribe_def Unsubscribe_def map_append_def map_remove_def go_append_def
  NewSyncService_def no_slices_def

lemma Subscribe_refines:
  "subs_wf s \<Longrightarrow> subs_wf (Subscribe grow s k x) \<and> subs_of (Subscribe grow s k x) = (subs_of s)(k := subs_of s k @ [x])"
  unfolding Subscribe_def by (rule map_append_refines)

lemma Unsubscribe_refines:
  "subs_wf s \<Longrightarrow> subs_wf (Unsubscribe s k x) \<and> subs_of (Unsubscribe s k x) = (subs_of s)(k := remove1 x (subs_of s k))"
  unfolding Unsubscribe_def by (rule map_remove_refines)

text \<open>A broadcast interleaved with subscriptions.\<close>

inductive bc_reach :: "SyncService \<Rightarrow> uuid \<Rightarrow> SyncService \<Rightarrow> range_loop \<Rightarrow> bool" for s0 k where
  start: "bc_reach s0 k s0 (range_begin s0 k)"
| subscribe: "bc_reach s0 k s b \<Longrightarrow> bc_reach s0 k (Subscribe grow s k' x) b"
| send: "bc_reach s0 k s b \<Longrightarrow> \<not> range_done b \<Longrightarrow> range_step s b = Some b' \<Longrightarrow> bc_reach s0 k s b'"

lemma bc_reach_range: "bc_reach s0 k s b \<Longrightarrow> range_reach s0 k s b"
  by (induction rule: bc_reach.induct) (auto simp: Subscribe_def intro: range_reach.intros)

subsection \<open>Properties of the subscriptions\<close>

text \<open>
  C11: the slices implement lists of subscribers. From a well-formed service \<open>Subscribe\<close> adds
  its subscriber at the end of the entry's list, \<open>Unsubscribe\<close> removes its first occurrence,
  neither touches another entry whatever arrays are shared or grown, and an undisturbed
  \<open>Broadcast\<close> sends to exactly the subscribers of the entry, each once per subscription, in
  order, without a nil dereference.
\<close>

theorem subscribers_refine:
  assumes "subs_wf s"
  shows "subs_wf (Subscribe grow s k x) \<and> subs_wf (Unsubscribe s k x)
    \<and> subs_of (Subscribe grow s k x) = (subs_of s)(k := subs_of s k @ [x])
    \<and> subs_of (Unsubscribe s k x) = (subs_of s)(k := remove1 x (subs_of s k))
    \<and> Broadcast s k' = Some (subs_of s k')"
  using Subscribe_refines [OF assms, of grow k x] Unsubscribe_refines [OF assms, of k x]
    range_run_view [OF range_view_begin [OF assms, of k']] unfolding Broadcast_def by blast

theorem subscribers_refine_witness:
  "subs_of (Unsubscribe (Subscribe 1 NewSyncService 5 8) 5 8) 5 = []
   \<and> Broadcast (Subscribe 1 NewSyncService 5 8) 5 = Some [8]"
  using subscribers_refine [OF subs_wf_New, of 1 5 8 5]
    subscribers_refine [of "Subscribe 1 NewSyncService 5 8" 0 5 8 5]
  by (simp add: subs_of_def NewSyncService_def no_slices_def)

text \<open>
  a broadcast under way is not disturbed by subscriptions. Whatever \<open>Subscribe\<close> calls run
  between its sends, for any entries, it never reads a nil subscriber, and when it is done it
  has sent to exactly those who were subscribed when it took the slice.
\<close>

theorem broadcast_during_subscribe:
  assumes "subs_wf s0" and "bc_reach s0 k s b"
  shows "(range_done b \<longrightarrow> rl_seen b = subs_of s0 k)
    \<and> (\<not> range_done b \<longrightarrow> (\<exists>b'. range_step s b = Some b' \<and> rl_pos b' = Suc (rl_pos b)))"
proof -
  have view: "range_view s b (subs_of s0 k)" using range_reach_inv [OF assms(1) bc_reach_range [OF assms(2)]] by (simp add: range_inv_def)
  have "rl_seen b = subs_of s0 k" if "range_done b"
    using that view by (simp add: range_view_def range_done_def)
  with range_view_step [OF view] show ?thesis by blast
qed

theorem broadcast_during_subscribe_witness:
  "\<exists>b. range_step (Subscribe 1 (Subscribe 1 NewSyncService 5 8) 5 9) (range_begin (Subscribe 1 NewSyncService 5 8) 5) = Some b
     \<and> range_done b \<and> rl_seen b = [8]"
proof -
  let ?s = "Subscribe 1 NewSyncService 5 8"
  let ?b = "\<lparr>rl_slice = (0, 1), rl_pos = 1, rl_seen = [8 :: nat]\<rparr>"
  have step: "range_step (Subscribe 1 ?s 5 9) (range_begin ?s 5) = Some ?b"
    by (simp add: range_step_def range_begin_def sync_slices)
  have "\<not> range_done (range_begin ?s 5)"
    by (simp add: range_done_def range_begin_def sync_slices)
  then have "bc_reach ?s 5 (Subscribe 1 ?s 5 9) ?b"
    by (intro bc_reach.send [OF bc_reach.subscribe [OF bc_reach.start] _ step])
  moreover have "subs_wf ?s" using Subscribe_refines [OF subs_wf_New] by blast
  moreover have "subs_of ?s 5 = [8]"
    by (simp add: subs_of_def sync_slices)
  ultimately show ?thesis
    using broadcast_during_subscribe [of ?s 5 "Subscribe 1 ?s 5 9" ?b] step by (simp add: range_done_def)
qed

definition ex_service :: SyncService where
  "ex_service = Subscribe 0 (Subscribe 0 (Subscribe 0 NewSyncService 5 1) 5 2) 5 3"


subsection \<open>Recording operations\<close>

context event_store
begin

lemma HandleOp_duplicate:
  "inv s \<Longrightarrow> rid \<in> requests s \<Longrightarrow> HandleOp (append x) s eid sid rid pl
     = (s, Inr \<lparr>am_RequestID = rid, am_EntryID = eid, am_ServerSeq = 0\<rparr>)"
  by (simp add: HandleOp_def append_dup Let_def)

lemma HandleOp_new:
  assumes inv: "inv s" and new: "rid \<notin> requests s" and len: "length (log s eid) < 2 ^ 63 - 1"
    and op: "HandleOp (append x) s eid sid rid pl = (s', res)"
  shows "inv s' \<and> requests s' = insert rid (requests s)
    \<and> (res = Inl ErrAppendToFile \<or> res = Inr \<lparr>am_RequestID = rid, am_EntryID = eid,
          am_ServerSeq = int (length (log s eid)) + 1\<rparr>)
    \<and> GetDiff (\<lambda>s k a. Inr (list_after s k a)) (\<lambda>s k. Inr (max_seq s k)) s' eid (int (length (log s eid)))
        = Inr \<lparr>sm_EntryID = eid,
            sm_Ops = [\<lparr>so_RequestID = rid, so_ServerSeq = int (length (log s eid)) + 1, so_Payload = pl\<rparr>],
            sm_LatestServerSeq = int (length (log s eid)) + 1\<rparr>"
proof -
  define e where "e = \<lparr>ev_EntryID = eid, ev_ServerSeq = 0, ev_RequestID = rid,
      ev_EventType = EventCRDTOp, ev_SiteID = sid, ev_Payload = pl, ev_CreatedAt = time_or_zero None\<rparr>"
  have e: "ev_EntryID e = eid" "ev_RequestID e = rid" "ev_Payload e = pl" by (simp_all add: e_def)
  obtain s1 r1 where app: "append x s e = (s1, r1)" by (cases "append x s e")
  have "inv s1 \<and> requests s1 = insert rid (requests s)
      \<and> log s1 = (log s)(eid := log s eid
           @ [e\<lparr>ev_ServerSeq := int (length (log s eid)) + 1, ev_CreatedAt := now x\<rparr>])
      \<and> r1 = (if fails x s e then Inl ErrAppendToFile else Inr (int (length (log s eid)) + 1))"
    using append_new [of s e x s1 r1, unfolded e, OF inv new len app] .
  moreover have "s' = s1" "res = (case r1 of Inl err \<Rightarrow> Inl err | Inr n \<Rightarrow>
      Inr \<lparr>am_RequestID = rid, am_EntryID = eid, am_ServerSeq = n\<rparr>)"
    using op app by (auto simp: HandleOp_def e_def [symmetric] Let_def split: sum.splits)
  ultimately show ?thesis
    using list_after_drop [of s' "int (length (log s eid))" eid] max_seq_log [of s' eid]
    by (auto simp: GetDiff_def sync_op_def e split: if_splits)
qed

end

text \<open>
  C10: an operation is recorded once and served to whoever asks. A new request either fails
  with the write error or is acknowledged with the next sequence number of its entry; asking
  for the difference after the previous number returns exactly this operation and the new
  maximum. A repeated request is acknowledged with 0 and changes nothing.
\<close>

theorem acked_op_is_served:
  assumes "file_inv s" and "rid \<notin> es_seen s" and "length (file_log s eid) < 2 ^ 63 - 1"
    and "HandleOp (file_Append cdc x) s eid sid rid pl = (s', res)"
  shows "(res = Inl ErrAppendToFile \<or> res = Inr \<lparr>am_RequestID = rid, am_EntryID = eid,
          am_ServerSeq = int (length (file_log s eid)) + 1\<rparr>)
    \<and> GetDiff (\<lambda>s k a. Inr (file_ListAfter s k a)) (\<lambda>s k. Inr (file_MaxServerSeq s k)) s' eid
          (int (length (file_log s eid)))
        = Inr \<lparr>sm_EntryID = eid,
            sm_Ops = [\<lparr>so_RequestID = rid, so_ServerSeq = int (length (file_log s eid)) + 1, so_Payload = pl\<rparr>],
            sm_LatestServerSeq = int (length (file_log s eid)) + 1\<rparr>
    \<and> HandleOp (file_Append cdc x') s' eid' sid' rid pl'
        = (s', Inr \<lparr>am_RequestID = rid, am_EntryID = eid', am_ServerSeq = 0\<rparr>)"
  using disk.HandleOp_new [OF assms] disk.HandleOp_duplicate [of s' rid cdc x' eid' sid' pl'] by blast

theorem acked_op_is_served_witness:
  "\<exists>s' res. HandleOp (file_Append ex_codec (0, Writes)) ex_empty_store 1 3 2 ''{}'' = (s', res)
    \<and> (res = Inl ErrAppendToFile \<or> res = Inr \<lparr>am_RequestID = 2, am_EntryID = 1, am_ServerSeq = 1\<rparr>)
    \<and> HandleOp (file_Append ex_codec (0, OpenFails)) s' 1 3 2 ''{}''
        = (s', Inr \<lparr>am_RequestID = 2, am_EntryID = 1, am_ServerSeq = 0\<rparr>)"
proof -
  obtain s' res where op: "HandleOp (file_Append ex_codec (0, Writes)) ex_empty_store 1 3 2 ''{}'' = (s', res)"
    by (cases "HandleOp (file_Append ex_codec (0, Writes)) ex_empty_store 1 3 2 ''{}''")
  have "file_inv ex_empty_store"
    using store_inv_empty by (simp add: file_inv_def ex_empty_store_def)
  from acked_op_is_served [OF this _ _ op, of "(0, OpenFails)" 1 3 "''{}''"] op show ?thesis
    by (simp add: ex_empty_store_def file_log_def events_of_def)
qed

end
