(* ===== verification/Utf8.thy ===== *)
theory Utf8
  imports Prelude
begin

text \<open>
  The part of Go's \<open>unicode/utf8\<close> and of \<open>string(rune)\<close> that the servers use: encoding one
  rune (\<open>strings.Builder.WriteRune\<close>, the conversion \<open>string(r)\<close>), decoding the first rune of
  a string (\<open>utf8.DecodeRuneInString\<close>), decoding a whole string (\<open>[]rune(s)\<close>,
  \<open>utf8.RuneCountInString\<close>), and the round trips between them. Bytes are handled as numbers
  below 256; shifts and masks by powers of two are division and remainder.
\<close>

definition RuneError :: rune where "RuneError = 0xFFFD"

text \<open>A Unicode scalar value: at most \<open>0x10FFFF\<close> and no surrogate.\<close>

definition valid_code :: "nat \<Rightarrow> bool" where
  "valid_code i \<longleftrightarrow> i \<le> 0x10FFFF \<and> \<not> (0xD800 \<le> i \<and> i \<le> 0xDFFF)"

definition valid_rune :: "rune \<Rightarrow> bool" where
  "valid_rune r \<longleftrightarrow> valid_code (unat r)"

definition encode_code :: "nat \<Rightarrow> nat list" where
  "encode_code i =
     (if i \<le> 0x7F then [i]
      else if i \<le> 0x7FF then [0xC0 + i div 64, 0x80 + i mod 64]
      else if \<not> valid_code i then [0xEF, 0xBF, 0xBD]
      else if i \<le> 0xFFFF then [0xE0 + i div 4096, 0x80 + i div 64 mod 64, 0x80 + i mod 64]
      else [0xF0 + i div 262144, 0x80 + i div 4096 mod 64, 0x80 + i div 64 mod 64,
            0x80 + i mod 64])"

text \<open>The accepted range of the second byte and the length, by first byte; \<open>None\<close>: illegal.\<close>

definition first_byte :: "nat \<Rightarrow> (nat \<times> nat \<times> nat) option" where
  "first_byte b =
     (if b \<le> 0x7F then Some (1, 0, 0)
      else if b < 0xC2 then None
      else if b \<le> 0xDF then Some (2, 0x80, 0xBF)
      else if b = 0xE0 then Some (3, 0xA0, 0xBF)
      else if b = 0xED then Some (3, 0x80, 0x9F)
      else if b \<le> 0xEF then Some (3, 0x80, 0xBF)
      else if b = 0xF0 then Some (4, 0x90, 0xBF)
      else if b \<le> 0xF3 then Some (4, 0x80, 0xBF)
      else if b = 0xF4 then Some (4, 0x80, 0x8F)
      else None)"

definition cont_byte :: "nat \<Rightarrow> bool" where
  "cont_byte b \<longleftrightarrow> 0x80 \<le> b \<and> b \<le> 0xBF"

text \<open>The code point and the number of bytes consumed.\<close>

fun decode_code :: "nat list \<Rightarrow> nat \<times> nat" where
  "decode_code [] = (0xFFFD, 0)"
| "decode_code (b0 # bs) =
     (case first_byte b0 of
        None \<Rightarrow> (0xFFFD, 1)
      | Some (sz, lo, hi) \<Rightarrow>
          if sz = 1 then (b0, 1)
          else if length bs + 1 < sz then (0xFFFD, 1)
          else if \<not> (lo \<le> bs ! 0 \<and> bs ! 0 \<le> hi) then (0xFFFD, 1)
          else if sz = 2 then ((b0 - 0xC0) * 64 + (bs ! 0 - 0x80), 2)
          else if \<not> cont_byte (bs ! 1) then (0xFFFD, 1)
          else if sz = 3 then
            ((b0 - 0xE0) * 4096 + (bs ! 0 - 0x80) * 64 + (bs ! 1 - 0x80), 3)
          else if \<not> cont_byte (bs ! 2) then (0xFFFD, 1)
          else ((b0 - 0xF0) * 262144 + (bs ! 0 - 0x80) * 4096 + (bs ! 1 - 0x80) * 64
                 + (bs ! 2 - 0x80), 4))"

definition string_of_rune :: "rune \<Rightarrow> string" where
  "string_of_rune r = map char_of (encode_code (unat r))"

definition DecodeRuneInString :: "string \<Rightarrow> rune \<times> nat" where
  "DecodeRuneInString s = (let (c, n) = decode_code (map of_char s) in (of_nat c, n))"

text \<open>\<open>strings.Builder\<close> fed with a sequence of runes.\<close>

definition string_of_runes :: "rune list \<Rightarrow> string" where
  "string_of_runes rs = concat (map string_of_rune rs)"

text \<open>\<open>[]rune(s)\<close>: decode until the string is used up.\<close>

lemma decode_code_progress: "bs \<noteq> [] \<Longrightarrow> 0 < snd (decode_code bs)"
  by (cases bs) (auto split: option.splits)

lemma DecodeRune_progress: "s \<noteq> [] \<Longrightarrow> 0 < snd (DecodeRuneInString s)"
  using decode_code_progress [of "map of_char s"]
  by (auto simp: DecodeRuneInString_def split_def Let_def)

function runes_of_string :: "string \<Rightarrow> rune list" where
  "runes_of_string s =
     (if s = [] then []
      else (let (r, n) = DecodeRuneInString s in r # runes_of_string (drop n s)))"
  by pat_completeness auto
termination
proof (relation "measure length")
  fix s x r n
  assume "s \<noteq> ([] :: string)" and "x = DecodeRuneInString s" and "(r, n) = x"
  then have "0 < n" using DecodeRune_progress [of s] by (metis snd_conv)
  then show "(drop n s, s) \<in> measure length"
    using \<open>s \<noteq> []\<close> by simp
qed simp

declare runes_of_string.simps [simp del]

definition RuneCountInString :: "string \<Rightarrow> nat" where
  "RuneCountInString s = length (runes_of_string s)"

subsection \<open>Round trips\<close>

lemma encode_code_byte: "b \<in> set (encode_code i) \<Longrightarrow> b < 256"
  by (auto simp: encode_code_def valid_code_def split: if_splits)

lemma encode_code_ne [simp]: "encode_code i \<noteq> []"
  by (simp add: encode_code_def)

lemma decode_encode_1: "i \<le> 0x7F \<Longrightarrow> decode_code (encode_code i @ bs) = (i, 1)"
  by (simp add: encode_code_def first_byte_def)

lemma decode_encode_2:
  assumes "0x7F < i" "i \<le> 0x7FF"
  shows "decode_code (encode_code i @ bs) = (i, 2)"
proof -
  have e: "encode_code i = [0xC0 + i div 64, 0x80 + i mod 64]"
    using assms by (simp add: encode_code_def)
  have "2 \<le> i div 64" "i div 64 \<le> 31" "i mod 64 < 64"
    using assms by auto
  then have f: "first_byte (0xC0 + i div 64) = Some (2, 0x80, 0xBF)"
    by (simp add: first_byte_def)
  show ?thesis
    using \<open>i mod 64 < 64\<close> by (simp add: e f)
qed

lemma base64_split2: "(i :: nat) = i div 64 * 64 + i mod 64"
  by simp

lemma base64_split3: "(i :: nat) = i div 4096 * 4096 + i div 64 mod 64 * 64 + i mod 64"
proof -
  have "i div 64 = i div 4096 * 64 + i div 64 mod 64"
    using base64_split2 [of "i div 64"] by (simp add: div_mult2_eq [symmetric])
  then show ?thesis using base64_split2 [of i] by linarith
qed

lemma base64_split4:
  "(i :: nat) = i div 262144 * 262144 + i div 4096 mod 64 * 4096 + i div 64 mod 64 * 64 + i mod 64"
proof -
  have "i div 4096 = i div 262144 * 64 + i div 4096 mod 64"
    using base64_split2 [of "i div 4096"] by (simp add: div_mult2_eq [symmetric])
  then show ?thesis using base64_split3 [of i] by linarith
qed

lemma decode_encode_3:
  assumes "0x7FF < i" "i \<le> 0xFFFF" "valid_code i"
  shows "decode_code (encode_code i @ bs) = (i, 3)"
proof -
  define a b c where "a = i div 4096" and "b = i div 64 mod 64" and "c = i mod 64"
  have e: "encode_code i = [0xE0 + a, 0x80 + b, 0x80 + c]"
    using assms by (simp add: encode_code_def a_def b_def c_def)
  have i: "i = a * 4096 + b * 64 + c"
    unfolding a_def b_def c_def by (rule base64_split3)
  have b: "b < 64" "c < 64" "a \<le> 15"
    using assms by (auto simp: a_def b_def c_def)
  have lo: "32 \<le> b" if "a = 0"
    using assms(1) i b that by linarith
  have hi: "b \<le> 31" if "a = 13"
  proof (rule ccontr)
    assume "\<not> b \<le> 31"
    then have "0xD800 \<le> i" "i \<le> 0xDFFF" using i b that by linarith+
    then show False using assms(3) by (simp add: valid_code_def)
  qed
  have d: "decode_code ([0xE0 + a, 0x80 + b, 0x80 + c] @ bs) = (a * 4096 + b * 64 + c, 3)"
    using b lo hi by (auto simp: first_byte_def cont_byte_def)
  show ?thesis unfolding e d using i by simp
qed

lemma decode_encode_4:
  assumes "0xFFFF < i" "valid_code i"
  shows "decode_code (encode_code i @ bs) = (i, 4)"
proof -
  define a b c d where "a = i div 262144" and "b = i div 4096 mod 64"
    and "c = i div 64 mod 64" and "d = i mod 64"
  have e: "encode_code i = [0xF0 + a, 0x80 + b, 0x80 + c, 0x80 + d]"
    using assms by (simp add: encode_code_def a_def b_def c_def d_def)
  have i: "i = a * 262144 + b * 4096 + c * 64 + d"
    unfolding a_def b_def c_def d_def by (rule base64_split4)
  have le: "i \<le> 0x10FFFF" using assms(2) by (simp add: valid_code_def)
  have b: "b < 64" "c < 64" "d < 64"
    by (auto simp: b_def c_def d_def)
  have a: "a \<le> 4" using le by (simp add: a_def)
  have lo: "16 \<le> b" if "a = 0"
    using assms(1) i b that by linarith
  have hi: "b \<le> 15" if "a = 4"
    using le i b that by linarith
  consider "a = 0" | "a = 1" | "a = 2" | "a = 3" | "a = 4" using a by linarith
  then have d: "decode_code ([0xF0 + a, 0x80 + b, 0x80 + c, 0x80 + d] @ bs)
      = (a * 262144 + b * 4096 + c * 64 + d, 4)"
    by cases (use b lo hi in \<open>simp_all add: first_byte_def cont_byte_def\<close>)
  show ?thesis unfolding e d using i by simp
qed

lemma decode_encode_code:
  assumes "valid_code i"
  shows "decode_code (encode_code i @ bs) = (i, length (encode_code i))"
proof -
  consider "i \<le> 0x7F" | "0x7F < i" "i \<le> 0x7FF" | "0x7FF < i" "i \<le> 0xFFFF" | "0xFFFF < i"
    by linarith
  then show ?thesis
  proof cases
    case 1
    then show ?thesis using decode_encode_1 [OF 1] by (simp add: encode_code_def)
  next
    case 2
    then show ?thesis using decode_encode_2 [OF 2] by (simp add: encode_code_def)
  next
    case 3
    then show ?thesis using decode_encode_3 [OF 3 assms] assms by (simp add: encode_code_def)
  next
    case 4
    then show ?thesis using decode_encode_4 [OF 4 assms] assms by (simp add: encode_code_def)
  qed
qed

lemma map_of_char_string_of_rune:
  "map of_char (string_of_rune r) = encode_code (unat r)"
proof -
  have "map ((of_char :: char \<Rightarrow> nat) \<circ> char_of) (encode_code (unat r))
      = map id (encode_code (unat r))"
    by (rule map_cong) (use encode_code_byte in \<open>auto\<close>)
  then show ?thesis by (simp add: string_of_rune_def)
qed

lemma DecodeRune_string_of_rune:
  assumes "valid_rune r"
  shows "DecodeRuneInString (string_of_rune r @ s) = (r, length (string_of_rune r))"
proof -
  have "decode_code (map of_char (string_of_rune r @ s)) = (unat r, length (string_of_rune r))"
    using decode_encode_code [of "unat r" "map of_char s"] assms
    unfolding map_append map_of_char_string_of_rune
    by (simp add: valid_rune_def string_of_rune_def)
  then show ?thesis by (simp add: DecodeRuneInString_def)
qed

lemma string_of_rune_ne [simp]: "string_of_rune r \<noteq> []"
  by (simp add: string_of_rune_def)

lemma runes_of_string_of_runes:
  "(\<And>r. r \<in> set rs \<Longrightarrow> valid_rune r) \<Longrightarrow> runes_of_string (string_of_runes rs) = rs"
proof (induction rs)
  case Nil
  then show ?case by (simp add: string_of_runes_def runes_of_string.simps)
next
  case (Cons r rs)
  have "DecodeRuneInString (string_of_runes (r # rs)) = (r, length (string_of_rune r))"
    using Cons.prems by (simp add: string_of_runes_def DecodeRune_string_of_rune)
  moreover have "drop (length (string_of_rune r)) (string_of_runes (r # rs)) = string_of_runes rs"
    by (simp add: string_of_runes_def)
  moreover have "string_of_runes (r # rs) \<noteq> []"
    by (simp add: string_of_runes_def)
  ultimately show ?case
    using Cons.IH Cons.prems by (simp add: runes_of_string.simps [of "string_of_runes (r # rs)"])
qed

lemma string_of_runes_append:
  "string_of_runes (rs @ ss) = string_of_runes rs @ string_of_runes ss"
  by (simp add: string_of_runes_def)

text \<open>What the decoder returns is always a Unicode scalar value.\<close>

lemma first_byte_cases:
  assumes "first_byte b = Some (sz, lo, hi)"
  obtains "sz = 1" "b \<le> 0x7F"
  | "sz = 2" "0xC2 \<le> b" "b \<le> 0xDF" "lo = 0x80" "hi = 0xBF"
  | "sz = 3" "0xE0 \<le> b" "b \<le> 0xEF" "0x80 \<le> lo" "hi \<le> 0xBF" "b = 0xE0 \<longrightarrow> lo = 0xA0"
      "b = 0xED \<longrightarrow> hi = 0x9F"
  | "sz = 4" "0xF0 \<le> b" "b \<le> 0xF4" "0x80 \<le> lo" "hi \<le> 0xBF" "b = 0xF0 \<longrightarrow> lo = 0x90"
      "b = 0xF4 \<longrightarrow> hi = 0x8F"
  using assms unfolding first_byte_def by (auto split: if_splits)

lemma valid_code_2:
  assumes "0xC2 \<le> b0" "b0 \<le> 0xDF" "cont_byte b1"
  shows "valid_code ((b0 - 0xC0) * 64 + (b1 - 0x80))"
proof -
  have "b0 - 0xC0 \<le> 31" "b1 - 0x80 \<le> 63" using assms by (auto simp: cont_byte_def)
  then show ?thesis unfolding valid_code_def by linarith
qed

lemma valid_code_3:
  assumes "0xE0 \<le> b0" "b0 \<le> 0xEF" "0x80 \<le> lo" "lo \<le> b1" "b1 \<le> hi" "hi \<le> 0xBF"
    "b0 = 0xED \<longrightarrow> hi = 0x9F" "cont_byte b2"
  shows "valid_code ((b0 - 0xE0) * 4096 + (b1 - 0x80) * 64 + (b2 - 0x80))"
proof -
  define a b c where "a = b0 - 0xE0" and "b = b1 - 0x80" and "c = b2 - 0x80"
  then have abc: "b0 = 0xE0 + a" "b1 = 0x80 + b" "b2 = 0x80 + c"
    using assms by (auto simp: cont_byte_def)
  have "a \<le> 15" "b < 64" "c < 64" "a = 13 \<longrightarrow> b < 32"
    using assms abc by (auto simp: cont_byte_def)
  moreover have "a < 13 \<or> a = 13 \<or> 13 < a" by linarith
  ultimately show ?thesis unfolding abc valid_code_def by auto
qed

lemma valid_code_4:
  assumes "0xF0 \<le> b0" "b0 \<le> 0xF4" "0x80 \<le> lo" "lo \<le> b1" "b1 \<le> hi" "hi \<le> 0xBF"
    "b0 = 0xF0 \<longrightarrow> lo = 0x90" "b0 = 0xF4 \<longrightarrow> hi = 0x8F" "cont_byte b2" "cont_byte b3"
  shows "valid_code ((b0 - 0xF0) * 262144 + (b1 - 0x80) * 4096 + (b2 - 0x80) * 64 + (b3 - 0x80))"
proof -
  define a b c d where "a = b0 - 0xF0" and "b = b1 - 0x80" and "c = b2 - 0x80" and "d = b3 - 0x80"
  then have abc: "b0 = 0xF0 + a" "b1 = 0x80 + b" "b2 = 0x80 + c" "b3 = 0x80 + d"
    using assms by (auto simp: cont_byte_def)
  have "a \<le> 4" "b < 64" "c < 64" "d < 64" "a = 0 \<longrightarrow> 16 \<le> b" "a = 4 \<longrightarrow> b < 16"
    using assms abc by (auto simp: cont_byte_def)
  moreover have "a = 0 \<or> a = 4 \<or> (0 < a \<and> a < 4)" using \<open>a \<le> 4\<close> by linarith
  ultimately show ?thesis unfolding abc valid_code_def by auto
qed

lemma decode_code_valid: "valid_code (fst (decode_code bs))"
proof (cases bs)
  case Nil
  then show ?thesis by (simp add: valid_code_def)
next
  case (Cons b0 bs')
  have err: "valid_code 0xFFFD" by (simp add: valid_code_def)
  show ?thesis
  proof (cases "first_byte b0")
    case None
    then show ?thesis using err by (simp add: Cons)
  next
    case (Some t)
    obtain sz lo hi where t: "first_byte b0 = Some (sz, lo, hi)" using Some by (cases t) auto
    then show ?thesis
    proof (cases rule: first_byte_cases)
      case 1
      then show ?thesis by (simp add: Cons t valid_code_def)
    next
      case 2
      then show ?thesis using valid_code_2 [of b0 "bs' ! 0"]
        by (simp add: Cons t err cont_byte_def)
    next
      case 3
      then show ?thesis using valid_code_3 [of b0 lo "bs' ! 0" hi "bs' ! 1"]
        by (simp add: Cons t err)
    next
      case 4
      then show ?thesis using valid_code_4 [of b0 lo "bs' ! 0" hi "bs' ! 1" "bs' ! 2"]
        by (simp add: Cons t err)
    qed
  qed
qed

lemma DecodeRune_valid: "valid_rune (fst (DecodeRuneInString s))"
proof -
  have "valid_code (fst (decode_code (map of_char s)))"
    by (rule decode_code_valid)
  then show ?thesis
    by (auto simp: DecodeRuneInString_def split_def valid_rune_def Let_def valid_code_def
        unat_of_nat)
qed

end
