(* ===== verification/Rga.thy ===== *)
theory Rga
  imports Utf8
begin

text \<open>
  The Replicated Growable Array of \<open>flourish/server/domain/crdt/crdt.go\<close>: node identifiers,
  operations, the Lamport clock, the list of nodes with its index, the buffer of operations
  whose predecessor has not arrived, and every method of \<open>RGA\<close>.

  Conventions:
  \<^item> a method that mutates \<open>r\<close> returns the new record;
  \<^item> \<open>None\<close> is "does not return normally": a run-time panic (index out of range,
    \<open>slices.Insert\<close> beyond the end) or the unbounded recursion of \<open>isDescendantOf\<close> (a fatal
    stack overflow in Go). That the operations do return is proved, not assumed;
  \<^item> \<open>ustr\<close> is \<open>uuid.UUID.String\<close> of the third-party package;
  \<^item> the pointers \<open>*NodeID\<close> are only compared and dereferenced, never written through, so
    \<open>nil\<close> is \<open>None\<close> and a pointer is the value it points to.
\<close>

subsection \<open>Data\<close>

record NodeID =
  nid_ReplicaID :: uuid
  nid_Timestamp :: u64

text \<open>\<open>OpType\<close> is Go's \<open>int\<close>; any value can arrive from the network.\<close>

type_synonym OpType = int

definition OpInsert :: OpType where "OpInsert = 1"
definition OpDelete :: OpType where "OpDelete = 2"

record Operation =
  op_RequestID :: uuid
  op_OpType :: OpType
  op_NodeID :: NodeID
  op_After :: "NodeID option"
  op_Value :: rune
  op_Authenticated :: bool

record LamportClock =
  clk_replicaID :: uuid
  clk_counter :: u64

record node =
  nd_id :: NodeID
  nd_after :: "NodeID option"
  nd_value :: rune
  nd_deleted :: bool
  nd_authenticated :: bool

record RGA =
  clock :: LamportClock
  nodes :: "node list"
  index :: "NodeID \<rightharpoonup> nat"
  seen :: "uuid set"
  pending :: "Operation list"

subsection \<open>The Lamport clock\<close>

definition NewLamportClock :: "uuid \<Rightarrow> LamportClock" where
  "NewLamportClock rid = \<lparr>clk_replicaID = rid, clk_counter = 0\<rparr>"

definition Tick :: "LamportClock \<Rightarrow> LamportClock \<times> NodeID" where
  "Tick c =
     (let c' = c\<lparr>clk_counter := clk_counter c + 1\<rparr>
      in (c', \<lparr>nid_ReplicaID = clk_replicaID c', nid_Timestamp = clk_counter c'\<rparr>))"

definition Update :: "LamportClock \<Rightarrow> u64 \<Rightarrow> LamportClock" where
  "Update c ts = (if ts > clk_counter c then c\<lparr>clk_counter := ts\<rparr> else c)"

subsection \<open>Where a node goes\<close>

text \<open>True means: \<open>a\<close> is placed left of \<open>b\<close>.\<close>

definition nodeIDPriority :: "(uuid \<Rightarrow> string) \<Rightarrow> NodeID \<Rightarrow> NodeID \<Rightarrow> bool" where
  "nodeIDPriority ustr a b =
     (if nid_Timestamp a \<noteq> nid_Timestamp b
      then nid_Timestamp a > nid_Timestamp b
      else go_less (ustr (nid_ReplicaID a)) (ustr (nid_ReplicaID b)))"

definition sameAfter :: "NodeID option \<Rightarrow> NodeID option \<Rightarrow> bool" where
  "sameAfter a b =
     (case (a, b) of
        (None, None) \<Rightarrow> True
      | (None, Some _) \<Rightarrow> False
      | (Some _, None) \<Rightarrow> False
      | (Some x, Some y) \<Rightarrow> x = y)"

partial_function (option) isDescendantOf :: "RGA \<Rightarrow> nat \<Rightarrow> NodeID \<Rightarrow> bool option" where
  "isDescendantOf r idx parentID =
     (if idx < length (nodes r) then
        (case nd_after (nodes r ! idx) of
           None \<Rightarrow> Some False
         | Some a \<Rightarrow>
             if a = parentID then Some True
             else (case index r a of
                     None \<Rightarrow> Some False
                   | Some ancestorIdx \<Rightarrow> isDescendantOf r ancestorIdx parentID))
      else None)"

text \<open>The loop of \<open>skipSubtree\<close>, from the node after the one it starts at.\<close>

function skipLoop :: "RGA \<Rightarrow> NodeID \<Rightarrow> nat \<Rightarrow> nat option" where
  "skipLoop r parentID idx =
     (if idx < length (nodes r) then
        do {
          d \<leftarrow> isDescendantOf r idx parentID;
          if \<not> d then Some idx else skipLoop r parentID (idx + 1)
        }
      else Some idx)"
  by pat_completeness auto
termination
  by (relation "measure (\<lambda>(r, parentID, idx). length (nodes r) - idx)") auto

declare skipLoop.simps [simp del]

definition skipSubtree :: "RGA \<Rightarrow> nat \<Rightarrow> nat option" where
  "skipSubtree r idx =
     (if idx < length (nodes r) then skipLoop r (nd_id (nodes r ! idx)) (idx + 1) else None)"

text \<open>The search loop of \<open>applyInsert\<close>.\<close>

partial_function (option) insertPos ::
  "(uuid \<Rightarrow> string) \<Rightarrow> RGA \<Rightarrow> Operation \<Rightarrow> nat \<Rightarrow> nat option" where
  "insertPos ustr r op insertIdx =
     (if insertIdx < length (nodes r) then
        (let existing = nodes r ! insertIdx in
           if \<not> sameAfter (nd_after existing) (op_After op) then Some insertIdx
           else if nodeIDPriority ustr (op_NodeID op) (nd_id existing) then Some insertIdx
           else Option.bind (skipSubtree r insertIdx) (\<lambda>j. insertPos ustr r op j))
      else Some insertIdx)"

text \<open>\<open>for i := insertIdx; i < len(r.nodes); i++ { r.index[r.nodes[i].id] = i }\<close>\<close>

fun reindex :: "node list \<Rightarrow> nat \<Rightarrow> (NodeID \<rightharpoonup> nat) \<Rightarrow> (NodeID \<rightharpoonup> nat)" where
  "reindex [] i m = m"
| "reindex (n # ns) i m = reindex ns (Suc i) (m(nd_id n \<mapsto> i))"

definition node_of_op :: "Operation \<Rightarrow> node" where
  "node_of_op op =
     \<lparr>nd_id = op_NodeID op, nd_after = op_After op, nd_value = op_Value op,
      nd_deleted = False, nd_authenticated = op_Authenticated op\<rparr>"

text \<open>A missing key of a Go map reads as the zero value, here index 0.\<close>

definition startIdx :: "RGA \<Rightarrow> Operation \<Rightarrow> nat" where
  "startIdx r op =
     (case op_After op of
        None \<Rightarrow> 0
      | Some a \<Rightarrow> (case index r a of None \<Rightarrow> 0 | Some i \<Rightarrow> i) + 1)"

definition applyInsert :: "(uuid \<Rightarrow> string) \<Rightarrow> RGA \<Rightarrow> Operation \<Rightarrow> RGA option" where
  "applyInsert ustr r op =
     do {
       insertIdx \<leftarrow> insertPos ustr r op (startIdx r op);
       if insertIdx \<le> length (nodes r) then
         (let ns = slices_insert (nodes r) insertIdx (node_of_op op)
          in Some (r\<lparr>nodes := ns, index := reindex (drop insertIdx ns) insertIdx (index r)\<rparr>))
       else None
     }"

definition applyDelete :: "RGA \<Rightarrow> Operation \<Rightarrow> RGA option" where
  "applyDelete r op =
     (case index r (op_NodeID op) of
        None \<Rightarrow> Some r
      | Some idx \<Rightarrow>
          if idx < length (nodes r)
          then Some (r\<lparr>nodes := (nodes r)[idx := (nodes r ! idx)\<lparr>nd_deleted := True\<rparr>]\<rparr>)
          else None)"

subsection \<open>The buffer of operations that cannot be applied yet\<close>

text \<open>
  One iteration of the outer loop of \<open>flushPending\<close>: it walks the old buffer, applies what it
  can, and collects the rest in order. The Go code filters in place (\<open>r.pending[:0]\<close>): the
  write position never passes the read position, so the elements read are the old ones.
\<close>

fun flushPass ::
  "(uuid \<Rightarrow> string) \<Rightarrow> Operation list \<Rightarrow> RGA \<Rightarrow> Operation list \<Rightarrow> bool
     \<Rightarrow> (RGA \<times> Operation list \<times> bool) option" where
  "flushPass ustr [] r remaining applied = Some (r, remaining, applied)"
| "flushPass ustr (op # ops) r remaining applied =
     (if op_OpType op = OpInsert then
        (if (case op_After op of None \<Rightarrow> False | Some a \<Rightarrow> index r a = None)
         then flushPass ustr ops r (remaining @ [op]) applied
         else Option.bind (applyInsert ustr r op)
                (\<lambda>r'. flushPass ustr ops r' remaining True))
      else if op_OpType op = OpDelete then
        (if index r (op_NodeID op) = None
         then flushPass ustr ops r (remaining @ [op]) applied
         else Option.bind (applyDelete r op)
                (\<lambda>r'. flushPass ustr ops r' remaining True))
      else flushPass ustr ops r remaining applied)"

partial_function (option) flushPending :: "(uuid \<Rightarrow> string) \<Rightarrow> RGA \<Rightarrow> RGA option" where
  "flushPending ustr r =
     Option.bind (flushPass ustr (pending r) r [] False)
       (\<lambda>(r', remaining, applied).
          let r'' = r'\<lparr>pending := remaining\<rparr>
          in if \<not> applied then Some r'' else flushPending ustr r'')"

subsection \<open>The public operations\<close>

definition NewRGA :: "uuid \<Rightarrow> RGA" where
  "NewRGA rid =
     \<lparr>clock = NewLamportClock rid, nodes = [], index = Map.empty, seen = {}, pending = []\<rparr>"

definition Apply :: "(uuid \<Rightarrow> string) \<Rightarrow> RGA \<Rightarrow> Operation \<Rightarrow> (RGA \<times> bool) option" where
  "Apply ustr r op =
     (if op_RequestID op \<in> seen r then Some (r, False)
      else
        (let r1 = r\<lparr>seen := insert (op_RequestID op) (seen r),
                    clock := Update (clock r) (nid_Timestamp (op_NodeID op))\<rparr>
         in if op_OpType op = OpInsert then
              (if (case op_After op of None \<Rightarrow> False | Some a \<Rightarrow> index r1 a = None)
               then Some (r1\<lparr>pending := pending r1 @ [op]\<rparr>, True)
               else do {
                 r2 \<leftarrow> applyInsert ustr r1 op;
                 r3 \<leftarrow> flushPending ustr r2;
                 Some (r3, True)
               })
            else if op_OpType op = OpDelete then
              (if index r1 (op_NodeID op) = None
               then Some (r1\<lparr>pending := pending r1 @ [op]\<rparr>, True)
               else do { r2 \<leftarrow> applyDelete r1 op; Some (r2, True) })
            else Some (r1, True)))"

definition IsNodeAuthenticated :: "RGA \<Rightarrow> NodeID \<Rightarrow> bool option" where
  "IsNodeAuthenticated r i =
     (case index r i of
        None \<Rightarrow> Some True
      | Some idx \<Rightarrow>
          if idx < length (nodes r) then Some (nd_authenticated (nodes r ! idx)) else None)"

definition NodeCount :: "RGA \<Rightarrow> nat" where
  "NodeCount r = length (nodes r)"

text \<open>The runes \<open>Text\<close> and \<open>TextFiltered\<close> write, in order.\<close>

definition TextRunes :: "RGA \<Rightarrow> rune list" where
  "TextRunes r = map nd_value (filter (\<lambda>n. \<not> nd_deleted n) (nodes r))"

definition TextFilteredRunes :: "RGA \<Rightarrow> NodeID set \<Rightarrow> rune list" where
  "TextFilteredRunes r exclude =
     map nd_value (filter (\<lambda>n. \<not> nd_deleted n) (filter (\<lambda>n. nd_id n \<notin> exclude) (nodes r)))"

definition Text :: "RGA \<Rightarrow> string" where
  "Text r = string_of_runes (TextRunes r)"

definition TextFiltered :: "RGA \<Rightarrow> NodeID set \<Rightarrow> string" where
  "TextFiltered r exclude = string_of_runes (TextFilteredRunes r exclude)"

text \<open>
  Local editing. \<open>rid\<close> is the identifier \<open>uuid.New\<close> draws. The \<open>Authenticated\<close> field is
  left at its zero value.
\<close>

definition Insert ::
  "(uuid \<Rightarrow> string) \<Rightarrow> uuid \<Rightarrow> RGA \<Rightarrow> NodeID option \<Rightarrow> rune \<Rightarrow> (RGA \<times> Operation) option" where
  "Insert ustr rid r after v =
     (let (c, i) = Tick (clock r);
          op = \<lparr>op_RequestID = rid, op_OpType = OpInsert, op_NodeID = i, op_After = after,
                op_Value = v, op_Authenticated = False\<rparr>
      in do { (r', _) \<leftarrow> Apply ustr (r\<lparr>clock := c\<rparr>) op; Some (r', op) })"

definition Delete ::
  "(uuid \<Rightarrow> string) \<Rightarrow> uuid \<Rightarrow> RGA \<Rightarrow> NodeID \<Rightarrow> (RGA \<times> Operation) option" where
  "Delete ustr rid r i =
     (let op = \<lparr>op_RequestID = rid, op_OpType = OpDelete, op_NodeID = i, op_After = None,
                op_Value = 0, op_Authenticated = False\<rparr>
      in do { (r', _) \<leftarrow> Apply ustr r op; Some (r', op) })"

text \<open>Feeding a sequence of received operations to one replica.\<close>

fun ApplyAll :: "(uuid \<Rightarrow> string) \<Rightarrow> Operation list \<Rightarrow> RGA \<Rightarrow> RGA option" where
  "ApplyAll ustr [] r = Some r"
| "ApplyAll ustr (op # ops) r =
     Option.bind (Apply ustr r op) (\<lambda>(r', _). ApplyAll ustr ops r')"

end
