(* ===== verification/Path_Order.thy ===== *)
theory Path_Order
  imports Prelude "HOL-Library.Sublist"
begin

text \<open>
  The order in which the RGA keeps its nodes, seen abstractly. A node is represented by its
  path: the identifiers from the root down to it. Siblings are ordered by a strict total
  priority, an ancestor comes before its descendants, so the nodes are in lexicographic order
  of their paths. The locale \<open>strict_priority\<close> is the contract the RGA needs from its
  priority function; inside it the search for the insertion point is proved to end at the one
  position that keeps the list sorted.
\<close>

fun path_less :: "('a \<Rightarrow> 'a \<Rightarrow> bool) \<Rightarrow> 'a list \<Rightarrow> 'a list \<Rightarrow> bool" where
  "path_less pr _ [] = False"
| "path_less pr [] (_ # _) = True"
| "path_less pr (x # xs) (y # ys) = (pr x y \<or> (x = y \<and> path_less pr xs ys))"

lemma path_less_Nil [simp]: "path_less pr [] ys \<longleftrightarrow> ys \<noteq> []"
  by (cases ys) auto

text \<open>The skip over a subtree, as the contract of \<open>skipSubtree\<close>.\<close>

definition skip_ok :: "'a list list \<Rightarrow> nat \<Rightarrow> nat \<Rightarrow> bool" where
  "skip_ok L i j \<longleftrightarrow> i < j \<and> j \<le> length L
     \<and> (\<forall>t. i < t \<and> t < j \<longrightarrow> prefix (L ! i) (L ! t))
     \<and> (j < length L \<longrightarrow> \<not> prefix (L ! i) (L ! j))"

text \<open>A list of paths: sorted, non-empty, closed under taking the parent.\<close>

definition path_list :: "('a \<Rightarrow> 'a \<Rightarrow> bool) \<Rightarrow> 'a list list \<Rightarrow> bool" where
  "path_list pr L \<longleftrightarrow> sorted_wrt (path_less pr) L \<and> [] \<notin> set L
     \<and> (\<forall>p \<in> set L. butlast p \<noteq> [] \<longrightarrow> butlast p \<in> set L)"

text \<open>
  The loop invariant of the search: everything left of \<open>i\<close> is smaller than the new path
  \<open>q @ [x]\<close>, and no subtree of a child of \<open>q\<close> is cut by \<open>i\<close>.
\<close>

definition scan_inv :: "('a \<Rightarrow> 'a \<Rightarrow> bool) \<Rightarrow> 'a list list \<Rightarrow> 'a list \<Rightarrow> 'a \<Rightarrow> nat \<Rightarrow> bool" where
  "scan_inv pr L q x i \<longleftrightarrow> i \<le> length L
     \<and> (\<forall>t < i. path_less pr (L ! t) (q @ [x]))
     \<and> (\<forall>t c rest. i \<le> t \<and> t < length L \<and> L ! t = q @ c # rest \<longrightarrow> q @ [c] \<notin> set (take i L))
     \<and> (\<forall>t. i \<le> t \<and> t < length L \<longrightarrow> path_less pr q (L ! t))"

definition insert_ok :: "('a \<Rightarrow> 'a \<Rightarrow> bool) \<Rightarrow> 'a list list \<Rightarrow> 'a list \<Rightarrow> nat \<Rightarrow> bool" where
  "insert_ok pr L p k \<longleftrightarrow> k \<le> length L
     \<and> (\<forall>t < k. path_less pr (L ! t) p) \<and> (\<forall>t. k \<le> t \<and> t < length L \<longrightarrow> path_less pr p (L ! t))"

lemma path_less_append_same: "path_less pr (q @ xs) (q @ ys) \<longleftrightarrow> path_less pr xs ys \<or>
    (\<exists>z \<in> set q. pr z z)"
  by (induction q) auto

locale strict_priority =
  fixes pr :: "'a \<Rightarrow> 'a \<Rightarrow> bool"
  assumes pr_irrefl: "\<not> pr x x"
    and pr_trans: "pr x y \<Longrightarrow> pr y z \<Longrightarrow> pr x z"
    and pr_total: "x \<noteq> y \<Longrightarrow> pr x y \<or> pr y x"
begin

lemma pr_asym: "pr x y \<Longrightarrow> \<not> pr y x"
  using pr_irrefl pr_trans by blast

lemma path_less_irrefl: "\<not> path_less pr p p"
  by (induction p) (auto simp: pr_irrefl)

lemma path_less_trans: "path_less pr p q \<Longrightarrow> path_less pr q s \<Longrightarrow> path_less pr p s"
proof (induction p arbitrary: q s)
  case Nil
  then show ?case by (cases q; cases s) auto
next
  case (Cons x p)
  then obtain y q' where q: "q = y # q'" by (cases q) auto
  with Cons.prems obtain z s' where s: "s = z # s'" by (cases s) auto
  from Cons.prems Cons.IH [of q' s'] show ?case
    unfolding q s by (auto intro: pr_trans)
qed

lemma path_less_asym: "path_less pr p q \<Longrightarrow> \<not> path_less pr q p"
  using path_less_irrefl path_less_trans by blast

lemma path_less_total: "p \<noteq> q \<Longrightarrow> path_less pr p q \<or> path_less pr q p"
proof (induction p arbitrary: q)
  case Nil
  then show ?case by (cases q) auto
next
  case (Cons x p)
  then show ?case by (cases q) (use pr_total in auto)
qed

text \<open>A path that lies between \<open>y\<close> and an extension of \<open>y\<close> extends \<open>y\<close> itself.\<close>

lemma prefix_convex:
  "path_less pr y z \<Longrightarrow> path_less pr z w \<Longrightarrow> prefix y w \<Longrightarrow> prefix y z"
proof (induction y arbitrary: z w)
  case Nil
  then show ?case by simp
next
  case (Cons a y)
  from Cons.prems(1) obtain b z' where z: "z = b # z'" by (cases z) auto
  from Cons.prems(3) obtain w' where w: "w = a # w'" and pw: "prefix y w'"
    by (cases w) auto
  show ?case
    using Cons.prems(1,2) Cons.IH [OF _ _ pw, of z'] pr_asym pr_irrefl
    unfolding z w by auto
qed

lemma path_less_append_iff: "path_less pr (q @ xs) (q @ ys) \<longleftrightarrow> path_less pr xs ys"
  by (induction q) (auto simp: pr_irrefl)

lemma path_less_prefix: "prefix p q \<Longrightarrow> p \<noteq> q \<Longrightarrow> path_less pr p q"
proof -
  assume "prefix p q" "p \<noteq> q"
  then obtain zs where "q = p @ zs" "zs \<noteq> []" by (auto elim: prefixE)
  then show ?thesis using path_less_append_iff [of p "[]" zs] by simp
qed

text \<open>If \<open>q\<close> is smaller than \<open>y\<close> without being a prefix, everything below \<open>q\<close> is too.\<close>

lemma path_less_extend: "path_less pr q y \<Longrightarrow> \<not> prefix q y \<Longrightarrow> path_less pr (q @ zs) y"
proof (induction q arbitrary: y)
  case Nil
  then show ?case by simp
next
  case (Cons a q)
  then show ?case by (cases y) auto
qed

lemma path_less_sibling: "pr c x \<Longrightarrow> path_less pr (q @ c # rest) (q @ x # rest')"
  by (simp add: path_less_append_iff)

lemma sorted_nth_less:
  "path_list pr L \<Longrightarrow> s < t \<Longrightarrow> t < length L \<Longrightarrow> path_less pr (L ! s) (L ! t)"
  unfolding path_list_def by (auto simp: sorted_wrt_nth_less)

lemma sorted_index_less:
  assumes "path_list pr L" and "s < length L" and "t < length L" and "path_less pr (L ! s) (L ! t)"
  shows "s < t"
proof (rule ccontr)
  assume "\<not> s < t"
  then have "s = t \<or> t < s" by auto
  then show False
    using sorted_nth_less [OF assms(1), of t s] assms(2,4) path_less_asym path_less_irrefl by auto
qed

lemma path_list_distinct: "path_list pr L \<Longrightarrow> distinct L"
  unfolding path_list_def
  by (metis distinct_conv_nth linorder_neqE_nat path_less_irrefl sorted_wrt_nth_less)

text \<open>The child of \<open>q\<close> above an element of \<open>q\<close>'s subtree is in the list.\<close>

lemma path_list_take:
  assumes L: "path_list pr L"
  shows "p \<in> set L \<Longrightarrow> p = q @ c # rest \<Longrightarrow> q @ [c] \<in> set L"
proof (induction rest arbitrary: p rule: rev_induct)
  case Nil
  then show ?case by simp
next
  case (snoc d rest)
  then have bl: "butlast p = q @ c # rest" by (simp add: butlast_append)
  moreover have "butlast p \<in> set L"
    using L snoc.prems(1) bl unfolding path_list_def by (metis append_is_Nil_conv list.distinct(1))
  ultimately show ?case using snoc.IH by blast
qed

subsubsection \<open>The three branches of the search loop\<close>

lemma scan_stop_end: "scan_inv pr L q x (length L) \<Longrightarrow> insert_ok pr L (q @ [x]) (length L)"
  by (auto simp: scan_inv_def insert_ok_def)

lemma insert_okI:
  assumes L: "path_list pr L" and inv: "scan_inv pr L q x i" and i: "i < length L"
    and less: "path_less pr (q @ [x]) (L ! i)"
  shows "insert_ok pr L (q @ [x]) i"
proof -
  have "path_less pr (q @ [x]) (L ! t)" if "i \<le> t" "t < length L" for t
    using sorted_nth_less [OF L, of i t] that less path_less_trans by (cases "t = i") auto
  then show ?thesis using inv i by (simp add: insert_ok_def scan_inv_def)
qed

lemma scan_stop_foreign:
  assumes L: "path_list pr L" and inv: "scan_inv pr L q x i" and i: "i < length L"
    and foreign: "butlast (L ! i) \<noteq> q"
  shows "insert_ok pr L (q @ [x]) i"
proof -
  have qy: "path_less pr q (L ! i)" using inv i by (simp add: scan_inv_def)
  have "\<not> prefix q (L ! i)"
  proof
    assume "prefix q (L ! i)"
    then obtain zs where zs: "L ! i = q @ zs" by (auto elim: prefixE)
    with qy path_less_irrefl obtain c rest where y: "L ! i = q @ c # rest"
      by (cases zs) auto
    have "q @ [c] \<in> set L"
      using path_list_take [OF L _ y] i by simp
    then obtain t where t: "t < length L" "L ! t = q @ [c]" by (auto simp: in_set_conv_nth)
    have "q @ [c] \<notin> set (take i L)" using inv i y unfolding scan_inv_def by blast
    then have "i \<le> t" using t by (metis in_set_conv_nth length_take linorder_not_le min_less_iff_conj nth_take)
    moreover have "rest \<noteq> []" using foreign y by (auto simp: butlast_append)
    then have "path_less pr (q @ [c]) (L ! i)"
      unfolding y by (simp add: path_less_append_iff)
    then have "t < i" using sorted_index_less [OF L t(1) i] t(2) by simp
    ultimately show False by simp
  qed
  then have "path_less pr (q @ [x]) (L ! i)" using path_less_extend [OF qy] by simp
  then show ?thesis using insert_okI [OF L inv i] by simp
qed

lemma scan_stop_priority:
  assumes L: "path_list pr L" and inv: "scan_inv pr L q x i" and i: "i < length L"
    and sib: "L ! i = q @ [c]" and pr: "pr x c"
  shows "insert_ok pr L (q @ [x]) i"
  using insert_okI [OF L inv i] path_less_sibling [OF pr, of q "[]" "[]"] sib by simp

lemma scan_skip:
  assumes L: "path_list pr L" and inv: "scan_inv pr L q x i" and i: "i < length L"
    and sib: "L ! i = q @ [c]" and pr: "pr c x" and skip: "skip_ok L i j"
  shows "scan_inv pr L q x j"
proof -
  have ij: "i < j" "j \<le> length L"
    and below: "\<And>t. i \<le> t \<Longrightarrow> t < j \<Longrightarrow> prefix (q @ [c]) (L ! t)"
    and stop: "j < length L \<Longrightarrow> \<not> prefix (q @ [c]) (L ! j)"
    using skip sib unfolding skip_ok_def by (auto simp: le_less)
  have less: "path_less pr (L ! t) (q @ [x])" if "t < j" for t
  proof (cases "t < i")
    case True
    then show ?thesis using inv by (simp add: scan_inv_def)
  next
    case False
    then have "prefix (q @ [c]) (L ! t)" using below that by simp
    then obtain rest where "L ! t = q @ c # rest" by (auto elim!: prefixE)
    then show ?thesis using path_less_sibling [OF pr] by simp
  qed
  have cut: "q @ [d] \<notin> set (take j L)"
    if m: "j \<le> m" "m < length L" "L ! m = q @ d # rest" for m d rest
  proof
    assume "q @ [d] \<in> set (take j L)"
    then obtain t where t: "t < j" "L ! t = q @ [d]" using ij(2) by (auto simp: in_set_conv_nth)
    have "q @ [d] \<notin> set (take i L)"
      using inv m ij(1) unfolding scan_inv_def by (meson le_trans less_imp_le)
    then have "i \<le> t" using t ij by (metis in_set_conv_nth length_take linorder_not_le min_less_iff_conj nth_take less_imp_le_nat order_less_le_trans)
    then have "prefix (q @ [c]) (q @ [d])" using below [of t] t by simp
    then have cd: "d = c" by simp
    then have pm: "prefix (q @ [c]) (L ! m)" using m(3) by simp
    have j: "j < length L" using m by simp
    have "path_less pr (q @ [c]) (L ! j)" using sorted_nth_less [OF L ij(1) j] sib by simp
    moreover have "m \<noteq> j" using pm stop j by auto
    then have "path_less pr (L ! j) (L ! m)" using sorted_nth_less [OF L _ m(2), of j] m(1) by simp
    ultimately have "prefix (q @ [c]) (L ! j)" using prefix_convex pm by blast
    then show False using stop j by simp
  qed
  have "path_less pr q (L ! t)" if "j \<le> t" "t < length L" for t
    using inv that ij(1) by (simp add: scan_inv_def)
  then show ?thesis using less cut ij unfolding scan_inv_def by blast
qed

text \<open>Where the search starts: at the front, or right after the parent.\<close>

lemma scan_start_root:
  assumes "path_list pr L"
  shows "scan_inv pr L [] x 0"
  using assms unfolding scan_inv_def path_list_def by (auto simp: in_set_conv_nth)

lemma scan_start_child:
  assumes L: "path_list pr L" and k: "k < length L" and q: "L ! k = q"
  shows "scan_inv pr L q x (Suc k)"
proof -
  have less: "path_less pr (L ! t) (q @ [x])" if "t < Suc k" for t
  proof -
    have "path_less pr q (q @ [x])" using path_less_append_iff [of q "[]" "[x]"] by simp
    moreover have "t = k \<or> path_less pr (L ! t) q"
      using sorted_nth_less [OF L, of t k] that k q by (cases "t = k") auto
    ultimately show ?thesis using q path_less_trans by blast
  qed
  have cut: "q @ [c] \<notin> set (take (Suc k) L)" for c
  proof
    assume "q @ [c] \<in> set (take (Suc k) L)"
    then obtain t where t: "t < Suc k" "L ! t = q @ [c]" using k by (auto simp: in_set_conv_nth)
    have "path_less pr q (q @ [c])" using path_less_append_iff [of q "[]" "[c]"] by simp
    then have "k < t" using sorted_index_less [OF L k, of t] t k q by simp
    then show False using t by simp
  qed
  have more: "path_less pr q (L ! t)" if "Suc k \<le> t" "t < length L" for t
  proof -
    have "path_less pr (L ! k) (L ! t)" by (rule sorted_nth_less [OF L]) (use that in auto)
    then show ?thesis by (simp only: q)
  qed
  show ?thesis
    unfolding scan_inv_def using k less cut more by (intro conjI allI impI) auto
qed

lemma path_list_insert:
  assumes L: "path_list pr L" and ok: "insert_ok pr L p k" and p: "p \<noteq> []"
    and closed: "butlast p \<noteq> [] \<Longrightarrow> butlast p \<in> set L"
  shows "path_list pr (slices_insert L k p)"
proof -
  have "sorted_wrt (path_less pr) (slices_insert L k p)"
  proof (rule sorted_wrt_slices_insert)
    show "sorted_wrt (path_less pr) L" using L by (simp add: path_list_def)
  next
    fix y assume "y \<in> set (take k L)"
    then show "path_less pr y p" using ok by (auto simp: insert_ok_def in_set_conv_nth)
  next
    fix y assume "y \<in> set (drop k L)"
    then show "path_less pr p y" using ok by (auto simp: insert_ok_def in_set_conv_nth)
  qed
  then show ?thesis using L p closed by (auto simp: path_list_def)
qed

end

end
