(* ===== verification/Rga_Inv.thy ===== *)
theory Rga_Inv
  imports Rga Path_Order
begin

text \<open>
  The invariant of the RGA and its preservation: the index is exact, every node's chain of
  predecessors reaches the root, and the nodes are in the path order of \<open>Path_Order\<close>. Under
  it \<open>isDescendantOf\<close>, \<open>skipSubtree\<close> and the search of \<open>applyInsert\<close> return, and the
  order of the node list is a function of the set of nodes alone.
\<close>

subsection \<open>Paths\<close>

definition par_of :: "node list \<Rightarrow> NodeID \<rightharpoonup> NodeID option" where
  "par_of ns = map_of (map (\<lambda>n. (nd_id n, nd_after n)) ns)"

inductive is_path :: "(NodeID \<rightharpoonup> NodeID option) \<Rightarrow> NodeID \<Rightarrow> NodeID list \<Rightarrow> bool"
  for par where
  root: "par x = Some None \<Longrightarrow> is_path par x [x]"
| child: "par x = Some (Some p) \<Longrightarrow> is_path par p xs \<Longrightarrow> is_path par x (xs @ [x])"

inductive_cases is_path_elim: "is_path par x xs"

lemma is_path_last: "is_path par x xs \<Longrightarrow> xs \<noteq> [] \<and> last xs = x"
  by (induction rule: is_path.induct) auto

lemma is_path_unique: "is_path par x xs \<Longrightarrow> is_path par x ys \<Longrightarrow> xs = ys"
proof (induction arbitrary: ys rule: is_path.induct)
  case (root x)
  then show ?case by (auto elim: is_path_elim)
next
  case (child x p xs)
  from child.prems child.hyps(1) obtain zs where "ys = zs @ [x]" "is_path par p zs"
    by (auto elim: is_path_elim)
  then show ?case using child.IH by simp
qed

lemma is_path_mono: "is_path par x xs \<Longrightarrow> par \<subseteq>\<^sub>m par' \<Longrightarrow> is_path par' x xs"
proof (induction rule: is_path.induct)
  case (root x)
  then show ?case by (auto intro!: is_path.root simp: map_le_def dom_def)
next
  case (child x p xs)
  then have "par' x = Some (Some p)" by (auto simp: map_le_def dom_def)
  with child show ?case by (auto intro: is_path.child)
qed

lemma is_path_butlast:
  "is_path par x xs \<Longrightarrow>
     (par x = Some None \<and> butlast xs = []) \<or>
     (\<exists>p. par x = Some (Some p) \<and> is_path par p (butlast xs))"
  by (erule is_path.cases) simp_all

lemma is_path_take: "is_path par x xs \<Longrightarrow> xs = ys @ z # zs \<Longrightarrow> is_path par z (ys @ [z])"
proof (induction arbitrary: zs rule: is_path.induct)
  case (root x)
  then show ?case by (auto simp: Cons_eq_append_conv intro: is_path.root)
next
  case (child x p xs)
  show ?case
  proof (cases zs rule: rev_cases)
    case Nil
    with child.prems have "ys = xs" "z = x" by auto
    with child.hyps show ?thesis by (auto intro: is_path.child)
  next
    case (snoc zs' w)
    with child.prems have "xs = ys @ z # zs'" by auto
    then show ?thesis by (rule child.IH)
  qed
qed

subsection \<open>The invariant\<close>

definition index_ok :: "RGA \<Rightarrow> bool" where
  "index_ok r \<longleftrightarrow>
     (\<forall>x i. index r x = Some i \<longleftrightarrow> i < length (nodes r) \<and> nd_id (nodes r ! i) = x)"

definition node_paths :: "node list \<Rightarrow> NodeID list list \<Rightarrow> bool" where
  "node_paths ns L \<longleftrightarrow> list_all2 (\<lambda>n p. is_path (par_of ns) (nd_id n) p) ns L"

definition rga_wf :: "(uuid \<Rightarrow> string) \<Rightarrow> RGA \<Rightarrow> bool" where
  "rga_wf ustr r \<longleftrightarrow> index_ok r
     \<and> (\<exists>L. node_paths (nodes r) L \<and> path_list (nodeIDPriority ustr) L)"

definition node_ids :: "RGA \<Rightarrow> NodeID set" where
  "node_ids r = nd_id ` set (nodes r)"

lemma index_ok_distinct: "index_ok r \<Longrightarrow> distinct (map nd_id (nodes r))"
proof -
  assume ok: "index_ok r"
  have "i = j" if "i < length (nodes r)" "j < length (nodes r)"
    "nd_id (nodes r ! i) = nd_id (nodes r ! j)" for i j
  proof -
    have "index r (nd_id (nodes r ! j)) = Some i" "index r (nd_id (nodes r ! j)) = Some j"
      using ok that unfolding index_ok_def by simp_all
    then show ?thesis by simp
  qed
  then show ?thesis by (auto simp: distinct_conv_nth)
qed

lemma index_ok_None: "index_ok r \<Longrightarrow> index r x = None \<longleftrightarrow> x \<notin> node_ids r"
proof -
  assume ok: "index_ok r"
  have "(\<exists>i. index r x = Some i) \<longleftrightarrow> (\<exists>i < length (nodes r). nd_id (nodes r ! i) = x)"
    using ok by (simp add: index_ok_def)
  also have "\<dots> \<longleftrightarrow> x \<in> node_ids r"
    by (force simp: node_ids_def in_set_conv_nth image_iff)
  finally show ?thesis by (cases "index r x") auto
qed

lemma par_of_nth:
  assumes "distinct (map nd_id ns)" and "i < length ns"
  shows "par_of ns (nd_id (ns ! i)) = Some (nd_after (ns ! i))"
proof -
  have "(nd_id (ns ! i), nd_after (ns ! i)) \<in> set (map (\<lambda>n. (nd_id n, nd_after n)) ns)"
    using assms(2) by auto
  then show ?thesis
    using assms(1) unfolding par_of_def by (intro map_of_is_SomeI) (auto simp: comp_def)
qed

lemma dom_par_of: "dom (par_of ns) = nd_id ` set ns"
  by (auto simp: par_of_def dom_map_of_conv_image_fst image_image)

lemma is_path_dom: "is_path par x xs \<Longrightarrow> x \<in> dom par"
  by (auto elim: is_path_elim)

lemma node_paths_nth:
  "node_paths ns L \<Longrightarrow> length L = length ns \<and>
     (\<forall>i < length ns. is_path (par_of ns) (nd_id (ns ! i)) (L ! i))"
  by (auto simp: node_paths_def list_all2_conv_all_nth)

lemma node_pathsI:
  "length L = length ns \<Longrightarrow>
     (\<And>i. i < length ns \<Longrightarrow> is_path (par_of ns) (nd_id (ns ! i)) (L ! i)) \<Longrightarrow> node_paths ns L"
  by (auto simp: node_paths_def list_all2_conv_all_nth)

text \<open>Replacing a node by one with the same identifier and predecessor changes no path.\<close>

lemma par_of_list_update:
  assumes "nd_id n = nd_id (ns ! i)" and "nd_after n = nd_after (ns ! i)"
  shows "par_of (ns[i := n]) = par_of ns"
proof (cases "i < length ns")
  case True
  then have "map (\<lambda>n. (nd_id n, nd_after n)) (ns[i := n]) = map (\<lambda>n. (nd_id n, nd_after n)) ns"
    using assms by (simp add: map_update) (metis (no_types, lifting) list_update_id nth_map)
  then show ?thesis by (simp only: par_of_def)
next
  case False
  then show ?thesis by (simp add: list_update_beyond)
qed

subsection \<open>The recursive test and the skip return\<close>

lemma isDescendantOf_path:
  assumes ok: "index_ok r"
  shows "is_path (par_of (nodes r)) x p \<Longrightarrow> idx < length (nodes r) \<Longrightarrow> nd_id (nodes r ! idx) = x
    \<Longrightarrow> isDescendantOf r idx d = Some (d \<in> set (butlast p))"
proof (induction arbitrary: idx rule: is_path.induct)
  case (root x)
  then have "nd_after (nodes r ! idx) = None"
    using par_of_nth [OF index_ok_distinct [OF ok], of idx] by auto
  with root show ?case by (simp add: isDescendantOf.simps)
next
  case (child x q xs)
  then have after: "nd_after (nodes r ! idx) = Some q"
    using par_of_nth [OF index_ok_distinct [OF ok], of idx] by auto
  have "q \<in> node_ids r"
    using is_path_dom [OF child.hyps(2)] by (simp add: dom_par_of node_ids_def)
  then obtain j where j: "index r q = Some j"
    using index_ok_None [OF ok, of q] by auto
  then have jn: "j < length (nodes r)" "nd_id (nodes r ! j) = q"
    using ok by (auto simp: index_ok_def)
  have xs: "xs \<noteq> []" "last xs = q" using is_path_last [OF child.hyps(2)] by auto
  then have "set xs = insert q (set (butlast xs))"
    by (metis append_butlast_last_id insert_is_Un list.set(1) list.simps(15) set_append sup_commute)
  then show ?case
    using child.IH [OF jn] child.prems after j
    by (simp add: isDescendantOf.simps [of r idx])
qed

lemma skipLoop_ok:
  assumes tot: "\<And>t. t < length (nodes r) \<Longrightarrow> isDescendantOf r t d = Some (P t)"
  shows "idx \<le> length (nodes r) \<Longrightarrow> \<exists>j. skipLoop r d idx = Some j \<and> idx \<le> j
     \<and> j \<le> length (nodes r) \<and> (\<forall>t. idx \<le> t \<and> t < j \<longrightarrow> P t)
     \<and> (j < length (nodes r) \<longrightarrow> \<not> P j)"
proof (induction "length (nodes r) - idx" arbitrary: idx)
  case 0
  then show ?case by (auto simp: skipLoop.simps [of r d idx])
next
  case (Suc n)
  show ?case
  proof (cases "P idx")
    case False
    with Suc.hyps(2) tot [of idx] show ?thesis by (auto simp: skipLoop.simps [of r d idx])
  next
    case True
    have "n = length (nodes r) - Suc idx" "Suc idx \<le> length (nodes r)"
      using Suc.hyps(2) by auto
    from Suc.hyps(1) [OF this] obtain j where j: "skipLoop r d (Suc idx) = Some j" "Suc idx \<le> j"
      "j \<le> length (nodes r)" "\<forall>t. Suc idx \<le> t \<and> t < j \<longrightarrow> P t" "j < length (nodes r) \<longrightarrow> \<not> P j"
      by blast
    have "\<forall>t. idx \<le> t \<and> t < j \<longrightarrow> P t"
      using j(4) True by (metis le_eq_less_or_eq Suc_leI)
    moreover have "skipLoop r d idx = Some j"
      using True tot [of idx] \<open>Suc idx \<le> length (nodes r)\<close> j(1) by (simp add: skipLoop.simps [of r d idx])
    ultimately show ?thesis using j by auto
  qed
qed

lemma descendant_prefix:
  assumes "node_paths (nodes r) L" and "s < length (nodes r)" and "t < length (nodes r)"
  shows "nd_id (nodes r ! s) \<in> set (butlast (L ! t)) \<longleftrightarrow> prefix (L ! s) (L ! t) \<and> L ! s \<noteq> L ! t"
proof
  let ?d = "nd_id (nodes r ! s)" and ?par = "par_of (nodes r)"
  have ps: "is_path ?par ?d (L ! s)" and pt: "is_path ?par (nd_id (nodes r ! t)) (L ! t)"
    using node_paths_nth [OF assms(1)] assms(2,3) by auto
  {
    assume "?d \<in> set (butlast (L ! t))"
    then obtain ys zs where "butlast (L ! t) = ys @ ?d # zs" by (meson split_list)
    then have split: "L ! t = ys @ ?d # (zs @ [last (L ! t)])"
      using is_path_last [OF pt] by (metis append.assoc append_Cons append_butlast_last_id)
    then have "is_path ?par ?d (ys @ [?d])" using is_path_take [OF pt] by blast
    then have "L ! s = ys @ [?d]" using is_path_unique [OF ps] by blast
    then show "prefix (L ! s) (L ! t) \<and> L ! s \<noteq> L ! t"
      using split by (metis append.assoc append_Cons append_Nil append_self_conv prefixI
          append_is_Nil_conv not_Cons_self2)
  next
    assume "prefix (L ! s) (L ! t) \<and> L ! s \<noteq> L ! t"
    then obtain zs where zs: "L ! t = L ! s @ zs" "zs \<noteq> []" by (auto elim: prefixE)
    have "?d \<in> set (L ! s)" using is_path_last [OF ps] by (metis last_in_set)
    then show "?d \<in> set (butlast (L ! t))" using zs by (simp add: butlast_append)
  }
qed

subsection \<open>The contract of the identifiers' text\<close>

text \<open>
  What the ordering relies on from \<open>uuid.UUID.String\<close>: different identifiers have different
  texts. Then \<open>nodeIDPriority\<close> is a strict total order.
\<close>

locale uuid_text =
  fixes ustr :: "uuid \<Rightarrow> string"
  assumes ustr_inj: "inj ustr"

lemma nodeIDPriority_irrefl: "\<not> nodeIDPriority ustr a a"
  by (simp add: nodeIDPriority_def)

lemma nodeIDPriority_trans:
  "nodeIDPriority ustr a b \<Longrightarrow> nodeIDPriority ustr b c \<Longrightarrow> nodeIDPriority ustr a c"
  unfolding nodeIDPriority_def by (auto split: if_splits intro: go_less_trans)

lemma nodeIDPriority_total:
  assumes "inj ustr" and "a \<noteq> b"
  shows "nodeIDPriority ustr a b \<or> nodeIDPriority ustr b a"
proof (cases "nid_Timestamp a = nid_Timestamp b")
  case True
  with assms have "ustr (nid_ReplicaID a) \<noteq> ustr (nid_ReplicaID b)"
    by (auto simp: inj_eq)
  with True show ?thesis using go_less_linear by (auto simp: nodeIDPriority_def)
next
  case False
  then show ?thesis by (auto simp: nodeIDPriority_def)
qed

sublocale uuid_text \<subseteq> prio: strict_priority "nodeIDPriority ustr"
proof unfold_locales
  show "\<not> nodeIDPriority ustr x x" for x by (rule nodeIDPriority_irrefl)
  show "nodeIDPriority ustr x y \<Longrightarrow> nodeIDPriority ustr y z \<Longrightarrow> nodeIDPriority ustr x z" for x y z
    by (rule nodeIDPriority_trans)
  show "x \<noteq> y \<Longrightarrow> nodeIDPriority ustr x y \<or> nodeIDPriority ustr y x" for x y
    by (rule nodeIDPriority_total [OF ustr_inj])
qed

subsection \<open>The search for the insertion point\<close>

text \<open>\<open>after_path r after q\<close>: \<open>q\<close> is the path of the predecessor an operation names.\<close>

definition after_path :: "RGA \<Rightarrow> NodeID option \<Rightarrow> NodeID list \<Rightarrow> bool" where
  "after_path r after q \<longleftrightarrow>
     (case after of None \<Rightarrow> q = [] | Some a \<Rightarrow> is_path (par_of (nodes r)) a q)"

lemma node_path_split:
  assumes "index_ok r" and "node_paths (nodes r) L" and "i < length (nodes r)"
  shows "L ! i = butlast (L ! i) @ [nd_id (nodes r ! i)]"
    and "after_path r (nd_after (nodes r ! i)) (butlast (L ! i))"
proof -
  have p: "is_path (par_of (nodes r)) (nd_id (nodes r ! i)) (L ! i)"
    using node_paths_nth [OF assms(2)] assms(3) by auto
  then show "L ! i = butlast (L ! i) @ [nd_id (nodes r ! i)]"
    using is_path_last [OF p] by (metis append_butlast_last_id)
  have "par_of (nodes r) (nd_id (nodes r ! i)) = Some (nd_after (nodes r ! i))"
    using par_of_nth [OF index_ok_distinct [OF assms(1)] assms(3)] .
  then show "after_path r (nd_after (nodes r ! i)) (butlast (L ! i))"
    using is_path_butlast [OF p] by (auto simp: after_path_def)
qed

lemma after_path_same:
  assumes "after_path r a p" and "after_path r b q"
  shows "sameAfter a b \<longleftrightarrow> p = q"
proof (cases a)
  case None
  then show ?thesis using assms
    by (cases b) (auto simp: after_path_def sameAfter_def dest: is_path_last)
next
  case (Some x)
  then show ?thesis using assms
    by (cases b) (auto simp: after_path_def sameAfter_def dest: is_path_last is_path_unique)
qed

context uuid_text
begin

lemma skipSubtree_ok:
  assumes ok: "index_ok r" and L: "node_paths (nodes r) L"
    and sorted: "path_list (nodeIDPriority ustr) L" and i: "i < length (nodes r)"
  shows "\<exists>j. skipSubtree r i = Some j \<and> skip_ok L i j"
proof -
  let ?d = "nd_id (nodes r ! i)"
  let ?P = "\<lambda>t. ?d \<in> set (butlast (L ! t))"
  have len: "length L = length (nodes r)" using node_paths_nth [OF L] by simp
  have "isDescendantOf r t ?d = Some (?P t)" if "t < length (nodes r)" for t
    using isDescendantOf_path [OF ok _ that refl] node_paths_nth [OF L] that by blast
  from skipLoop_ok [OF this, of "Suc i"] i obtain j where j: "skipLoop r ?d (Suc i) = Some j"
    "Suc i \<le> j" "j \<le> length (nodes r)" "\<forall>t. Suc i \<le> t \<and> t < j \<longrightarrow> ?P t"
    "j < length (nodes r) \<longrightarrow> \<not> ?P j" by auto
  have "prefix (L ! i) (L ! t)" if "i < t" "t < j" for t
    using j(3,4) that descendant_prefix [OF L i, of t] by auto
  moreover have "\<not> prefix (L ! i) (L ! j)" if "j < length L"
  proof -
    have "L ! i \<noteq> L ! j"
      using prio.path_list_distinct [OF sorted] j(2) that by (simp add: distinct_conv_nth)
    then show ?thesis using j(5) that len descendant_prefix [OF L i, of j] by simp
  qed
  ultimately have "skip_ok L i j" using j len by (auto simp: skip_ok_def)
  then show ?thesis using j(1) i by (auto simp: skipSubtree_def)
qed

lemma insertPos_ok:
  assumes ok: "index_ok r" and L: "node_paths (nodes r) L"
    and sorted: "path_list (nodeIDPriority ustr) L"
    and fresh: "op_NodeID op \<notin> node_ids r" and q: "after_path r (op_After op) q"
  shows "scan_inv (nodeIDPriority ustr) L q (op_NodeID op) i \<Longrightarrow>
    \<exists>k. insertPos ustr r op i = Some k
      \<and> insert_ok (nodeIDPriority ustr) L (q @ [op_NodeID op]) k"
proof (induction "length (nodes r) - i" arbitrary: i rule: less_induct)
  case less
  let ?pr = "nodeIDPriority ustr" and ?x = "op_NodeID op"
  note inv = less.prems
  have len: "length L = length (nodes r)" using node_paths_nth [OF L] by simp
  show ?case
  proof (cases "i < length (nodes r)")
    case False
    then have "i = length L" using inv len by (simp add: scan_inv_def)
    with inv have "insert_ok ?pr L (q @ [?x]) i" using prio.scan_stop_end [of L q ?x] by simp
    with False show ?thesis by (auto simp: insertPos.simps)
  next
    case i: True
    let ?e = "nodes r ! i"
    note split = node_path_split [OF ok L i]
    have same: "sameAfter (nd_after ?e) (op_After op) \<longleftrightarrow> butlast (L ! i) = q"
      using after_path_same [OF split(2) q] .
    show ?thesis
    proof (cases "butlast (L ! i) = q")
      case False
      then show ?thesis
        using prio.scan_stop_foreign [OF sorted inv] i len same
        by (auto simp: insertPos.simps [of ustr r op i])
    next
      case sib: True
      have Li: "L ! i = q @ [nd_id ?e]" using split(1) sib by simp
      have ne: "nd_id ?e \<noteq> ?x" using fresh i by (metis imageI node_ids_def nth_mem)
      show ?thesis
      proof (cases "?pr ?x (nd_id ?e)")
        case True
        then show ?thesis
          using prio.scan_stop_priority [OF sorted inv _ Li] i len same sib
          by (auto simp: insertPos.simps [of ustr r op i] Let_def)
      next
        case False
        then have pr: "?pr (nd_id ?e) ?x" using prio.pr_total [OF ne] by simp
        obtain j where j: "skipSubtree r i = Some j" "skip_ok L i j"
          using skipSubtree_ok [OF ok L sorted i] by blast
        have inv': "scan_inv ?pr L q ?x j"
          using prio.scan_skip [OF sorted inv _ Li pr j(2)] i len by simp
        have "length (nodes r) - j < length (nodes r) - i"
          using j(2) i by (auto simp: skip_ok_def)
        from less.hyps [OF this inv'] show ?thesis
          using i same sib False j(1) by (auto simp: insertPos.simps [of ustr r op i] Let_def)
      qed
    qed
  qed
qed

end

subsection \<open>Inserting a node\<close>

lemma reindex_apply:
  "distinct (map nd_id ns) \<Longrightarrow>
     reindex ns k m x = Some i \<longleftrightarrow>
       (\<exists>j < length ns. nd_id (ns ! j) = x \<and> i = k + j) \<or>
       (x \<notin> nd_id ` set ns \<and> m x = Some i)"
proof (induction ns arbitrary: k m)
  case Nil
  then show ?case by simp
next
  case (Cons n ns)
  have ex: "(\<exists>j < Suc (length ns). Q j) \<longleftrightarrow> Q 0 \<or> (\<exists>j < length ns. Q (Suc j))" for Q
    using less_Suc_eq_0_disj by auto
  from Cons show ?case by (auto simp: ex)
qed

lemma par_of_insert:
  assumes "nd_id n \<notin> nd_id ` set ns" and "distinct (map nd_id ns)"
  shows "par_of ns \<subseteq>\<^sub>m par_of (slices_insert ns k n)"
    and "par_of (slices_insert ns k n) (nd_id n) = Some (nd_after n)"
proof -
  let ?f = "\<lambda>n. (nd_id n, nd_after n)"
  have d: "distinct (map fst (map ?f (slices_insert ns k n)))"
    using assms by (simp add: map_slices_insert comp_def)
  have dn: "distinct (map fst (map ?f ns))" using assms(2) by (simp add: comp_def)
  have in_new: "par_of (slices_insert ns k n) x = Some y"
    if "(x, y) \<in> set (map ?f (slices_insert ns k n))" for x y
    unfolding par_of_def using map_of_is_SomeI [OF d that] .
  then show "par_of (slices_insert ns k n) (nd_id n) = Some (nd_after n)" by simp
  show "par_of ns \<subseteq>\<^sub>m par_of (slices_insert ns k n)"
  proof (unfold map_le_def, rule ballI)
    fix x assume "x \<in> dom (par_of ns)"
    then obtain y where y: "par_of ns x = Some y" by auto
    then have "(x, y) \<in> set (map ?f ns)" unfolding par_of_def by (rule map_of_SomeD)
    then have "par_of (slices_insert ns k n) x = Some y" by (intro in_new) auto
    with y show "par_of ns x = par_of (slices_insert ns k n) x" by simp
  qed
qed

lemma nth_slices_insert:
  "k \<le> length xs \<Longrightarrow> i \<le> length xs \<Longrightarrow>
     slices_insert xs k x ! i = (if i < k then xs ! i else if i = k then x else xs ! (i - 1))"
  by (auto simp: slices_insert_def nth_append nth_Cons')

lemma index_ok_insert:
  assumes ok: "index_ok r" and fresh: "nd_id n \<notin> node_ids r" and k: "k \<le> length (nodes r)"
    and ns: "ns = slices_insert (nodes r) k n"
  shows "index_ok (r\<lparr>nodes := ns, index := reindex (drop k ns) k (index r)\<rparr>)"
proof -
  have d: "distinct (map nd_id ns)"
    using index_ok_distinct [OF ok] fresh by (simp add: ns map_slices_insert node_ids_def)
  then have dd: "distinct (map nd_id (drop k ns))" by (simp add: drop_map [symmetric])
  have len: "length ns = Suc (length (nodes r))" by (simp add: ns)
  have ids: "x \<in> nd_id ` set (drop k ns) \<longleftrightarrow> (\<exists>j. k \<le> j \<and> j < length ns \<and> nd_id (ns ! j) = x)" for x
  proof
    assume "x \<in> nd_id ` set (drop k ns)"
    then obtain t where t: "t < length (drop k ns)" "nd_id (drop k ns ! t) = x"
      by (auto simp: in_set_conv_nth)
    then have "k \<le> k + t" "k + t < length ns" "nd_id (ns ! (k + t)) = x" by auto
    then show "\<exists>j. k \<le> j \<and> j < length ns \<and> nd_id (ns ! j) = x" by blast
  next
    assume "\<exists>j. k \<le> j \<and> j < length ns \<and> nd_id (ns ! j) = x"
    then obtain j where j: "k \<le> j" "j < length ns" "nd_id (ns ! j) = x" by blast
    then have "ns ! j = drop k ns ! (j - k)" "j - k < length (drop k ns)" by auto
    then show "x \<in> nd_id ` set (drop k ns)" using j(3) by (metis imageI nth_mem)
  qed
  have old: "index r x = Some i \<longleftrightarrow> i < length (nodes r) \<and> nd_id (nodes r ! i) = x" for x i
    using ok by (simp add: index_ok_def)
  have low: "ns ! i = nodes r ! i" if "i < k" for i
    using that k by (simp add: ns nth_slices_insert)
  have high: "ns ! Suc i = nodes r ! i" if "k \<le> i" "i < length (nodes r)" for i
    using that k by (simp add: ns nth_slices_insert)
  have inj: "i = j" if "i < length ns" "j < length ns" "nd_id (ns ! i) = nd_id (ns ! j)" for i j
    using d that by (simp add: distinct_conv_nth) metis
  have "reindex (drop k ns) k (index r) x = Some i \<longleftrightarrow> i < length ns \<and> nd_id (ns ! i) = x" for x i
  proof (cases "k \<le> i")
    case True
    have "\<not> (x \<notin> nd_id ` set (drop k ns) \<and> index r x = Some i)"
      using old ids high [OF True] len True by (metis Suc_less_eq le_Suc_eq)
    moreover have "(\<exists>j < length (drop k ns). nd_id (drop k ns ! j) = x \<and> i = k + j)
        \<longleftrightarrow> i < length ns \<and> nd_id (ns ! i) = x"
      using True k len by (auto simp: le_iff_add)
    ultimately show ?thesis unfolding reindex_apply [OF dd] by blast
  next
    case False
    then have ik: "i < k" by simp
    have "x \<notin> nd_id ` set (drop k ns)" if "nd_id (ns ! i) = x"
      using ids [of x] inj [of i] that ik k len by (metis le_less_trans less_le_not_le nat_less_le)
    moreover have "index r x = Some i \<longleftrightarrow> i < length ns \<and> nd_id (ns ! i) = x"
      using old [of x i] low [OF ik] ik k len by auto
    ultimately have "x \<notin> nd_id ` set (drop k ns) \<and> index r x = Some i
        \<longleftrightarrow> i < length ns \<and> nd_id (ns ! i) = x" by blast
    with ik show ?thesis unfolding reindex_apply [OF dd] by auto
  qed
  then show ?thesis by (simp add: index_ok_def)
qed

lemma node_paths_insert:
  assumes L: "node_paths ns L" and fresh: "nd_id n \<notin> nd_id ` set ns"
    and d: "distinct (map nd_id ns)" and k: "k \<le> length ns"
    and p: "(nd_after n = None \<and> q = []) \<or> (\<exists>a. nd_after n = Some a \<and> is_path (par_of ns) a q)"
  shows "node_paths (slices_insert ns k n) (slices_insert L k (q @ [nd_id n]))"
proof (rule node_pathsI)
  let ?ns = "slices_insert ns k n" and ?L = "slices_insert L k (q @ [nd_id n])"
  have len: "length L = length ns" using node_paths_nth [OF L] by simp
  then show "length ?L = length ?ns" by simp
  fix i assume "i < length ?ns"
  then have i: "i \<le> length ns" by simp
  have old: "is_path (par_of ?ns) x xs" if "is_path (par_of ns) x xs" for x xs
    using is_path_mono [OF that par_of_insert(1) [OF fresh d]] .
  have new: "is_path (par_of ?ns) (nd_id n) (q @ [nd_id n])"
    using p par_of_insert(2) [OF fresh d, of k] old
    by (auto intro: is_path.root [of _ "nd_id n", simplified] is_path.child)
  have "is_path (par_of ns) (nd_id (ns ! j)) (L ! j)" if "j < length ns" for j
    using node_paths_nth [OF L] that by simp
  then show "is_path (par_of ?ns) (nd_id (?ns ! i)) (?L ! i)"
    using i k len new by (auto simp: nth_slices_insert intro!: old)
qed

text \<open>The effect of an insertion, on any replica whose invariant holds.\<close>

definition inserted :: "RGA \<Rightarrow> Operation \<Rightarrow> RGA \<Rightarrow> bool" where
  "inserted r op r' \<longleftrightarrow> set (nodes r') = insert (node_of_op op) (set (nodes r))
     \<and> clock r' = clock r \<and> seen r' = seen r \<and> pending r' = pending r"

context uuid_text
begin

lemma applyInsert_ok:
  assumes wf: "rga_wf ustr r" and fresh: "op_NodeID op \<notin> node_ids r"
    and after: "\<And>a. op_After op = Some a \<Longrightarrow> a \<in> node_ids r"
  shows "\<exists>r'. applyInsert ustr r op = Some r' \<and> rga_wf ustr r' \<and> inserted r op r'"
proof -
  let ?pr = "nodeIDPriority ustr" and ?x = "op_NodeID op" and ?n = "node_of_op op"
  from wf obtain L where ok: "index_ok r" and L: "node_paths (nodes r) L"
    and sorted: "path_list ?pr L" by (auto simp: rga_wf_def)
  have len: "length L = length (nodes r)" using node_paths_nth [OF L] by simp
  note d = index_ok_distinct [OF ok]
  have "\<exists>q. after_path r (op_After op) q \<and> scan_inv ?pr L q ?x (startIdx r op)
      \<and> (q \<noteq> [] \<longrightarrow> q \<in> set L)"
  proof (cases "op_After op")
    case None
    then show ?thesis using prio.scan_start_root [OF sorted]
      by (auto simp: after_path_def startIdx_def)
  next
    case (Some a)
    then obtain k where k: "index r a = Some k" using after index_ok_None [OF ok, of a] by auto
    then have kn: "k < length (nodes r)" "nd_id (nodes r ! k) = a" using ok by (auto simp: index_ok_def)
    then have "is_path (par_of (nodes r)) a (L ! k)" using node_paths_nth [OF L] by auto
    moreover have "scan_inv ?pr L (L ! k) ?x (startIdx r op)"
      using prio.scan_start_child [OF sorted, of k] kn len Some k by (simp add: startIdx_def)
    ultimately show ?thesis using Some kn len by (auto simp: after_path_def)
  qed
  then obtain q where q: "after_path r (op_After op) q" "scan_inv ?pr L q ?x (startIdx r op)"
    "q \<noteq> [] \<longrightarrow> q \<in> set L" by blast
  obtain k where k: "insertPos ustr r op (startIdx r op) = Some k"
    "insert_ok ?pr L (q @ [?x]) k"
    using insertPos_ok [OF ok L sorted fresh q(1,2)] by blast
  have kle: "k \<le> length (nodes r)" using k(2) len by (simp add: insert_ok_def)
  define ns where "ns = slices_insert (nodes r) k ?n"
  define r' where "r' = r\<lparr>nodes := ns, index := reindex (drop k ns) k (index r)\<rparr>"
  have "applyInsert ustr r op = Some r'"
    using k(1) kle by (simp add: applyInsert_def r'_def ns_def Let_def)
  moreover have "index_ok r'"
    unfolding r'_def by (rule index_ok_insert [OF ok _ kle ns_def])
      (use fresh in \<open>simp add: node_of_op_def\<close>)
  moreover have "node_paths ns (slices_insert L k (q @ [?x]))"
    using node_paths_insert [OF L _ d kle, of ?n q] fresh q(1)
    by (auto simp: ns_def node_of_op_def node_ids_def after_path_def split: option.splits)
  moreover have "path_list ?pr (slices_insert L k (q @ [?x]))"
    using prio.path_list_insert [OF sorted k(2)] q(3) by simp
  moreover have "inserted r op r'" by (simp add: inserted_def r'_def ns_def)
  ultimately show ?thesis by (auto simp: rga_wf_def r'_def)
qed

end

subsection \<open>Deleting a node\<close>

definition mark_deleted :: "NodeID \<Rightarrow> node \<Rightarrow> node" where
  "mark_deleted i n = (if nd_id n = i then n\<lparr>nd_deleted := True\<rparr> else n)"

lemma mark_deleted_sel [simp]:
  "nd_id (mark_deleted i n) = nd_id n" "nd_after (mark_deleted i n) = nd_after n"
  "nd_value (mark_deleted i n) = nd_value n"
  "nd_authenticated (mark_deleted i n) = nd_authenticated n"
  "nd_deleted (mark_deleted i n) \<longleftrightarrow> nd_id n = i \<or> nd_deleted n"
  by (auto simp: mark_deleted_def)

lemma par_of_mark_deleted: "par_of (map (mark_deleted i) ns) = par_of ns"
  by (simp add: par_of_def comp_def)

lemma applyDelete_ok:
  assumes wf: "rga_wf ustr r" and present: "op_NodeID op \<in> node_ids r"
  shows "\<exists>r'. applyDelete r op = Some r' \<and> rga_wf ustr r'
    \<and> nodes r' = map (mark_deleted (op_NodeID op)) (nodes r)
    \<and> clock r' = clock r \<and> seen r' = seen r \<and> pending r' = pending r"
proof -
  let ?x = "op_NodeID op"
  from wf have ok: "index_ok r" by (simp add: rga_wf_def)
  obtain i where i: "index r ?x = Some i" using present index_ok_None [OF ok, of ?x] by auto
  then have il: "i < length (nodes r)" "nd_id (nodes r ! i) = ?x" using ok by (auto simp: index_ok_def)
  have eq: "(nodes r)[i := (nodes r ! i)\<lparr>nd_deleted := True\<rparr>] = map (mark_deleted ?x) (nodes r)"
  proof (rule nth_equalityI)
    fix j assume j: "j < length ((nodes r)[i := (nodes r ! i)\<lparr>nd_deleted := True\<rparr>])"
    have "nd_id (nodes r ! j) = ?x \<longleftrightarrow> j = i"
      using index_ok_distinct [OF ok] il j unfolding distinct_conv_nth by (auto; metis)
    then show "(nodes r)[i := (nodes r ! i)\<lparr>nd_deleted := True\<rparr>] ! j = map (mark_deleted ?x) (nodes r) ! j"
      using j by (auto simp: nth_list_update mark_deleted_def)
  qed simp
  define r' where "r' = r\<lparr>nodes := map (mark_deleted ?x) (nodes r)\<rparr>"
  have "applyDelete r op = Some r'" using i il eq by (simp add: applyDelete_def r'_def)
  moreover have "index_ok r'" using ok unfolding index_ok_def r'_def by auto
  moreover have "node_paths (nodes r') L = node_paths (nodes r) L" for L
    by (simp add: r'_def node_paths_def par_of_mark_deleted list.rel_map)
  ultimately show ?thesis using wf unfolding rga_wf_def by (auto simp: r'_def)
qed

lemma map_mark_deleted_absent:
  "x \<notin> nd_id ` set ns \<Longrightarrow> map (mark_deleted x) ns = ns"
  by (induction ns) (auto simp: mark_deleted_def)

subsection \<open>The node list is determined by the set of its nodes\<close>

lemma par_of_same_set:
  assumes "distinct (map nd_id ns)" and "distinct (map nd_id ms)" and "set ns = set ms"
  shows "par_of ns = par_of ms"
proof
  fix x
  let ?f = "\<lambda>n. (nd_id n, nd_after n)"
  have d: "distinct (map fst (map ?f ns))" "distinct (map fst (map ?f ms))"
    using assms(1,2) by (simp_all add: comp_def)
  have "set (map ?f ns) = set (map ?f ms)" using assms(3) by simp
  then have "map_of (map ?f ns) x = Some y \<longleftrightarrow> map_of (map ?f ms) x = Some y" for y
    by (simp only: map_of_eq_Some_iff [OF d(1)] map_of_eq_Some_iff [OF d(2)])
  then show "par_of ns x = par_of ms x" unfolding par_of_def by (rule option_eqI)
qed

definition node_before :: "(uuid \<Rightarrow> string) \<Rightarrow> (NodeID \<rightharpoonup> NodeID option) \<Rightarrow> node \<Rightarrow> node \<Rightarrow> bool" where
  "node_before ustr par m n \<longleftrightarrow>
     (\<exists>p q. is_path par (nd_id m) p \<and> is_path par (nd_id n) q
        \<and> path_less (nodeIDPriority ustr) p q)"

lemma rga_wf_sorted: "rga_wf ustr r \<Longrightarrow> sorted_wrt (node_before ustr (par_of (nodes r))) (nodes r)"
proof -
  assume "rga_wf ustr r"
  then obtain L where L: "node_paths (nodes r) L" "path_list (nodeIDPriority ustr) L"
    by (auto simp: rga_wf_def)
  then show ?thesis
    using node_paths_nth [OF L(1)] unfolding path_list_def sorted_wrt_iff_nth_less node_before_def
    by (metis order.strict_trans)
qed

context uuid_text
begin

lemma rga_wf_unique:
  assumes wf: "rga_wf ustr r" "rga_wf ustr r'" and same: "set (nodes r) = set (nodes r')"
  shows "nodes r = nodes r'" and "index r = index r'"
proof -
  have ok: "index_ok r" "index_ok r'" using wf by (auto simp: rga_wf_def)
  have par: "par_of (nodes r) = par_of (nodes r')"
    by (rule par_of_same_set) (use ok same in \<open>auto intro: index_ok_distinct\<close>)
  let ?R = "node_before ustr (par_of (nodes r))"
  show eq: "nodes r = nodes r'"
  proof (rule sorted_wrt_same_set_eq [OF rga_wf_sorted [OF wf(1)] _ same])
    show "sorted_wrt ?R (nodes r')" using rga_wf_sorted [OF wf(2)] par by simp
    show "\<not> ?R n n" for n
      unfolding node_before_def using is_path_unique prio.path_less_irrefl by metis
    show "?R m n \<Longrightarrow> \<not> ?R n m" for m n
      unfolding node_before_def using is_path_unique prio.path_less_asym by metis
  qed
  show "index r = index r'"
  proof
    fix x
    have "index r x = Some i \<longleftrightarrow> index r' x = Some i" for i
      using ok eq unfolding index_ok_def by simp
    then show "index r x = index r' x" by (rule option_eqI)
  qed
qed

end

end
