(* ===== verification/Rga_Conv.thy ===== *)
theory Rga_Conv
  imports Rga_Inv "HOL-Library.Multiset"
begin

text \<open>
  What a replica's state is after any sequence of received operations: an abstract
  specification (\<open>rga_state\<close>) that depends on the set of operations only, the proof that
  \<open>Apply\<close> and its buffer implement it, and strong eventual consistency as a consequence.
\<close>

subsection \<open>The specification\<close>

abbreviation is_ins :: "Operation \<Rightarrow> bool" where
  "is_ins op \<equiv> op_OpType op = OpInsert"

abbreviation is_del :: "Operation \<Rightarrow> bool" where
  "is_del op \<equiv> op_OpType op = OpDelete"

lemma op_types [simp]: "OpInsert \<noteq> OpDelete" "OpDelete \<noteq> OpInsert"
  by (simp_all add: OpInsert_def OpDelete_def)

text \<open>Two different insertions never carry the same node identifier.\<close>

definition uniq_inserts :: "Operation set \<Rightarrow> bool" where
  "uniq_inserts S \<longleftrightarrow> inj_on op_NodeID {op \<in> S. is_ins op}"

text \<open>The identifiers whose whole chain of predecessors has been received.\<close>

inductive deliverable :: "Operation set \<Rightarrow> NodeID \<Rightarrow> bool" for S where
  root: "op \<in> S \<Longrightarrow> is_ins op \<Longrightarrow> op_After op = None \<Longrightarrow> deliverable S (op_NodeID op)"
| child: "op \<in> S \<Longrightarrow> is_ins op \<Longrightarrow> op_After op = Some a \<Longrightarrow> deliverable S a
    \<Longrightarrow> deliverable S (op_NodeID op)"

lemma deliverable_mono: "deliverable S x \<Longrightarrow> S \<subseteq> T \<Longrightarrow> deliverable T x"
  by (induction rule: deliverable.induct) (auto intro: deliverable.intros)

text \<open>The node an applied insertion leaves, given the applied deletions.\<close>

definition final_node :: "Operation set \<Rightarrow> Operation \<Rightarrow> node" where
  "final_node A op =
     (node_of_op op)\<lparr>nd_deleted := (\<exists>d \<in> A. is_del d \<and> op_NodeID d = op_NodeID op)\<rparr>"

lemma final_node_sel [simp]:
  "nd_id (final_node A op) = op_NodeID op" "nd_after (final_node A op) = op_After op"
  by (simp_all add: final_node_def node_of_op_def)

text \<open>\<open>rga_rel A r\<close>: exactly the operations \<open>A\<close> have been applied to the node list.\<close>

definition rga_rel :: "(uuid \<Rightarrow> string) \<Rightarrow> Operation set \<Rightarrow> RGA \<Rightarrow> bool" where
  "rga_rel ustr A r \<longleftrightarrow> rga_wf ustr r
     \<and> set (nodes r) = final_node A ` {op \<in> A. is_ins op}
     \<and> (\<forall>d \<in> A. is_del d \<longrightarrow> op_NodeID d \<in> node_ids r)"

text \<open>An operation whose predecessor or target is not in the list.\<close>

definition blocked :: "RGA \<Rightarrow> Operation \<Rightarrow> bool" where
  "blocked r op \<longleftrightarrow>
     (is_ins op \<and> (\<exists>a. op_After op = Some a \<and> a \<notin> node_ids r))
     \<or> (is_del op \<and> op_NodeID op \<notin> node_ids r)"

definition rga_state :: "(uuid \<Rightarrow> string) \<Rightarrow> Operation set \<Rightarrow> RGA \<Rightarrow> bool" where
  "rga_state ustr S r \<longleftrightarrow>
     (\<exists>A. rga_rel ustr A r \<and> A \<inter> set (pending r) = {} \<and> distinct (pending r)
        \<and> (\<forall>op \<in> set (pending r). blocked r op)
        \<and> A \<union> set (pending r) = {op \<in> S. is_ins op \<or> is_del op})
     \<and> seen r = op_RequestID ` S"

lemma rga_rel_ids: "rga_rel ustr A r \<Longrightarrow> node_ids r = op_NodeID ` {op \<in> A. is_ins op}"
  by (auto simp: rga_rel_def node_ids_def image_image)

lemma rga_rel_wf: "rga_rel ustr A r \<Longrightarrow> rga_wf ustr r"
  by (simp add: rga_rel_def)

lemma rga_rel_index: "rga_rel ustr A r \<Longrightarrow> index r x = None \<longleftrightarrow> x \<notin> node_ids r"
  using index_ok_None by (auto simp: rga_rel_def rga_wf_def)

subsection \<open>One applied operation\<close>

context uuid_text
begin

lemma rga_rel_insert:
  assumes rel: "rga_rel ustr A r" and ins: "is_ins op" and new: "op \<notin> A"
    and uniq: "uniq_inserts (insert op A)" and free: "\<not> blocked r op"
  shows "\<exists>r'. applyInsert ustr r op = Some r' \<and> rga_rel ustr (insert op A) r' \<and> inserted r op r'"
proof -
  have fresh: "op_NodeID op \<notin> node_ids r"
    using uniq ins new unfolding rga_rel_ids [OF rel] uniq_inserts_def inj_on_def by blast
  have "\<And>a. op_After op = Some a \<Longrightarrow> a \<in> node_ids r" using free ins by (auto simp: blocked_def)
  from applyInsert_ok [OF rga_rel_wf [OF rel] fresh this] obtain r' where
    r': "applyInsert ustr r op = Some r'" "rga_wf ustr r'" "inserted r op r'" by blast
  have "final_node (insert op A) o' = final_node A o'" for o'
    using ins by (auto simp: final_node_def)
  moreover have "final_node A op = node_of_op op"
    using rel fresh unfolding rga_rel_def final_node_def by (auto simp: node_of_op_def)
  moreover have "{o' \<in> insert op A. is_ins o'} = insert op {o' \<in> A. is_ins o'}" using ins by auto
  ultimately have "set (nodes r') = final_node (insert op A) ` {o' \<in> insert op A. is_ins o'}"
    using r'(3) rel by (simp add: inserted_def rga_rel_def)
  moreover have "node_ids r \<subseteq> node_ids r'" using r'(3) by (auto simp: inserted_def node_ids_def)
  ultimately show ?thesis using r' rel ins by (auto simp: rga_rel_def)
qed

end

lemma final_node_delete:
  assumes "is_del op"
  shows "final_node (insert op A) o' = mark_deleted (op_NodeID op) (final_node A o')"
  using assms by (auto simp: final_node_def mark_deleted_def node_of_op_def)

lemma rga_rel_delete:
  assumes rel: "rga_rel ustr A r" and del: "is_del op" and free: "\<not> blocked r op"
  shows "\<exists>r'. applyDelete r op = Some r' \<and> rga_rel ustr (insert op A) r'
    \<and> clock r' = clock r \<and> seen r' = seen r \<and> pending r' = pending r \<and> node_ids r' = node_ids r"
proof -
  have present: "op_NodeID op \<in> node_ids r" using free del by (auto simp: blocked_def)
  from applyDelete_ok [OF rga_rel_wf [OF rel] present] obtain r' where
    r': "applyDelete r op = Some r'" "rga_wf ustr r'"
      "nodes r' = map (mark_deleted (op_NodeID op)) (nodes r)"
      "clock r' = clock r" "seen r' = seen r" "pending r' = pending r" by blast
  have ids: "node_ids r' = node_ids r" by (simp add: node_ids_def r'(3) image_image)
  have "{o' \<in> insert op A. is_ins o'} = {o' \<in> A. is_ins o'}" using del by auto
  then have "set (nodes r') = final_node (insert op A) ` {o' \<in> insert op A. is_ins o'}"
    using rel by (simp add: r'(3) rga_rel_def image_image final_node_delete [OF del])
  then have "rga_rel ustr (insert op A) r'"
    using r'(2) rel del present unfolding rga_rel_def ids by auto
  with r' ids show ?thesis by blast
qed

subsection \<open>Fields the node list does not depend on\<close>

lemma node_ids_update [simp]:
  "node_ids (r\<lparr>pending := p\<rparr>) = node_ids r" "node_ids (r\<lparr>seen := s\<rparr>) = node_ids r"
  "node_ids (r\<lparr>clock := c\<rparr>) = node_ids r"
  by (simp_all add: node_ids_def)

lemma rga_wf_update [simp]:
  "rga_wf ustr (r\<lparr>pending := p\<rparr>) = rga_wf ustr r" "rga_wf ustr (r\<lparr>seen := s\<rparr>) = rga_wf ustr r"
  "rga_wf ustr (r\<lparr>clock := c\<rparr>) = rga_wf ustr r"
  by (simp_all add: rga_wf_def index_ok_def)

lemma rga_rel_update [simp]:
  "rga_rel ustr A (r\<lparr>pending := p\<rparr>) = rga_rel ustr A r"
  "rga_rel ustr A (r\<lparr>seen := s\<rparr>) = rga_rel ustr A r"
  "rga_rel ustr A (r\<lparr>clock := c\<rparr>) = rga_rel ustr A r"
  by (simp_all add: rga_rel_def)

lemma blocked_update [simp]:
  "blocked (r\<lparr>pending := p\<rparr>) op = blocked r op" "blocked (r\<lparr>seen := s\<rparr>) op = blocked r op"
  "blocked (r\<lparr>clock := c\<rparr>) op = blocked r op"
  by (simp_all add: blocked_def)

lemma blocked_ins_iff:
  "rga_rel ustr A r \<Longrightarrow> is_ins op \<Longrightarrow>
     (case op_After op of None \<Rightarrow> False | Some a \<Rightarrow> index r a = None) \<longleftrightarrow> blocked r op"
  by (auto simp: blocked_def rga_rel_index split: option.splits)

lemma blocked_del_iff:
  "rga_rel ustr A r \<Longrightarrow> is_del op \<Longrightarrow> index r (op_NodeID op) = None \<longleftrightarrow> blocked r op"
  by (auto simp: blocked_def rga_rel_index)

lemma uniq_inserts_subset: "uniq_inserts S \<Longrightarrow> T \<subseteq> S \<Longrightarrow> uniq_inserts T"
  unfolding uniq_inserts_def by (erule inj_on_subset) auto

subsection \<open>The buffer\<close>

text \<open>What may be assumed of a buffer \<open>P\<close> while the operations \<open>A\<close> are applied.\<close>

definition buffer_ok :: "Operation set \<Rightarrow> Operation list \<Rightarrow> bool" where
  "buffer_ok A P \<longleftrightarrow> distinct P \<and> A \<inter> set P = {} \<and> uniq_inserts (A \<union> set P)
     \<and> (\<forall>op \<in> set P. is_ins op \<or> is_del op)"

text \<open>The other fields are untouched.\<close>

definition same_rest :: "RGA \<Rightarrow> RGA \<Rightarrow> bool" where
  "same_rest r r' \<longleftrightarrow> clock r' = clock r \<and> seen r' = seen r"

lemma same_rest_trans: "same_rest r s \<Longrightarrow> same_rest s t \<Longrightarrow> same_rest r t"
  by (simp add: same_rest_def)

lemma same_rest_refl [simp]: "same_rest r r"
  by (simp add: same_rest_def)

text \<open>Moving the head of the buffer to the kept part, or to the applied operations.\<close>

lemma buffer_ok_keep: "buffer_ok A (rem @ op # ops) \<Longrightarrow> buffer_ok A ((rem @ [op]) @ ops)"
  by (simp add: buffer_ok_def)

lemma buffer_ok_apply:
  assumes "buffer_ok A (rem @ op # ops)"
  shows "buffer_ok (insert op A) (rem @ ops)" "op \<notin> A" "uniq_inserts (insert op A)"
proof -
  have sub: "insert op A \<union> set (rem @ ops) = A \<union> set (rem @ op # ops)" by auto
  have uniq: "uniq_inserts (insert op A \<union> set (rem @ ops))"
    using assms unfolding sub by (simp add: buffer_ok_def)
  then show "buffer_ok (insert op A) (rem @ ops)" using assms by (auto simp: buffer_ok_def)
  show "uniq_inserts (insert op A)" using uniq by (rule uniq_inserts_subset) auto
  show "op \<notin> A" using assms by (auto simp: buffer_ok_def)
qed

context uuid_text
begin

text \<open>One pass: what is applied, what is kept, and what it means that nothing was applied.\<close>

lemma flushPass_ok:
  assumes "rga_rel ustr A r" and "buffer_ok A (rem @ ops)"
  shows "\<exists>r' rem' app' A'. flushPass ustr ops r rem app = Some (r', rem', app')
    \<and> rga_rel ustr A' r' \<and> buffer_ok A' rem' \<and> A \<subseteq> A' \<and> A' \<union> set rem' = A \<union> set (rem @ ops)
    \<and> same_rest r r'
    \<and> (\<not> app' \<longrightarrow> r' = r \<and> A' = A \<and> rem' = rem @ ops \<and> (\<forall>op \<in> set ops. blocked r op))
    \<and> length rem' + (if app' \<and> \<not> app then 1 else 0) \<le> length rem + length ops
    \<and> (app \<longrightarrow> app')"
  using assms
proof (induction ops arbitrary: A r rem app)
  case Nil
  then show ?case by force
next
  case (Cons op ops)
  have known: "is_ins op \<or> is_del op" using Cons.prems(2) by (simp add: buffer_ok_def)
  show ?case
  proof (cases "blocked r op")
    case True
    have "flushPass ustr (op # ops) r rem app = flushPass ustr ops r (rem @ [op]) app"
      using known True blocked_ins_iff [OF Cons.prems(1)] blocked_del_iff [OF Cons.prems(1)] by auto
    with Cons.IH [OF Cons.prems(1) buffer_ok_keep [OF Cons.prems(2)], of app] True
    show ?thesis by fastforce
  next
    case False
    note app = buffer_ok_apply [OF Cons.prems(2)]
    have "\<exists>r1. flushPass ustr (op # ops) r rem app = flushPass ustr ops r1 rem True
        \<and> rga_rel ustr (insert op A) r1 \<and> same_rest r r1"
    proof (cases "is_ins op")
      case True
      from rga_rel_insert [OF Cons.prems(1) True app(2,3) False] obtain r1 where
        "applyInsert ustr r op = Some r1" "rga_rel ustr (insert op A) r1" "inserted r op r1" by blast
      then show ?thesis using True False blocked_ins_iff [OF Cons.prems(1) True]
        by (auto simp: inserted_def same_rest_def)
    next
      case False': False
      then have del: "is_del op" using known by simp
      from rga_rel_delete [OF Cons.prems(1) del False] obtain r1 where
        "applyDelete r op = Some r1" "rga_rel ustr (insert op A) r1" "same_rest r r1"
        by (auto simp: same_rest_def)
      then show ?thesis using del False blocked_del_iff [OF Cons.prems(1) del] by auto
    qed
    then obtain r1 where r1: "flushPass ustr (op # ops) r rem app = flushPass ustr ops r1 rem True"
      "rga_rel ustr (insert op A) r1" "same_rest r r1" by blast
    from Cons.IH [OF r1(2) app(1), of True] obtain r' rem' A' where
      *: "flushPass ustr ops r1 rem True = Some (r', rem', True)" "rga_rel ustr A' r'"
      "buffer_ok A' rem'" "insert op A \<subseteq> A'" "A' \<union> set rem' = insert op A \<union> set (rem @ ops)"
      "same_rest r1 r'" "length rem' \<le> length rem + length ops"
      by (elim exE conjE) (rule that, auto)
    have "A' \<union> set rem' = A \<union> set (rem @ op # ops)" using *(5) by auto
    moreover have "length rem' + 1 \<le> length rem + length (op # ops)" using *(7) by simp
    ultimately show ?thesis
      using r1(1) *(1-4) same_rest_trans [OF r1(3) *(6)]
      by (intro exI [of _ r'] exI [of _ rem'] exI [of _ True] exI [of _ A']) auto
  qed
qed

lemma flushPending_ok:
  "rga_rel ustr A r \<Longrightarrow> buffer_ok A (pending r) \<Longrightarrow>
    \<exists>r' A'. flushPending ustr r = Some r' \<and> rga_rel ustr A' r' \<and> buffer_ok A' (pending r')
      \<and> A \<subseteq> A' \<and> A' \<union> set (pending r') = A \<union> set (pending r)
      \<and> (\<forall>op \<in> set (pending r'). blocked r' op) \<and> same_rest r r'"
proof (induction "length (pending r)" arbitrary: A r rule: less_induct)
  case less
  have "buffer_ok A ([] @ pending r)" using less.prems(2) by simp
  from flushPass_ok [OF less.prems(1) this, of False] obtain r1 rem app A1 where
    1: "flushPass ustr (pending r) r [] False = Some (r1, rem, app)" "rga_rel ustr A1 r1"
    "buffer_ok A1 rem" "A \<subseteq> A1" "A1 \<union> set rem = A \<union> set (pending r)" "same_rest r r1"
    "\<not> app \<longrightarrow> r1 = r \<and> A1 = A \<and> rem = pending r \<and> (\<forall>op \<in> set (pending r). blocked r op)"
    "length rem + (if app then 1 else 0) \<le> length (pending r)" by auto
  let ?r = "r1\<lparr>pending := rem\<rparr>"
  show ?case
  proof (cases app)
    case False
    then have "flushPending ustr r = Some ?r" using 1(1) by (simp add: flushPending.simps)
    then show ?thesis using 1 False
      by (intro exI [of _ ?r] exI [of _ A1]) (auto simp: same_rest_def)
  next
    case True
    then have step: "flushPending ustr r = flushPending ustr ?r"
      using 1(1) by (simp add: flushPending.simps [of ustr r])
    have "length (pending ?r) < length (pending r)" using 1(8) True by simp
    from less.hyps [OF this, of A1] 1(2,3) obtain r' A' where
      2: "flushPending ustr ?r = Some r'" "rga_rel ustr A' r'" "buffer_ok A' (pending r')"
      "A1 \<subseteq> A'" "A' \<union> set (pending r') = A1 \<union> set rem"
      "\<forall>op \<in> set (pending r'). blocked r' op" "same_rest ?r r'" by auto
    moreover have "same_rest r r'" using 1(6) 2(7) by (simp add: same_rest_def)
    ultimately show ?thesis using 1(4,5) step
      by (intro exI [of _ r'] exI [of _ A']) auto
  qed
qed

end

subsection \<open>\<open>Apply\<close> implements the specification\<close>

lemma rga_state_New: "rga_state ustr {} (NewRGA rid)"
proof -
  have "rga_wf ustr (NewRGA rid)"
    by (auto simp: rga_wf_def NewRGA_def index_ok_def node_paths_def path_list_def)
  then have "rga_rel ustr {} (NewRGA rid)" by (simp add: rga_rel_def NewRGA_def)
  then show ?thesis by (auto simp: rga_state_def NewRGA_def)
qed

lemma rga_state_rel: "rga_state ustr S r \<Longrightarrow> \<exists>A. rga_rel ustr A r \<and> A \<subseteq> S"
  unfolding rga_state_def by blast

lemma rga_stateI:
  assumes "rga_rel ustr A r" and "buffer_ok A (pending r)"
    and "\<And>op. op \<in> set (pending r) \<Longrightarrow> blocked r op"
    and "A \<union> set (pending r) = {op \<in> S. is_ins op \<or> is_del op}" and "seen r = op_RequestID ` S"
  shows "rga_state ustr S r"
  using assms by (auto simp: rga_state_def buffer_ok_def)

lemma rga_state_buffer:
  assumes "rga_state ustr S r" and "uniq_inserts S"
  obtains A where "rga_rel ustr A r" "buffer_ok A (pending r)"
    "\<And>op. op \<in> set (pending r) \<Longrightarrow> blocked r op"
    "A \<union> set (pending r) = {op \<in> S. is_ins op \<or> is_del op}" "seen r = op_RequestID ` S"
proof -
  from assms(1) obtain A where A: "rga_rel ustr A r" "A \<inter> set (pending r) = {}"
    "distinct (pending r)" "\<forall>op \<in> set (pending r). blocked r op"
    "A \<union> set (pending r) = {op \<in> S. is_ins op \<or> is_del op}" "seen r = op_RequestID ` S"
    by (auto simp: rga_state_def)
  have "uniq_inserts (A \<union> set (pending r))"
    unfolding A(5) by (rule uniq_inserts_subset [OF assms(2)]) auto
  moreover have "\<forall>op \<in> set (pending r). is_ins op \<or> is_del op" using A(5) by blast
  ultimately have "buffer_ok A (pending r)" using A by (simp add: buffer_ok_def)
  then show ?thesis using that A by blast
qed

text \<open>Setting aside an operation that is blocked.\<close>

lemma buffer_ok_snoc:
  assumes "buffer_ok A P" and "uniq_inserts (insert op (A \<union> set P))" and "op \<notin> A \<union> set P"
    and "is_ins op \<or> is_del op"
  shows "buffer_ok A (P @ [op])"
  using assms by (auto simp: buffer_ok_def)

text \<open>Operations already applied stay unblocked; the kept ones stay blocked after a deletion.\<close>

lemma blocked_same_ids: "node_ids r' = node_ids r \<Longrightarrow> blocked r' op = blocked r op"
  by (simp add: blocked_def)

context uuid_text
begin

lemma Apply_ok:
  assumes st: "rga_state ustr S r" and uniq: "uniq_inserts (insert op S)"
    and new: "op_RequestID op \<notin> seen r"
  shows "\<exists>r'. Apply ustr r op = Some (r', True) \<and> rga_state ustr (insert op S) r'
    \<and> clock r' = Update (clock r) (nid_Timestamp (op_NodeID op))"
proof -
  define r1 where "r1 = r\<lparr>seen := insert (op_RequestID op) (seen r),
    clock := Update (clock r) (nid_Timestamp (op_NodeID op))\<rparr>"
  have "uniq_inserts S" using uniq by (rule uniq_inserts_subset) auto
  then obtain A where A: "rga_rel ustr A r" "buffer_ok A (pending r)"
    "\<And>op. op \<in> set (pending r) \<Longrightarrow> blocked r op"
    "A \<union> set (pending r) = {op \<in> S. is_ins op \<or> is_del op}" "seen r = op_RequestID ` S"
    using rga_state_buffer [OF st] by blast
  have r1: "rga_rel ustr A r1" "pending r1 = pending r" "\<And>o'. blocked r1 o' = blocked r o'"
    "seen r1 = op_RequestID ` insert op S" "clock r1 = Update (clock r) (nid_Timestamp (op_NodeID op))"
    using A by (simp_all add: r1_def)
  have notin: "op \<notin> A \<union> set (pending r)" using new A(4,5) by auto
  have uniq': "uniq_inserts (insert op (A \<union> set (pending r)))"
    using uniq by (rule uniq_inserts_subset) (use A(4) in auto)
  have unfold: "Apply ustr r op =
      (if is_ins op then (if blocked r1 op then Some (r1\<lparr>pending := pending r1 @ [op]\<rparr>, True)
         else do { r2 \<leftarrow> applyInsert ustr r1 op; r3 \<leftarrow> flushPending ustr r2; Some (r3, True) })
       else if is_del op then (if blocked r1 op then Some (r1\<lparr>pending := pending r1 @ [op]\<rparr>, True)
         else do { r2 \<leftarrow> applyDelete r1 op; Some (r2, True) })
       else Some (r1, True))"
    using new blocked_ins_iff [OF r1(1), of op] blocked_del_iff [OF r1(1), of op]
    by (simp add: Apply_def r1_def [symmetric] Let_def)
  consider "\<not> is_ins op" "\<not> is_del op" | "is_ins op \<or> is_del op" "blocked r1 op"
    | "is_ins op" "\<not> blocked r1 op" | "is_del op" "\<not> blocked r1 op" by blast
  then show ?thesis
  proof cases
    case 1
    have "rga_state ustr (insert op S) r1"
      by (rule rga_stateI [OF r1(1)]) (use A r1 1 in auto)
    then show ?thesis using unfold 1 r1(5) by auto
  next
    case 2
    let ?r = "r1\<lparr>pending := pending r1 @ [op]\<rparr>"
    have "rga_state ustr (insert op S) ?r"
      by (rule rga_stateI [of _ A])
        (use A r1 2 buffer_ok_snoc [OF A(2) uniq' notin] in auto)
    then show ?thesis using unfold 2 r1(5) by auto
  next
    case 3
    have "uniq_inserts (insert op A)" using uniq' by (rule uniq_inserts_subset) auto
    from rga_rel_insert [OF r1(1) 3(1) _ this 3(2)] notin obtain r2 where
      r2: "applyInsert ustr r1 op = Some r2" "rga_rel ustr (insert op A) r2" "inserted r1 op r2" by blast
    have p2: "pending r2 = pending r" using r2(3) r1(2) by (simp add: inserted_def)
    have "buffer_ok (insert op A) (pending r2)"
      using A(2) notin uniq' unfolding p2 by (auto simp: buffer_ok_def)
    from flushPending_ok [OF r2(2) this] obtain r3 A3 where
      r3: "flushPending ustr r2 = Some r3" "rga_rel ustr A3 r3" "buffer_ok A3 (pending r3)"
      "A3 \<union> set (pending r3) = insert op A \<union> set (pending r2)"
      "\<forall>op \<in> set (pending r3). blocked r3 op" "same_rest r2 r3" by blast
    have rest: "seen r3 = op_RequestID ` insert op S" "clock r3 = clock r1"
      using r3(6) r2(3) r1(4) by (simp_all add: same_rest_def inserted_def)
    have "A3 \<union> set (pending r3) = {o' \<in> insert op S. is_ins o' \<or> is_del o'}"
      unfolding r3(4) p2 using A(4) 3(1) by auto
    then have "rga_state ustr (insert op S) r3"
      using rga_stateI [OF r3(2,3)] r3(5) rest(1) by blast
    then show ?thesis using unfold 3 r2(1) r3(1) rest(2) r1(5) by auto
  next
    case 4
    from rga_rel_delete [OF r1(1) 4] obtain r2 where
      r2: "applyDelete r1 op = Some r2" "rga_rel ustr (insert op A) r2" "clock r2 = clock r1"
      "seen r2 = seen r1" "pending r2 = pending r1" "node_ids r2 = node_ids r1" by blast
    have "buffer_ok (insert op A) (pending r2)"
      using A(2) notin uniq' unfolding r2(5) r1(2) by (auto simp: buffer_ok_def)
    then have "rga_state ustr (insert op S) r2"
      by (rule rga_stateI [OF r2(2)])
        (use A r1 4 r2 blocked_same_ids [OF r2(6)] in auto)
    then show ?thesis using unfold 4 r2(1,3) r1(5) by auto
  qed
qed

end

subsection \<open>The clock\<close>

definition clock_spec :: "uuid \<Rightarrow> Operation set \<Rightarrow> LamportClock \<Rightarrow> bool" where
  "clock_spec rid S c \<longleftrightarrow> clk_replicaID c = rid
     \<and> clk_counter c = Max (insert 0 ((\<lambda>op. nid_Timestamp (op_NodeID op)) ` S))"

lemma clock_spec_Update:
  assumes "clock_spec rid S c" and "finite S"
  shows "clock_spec rid (insert op S) (Update c (nid_Timestamp (op_NodeID op)))"
proof -
  let ?ts = "\<lambda>op. nid_Timestamp (op_NodeID op)"
  define m where "m = Max (insert 0 (?ts ` S))"
  have eq: "Max (insert 0 (?ts ` insert op S)) = max (?ts op) m"
    using assms(2) by (simp add: m_def insert_commute [of 0])
  have "clk_counter c = m" "clk_replicaID c = rid" using assms(1) by (simp_all add: clock_spec_def m_def)
  then show ?thesis unfolding clock_spec_def eq by (auto simp: Update_def max_def)
qed

lemma clock_spec_unique: "clock_spec rid S c \<Longrightarrow> clock_spec rid S c' \<Longrightarrow> c = c'"
  by (simp add: clock_spec_def)

subsection \<open>Sequences of operations\<close>

context uuid_text
begin

lemma ApplyAll_ok:
  assumes "rga_state ustr S r" and "clock_spec rid S (clock r)" and "finite S"
    and "uniq_inserts (S \<union> set ops)" and "inj_on op_RequestID (S \<union> set ops)"
  shows "\<exists>r'. ApplyAll ustr ops r = Some r' \<and> rga_state ustr (S \<union> set ops) r'
    \<and> clock_spec rid (S \<union> set ops) (clock r')"
  using assms
proof (induction ops arbitrary: S r)
  case Nil
  then show ?case by simp
next
  case (Cons op ops)
  have S: "insert op S \<union> set ops = S \<union> set (op # ops)" by simp
  have "\<exists>r1 b. Apply ustr r op = Some (r1, b) \<and> rga_state ustr (insert op S) r1
      \<and> clock_spec rid (insert op S) (clock r1)"
  proof (cases "op_RequestID op \<in> seen r")
    case True
    then have "op_RequestID op \<in> op_RequestID ` S" using Cons.prems(1) by (simp add: rga_state_def)
    then have "op \<in> S" using Cons.prems(5) by (auto simp: inj_on_def)
    then show ?thesis using True Cons.prems(1,2)
      by (intro exI [of _ r] exI [of _ False]) (simp add: Apply_def insert_absorb)
  next
    case False
    have "uniq_inserts (insert op S)" using Cons.prems(4) by (rule uniq_inserts_subset) auto
    from Apply_ok [OF Cons.prems(1) this False] show ?thesis
      using clock_spec_Update [OF Cons.prems(2,3), of op] by auto
  qed
  then obtain r1 b where r1: "Apply ustr r op = Some (r1, b)" "rga_state ustr (insert op S) r1"
    "clock_spec rid (insert op S) (clock r1)" by blast
  from Cons.IH [OF r1(2,3)] Cons.prems(3-5) show ?case
    unfolding S by (auto simp: r1(1))
qed

lemma ApplyAll_New:
  assumes "uniq_inserts (set ops)" and "inj_on op_RequestID (set ops)"
  shows "\<exists>r. ApplyAll ustr ops (NewRGA rid) = Some r \<and> rga_state ustr (set ops) r
    \<and> clock_spec rid (set ops) (clock r)"
proof -
  have "clock_spec rid {} (clock (NewRGA rid))"
    by (simp add: clock_spec_def NewRGA_def NewLamportClock_def)
  from ApplyAll_ok [OF rga_state_New this] assms show ?thesis by simp
qed

end

subsection \<open>The state is a function of the set of operations\<close>

lemma rga_rel_path_deliverable:
  assumes rel: "rga_rel ustr A r"
  shows "is_path (par_of (nodes r)) x p \<Longrightarrow> deliverable A x"
proof (induction rule: is_path.induct)
  case (root x)
  then have "(x, None) \<in> (\<lambda>n. (nd_id n, nd_after n)) ` set (nodes r)"
    unfolding par_of_def using map_of_SomeD by fastforce
  then obtain op where "op \<in> A" "is_ins op" "op_NodeID op = x" "op_After op = None"
    using rel by (auto simp: rga_rel_def)
  then show ?case by (auto intro: deliverable.root)
next
  case (child x q xs)
  then have "(x, Some q) \<in> (\<lambda>n. (nd_id n, nd_after n)) ` set (nodes r)"
    unfolding par_of_def using map_of_SomeD by fastforce
  then obtain op where "op \<in> A" "is_ins op" "op_NodeID op = x" "op_After op = Some q"
    using rel by (auto simp: rga_rel_def)
  then show ?case using child.IH by (auto intro: deliverable.child)
qed

lemma rga_rel_ids_deliverable:
  assumes rel: "rga_rel ustr A r" and x: "x \<in> node_ids r"
  shows "deliverable A x"
proof -
  from rel obtain L where L: "node_paths (nodes r) L" by (auto simp: rga_rel_def rga_wf_def)
  from x obtain i where "i < length (nodes r)" "nd_id (nodes r ! i) = x"
    by (auto simp: node_ids_def in_set_conv_nth)
  then have "is_path (par_of (nodes r)) x (L ! i)" using node_paths_nth [OF L] by auto
  then show ?thesis by (rule rga_rel_path_deliverable [OF rel])
qed

lemma deliverable_in_list:
  assumes rel: "rga_rel ustr A r" and blk: "\<And>op. op \<in> set P \<Longrightarrow> blocked r op"
    and S: "A \<union> set P = {op \<in> S. is_ins op \<or> is_del op}"
  shows "deliverable S x \<Longrightarrow> x \<in> node_ids r"
proof (induction rule: deliverable.induct)
  case (root op)
  then have "\<not> blocked r op" by (auto simp: blocked_def)
  then have "op \<in> A" using S root blk by blast
  then show ?case using root rga_rel_ids [OF rel] by auto
next
  case (child op a)
  then have "\<not> blocked r op" by (auto simp: blocked_def)
  then have "op \<in> A" using S child blk by blast
  then show ?case using child rga_rel_ids [OF rel] by auto
qed

text \<open>Which operations have been applied, and what is left in the buffer.\<close>

lemma rga_state_applied:
  assumes rel: "rga_rel ustr A r" and buf: "buffer_ok A P"
    and blk: "\<And>op. op \<in> set P \<Longrightarrow> blocked r op"
    and S: "A \<union> set P = {op \<in> S. is_ins op \<or> is_del op}" and uniq: "uniq_inserts S"
  shows "A = {op \<in> S. (is_ins op \<or> is_del op) \<and> deliverable S (op_NodeID op)}" (is "A = ?D")
    and "node_ids r = {x. deliverable S x}"
proof -
  have "A \<subseteq> S" using S by auto
  then have sound: "deliverable S x" if "x \<in> node_ids r" for x
    using rga_rel_ids_deliverable [OF rel that] deliverable_mono by blast
  show ids: "node_ids r = {x. deliverable S x}"
    using sound deliverable_in_list [OF rel blk S] by auto
  have "deliverable S (op_NodeID op)" if "op \<in> A" for op
    using that S rel sound rga_rel_ids [OF rel] unfolding rga_rel_def by blast
  moreover have "op \<notin> set P" if op: "op \<in> ?D" for op
  proof
    assume "op \<in> set P"
    then have b: "blocked r op" by (rule blk)
    have "is_ins op" using b op ids by (auto simp: blocked_def)
    moreover from this b obtain a where a: "op_After op = Some a" "\<not> deliverable S a"
      using ids by (auto simp: blocked_def)
    have "deliverable S (op_NodeID op)" using op by simp
    then obtain o' where "o' \<in> S" "is_ins o'" "op_NodeID o' = op_NodeID op"
      "op_After o' = None \<or> (\<exists>a. op_After o' = Some a \<and> deliverable S a)"
      by (cases rule: deliverable.cases) auto
    moreover have "o' = op"
      using uniq calculation op unfolding uniq_inserts_def inj_on_def by blast
    ultimately show False using a by auto
  qed
  ultimately show "A = ?D" using S by blast
qed

context uuid_text
begin

lemma rga_state_unique:
  assumes st: "rga_state ustr S r" "rga_state ustr S r'" and uniq: "uniq_inserts S"
  shows "nodes r = nodes r' \<and> index r = index r' \<and> seen r = seen r'
    \<and> mset (pending r) = mset (pending r')"
proof -
  obtain A where A: "rga_rel ustr A r" "buffer_ok A (pending r)"
    "\<And>op. op \<in> set (pending r) \<Longrightarrow> blocked r op"
    "A \<union> set (pending r) = {op \<in> S. is_ins op \<or> is_del op}" "seen r = op_RequestID ` S"
    by (rule rga_state_buffer [OF st(1) uniq]) (rule that, auto)
  obtain B where B: "rga_rel ustr B r'" "buffer_ok B (pending r')"
    "\<And>op. op \<in> set (pending r') \<Longrightarrow> blocked r' op"
    "B \<union> set (pending r') = {op \<in> S. is_ins op \<or> is_del op}" "seen r' = op_RequestID ` S"
    by (rule rga_state_buffer [OF st(2) uniq]) (rule that, auto)
  have AB: "A = B"
    using rga_state_applied(1) [OF A(1-4) uniq] rga_state_applied(1) [OF B(1-4) uniq] by simp
  have "set (nodes r) = set (nodes r')" using A(1) B(1) AB by (simp add: rga_rel_def)
  then have eq: "nodes r = nodes r'" "index r = index r'"
    using rga_wf_unique [OF rga_rel_wf [OF A(1)] rga_rel_wf [OF B(1)]] by auto
  have "set (pending r) = set (pending r')"
    using A(2,4) B(2,4) AB unfolding buffer_ok_def by blast
  then have "mset (pending r) = mset (pending r')"
    using A(2) B(2) by (simp add: buffer_ok_def set_eq_iff_mset_eq_distinct)
  then show ?thesis using eq A(5) B(5) by simp
qed

text \<open>Two replicas that received the same operations, in any order and any number of times.\<close>

lemma ApplyAll_converges:
  assumes "set ops = set ops'" and "uniq_inserts (set ops)" and "inj_on op_RequestID (set ops)"
  shows "\<exists>r r'. ApplyAll ustr ops (NewRGA rid) = Some r \<and> ApplyAll ustr ops' (NewRGA rid) = Some r'
    \<and> r' = r\<lparr>pending := pending r'\<rparr> \<and> mset (pending r') = mset (pending r)"
proof -
  obtain r where r: "ApplyAll ustr ops (NewRGA rid) = Some r" "rga_state ustr (set ops) r"
    "clock_spec rid (set ops) (clock r)" using ApplyAll_New [OF assms(2,3)] by blast
  obtain r' where r': "ApplyAll ustr ops' (NewRGA rid) = Some r'" "rga_state ustr (set ops) r'"
    "clock_spec rid (set ops) (clock r')"
    using ApplyAll_New [of ops' rid] assms(2,3) unfolding assms(1) by blast
  note u = rga_state_unique [OF r(2) r'(2) assms(2)]
  have "r' = r\<lparr>pending := pending r'\<rparr>"
    by (rule RGA.equality) (use u clock_spec_unique [OF r(3) r'(3)] in auto)
  then show ?thesis using r(1) r'(1) u by (intro exI [of _ r] exI [of _ r'] conjI) simp_all
qed

text \<open>The contents of a replica, in terms of what it received.\<close>

lemma ApplyAll_contents:
  assumes "uniq_inserts (set ops)" and "inj_on op_RequestID (set ops)"
  shows "\<exists>r. ApplyAll ustr ops (NewRGA rid) = Some r \<and> rga_wf ustr r
    \<and> set (nodes r) = final_node (set ops) ` {op \<in> set ops. is_ins op \<and> deliverable (set ops) (op_NodeID op)}
    \<and> set (pending r) = {op \<in> set ops. (is_ins op \<or> is_del op) \<and> \<not> deliverable (set ops) (op_NodeID op)}"
proof -
  let ?S = "set ops"
  obtain r where r: "ApplyAll ustr ops (NewRGA rid) = Some r" "rga_state ustr ?S r"
    using ApplyAll_New [OF assms] by blast
  obtain A where A: "rga_rel ustr A r" "buffer_ok A (pending r)"
    "\<And>op. op \<in> set (pending r) \<Longrightarrow> blocked r op"
    "A \<union> set (pending r) = {op \<in> ?S. is_ins op \<or> is_del op}"
    by (rule rga_state_buffer [OF r(2) assms(1)]) (rule that, auto)
  note app = rga_state_applied [OF A(1-4) assms(1)]
  have pend: "set (pending r) = {op \<in> ?S. is_ins op \<or> is_del op} - A"
    using A(2,4) unfolding buffer_ok_def by blast
  have "final_node A op = final_node ?S op" if "deliverable ?S (op_NodeID op)" for op
  proof -
    have "d \<in> A \<longleftrightarrow> d \<in> ?S" if "is_del d" "op_NodeID d = op_NodeID op" for d
      using that \<open>deliverable ?S (op_NodeID op)\<close> by (simp add: app(1))
    then have "(\<exists>d \<in> A. is_del d \<and> op_NodeID d = op_NodeID op)
        \<longleftrightarrow> (\<exists>d \<in> ?S. is_del d \<and> op_NodeID d = op_NodeID op)" by blast
    then show ?thesis by (simp only: final_node_def)
  qed
  moreover have "{op \<in> A. is_ins op} = {op \<in> ?S. is_ins op \<and> deliverable ?S (op_NodeID op)}"
    using app(1) by blast
  ultimately have "set (nodes r)
      = final_node ?S ` {op \<in> ?S. is_ins op \<and> deliverable ?S (op_NodeID op)}"
    using A(1) unfolding rga_rel_def by (auto intro!: image_cong)
  moreover have "set (pending r)
      = {op \<in> ?S. (is_ins op \<or> is_del op) \<and> \<not> deliverable ?S (op_NodeID op)}"
    using pend app(1) by blast
  ultimately show ?thesis using r(1) rga_rel_wf [OF A(1)] by blast
qed

end

end
