(* ===== verification/Rga_Props.thy ===== *)
theory Rga_Props
  imports Rga_Conv Uuid
begin

text \<open>
  The properties of the RGA: convergence, the contents of a replica, idempotence, local
  edits, freshness of local identifiers, and the input on which the insertion does not
  return. The locale \<open>uuid_text\<close> is interpreted on the canonical text of \<open>Uuid\<close>.
\<close>

interpretation hex: uuid_text uuid_hex
  by unfold_locales (rule canonical.string_inj)

subsection \<open>Redelivery\<close>

lemma applyInsert_seen: "applyInsert ustr r op = Some r' \<Longrightarrow> same_rest r r'"
  by (auto simp: applyInsert_def same_rest_def Let_def split: if_splits
      elim!: bind_eq_Some_conv [THEN iffD1, elim_format])

lemma applyDelete_seen: "applyDelete r op = Some r' \<Longrightarrow> same_rest r r'"
  by (auto simp: applyDelete_def same_rest_def split: option.splits if_splits)

lemma flushPass_seen:
  "flushPass ustr ops r rem app = Some (r', rem', app') \<Longrightarrow> same_rest r r'"
proof (induction ustr ops r rem app arbitrary: r' rule: flushPass.induct)
  case (2 ustr op ops r rem app)
  then show ?case
    by (auto split: if_splits simp: Option.bind_eq_Some_conv
        dest: applyInsert_seen applyDelete_seen intro: same_rest_trans)
qed simp

lemma flushPending_seen: "flushPending ustr r = Some r' \<Longrightarrow> same_rest r r'"
proof (erule flushPending.raw_induct [where P = "\<lambda>u r r'. same_rest r r'", rotated])
  fix flush :: "(uuid \<Rightarrow> string) \<Rightarrow> RGA \<Rightarrow> RGA option" and ustr r r'
  assume IH: "\<And>ustr r r'. flush ustr r = Some r' \<Longrightarrow> same_rest r r'"
    and body: "Option.bind (flushPass ustr (pending r) r [] False)
       (\<lambda>(r', remaining, applied). let r'' = r'\<lparr>pending := remaining\<rparr>
          in if \<not> applied then Some r'' else flush ustr r'') = Some r'"
  from body obtain r1 rem app where
    pass: "flushPass ustr (pending r) r [] False = Some (r1, rem, app)"
    and res: "(if \<not> app then Some (r1\<lparr>pending := rem\<rparr>) else flush ustr (r1\<lparr>pending := rem\<rparr>)) = Some r'"
    by (auto simp: Option.bind_eq_Some_conv Let_def)
  have "same_rest r (r1\<lparr>pending := rem\<rparr>)"
    using flushPass_seen [OF pass] by (simp add: same_rest_def)
  moreover have "same_rest (r1\<lparr>pending := rem\<rparr>) r'"
    using res IH by (auto split: if_splits)
  ultimately show "same_rest r r'" by (rule same_rest_trans)
qed

lemma Apply_seen: "Apply ustr r op = Some (r', b) \<Longrightarrow> op_RequestID op \<in> seen r'"
  by (auto simp: Apply_def Let_def Option.bind_eq_Some_conv same_rest_def split: if_splits
      dest!: applyInsert_seen applyDelete_seen flushPending_seen)

subsection \<open>Strong eventual consistency\<close>

definition ex_id :: "nat \<Rightarrow> NodeID" where
  "ex_id ts = \<lparr>nid_ReplicaID = 7, nid_Timestamp = of_nat ts\<rparr>"

definition ex_ins :: "nat \<Rightarrow> nat \<Rightarrow> nat option \<Rightarrow> rune \<Rightarrow> Operation" where
  "ex_ins req ts a v = \<lparr>op_RequestID = of_nat req, op_OpType = OpInsert, op_NodeID = ex_id ts,
     op_After = map_option ex_id a, op_Value = v, op_Authenticated = False\<rparr>"

definition ex_del :: "nat \<Rightarrow> nat \<Rightarrow> Operation" where
  "ex_del req ts = \<lparr>op_RequestID = of_nat req, op_OpType = OpDelete, op_NodeID = ex_id ts,
     op_After = None, op_Value = 0, op_Authenticated = False\<rparr>"

text \<open>A short history: two characters, the first one deleted.\<close>

definition ex_ops :: "Operation list" where
  "ex_ops = [ex_ins 1 1 None 97, ex_ins 2 2 (Some 1) 98, ex_del 3 1]"

lemma ex_ops_ok: "uniq_inserts (set ex_ops)" "inj_on op_RequestID (set ex_ops)"
  by (auto simp: uniq_inserts_def inj_on_def ex_ops_def ex_ins_def ex_del_def ex_id_def)

text \<open>
  C1: strong eventual consistency. Two replicas that received the same set of operations, in
  any order and with any repetitions, both return from every \<open>Apply\<close> and end with the same
  node list, index, clock and set of seen requests; their buffers hold the same operations.
  It is required that request identifiers are not reused for different operations and that no
  two insertions carry the same node identifier, and that \<open>uuid.String\<close> is injective.
\<close>

theorem rga_converges:
  assumes "inj ustr" and "set ops = set ops'"
    and "uniq_inserts (set ops)" and "inj_on op_RequestID (set ops)"
  shows "\<exists>r r'. ApplyAll ustr ops (NewRGA rid) = Some r \<and> ApplyAll ustr ops' (NewRGA rid) = Some r'
    \<and> r' = r\<lparr>pending := pending r'\<rparr> \<and> mset (pending r') = mset (pending r)"
  by (rule uuid_text.ApplyAll_converges [OF uuid_text.intro assms(2-4)]) (rule assms(1))

theorem rga_converges_witness:
  "\<exists>r r'. ApplyAll uuid_hex ex_ops (NewRGA 0) = Some r
    \<and> ApplyAll uuid_hex (rev ex_ops @ ex_ops) (NewRGA 0) = Some r'
    \<and> r' = r\<lparr>pending := pending r'\<rparr> \<and> mset (pending r') = mset (pending r)"
  by (rule rga_converges) (auto simp: canonical.string_inj ex_ops_ok)

text \<open>
  C2: what a replica holds. After any received sequence the nodes are exactly the insertions
  whose chain of predecessors was received completely, each marked deleted iff a deletion of
  it was received; everything else is still buffered; and the index, the acyclicity of the
  predecessors and the document order are as \<open>rga_wf\<close> says.
\<close>

theorem rga_contents:
  assumes "inj ustr" and "uniq_inserts (set ops)" and "inj_on op_RequestID (set ops)"
  shows "\<exists>r. ApplyAll ustr ops (NewRGA rid) = Some r \<and> rga_wf ustr r
    \<and> set (nodes r) = final_node (set ops) ` {op \<in> set ops. is_ins op \<and> deliverable (set ops) (op_NodeID op)}
    \<and> set (pending r) = {op \<in> set ops. (is_ins op \<or> is_del op) \<and> \<not> deliverable (set ops) (op_NodeID op)}"
  by (rule uuid_text.ApplyAll_contents [OF uuid_text.intro assms(2,3)]) (rule assms(1))

theorem rga_contents_witness:
  "\<exists>r. ApplyAll uuid_hex ex_ops (NewRGA 0) = Some r \<and> rga_wf uuid_hex r
    \<and> set (nodes r) = final_node (set ex_ops) ` {op \<in> set ex_ops. is_ins op \<and> deliverable (set ex_ops) (op_NodeID op)}
    \<and> set (pending r) = {op \<in> set ex_ops. (is_ins op \<or> is_del op) \<and> \<not> deliverable (set ex_ops) (op_NodeID op)}"
  by (rule rga_contents) (auto simp: canonical.string_inj ex_ops_ok)

text \<open>
  redelivery is harmless in every state: once \<open>Apply\<close> has returned for an operation,
  applying it again changes nothing and reports it as already seen.
\<close>

theorem apply_idempotent:
  assumes "Apply ustr r op = Some (r', b)"
  shows "Apply ustr r' op = Some (r', False)"
  using Apply_seen [OF assms] by (simp add: Apply_def)

theorem apply_idempotent_witness:
  "Apply uuid_hex (NewRGA 0) (ex_del 1 1) = Some ((NewRGA 0)\<lparr>clock := \<lparr>clk_replicaID = 0, clk_counter = 1\<rparr>,
      seen := {1}, pending := [ex_del 1 1]\<rparr>, True)
   \<and> Apply uuid_hex ((NewRGA 0)\<lparr>clock := \<lparr>clk_replicaID = 0, clk_counter = 1\<rparr>,
      seen := {1}, pending := [ex_del 1 1]\<rparr>) (ex_del 1 1)
     = Some ((NewRGA 0)\<lparr>clock := \<lparr>clk_replicaID = 0, clk_counter = 1\<rparr>,
      seen := {1}, pending := [ex_del 1 1]\<rparr>, False)"
proof -
  have *: "Apply uuid_hex (NewRGA 0) (ex_del 1 1) = Some ((NewRGA 0)\<lparr>clock := \<lparr>clk_replicaID = 0, clk_counter = 1\<rparr>,
      seen := {1}, pending := [ex_del 1 1]\<rparr>, True)"
    by (simp add: Apply_def ex_del_def ex_id_def NewRGA_def NewLamportClock_def Update_def
        OpInsert_def OpDelete_def Let_def)
  show ?thesis using * apply_idempotent [OF *] by blast
qed

subsection \<open>Local edits\<close>

lemma insertPos_newest:
  assumes "\<And>n. n \<in> set (nodes r) \<Longrightarrow> nid_Timestamp (nd_id n) < nid_Timestamp (op_NodeID op)"
  shows "insertPos ustr r op i = Some i"
proof (cases "i < length (nodes r)")
  case True
  then have "nodeIDPriority ustr (op_NodeID op) (nd_id (nodes r ! i))"
    using assms [of "nodes r ! i"] by (auto simp: nodeIDPriority_def)
  then show ?thesis by (simp add: insertPos.simps Let_def)
qed (simp add: insertPos.simps)

lemma flushPending_empty: "pending r = [] \<Longrightarrow> flushPending ustr r = Some r"
  by (simp add: flushPending.simps Let_def)

text \<open>Where a local insertion goes in a document without buffered operations.\<close>

definition insert_at :: "RGA \<Rightarrow> NodeID option \<Rightarrow> nat" where
  "insert_at r after = (case after of None \<Rightarrow> 0 | Some a \<Rightarrow> Suc (the (index r a)))"

lemma Insert_newest:
  assumes ix: "index_ok r" and pend: "pending r = []" and rid: "rid \<notin> seen r"
    and ts: "\<And>n. n \<in> set (nodes r) \<Longrightarrow> nid_Timestamp (nd_id n) \<le> clk_counter (clock r)"
    and wrap: "clk_counter (clock r) \<noteq> - 1"
    and after: "\<And>a. after = Some a \<Longrightarrow> a \<in> node_ids r"
  shows "\<exists>r' op. Insert ustr rid r after v = Some (r', op) \<and> op_Value op = v \<and> op_After op = after
    \<and> op_NodeID op = snd (Tick (clock r)) \<and> insert_at r after \<le> length (nodes r)
    \<and> nodes r' = slices_insert (nodes r) (insert_at r after) (node_of_op op)"
proof -
  define c where "c = fst (Tick (clock r))"
  define op where "op = \<lparr>op_RequestID = rid, op_OpType = OpInsert, op_NodeID = snd (Tick (clock r)),
    op_After = after, op_Value = v, op_Authenticated = False\<rparr>"
  have op: "op_RequestID op = rid" "op_OpType op = OpInsert" "op_NodeID op = snd (Tick (clock r))"
    "op_After op = after" "op_Value op = v" by (simp_all add: op_def)
  have op_ts: "nid_Timestamp (op_NodeID op) = clk_counter (clock r) + 1"
    by (simp add: op Tick_def Let_def)
  define r1 where "r1 = r\<lparr>seen := insert rid (seen r), clock := Update c (nid_Timestamp (op_NodeID op))\<rparr>"
  have idx: "\<exists>i < length (nodes r). index r a = Some i" if "after = Some a" for a
    using index_ok_None [OF ix, of a] after [OF that] ix by (auto simp: index_ok_def)
  have free: "\<not> (case after of None \<Rightarrow> False | Some a \<Rightarrow> index r1 a = None)"
    using idx by (auto simp: r1_def split: option.splits)
  have start: "startIdx r1 op = insert_at r after" "insert_at r after \<le> length (nodes r)"
    using idx by (auto simp: startIdx_def insert_at_def op r1_def split: option.splits)
  have "insertPos ustr r1 op (insert_at r after) = Some (insert_at r after)"
    by (rule insertPos_newest) (simp add: r1_def op_ts word_less_Suc wrap ts)
  then obtain r2 where r2: "applyInsert ustr r1 op = Some r2" "pending r2 = []"
    "nodes r2 = slices_insert (nodes r) (insert_at r after) (node_of_op op)"
    using start pend by (auto simp: applyInsert_def r1_def Let_def)
  have "Apply ustr (r\<lparr>clock := c\<rparr>) op =
    (if (case after of None \<Rightarrow> False | Some a \<Rightarrow> index r1 a = None)
     then Some (r1\<lparr>pending := pending r1 @ [op]\<rparr>, True)
     else do { r2 \<leftarrow> applyInsert ustr r1 op; r3 \<leftarrow> flushPending ustr r2; Some (r3, True) })"
    using rid by (cases after) (simp_all add: Apply_def op(1,2,4) r1_def Let_def)
  then have "Apply ustr (r\<lparr>clock := c\<rparr>) op = Some (r2, True)"
    using free r2(1) flushPending_empty [OF r2(2)] by simp
  then have "Insert ustr rid r after v = Some (r2, op)"
    unfolding c_def op_def by (simp add: Insert_def case_prod_beta Let_def)
  then show ?thesis using r2(3) op start(2) by blast
qed

text \<open>
  C9: a local insertion shows up exactly where the user typed. In every state reached by
  delivering operations, when nothing is buffered and no timestamp is the largest 64-bit
  value, \<open>Insert\<close> returns, its node gets an identifier no received operation carries, and the
  node stands immediately right of its predecessor (at the front without one), with the rest
  of the document in place.
\<close>

theorem local_insert_position:
  assumes "inj ustr" and "uniq_inserts (set ops)" and "inj_on op_RequestID (set ops)"
    and r: "ApplyAll ustr ops (NewRGA rid) = Some r" and pend: "pending r = []"
    and max: "\<And>op. op \<in> set ops \<Longrightarrow> nid_Timestamp (op_NodeID op) \<noteq> - 1"
    and req: "req \<notin> op_RequestID ` set ops"
    and after: "\<And>a. after = Some a \<Longrightarrow> a \<in> node_ids r"
  shows "\<exists>r' op. Insert ustr req r after v = Some (r', op) \<and> op_Value op = v \<and> op_After op = after
    \<and> op_NodeID op \<notin> op_NodeID ` set ops \<and> insert_at r after \<le> length (nodes r)
    \<and> nodes r' = slices_insert (nodes r) (insert_at r after) (node_of_op op)"
proof -
  let ?ts = "\<lambda>op. nid_Timestamp (op_NodeID op)"
  obtain A where st: "rga_state ustr (set ops) r" "clock_spec rid (set ops) (clock r)"
    and A: "rga_rel ustr A r" "A \<subseteq> set ops"
    using uuid_text.ApplyAll_New [OF uuid_text.intro [OF assms(1)] assms(2,3), of rid] r
    unfolding rga_state_def by (elim exE conjE) (rule that, auto simp: rga_state_def)
  have counter: "clk_counter (clock r) = Max (insert 0 (?ts ` set ops))"
    using st(2) by (simp add: clock_spec_def)
  have le: "?ts op \<le> clk_counter (clock r)" if "op \<in> set ops" for op
    unfolding counter using that by (intro Max_ge) auto
  have "clk_counter (clock r) \<in> insert 0 (?ts ` set ops)"
    unfolding counter by (rule Max_in) auto
  then have wrap: "clk_counter (clock r) \<noteq> - 1" using max by auto
  have ix: "index_ok r" using A(1) by (simp add: rga_rel_def rga_wf_def)
  have ts: "nid_Timestamp (nd_id n) \<le> clk_counter (clock r)" if "n \<in> set (nodes r)" for n
    using that A le by (auto simp: rga_rel_def)
  have seen: "req \<notin> seen r" using st(1) req by (simp add: rga_state_def)
  have "op_NodeID op \<noteq> snd (Tick (clock r))" if "op \<in> set ops" for op
    using word_less_Suc [OF le [OF that] wrap] by (auto simp: Tick_def Let_def)
  then have fresh: "snd (Tick (clock r)) \<notin> op_NodeID ` set ops" by (metis imageE)
  obtain r' op where "Insert ustr req r after v = Some (r', op)" "op_Value op = v"
    "op_After op = after" "op_NodeID op = snd (Tick (clock r))"
    "insert_at r after \<le> length (nodes r)"
    "nodes r' = slices_insert (nodes r) (insert_at r after) (node_of_op op)"
    using Insert_newest [OF ix pend seen ts wrap after] by blast
  then show ?thesis using fresh by (intro exI [of _ r'] exI [of _ op]) simp
qed

lemma ex_one:
  "\<exists>r. ApplyAll uuid_hex [ex_ins 1 1 None 97] (NewRGA 0) = Some r \<and> pending r = []
     \<and> node_ids r = {ex_id 1} \<and> seen r = {1}"
  by (simp add: Apply_def ex_ins_def NewRGA_def NewLamportClock_def Update_def Let_def
      applyInsert_def startIdx_def insertPos.simps slices_insert_def node_of_op_def
      flushPending_empty node_ids_def)

theorem local_insert_position_witness:
  "\<exists>r r' op. ApplyAll uuid_hex [ex_ins 1 1 None 97] (NewRGA 0) = Some r
    \<and> Insert uuid_hex 9 r (Some (ex_id 1)) 98 = Some (r', op) \<and> op_Value op = 98
    \<and> op_After op = Some (ex_id 1) \<and> op_NodeID op \<notin> op_NodeID ` set [ex_ins 1 1 None 97]
    \<and> insert_at r (Some (ex_id 1)) \<le> length (nodes r)
    \<and> nodes r' = slices_insert (nodes r) (insert_at r (Some (ex_id 1))) (node_of_op op)"
proof -
  obtain r where r: "ApplyAll uuid_hex [ex_ins 1 1 None 97] (NewRGA 0) = Some r" "pending r = []"
    "node_ids r = {ex_id 1}" using ex_one by blast
  have "\<exists>r' op. Insert uuid_hex 9 r (Some (ex_id 1)) 98 = Some (r', op) \<and> op_Value op = 98
    \<and> op_After op = Some (ex_id 1) \<and> op_NodeID op \<notin> op_NodeID ` set [ex_ins 1 1 None 97]
    \<and> insert_at r (Some (ex_id 1)) \<le> length (nodes r)
    \<and> nodes r' = slices_insert (nodes r) (insert_at r (Some (ex_id 1))) (node_of_op op)"
    by (rule local_insert_position [OF canonical.string_inj _ _ r(1,2)])
      (auto simp: r(3) uniq_inserts_def inj_on_def ex_ins_def ex_id_def)
  then show ?thesis using r(1) by blast
qed

subsection \<open>An input on which \<open>Apply\<close> does not return\<close>

lemma isDescendantOf_cycle:
  assumes "idx < length (nodes r)" and "nd_after (nodes r ! idx) = Some a" and "a \<noteq> p"
    and "index r a = Some idx"
  shows "isDescendantOf r idx p = None"
proof -
  have "(r', i, q) \<noteq> (r, idx, p)" if "isDescendantOf r' i q = Some y" for r' i q y
    using that
  proof (rule isDescendantOf.raw_induct [where P = "\<lambda>r' i q y. (r', i, q) \<noteq> (r, idx, p)", rotated])
    fix f :: "RGA \<Rightarrow> nat \<Rightarrow> NodeID \<Rightarrow> bool option" and r' i q y
    assume "\<And>r' i q y. f r' i q = Some y \<Longrightarrow> (r', i, q) \<noteq> (r, idx, p)"
    then have "f r idx p = None" by (cases "f r idx p") blast+
    moreover assume "(if i < length (nodes r') then (case nd_after (nodes r' ! i) of
           None \<Rightarrow> Some False
         | Some a \<Rightarrow> if a = q then Some True else (case index r' a of None \<Rightarrow> Some False
            | Some j \<Rightarrow> f r' j q)) else None) = Some y"
    ultimately show "(r', i, q) \<noteq> (r, idx, p)" using assms by auto
  qed
  then show ?thesis by (cases "isDescendantOf r idx p") blast+
qed

text \<open>The nodes after the first three operations: \<open>x\<close> twice, the second one after itself.\<close>

definition ex_cycle_nodes :: "node list" where
  "ex_cycle_nodes = map node_of_op [ex_ins 1 5 None 97, ex_ins 3 6 (Some 5) 98, ex_ins 2 6 (Some 6) 99]"

definition ex_cycle :: RGA where
  "ex_cycle = \<lparr>clock = \<lparr>clk_replicaID = 0, clk_counter = 6\<rparr>, nodes = ex_cycle_nodes,
     index = [ex_id 5 \<mapsto> 0, ex_id 6 \<mapsto> Suc (Suc 0)], seen = {1, 2, 3}, pending = []\<rparr>"

lemma ex_cycle_skip: "skipSubtree (ex_cycle\<lparr>clock := c, seen := s\<rparr>) 0 = None"
proof -
  let ?r = "ex_cycle\<lparr>clock := c, seen := s\<rparr>"
  have "isDescendantOf ?r (Suc (Suc 0)) (ex_id 5) = None"
    by (rule isDescendantOf_cycle [of _ _ "ex_id 6"])
      (auto simp: ex_cycle_def ex_cycle_nodes_def ex_ins_def ex_id_def node_of_op_def)
  moreover have "isDescendantOf ?r 1 (ex_id 5) = Some True"
    by (simp add: isDescendantOf.simps ex_cycle_def ex_cycle_nodes_def ex_ins_def node_of_op_def)
  ultimately show ?thesis
    by (simp add: skipSubtree_def skipLoop.simps ex_cycle_def ex_cycle_nodes_def ex_ins_def
        node_of_op_def)
qed

lemma ex_cycle_reached:
  "ApplyAll ustr [ex_ins 1 5 None 97, ex_ins 2 6 (Some 6) 99, ex_ins 3 6 (Some 5) 98] (NewRGA 0)
     = Some ex_cycle"
  by (simp add: Apply_def ex_ins_def NewRGA_def NewLamportClock_def Update_def Let_def ex_id_def
      applyInsert_def startIdx_def insertPos.simps slices_insert_def node_of_op_def
      flushPending.simps ex_cycle_def ex_cycle_nodes_def insert_commute OpInsert_def)

text \<open>
  C23: the requirement that node identifiers are not reused is needed, and nothing checks it.
  Four well-formed insertions, two of them with the same identifier and one of these naming
  itself as its predecessor, drive \<open>isDescendantOf\<close> into unbounded recursion: \<open>Apply\<close> of
  the fourth does not return.
\<close>

theorem apply_diverges_on_reused_id:
  "ApplyAll ustr [ex_ins 1 5 None 97, ex_ins 2 6 (Some 6) 99, ex_ins 3 6 (Some 5) 98] (NewRGA 0)
     = Some ex_cycle \<and> Apply ustr ex_cycle (ex_ins 4 1 None 100) = None"
proof
  let ?op = "ex_ins 4 1 None 100"
  let ?r = "ex_cycle\<lparr>clock := Update (clock ex_cycle) 1, seen := insert 4 (seen ex_cycle)\<rparr>"
  have r: "ex_cycle\<lparr>seen := insert 4 (seen ex_cycle), clock := Update (clock ex_cycle) 1\<rparr> = ?r"
    by simp
  have op: "op_RequestID ?op = 4" "op_OpType ?op = OpInsert" "op_After ?op = None"
    "nid_Timestamp (op_NodeID ?op) = 1"
    by (simp_all add: ex_ins_def ex_id_def)
  have "insertPos ustr ?r ?op 0 = None"
    using ex_cycle_skip by (subst insertPos.simps)
      (simp add: ex_cycle_def ex_cycle_nodes_def sameAfter_def nodeIDPriority_def ex_ins_def
        ex_id_def node_of_op_def Let_def)
  then have "applyInsert ustr ?r ?op = None" by (simp add: applyInsert_def startIdx_def op del: One_nat_def)
  then show "Apply ustr ex_cycle ?op = None"
    using r by (simp add: Apply_def op Let_def del: One_nat_def) (simp add: ex_cycle_def)
qed (rule ex_cycle_reached)

subsection \<open>The text\<close>

text \<open>
  the text of a document decodes to the visible runes in document order: when every
  inserted value is a Unicode scalar value, reading \<open>Text\<close> back as runes gives exactly the
  values of the nodes that are not deleted, and \<open>TextFiltered\<close> gives those outside the
  excluded set.
\<close>

theorem text_decodes:
  assumes "\<And>n. n \<in> set (nodes r) \<Longrightarrow> valid_rune (nd_value n)"
  shows "runes_of_string (Text r) = [nd_value n. n \<leftarrow> nodes r, \<not> nd_deleted n]
    \<and> runes_of_string (TextFiltered r X)
        = [nd_value n. n \<leftarrow> nodes r, nd_id n \<notin> X \<and> \<not> nd_deleted n]"
proof
  have "runes_of_string (Text r) = TextRunes r"
    unfolding Text_def by (rule runes_of_string_of_runes) (auto simp: TextRunes_def assms)
  also have "\<dots> = [nd_value n. n \<leftarrow> nodes r, \<not> nd_deleted n]"
    by (simp add: TextRunes_def list_comprehension_filter)
  finally show "runes_of_string (Text r) = [nd_value n. n \<leftarrow> nodes r, \<not> nd_deleted n]" .
  have "runes_of_string (TextFiltered r X) = TextFilteredRunes r X"
    unfolding TextFiltered_def
    by (rule runes_of_string_of_runes) (auto simp: TextFilteredRunes_def assms)
  also have "\<dots> = [nd_value n. n \<leftarrow> nodes r, nd_id n \<notin> X \<and> \<not> nd_deleted n]"
    by (simp add: TextFilteredRunes_def list_comprehension_filter conj_commute)
  finally show "runes_of_string (TextFiltered r X)
        = [nd_value n. n \<leftarrow> nodes r, nd_id n \<notin> X \<and> \<not> nd_deleted n]" .
qed

theorem text_decodes_witness:
  "runes_of_string (Text ex_cycle) = [97, 98, 99]
    \<and> runes_of_string (TextFiltered ex_cycle {ex_id 6}) = [97]"
proof -
  have "valid_rune (nd_value n)" if "n \<in> set (nodes ex_cycle)" for n
    using that by (auto simp: ex_cycle_def ex_cycle_nodes_def node_of_op_def ex_ins_def
        valid_rune_def valid_code_def)
  from text_decodes [of ex_cycle "{ex_id 6}", OF this] show ?thesis
    by (simp add: ex_cycle_def ex_cycle_nodes_def node_of_op_def ex_ins_def ex_id_def)
qed

end
