(* ===== verification/Rga_Serial.thy ===== *)
theory Rga_Serial
  imports Rga_Props
begin

text \<open>
  The serial forms of the RGA in \<open>crdt.go\<close>: operations read from the JSON payload of a
  client message, and snapshots written to and restored from disk.

  \<open>unmarshal\<close> stands for \<open>json.Unmarshal\<close> into \<open>payloadMsg\<close>; \<open>ustr\<close> and \<open>uparse\<close> are
  \<open>uuid.String\<close> and \<open>uuid.Parse\<close>. Go iterates over a map in an unspecified order, so
  \<open>Export\<close> takes the order in which the keys of \<open>seen\<close> are visited as an argument.
\<close>

subsection \<open>Operations from payloads\<close>

record payloadNID =
  pn_SiteID :: string
  pn_Timestamp :: u64

record payloadMsg =
  pm_RequestID :: string
  pm_OpType :: int
  pm_NodeID :: "payloadNID option"
  pm_After :: "payloadNID option"
  pm_Value :: string
  pm_Authenticated :: "bool option"

datatype PayloadError =
  ErrUnmarshal | ErrRequestID | ErrNodeIDRequired | ErrSiteID | ErrAfterSiteID

definition OperationFromPayload ::
  "(string \<Rightarrow> payloadMsg option) \<Rightarrow> (string \<Rightarrow> uuid option) \<Rightarrow> string
     \<Rightarrow> PayloadError + Operation" where
  "OperationFromPayload unmarshal uparse payload =
     (case unmarshal payload of
        None \<Rightarrow> Inl ErrUnmarshal
      | Some msg \<Rightarrow>
     (case uparse (pm_RequestID msg) of
        None \<Rightarrow> Inl ErrRequestID
      | Some requestID \<Rightarrow>
     (case pm_NodeID msg of
        None \<Rightarrow> Inl ErrNodeIDRequired
      | Some nid \<Rightarrow>
     (case uparse (pn_SiteID nid) of
        None \<Rightarrow> Inl ErrSiteID
      | Some replicaID \<Rightarrow>
          (let op = \<lparr>op_RequestID = requestID, op_OpType = pm_OpType msg,
                     op_NodeID = \<lparr>nid_ReplicaID = replicaID, nid_Timestamp = pn_Timestamp nid\<rparr>,
                     op_After = None, op_Value = 0, op_Authenticated = False\<rparr>;
               finish = (\<lambda>op.
                 (let op = (if pm_Value msg \<noteq> [] then op\<lparr>op_Value := fst (DecodeRuneInString (pm_Value msg))\<rparr> else op)
                  in op\<lparr>op_Authenticated := (case pm_Authenticated msg of Some b \<Rightarrow> b | None \<Rightarrow> True)\<rparr>))
           in case pm_After msg of
                None \<Rightarrow> Inr (finish op)
              | Some a \<Rightarrow>
                  (case uparse (pn_SiteID a) of
                     None \<Rightarrow> Inl ErrAfterSiteID
                   | Some afterReplicaID \<Rightarrow>
                       Inr (finish (op\<lparr>op_After := Some \<lparr>nid_ReplicaID = afterReplicaID,
                                         nid_Timestamp = pn_Timestamp a\<rparr>\<rparr>))))))))"

subsection \<open>Snapshots\<close>

record NodeSnapshot =
  ns_ID :: NodeID
  ns_After :: "NodeID option"
  ns_Value :: string
  ns_Deleted :: bool
  ns_Authenticated :: "bool option"

record RGASnapshot =
  rs_ReplicaID :: string
  rs_Counter :: u64
  rs_Nodes :: "NodeSnapshot list"
  rs_Seen :: "string list"
  rs_Pending :: "Operation list"

definition export_node :: "node \<Rightarrow> NodeSnapshot" where
  "export_node n =
     \<lparr>ns_ID = nd_id n, ns_After = nd_after n, ns_Value = string_of_rune (nd_value n),
      ns_Deleted = nd_deleted n, ns_Authenticated = Some (nd_authenticated n)\<rparr>"

definition Export :: "(uuid \<Rightarrow> string) \<Rightarrow> uuid list \<Rightarrow> RGA \<Rightarrow> RGASnapshot" where
  "Export ustr order r =
     \<lparr>rs_ReplicaID = ustr (clk_replicaID (clock r)), rs_Counter = clk_counter (clock r),
      rs_Nodes = map export_node (nodes r), rs_Seen = map ustr order, rs_Pending = pending r\<rparr>"

datatype ImportError = ErrReplicaID | ErrSeenID

definition import_node :: "NodeSnapshot \<Rightarrow> node" where
  "import_node ns =
     \<lparr>nd_id = ns_ID ns, nd_after = ns_After ns, nd_value = fst (DecodeRuneInString (ns_Value ns)),
      nd_deleted = ns_Deleted ns,
      nd_authenticated = (case ns_Authenticated ns of None \<Rightarrow> True | Some b \<Rightarrow> b)\<rparr>"

fun import_seen ::
  "(string \<Rightarrow> uuid option) \<Rightarrow> string list \<Rightarrow> uuid set \<Rightarrow> ImportError + uuid set" where
  "import_seen uparse [] acc = Inr acc"
| "import_seen uparse (s # ss) acc =
     (case uparse s of
        None \<Rightarrow> Inl ErrSeenID
      | Some i \<Rightarrow> import_seen uparse ss (insert i acc))"

definition ImportRGA :: "(string \<Rightarrow> uuid option) \<Rightarrow> RGASnapshot \<Rightarrow> ImportError + RGA" where
  "ImportRGA uparse snap =
     (case uparse (rs_ReplicaID snap) of
        None \<Rightarrow> Inl ErrReplicaID
      | Some replicaID \<Rightarrow>
          (let ns = map import_node (rs_Nodes snap)
           in case import_seen uparse (rs_Seen snap) {} of
                Inl e \<Rightarrow> Inl e
              | Inr seen_ids \<Rightarrow>
                  Inr \<lparr>clock = \<lparr>clk_replicaID = replicaID, clk_counter = rs_Counter snap\<rparr>,
                       nodes = ns, index = reindex ns 0 Map.empty, seen = seen_ids,
                       pending = rs_Pending snap\<rparr>))"

subsection \<open>Reading back\<close>

lemma valid_rune_0: "valid_rune 0"
  by (simp add: valid_rune_def valid_code_def)

lemma OperationFromPayload_value:
  "OperationFromPayload unmarshal uparse p = Inr op \<Longrightarrow> valid_rune (op_Value op)"
  by (auto simp: OperationFromPayload_def Let_def DecodeRune_valid valid_rune_0
      split: option.splits if_splits)

lemma import_export_node: "valid_rune (nd_value n) \<Longrightarrow> import_node (export_node n) = n"
  using DecodeRune_string_of_rune [of "nd_value n" "[]"]
  by (simp add: import_node_def export_node_def)

lemma index_ok_reindex: "index_ok r \<Longrightarrow> reindex (nodes r) 0 Map.empty = index r"
proof -
  assume ok: "index_ok r"
  have "reindex (nodes r) 0 Map.empty x = index r x" for x
    by (rule option_eqI) (use reindex_apply [OF index_ok_distinct [OF ok], of 0 Map.empty x] ok
      in \<open>auto simp: index_ok_def\<close>)
  then show ?thesis by (rule ext)
qed

context uuid_codec
begin

lemma import_seen_ok: "import_seen uparse (map ustr us) acc = Inr (set us \<union> acc)"
  by (induction us arbitrary: acc) (auto simp: parse_string)

lemma import_export:
  assumes "index_ok r" and "\<And>n. n \<in> set (nodes r) \<Longrightarrow> valid_rune (nd_value n)"
    and "set order = seen r"
  shows "ImportRGA uparse (Export ustr order r) = Inr r"
proof -
  have "map import_node (map export_node (nodes r)) = nodes r"
    using assms(2) by (simp add: import_export_node map_idI)
  then show ?thesis
    using index_ok_reindex [OF assms(1)] assms(3)
    by (simp add: ImportRGA_def Export_def parse_string import_seen_ok Let_def)
qed

end

subsection \<open>Properties\<close>

text \<open>
  C14: a restart loses nothing. For a replica fed by client payloads, importing the exported
  snapshot gives the replica back, whatever the order in which \<open>Export\<close> visits the set of
  seen requests: node list, index, clock, seen requests and buffer.
\<close>

theorem snapshot_roundtrip:
  assumes codec: "uuid_codec ustr uparse"
    and ops: "\<And>op. op \<in> set ops \<Longrightarrow> \<exists>p. OperationFromPayload unmarshal uparse p = Inr op"
    and uniq: "uniq_inserts (set ops)" "inj_on op_RequestID (set ops)"
    and r: "ApplyAll ustr ops (NewRGA rid) = Some r" and order: "set order = seen r"
  shows "ImportRGA uparse (Export ustr order r) = Inr r"
proof (rule uuid_codec.import_export [OF codec _ _ order])
  obtain r' where "ApplyAll ustr ops (NewRGA rid) = Some r'" "rga_wf ustr r'"
    "set (nodes r') = final_node (set ops) `
       {op \<in> set ops. is_ins op \<and> deliverable (set ops) (op_NodeID op)}"
    using uuid_text.ApplyAll_contents [OF uuid_text.intro [OF uuid_codec.string_inj [OF codec]] uniq]
    by blast
  then have wf: "rga_wf ustr r" and ns: "set (nodes r) \<subseteq> final_node (set ops) ` set ops"
    using r by auto
  show "index_ok r" using wf by (simp add: rga_wf_def)
  show "valid_rune (nd_value n)" if "n \<in> set (nodes r)" for n
  proof -
    from that ns obtain op where "op \<in> set ops" "n = final_node (set ops) op" by blast
    then show ?thesis using ops [of op] OperationFromPayload_value [of unmarshal uparse _ op]
      by (auto simp: final_node_def node_of_op_def)
  qed
qed

text \<open>A message for the first insertion of \<open>ex_ins\<close>.\<close>

definition ex_msg :: payloadMsg where
  "ex_msg = \<lparr>pm_RequestID = uuid_hex 1, pm_OpType = 1,
     pm_NodeID = Some \<lparr>pn_SiteID = uuid_hex 7, pn_Timestamp = 1\<rparr>, pm_After = None,
     pm_Value = ''a'', pm_Authenticated = Some False\<rparr>"

lemma char_of_97: "char_of (97 :: nat) = CHR ''a''"
  by code_simp

lemma ex_msg_op:
  "OperationFromPayload (\<lambda>_. Some ex_msg) unhex_canonical p = Inr (ex_ins 1 1 None 97)"
proof -
  have "DecodeRuneInString ''a'' = (97, 1)"
    using DecodeRune_string_of_rune [of 97 "[]"]
    by (simp add: valid_rune_def valid_code_def string_of_rune_def encode_code_def char_of_97)
  then show ?thesis
    by (simp add: OperationFromPayload_def ex_msg_def Let_def ex_ins_def ex_id_def
        canonical.parse_string OpInsert_def)
qed

theorem snapshot_roundtrip_witness:
  "\<exists>r. ApplyAll uuid_hex [ex_ins 1 1 None 97] (NewRGA 0) = Some r
     \<and> ImportRGA unhex_canonical (Export uuid_hex [1] r) = Inr r"
proof -
  obtain r where r: "ApplyAll uuid_hex [ex_ins 1 1 None 97] (NewRGA 0) = Some r" "seen r = {1}"
    using ex_one by auto
  have "ImportRGA unhex_canonical (Export uuid_hex [1] r) = Inr r"
    by (rule snapshot_roundtrip [where unmarshal = "\<lambda>_. Some ex_msg", OF _ _ _ _ r(1)])
      (auto simp: ex_msg_op canonical.uuid_codec_axioms r(2) uniq_inserts_def inj_on_def ex_ins_def)
  then show ?thesis using r(1) by blast
qed

text \<open>
  what is accepted from a client. \<open>OperationFromPayload\<close> succeeds exactly when the
  payload decodes, both required identifiers and the optional predecessor parse; the
  operation then carries the first rune of the value (zero when it is empty) and is
  authenticated unless the payload says \<open>false\<close>.
\<close>

theorem operation_from_payload:
  "OperationFromPayload unmarshal uparse p = Inr op \<longleftrightarrow>
     (\<exists>msg nid. unmarshal p = Some msg \<and> uparse (pm_RequestID msg) = Some (op_RequestID op)
        \<and> pm_NodeID msg = Some nid \<and> uparse (pn_SiteID nid) = Some (nid_ReplicaID (op_NodeID op))
        \<and> nid_Timestamp (op_NodeID op) = pn_Timestamp nid \<and> op_OpType op = pm_OpType msg
        \<and> (case (pm_After msg, op_After op) of
             (None, None) \<Rightarrow> True
           | (Some a, Some i) \<Rightarrow> uparse (pn_SiteID a) = Some (nid_ReplicaID i)
               \<and> nid_Timestamp i = pn_Timestamp a
           | _ \<Rightarrow> False)
        \<and> op_Value op = (if pm_Value msg = [] then 0 else fst (DecodeRuneInString (pm_Value msg)))
        \<and> op_Authenticated op = (pm_Authenticated msg \<noteq> Some False))"
  (is "?L \<longleftrightarrow> ?R")
proof
  assume L: ?L
  note defs = OperationFromPayload_def Let_def
  from L obtain msg where 1: "unmarshal p = Some msg"
    by (cases "unmarshal p") (simp_all add: defs)
  from L 1 obtain req where 2: "uparse (pm_RequestID msg) = Some req"
    by (cases "uparse (pm_RequestID msg)") (simp_all add: defs)
  from L 1 2 obtain nid where 3: "pm_NodeID msg = Some nid"
    by (cases "pm_NodeID msg") (simp_all add: defs)
  from L 1 2 3 obtain rep where 4: "uparse (pn_SiteID nid) = Some rep"
    by (cases "uparse (pn_SiteID nid)") (simp_all add: defs)
  have auth: "(case pm_Authenticated msg of Some b \<Rightarrow> b | None \<Rightarrow> True) = (pm_Authenticated msg \<noteq> Some False)"
    by (cases "pm_Authenticated msg") auto
  show ?R
  proof (cases "pm_After msg")
    case None
    with L 1 2 3 4 show ?thesis
      by (intro exI [of _ msg] exI [of _ nid]) (auto simp: defs auth)
  next
    case (Some pa)
    moreover from L 1 2 3 4 Some obtain i where "uparse (pn_SiteID pa) = Some i"
      by (cases "uparse (pn_SiteID pa)") (simp_all add: defs)
    ultimately show ?thesis using L 1 2 3 4
      by (intro exI [of _ msg] exI [of _ nid]) (auto simp: defs auth)
  qed
next
  assume ?R
  then obtain msg nid where
    m: "unmarshal p = Some msg" "uparse (pm_RequestID msg) = Some (op_RequestID op)"
      "pm_NodeID msg = Some nid" "uparse (pn_SiteID nid) = Some (nid_ReplicaID (op_NodeID op))"
      "pn_Timestamp nid = nid_Timestamp (op_NodeID op)" "pm_OpType msg = op_OpType op"
    and a: "case (pm_After msg, op_After op) of (None, None) \<Rightarrow> True
        | (Some a, Some i) \<Rightarrow> uparse (pn_SiteID a) = Some (nid_ReplicaID i)
            \<and> nid_Timestamp i = pn_Timestamp a
        | _ \<Rightarrow> False"
    and v: "op_Value op = (if pm_Value msg = [] then 0 else fst (DecodeRuneInString (pm_Value msg)))"
      "op_Authenticated op = (pm_Authenticated msg \<noteq> Some False)"
    by (elim exE conjE) (rule that, simp_all)
  have b: "(case pm_Authenticated msg of Some b \<Rightarrow> b | None \<Rightarrow> True) = op_Authenticated op"
    using v(2) by (cases "pm_Authenticated msg") auto
  show ?L
  proof (cases "pm_After msg")
    case None
    then have "op_After op = None" using a by (auto split: option.splits)
    with None show ?thesis
      by (cases "pm_Value msg = []") (simp_all add: OperationFromPayload_def m b Let_def v(1))
  next
    case (Some pa)
    then obtain i where "op_After op = Some i" "uparse (pn_SiteID pa) = Some (nid_ReplicaID i)"
      "pn_Timestamp pa = nid_Timestamp i" using a by (auto split: option.splits)
    with Some show ?thesis
      by (cases "pm_Value msg = []") (simp_all add: OperationFromPayload_def m b Let_def v(1))
  qed
qed

end
