(* ===== verification/Entry_Store.thy ===== *)
theory Entry_Store
  imports Disk Uuid "HOL-Library.Multiset"
begin

text \<open>
  Blog entries (\<open>domain/entry.go\<close>), the interface \<open>EntryStore\<close> of \<open>domain/repository.go\<close> as
  the locale \<open>entry_store\<close>, and its two implementations: in memory
  (\<open>adapter/memory/entry_store.go\<close>) and on disk (\<open>adapter/jsonfile/entry_store.go\<close>).
\<close>

subsection \<open>Entries\<close>

record Entry =
  en_ID :: uuid
  en_Title :: string
  en_Content :: string
  en_Thumbnail :: "string option"
  en_Text :: string
  en_CreatedAt :: go_time
  en_UpdatedAt :: go_time
  en_Deleted :: bool

record EntryListItem =
  li_ID :: uuid
  li_Title :: string
  li_Content :: string
  li_Thumbnail :: "string option"
  li_CreatedAt :: go_time
  li_UpdatedAt :: go_time

text \<open>\<open>i\<close> and \<open>now\<close> are what \<open>uuid.New\<close> and \<open>time.Now\<close> return.\<close>

definition NewEntry :: "uuid \<Rightarrow> go_time \<Rightarrow> Entry" where
  "NewEntry i now =
     \<lparr>en_ID = i, en_Title = [], en_Content = [], en_Thumbnail = None, en_Text = [],
      en_CreatedAt = now, en_UpdatedAt = now, en_Deleted = False\<rparr>"

definition ToListItem :: "Entry \<Rightarrow> EntryListItem" where
  "ToListItem e =
     \<lparr>li_ID = en_ID e, li_Title = en_Title e, li_Content = en_Content e,
      li_Thumbnail = en_Thumbnail e, li_CreatedAt = en_CreatedAt e, li_UpdatedAt = en_UpdatedAt e\<rparr>"

datatype EntryError = ErrEntryNotFound | ErrEntryDeleted | ErrEntryIO

subsection \<open>The interface\<close>

text \<open>
  \<open>abs s\<close> is the map of all entries, the deleted ones included. Go visits a map in an
  unspecified order, so an operation that does takes the order \<open>ks\<close> of the keys.
\<close>

locale entry_store =
  fixes save :: "'x \<Rightarrow> 's \<Rightarrow> Entry \<Rightarrow> 's \<times> EntryError option"
    and find :: "'s \<Rightarrow> uuid \<Rightarrow> EntryError + Entry"
    and list :: "uuid list \<Rightarrow> 's \<Rightarrow> EntryListItem list"
    and delete :: "'x \<Rightarrow> 's \<Rightarrow> uuid \<Rightarrow> 's \<times> EntryError option"
    and abs :: "'s \<Rightarrow> uuid \<rightharpoonup> Entry"
    and fails :: "'x \<Rightarrow> 's \<Rightarrow> (uuid \<rightharpoonup> Entry) \<Rightarrow> bool"
  assumes find_abs: "find s i = (case abs s i of None \<Rightarrow> Inl ErrEntryNotFound
      | Some e \<Rightarrow> if en_Deleted e then Inl ErrEntryDeleted else Inr e)"
    and list_abs: "distinct ks \<Longrightarrow> set ks = dom (abs s) \<Longrightarrow>
      mset (list ks s) = image_mset ToListItem (filter_mset (\<lambda>e. \<not> en_Deleted e)
        (image_mset (\<lambda>k. the (abs s k)) (mset ks)))"
    and save_abs: "save x s e = (s', r) \<Longrightarrow> abs s' = (abs s)(en_ID e \<mapsto> e)
      \<and> r = (if fails x s (abs s') then Some ErrEntryIO else None)"
    and delete_missing: "abs s i = None \<Longrightarrow> delete x s i = (s, Some ErrEntryNotFound)"
    and delete_abs: "abs s i = Some e \<Longrightarrow> delete x s i = (s', r) \<Longrightarrow>
      abs s' = (abs s)(i \<mapsto> e\<lparr>en_Deleted := True\<rparr>)
      \<and> r = (if fails x s (abs s') then Some ErrEntryIO else None)"
begin

definition keyed :: "'s \<Rightarrow> bool" where
  "keyed s \<longleftrightarrow> (\<forall>k e. abs s k = Some e \<longrightarrow> en_ID e = k)"

lemma keyed_save: "keyed s \<Longrightarrow> save x s e = (s', r) \<Longrightarrow> keyed s'"
  using save_abs [of x s e s' r] by (auto simp: keyed_def)

lemma keyed_delete: "keyed s \<Longrightarrow> delete x s i = (s', r) \<Longrightarrow> keyed s'"
  using delete_missing [of s i x] delete_abs [of s i _ x s' r]
  by (cases "abs s i") (auto simp: keyed_def)

lemma find_save:
  "save x s e = (s', r) \<Longrightarrow> find s' i =
     (if i = en_ID e then (if en_Deleted e then Inl ErrEntryDeleted else Inr e) else find s i)"
  using save_abs [of x s e s' r] by (simp add: find_abs)

lemma find_delete:
  assumes "delete x s i = (s', r)" and "abs s i = Some e"
  shows "find s' j = (if j = i then Inl ErrEntryDeleted else find s j)"
  using delete_abs [OF assms(2,1)] by (simp add: find_abs)

lemma list_find:
  assumes "keyed s" and "distinct ks" and "set ks = dom (abs s)"
  shows "it \<in> set (list ks s) \<longleftrightarrow> (\<exists>e. find s (en_ID e) = Inr e \<and> it = ToListItem e)"
proof -
  have shown_iff: "e \<in> (\<lambda>k. the (abs s k)) ` dom (abs s) \<and> \<not> en_Deleted e
      \<longleftrightarrow> find s (en_ID e) = Inr e" (is "?L \<longleftrightarrow> ?R") for e
  proof
    assume ?L
    then obtain k where "abs s k = Some e" "\<not> en_Deleted e" by auto
    then show ?R using assms(1) by (simp add: keyed_def find_abs)
  next
    assume R: ?R
    then obtain e' where "abs s (en_ID e) = Some e'"
      by (cases "abs s (en_ID e)") (simp_all add: find_abs)
    moreover from this R have "e' = e" "\<not> en_Deleted e"
      by (auto simp: find_abs split: if_splits)
    ultimately show ?L by (auto intro!: image_eqI [of _ _ "en_ID e"])
  qed
  have "set (list ks s) = set_mset (mset (list ks s))" by simp
  also have "\<dots> = ToListItem ` {e \<in> (\<lambda>k. the (abs s k)) ` dom (abs s). \<not> en_Deleted e}"
    unfolding list_abs [OF assms(2,3)] using assms(3) by auto
  also have "\<dots> = ToListItem ` {e. find s (en_ID e) = Inr e}"
    by (simp only: shown_iff)
  finally show ?thesis by auto
qed

text \<open>An entry that is shown in the list can be opened, and a deleted one is gone from both.\<close>

lemma deleted_gone:
  assumes "keyed s" and "delete x s i = (s', r)" and "abs s i = Some e"
    and "distinct ks" and "set ks = dom (abs s')"
  shows "find s' i = Inl ErrEntryDeleted \<and> i \<notin> li_ID ` set (list ks s')"
proof -
  have f: "find s' i = Inl ErrEntryDeleted" using find_delete [OF assms(2,3)] by simp
  then have "i \<noteq> li_ID it" if "it \<in> set (list ks s')" for it
    using that list_find [OF keyed_delete [OF assms(1,2)] assms(4,5)] by (auto simp: ToListItem_def)
  with f show ?thesis by auto
qed

end

subsection \<open>The in-memory store\<close>

record EntryStore =
  st_entries :: "uuid \<rightharpoonup> Entry"

definition NewEntryStore :: EntryStore where
  "NewEntryStore = \<lparr>st_entries = Map.empty\<rparr>"

definition mem_Save :: "EntryStore \<Rightarrow> Entry \<Rightarrow> EntryStore \<times> EntryError option" where
  "mem_Save s entry = (s\<lparr>st_entries := (st_entries s)(en_ID entry \<mapsto> entry)\<rparr>, None)"

definition mem_FindByID :: "EntryStore \<Rightarrow> uuid \<Rightarrow> EntryError + Entry" where
  "mem_FindByID s i =
     (case st_entries s i of
        None \<Rightarrow> Inl ErrEntryNotFound
      | Some entry \<Rightarrow> if en_Deleted entry then Inl ErrEntryDeleted else Inr entry)"

fun list_items :: "(uuid \<rightharpoonup> Entry) \<Rightarrow> uuid list \<Rightarrow> EntryListItem list" where
  "list_items m [] = []"
| "list_items m (k # ks) =
     (case m k of
        None \<Rightarrow> list_items m ks
      | Some entry \<Rightarrow>
          if \<not> en_Deleted entry then ToListItem entry # list_items m ks else list_items m ks)"

definition mem_List :: "uuid list \<Rightarrow> EntryStore \<Rightarrow> EntryListItem list" where
  "mem_List ks s = list_items (st_entries s) ks"

definition mem_Delete :: "EntryStore \<Rightarrow> uuid \<Rightarrow> EntryStore \<times> EntryError option" where
  "mem_Delete s i =
     (case st_entries s i of
        None \<Rightarrow> (s, Some ErrEntryNotFound)
      | Some entry \<Rightarrow>
          (s\<lparr>st_entries := (st_entries s)(i \<mapsto> entry\<lparr>en_Deleted := True\<rparr>)\<rparr>, None))"

lemma list_items_mset:
  "set ks \<subseteq> dom m \<Longrightarrow>
     mset (list_items m ks) = image_mset ToListItem (filter_mset (\<lambda>e. \<not> en_Deleted e)
        (image_mset (\<lambda>k. the (m k)) (mset ks)))"
  by (induction ks) (auto simp: dom_def)

interpretation mem_entries: entry_store "\<lambda>_::unit. mem_Save" mem_FindByID mem_List
  "\<lambda>_::unit. mem_Delete" st_entries "\<lambda>_ _ _. False"
  by unfold_locales
    (auto simp: mem_FindByID_def mem_List_def mem_Save_def mem_Delete_def list_items_mset
      split: option.splits)

subsection \<open>The store on disk\<close>

record entryJSON =
  nj_ID :: string
  nj_Title :: string
  nj_Content :: string
  nj_Thumbnail :: "string option"
  nj_Text :: string
  nj_CreatedAt :: string
  nj_UpdatedAt :: string
  nj_Deleted :: bool

text \<open>
  \<open>json.MarshalIndent\<close> and \<open>json.Unmarshal\<close> of the list of entries, the text forms of
  identifiers and times. Marshalling strings, booleans and pointers to strings cannot fail.
\<close>

record entry_codec =
  marshal_entries :: "entryJSON list \<Rightarrow> string"
  unmarshal_entries :: "string \<Rightarrow> entryJSON list option"
  nuuid_string :: "uuid \<Rightarrow> string"
  nuuid_parse :: "string \<Rightarrow> uuid option"
  ntime_format :: "go_time \<Rightarrow> string"
  ntime_parse :: "string \<Rightarrow> go_time option"

record FileEntryStore = EntryStore +
  st_dir :: dir

definition entries_path :: string where "entries_path = ''entries.json''"

definition load_entry :: "entry_codec \<Rightarrow> (uuid \<rightharpoonup> Entry) \<Rightarrow> entryJSON \<Rightarrow> (uuid \<rightharpoonup> Entry)" where
  "load_entry cdc m item =
     (case nuuid_parse cdc (nj_ID item) of
        None \<Rightarrow> m
      | Some i \<Rightarrow>
          m(i \<mapsto> \<lparr>en_ID = i, en_Title = nj_Title item, en_Content = nj_Content item,
                   en_Thumbnail = nj_Thumbnail item, en_Text = nj_Text item,
                   en_CreatedAt = time_or_zero (ntime_parse cdc (nj_CreatedAt item)),
                   en_UpdatedAt = time_or_zero (ntime_parse cdc (nj_UpdatedAt item)),
                   en_Deleted = nj_Deleted item\<rparr>))"

definition loadFromFile :: "entry_codec \<Rightarrow> FileEntryStore \<Rightarrow> FileEntryStore option" where
  "loadFromFile cdc s =
     (case st_dir s entries_path of
        None \<Rightarrow> Some s
      | Some (RegFile c) \<Rightarrow>
          if c = [] then Some s
          else (case unmarshal_entries cdc c of
                  None \<Rightarrow> None
                | Some items \<Rightarrow>
                    Some (s\<lparr>st_entries := foldl (load_entry cdc) (st_entries s) items\<rparr>))
      | Some _ \<Rightarrow> None)"

definition NewFileEntryStore :: "entry_codec \<Rightarrow> bool \<Rightarrow> dir \<Rightarrow> FileEntryStore option" where
  "NewFileEntryStore cdc mkdir_ok d =
     (if \<not> mkdir_ok then None else loadFromFile cdc \<lparr>st_entries = Map.empty, st_dir = d\<rparr>)"

definition entry_json :: "entry_codec \<Rightarrow> Entry \<Rightarrow> entryJSON" where
  "entry_json cdc entry =
     \<lparr>nj_ID = nuuid_string cdc (en_ID entry), nj_Title = en_Title entry,
      nj_Content = en_Content entry, nj_Thumbnail = en_Thumbnail entry, nj_Text = en_Text entry,
      nj_CreatedAt = ntime_format cdc (en_CreatedAt entry),
      nj_UpdatedAt = ntime_format cdc (en_UpdatedAt entry), nj_Deleted = en_Deleted entry\<rparr>"

definition entry_items :: "entry_codec \<Rightarrow> uuid list \<Rightarrow> (uuid \<rightharpoonup> Entry) \<Rightarrow> entryJSON list" where
  "entry_items cdc ks m = map (entry_json cdc) (List.map_filter m ks)"

text \<open>The environment of a write: the order in which the map is visited, and the outcome.\<close>

definition saveToFile ::
  "entry_codec \<Rightarrow> uuid list \<times> write_io \<Rightarrow> FileEntryStore \<Rightarrow> FileEntryStore \<times> EntryError option" where
  "saveToFile cdc x s =
     (let (d, ok) = WriteFile (snd x) entries_path
                      (marshal_entries cdc (entry_items cdc (fst x) (st_entries s))) (st_dir s)
      in (s\<lparr>st_dir := d\<rparr>, if ok then None else Some ErrEntryIO))"

definition file_Save ::
  "entry_codec \<Rightarrow> uuid list \<times> write_io \<Rightarrow> FileEntryStore \<Rightarrow> Entry
     \<Rightarrow> FileEntryStore \<times> EntryError option" where
  "file_Save cdc x s entry =
     saveToFile cdc x (s\<lparr>st_entries := (st_entries s)(en_ID entry \<mapsto> entry)\<rparr>)"

definition file_FindByID :: "FileEntryStore \<Rightarrow> uuid \<Rightarrow> EntryError + Entry" where
  "file_FindByID s i =
     (case st_entries s i of
        None \<Rightarrow> Inl ErrEntryNotFound
      | Some entry \<Rightarrow> if en_Deleted entry then Inl ErrEntryDeleted else Inr entry)"

text \<open>
  \<open>slices.SortFunc\<close>, newest first. It is not stable, but the order of the keys is arbitrary
  anyway, so every outcome is the stable sort for some \<open>ks\<close>.
\<close>

definition file_List :: "uuid list \<Rightarrow> FileEntryStore \<Rightarrow> EntryListItem list" where
  "file_List ks s = sort_key (\<lambda>it. - li_CreatedAt it) (list_items (st_entries s) ks)"

definition file_Delete ::
  "entry_codec \<Rightarrow> uuid list \<times> write_io \<Rightarrow> FileEntryStore \<Rightarrow> uuid
     \<Rightarrow> FileEntryStore \<times> EntryError option" where
  "file_Delete cdc x s i =
     (case st_entries s i of
        None \<Rightarrow> (s, Some ErrEntryNotFound)
      | Some entry \<Rightarrow>
          saveToFile cdc x (s\<lparr>st_entries := (st_entries s)(i \<mapsto> entry\<lparr>en_Deleted := True\<rparr>)\<rparr>))"

definition write_fails ::
  "uuid list \<times> write_io \<Rightarrow> FileEntryStore \<Rightarrow> (uuid \<rightharpoonup> Entry) \<Rightarrow> bool" where
  "write_fails x s m \<longleftrightarrow> \<not> io_ok (snd x) \<or> st_dir s entries_path = Some SubDir
     \<or> st_dir s entries_path = Some Unreadable"

lemma saveToFile_eq:
  "saveToFile cdc x s = (s', r) \<Longrightarrow>
     st_entries s' = st_entries s \<and> r = (if write_fails x s m then Some ErrEntryIO else None)"
  by (auto simp: saveToFile_def WriteFile_def write_fails_def io_ok_def Let_def split: if_splits)

interpretation file_entries: entry_store "file_Save cdc" file_FindByID file_List "file_Delete cdc"
  st_entries write_fails for cdc
proof
  show "file_FindByID s i = (case st_entries s i of None \<Rightarrow> Inl ErrEntryNotFound
      | Some e \<Rightarrow> if en_Deleted e then Inl ErrEntryDeleted else Inr e)" for s i
    by (simp add: file_FindByID_def)
  show "mset (file_List ks s) = image_mset ToListItem (filter_mset (\<lambda>e. \<not> en_Deleted e)
        (image_mset (\<lambda>k. the (st_entries s k)) (mset ks)))"
    if "set ks = dom (st_entries s)" for ks s
    using that by (simp add: file_List_def list_items_mset)
  show "st_entries s' = (st_entries s)(en_ID e \<mapsto> e)
      \<and> r = (if write_fails x s (st_entries s') then Some ErrEntryIO else None)"
    if "file_Save cdc x s e = (s', r)" for x s e s' r
    using saveToFile_eq [of cdc x "s\<lparr>st_entries := (st_entries s)(en_ID e \<mapsto> e)\<rparr>" s' r] that
    by (simp add: file_Save_def write_fails_def)
  show "file_Delete cdc x s i = (s, Some ErrEntryNotFound)" if "st_entries s i = None" for x s i
    using that by (simp add: file_Delete_def)
  show "st_entries s' = (st_entries s)(i \<mapsto> e\<lparr>en_Deleted := True\<rparr>)
      \<and> r = (if write_fails x s (st_entries s') then Some ErrEntryIO else None)"
    if "st_entries s i = Some e" and "file_Delete cdc x s i = (s', r)" for x s i e s' r
    using saveToFile_eq [of cdc x "s\<lparr>st_entries := (st_entries s)(i \<mapsto> e\<lparr>en_Deleted := True\<rparr>)\<rparr>" s' r] that
    by (simp add: file_Delete_def write_fails_def)
qed

subsection \<open>Reopening\<close>

definition entry_codec_ok :: "entry_codec \<Rightarrow> bool" where
  "entry_codec_ok cdc \<longleftrightarrow> (\<forall>u. nuuid_parse cdc (nuuid_string cdc u) = Some u)
     \<and> (\<forall>t. ntime_parse cdc (ntime_format cdc t) = Some t)
     \<and> (\<forall>items. marshal_entries cdc items \<noteq> [])"

lemma load_entry_json:
  "entry_codec_ok cdc \<Longrightarrow> load_entry cdc m (entry_json cdc e) = m(en_ID e \<mapsto> e)"
  by (cases e) (simp add: load_entry_def entry_json_def entry_codec_ok_def time_or_zero_def)

lemma foldl_load_entry:
  assumes "entry_codec_ok cdc" and "\<And>k e. m k = Some e \<Longrightarrow> en_ID e = k"
  shows "set ks \<subseteq> dom m \<Longrightarrow>
    foldl (load_entry cdc) m0 (entry_items cdc ks m) = (\<lambda>k. if k \<in> set ks then m k else m0 k)"
proof (induction ks arbitrary: m0)
  case Nil
  then show ?case by (simp add: entry_items_def List.map_filter_def)
next
  case (Cons k ks)
  then obtain e where e: "m k = Some e" by auto
  then have "entry_items cdc (k # ks) m = entry_json cdc e # entry_items cdc ks m"
    by (simp add: entry_items_def)
  then show ?case
    using Cons e assms(2) [OF e] by (auto simp: load_entry_json [OF assms(1)] fun_eq_iff)
qed

lemma saveToFile_reopen:
  assumes ok: "entry_codec_ok cdc" and keyed: "\<And>k e. st_entries s k = Some e \<Longrightarrow> en_ID e = k"
    and ks: "set ks = dom (st_entries s)"
    and json: "unmarshal_entries cdc (marshal_entries cdc (entry_items cdc ks (st_entries s)))
      = Some (entry_items cdc ks (st_entries s))"
    and save: "saveToFile cdc (ks, io) s = (s', None)"
  shows "NewFileEntryStore cdc True (st_dir s') = Some s'"
proof -
  let ?items = "entry_items cdc ks (st_entries s)"
  have s': "st_dir s' entries_path = Some (RegFile (marshal_entries cdc ?items))"
    "st_entries s' = st_entries s" "s' = s\<lparr>st_dir := st_dir s'\<rparr>"
    using save by (auto simp: saveToFile_def WriteFile_def io_ok_def Let_def split: if_splits)
  have "(\<lambda>k. if k \<in> set ks then st_entries s k else Map.empty k) = st_entries s"
    using ks by (auto simp: fun_eq_iff dom_def)
  then have "foldl (load_entry cdc) Map.empty ?items = st_entries s'"
    using foldl_load_entry [OF ok keyed] ks s'(2) by simp
  then show ?thesis
    using ok json s'(1)
    by (cases s') (simp add: NewFileEntryStore_def loadFromFile_def entry_codec_ok_def)
qed

subsection \<open>Properties\<close>

text \<open>
  the list of entries. Whatever the order in which the map is visited, the store on disk
  lists exactly the entries that can be opened, newest first, and an entry that was deleted is
  neither listed nor found.
\<close>

theorem entry_list_correct:
  assumes "\<And>k e. st_entries s k = Some e \<Longrightarrow> en_ID e = k"
    and "distinct ks" and "set ks = dom (st_entries s)"
  shows "sorted_wrt (\<lambda>a b. li_CreatedAt a \<ge> li_CreatedAt b) (file_List ks s)
    \<and> (\<forall>it. it \<in> set (file_List ks s)
          \<longleftrightarrow> (\<exists>e. file_FindByID s (en_ID e) = Inr e \<and> it = ToListItem e))
    \<and> (\<forall>x i e s' r ks'. st_entries s i = Some e \<longrightarrow> file_Delete cdc x s i = (s', r)
          \<longrightarrow> distinct ks' \<longrightarrow> set ks' = dom (st_entries s')
          \<longrightarrow> file_FindByID s' i = Inl ErrEntryDeleted \<and> i \<notin> li_ID ` set (file_List ks' s'))"
proof -
  have keyed: "file_entries.keyed s" using assms(1) by (simp add: file_entries.keyed_def)
  have "sorted (map (\<lambda>it. - li_CreatedAt it) (file_List ks s))"
    by (simp add: file_List_def)
  then have "sorted_wrt (\<lambda>a b. li_CreatedAt a \<ge> li_CreatedAt b) (file_List ks s)"
    by (simp add: sorted_wrt_map)
  then show ?thesis
    using file_entries.list_find [OF keyed assms(2,3)] file_entries.deleted_gone [OF keyed] by blast
qed

definition ex_entry :: Entry where
  "ex_entry = (NewEntry 4 100)\<lparr>en_Title := ''t''\<rparr>"

definition ex_entries :: FileEntryStore where
  "ex_entries = \<lparr>st_entries = [4 \<mapsto> ex_entry], st_dir = Map.empty\<rparr>"

theorem entry_list_correct_witness:
  "file_List [4] ex_entries = [ToListItem ex_entry]
   \<and> (\<forall>it. it \<in> set (file_List [4] ex_entries)
        \<longleftrightarrow> (\<exists>e. file_FindByID ex_entries (en_ID e) = Inr e \<and> it = ToListItem e))"
proof
  show "file_List [4] ex_entries = [ToListItem ex_entry]"
    by (simp add: file_List_def ex_entries_def ex_entry_def NewEntry_def)
  have "\<And>k e. st_entries ex_entries k = Some e \<Longrightarrow> en_ID e = k"
    by (auto simp: ex_entries_def ex_entry_def NewEntry_def split: if_splits)
  from entry_list_correct [of ex_entries "[4]", OF this]
  show "\<forall>it. it \<in> set (file_List [4] ex_entries)
        \<longleftrightarrow> (\<exists>e. file_FindByID ex_entries (en_ID e) = Inr e \<and> it = ToListItem e)"
    by (simp add: ex_entries_def)
qed

text \<open>
  entries survive a restart. After a \<open>Save\<close> or a \<open>Delete\<close> that reported success, opening
  the store again on the files it left gives the same store: every entry, deleted ones
  included, with all its fields.
\<close>

theorem entries_survive_restart:
  assumes "entry_codec_ok cdc"
    and "unmarshal_entries cdc (marshal_entries cdc (entry_items cdc ks (st_entries s')))
      = Some (entry_items cdc ks (st_entries s'))"
    and "\<And>k e. st_entries s k = Some e \<Longrightarrow> en_ID e = k"
    and "file_Save cdc (ks, io) s entry = (s', None) \<or> file_Delete cdc (ks, io) s i = (s', None)"
    and "set ks = dom (st_entries s')"
  shows "NewFileEntryStore cdc True (st_dir s') = Some s'"
proof -
  have keyed: "file_entries.keyed s" using assms(3) by (simp add: file_entries.keyed_def)
  obtain s1 where s1: "saveToFile cdc (ks, io) s1 = (s', None)"
    using assms(4) by (auto simp: file_Save_def file_Delete_def split: option.splits)
  have st: "st_entries s1 = st_entries s'" using saveToFile_eq [OF s1] by simp
  have "file_entries.keyed s'"
    using assms(4) file_entries.keyed_save [OF keyed] file_entries.keyed_delete [OF keyed] by blast
  then have "\<And>k e. st_entries s1 k = Some e \<Longrightarrow> en_ID e = k"
    by (simp add: file_entries.keyed_def st)
  then show ?thesis
    by (rule saveToFile_reopen [OF assms(1) _ _ _ s1]) (simp_all add: assms(2,5) st)
qed

definition ex_entry_codec :: "entryJSON list \<Rightarrow> entry_codec" where
  "ex_entry_codec items = \<lparr>marshal_entries = (\<lambda>_. ''[{}]''), unmarshal_entries = (\<lambda>_. Some items),
     nuuid_string = uuid_hex, nuuid_parse = unhex_canonical,
     ntime_format = unary_text, ntime_parse = unary_parse\<rparr>"

lemma ex_entry_codec_ok: "entry_codec_ok (ex_entry_codec items)"
  by (auto simp: entry_codec_ok_def ex_entry_codec_def unhex_uuid_hex)

theorem entries_survive_restart_witness:
  "NewFileEntryStore (ex_entry_codec [entry_json (ex_entry_codec []) ex_entry]) True
     (st_dir (fst (file_Save (ex_entry_codec [entry_json (ex_entry_codec []) ex_entry]) ([4], Writes) ex_entries ex_entry)))
   = Some (fst (file_Save (ex_entry_codec [entry_json (ex_entry_codec []) ex_entry]) ([4], Writes) ex_entries ex_entry))"
proof (rule entries_survive_restart [OF ex_entry_codec_ok, where ks = "[4]" and io = Writes and s = ex_entries
      and entry = ex_entry and i = 0])
  let ?c = "ex_entry_codec [entry_json (ex_entry_codec []) ex_entry]"
  let ?s = "fst (file_Save ?c ([4], Writes) ex_entries ex_entry)"
  have s: "st_entries ?s = [4 \<mapsto> ex_entry]"
    by (simp add: file_Save_def saveToFile_def WriteFile_def ex_entries_def ex_entry_def NewEntry_def Let_def)
  show "unmarshal_entries ?c (marshal_entries ?c (entry_items ?c [4] (st_entries ?s)))
      = Some (entry_items ?c [4] (st_entries ?s))"
    unfolding s by (simp add: entry_items_def ex_entry_codec_def entry_json_def)
  show "\<And>k e. st_entries ex_entries k = Some e \<Longrightarrow> en_ID e = k"
    by (auto simp: ex_entries_def ex_entry_def NewEntry_def split: if_splits)
  show "file_Save ?c ([4], Writes) ex_entries ex_entry = (?s, None)
      \<or> file_Delete ?c ([4], Writes) ex_entries 0 = (?s, None)"
    by (simp add: file_Save_def saveToFile_def WriteFile_def ex_entries_def io_ok_def Let_def)
  show "set [4] = dom (st_entries ?s)" by (simp add: s)
qed

end
