(* ===== verification/Projector.thy ===== *)
theory Projector
  imports Rga_Serial Entry_Store File_Event_Store
begin

text \<open>
  \<open>application/entry_projector.go\<close> with the snapshot files of \<open>adapter/jsonfile/rga_state_store.go\<close>:
  the projection of recorded operations onto the replicas of the server, the entries and the
  markdown files, and the reconstruction at start-up.

  The codecs are collected in \<open>proj_codec\<close>, what the environment decides during one call
  (orders of map iterations, outcomes of writes) in \<open>proj_env\<close>. The result of a call is
  \<open>None\<close> when \<open>rga.Apply\<close> does not return. Log lines are left out.
\<close>

record proj_codec =
  pc_unmarshal :: "string \<Rightarrow> payloadMsg option"
  pc_uparse :: "string \<Rightarrow> uuid option"
  pc_ustr :: "uuid \<Rightarrow> string"
  pc_entry :: entry_codec
  pc_marshal_snap :: "RGASnapshot \<Rightarrow> string"
  pc_unmarshal_snap :: "string \<Rightarrow> RGASnapshot option"

record proj_env =
  pe_seen :: "uuid list"
  pe_entry :: "uuid list \<times> write_io"
  pe_snap :: write_io
  pe_md :: write_io

record EntryProjector =
  pr_rgas :: "uuid \<rightharpoonup> RGA"
  pr_entries :: FileEntryStore
  pr_snaps :: dir
  pr_markdown :: dir

subsection \<open>Snapshot files\<close>

definition snap_path :: "proj_codec \<Rightarrow> uuid \<Rightarrow> string" where
  "snap_path cdc entryID = pc_ustr cdc entryID @ ''.json''"

definition SaveRGA ::
  "proj_codec \<Rightarrow> write_io \<Rightarrow> dir \<Rightarrow> uuid \<Rightarrow> RGASnapshot \<Rightarrow> dir \<times> bool" where
  "SaveRGA cdc io d entryID snap = WriteFile io (snap_path cdc entryID) (pc_marshal_snap cdc snap) d"

definition LoadRGA :: "proj_codec \<Rightarrow> dir \<Rightarrow> uuid \<Rightarrow> RGASnapshot option" where
  "LoadRGA cdc d entryID =
     (case d (snap_path cdc entryID) of
        Some (RegFile c) \<Rightarrow> pc_unmarshal_snap cdc c
      | _ \<Rightarrow> None)"

text \<open>\<open>names\<close> is the result of \<open>os.ReadDir\<close>, which fails with \<open>None\<close>.\<close>

definition ListRGAEntryIDs :: "proj_codec \<Rightarrow> dir \<Rightarrow> string list option \<Rightarrow> uuid list option" where
  "ListRGAEntryIDs cdc d names =
     map_option (\<lambda>ns. List.map_filter (\<lambda>n.
         if d n = Some SubDir \<or> \<not> HasSuffix n ''.json'' then None
         else pc_uparse cdc (TrimSuffix n ''.json'')) ns) names"

subsection \<open>Derived fields\<close>

text \<open>\<open>strings.SplitN(text, "\n", 2)[0]\<close> and at most 200 runes.\<close>

definition deriveFields :: "string \<Rightarrow> string \<times> string" where
  "deriveFields txt =
     (takeWhile (\<lambda>c. c \<noteq> LF) txt,
      if RuneCountInString txt > 200 then string_of_runes (take 200 (runes_of_string txt)) else txt)"

definition saveMarkdown :: "proj_codec \<Rightarrow> write_io \<Rightarrow> dir \<Rightarrow> uuid \<Rightarrow> string \<Rightarrow> dir" where
  "saveMarkdown cdc io d entryID txt = fst (WriteFile io (pc_ustr cdc entryID @ ''.md'') txt d)"

subsection \<open>Projecting one operation\<close>

text \<open>
  An unauthenticated deletion of an authenticated node is refused; everything else goes to
  the replica.
\<close>

definition applyGated :: "(uuid \<Rightarrow> string) \<Rightarrow> RGA \<Rightarrow> Operation \<Rightarrow> (RGA \<times> bool) option" where
  "applyGated ustr r op =
     (if op_OpType op = OpDelete \<and> \<not> op_Authenticated op
      then do {
        auth \<leftarrow> IsNodeAuthenticated r (op_NodeID op);
        if auth then Some (r, False)
        else do { (r', _) \<leftarrow> Apply ustr r op; Some (r', True) }
      }
      else do { (r', _) \<leftarrow> Apply ustr r op; Some (r', True) })"

definition rga_of :: "EntryProjector \<Rightarrow> uuid \<Rightarrow> RGA" where
  "rga_of p entryID = (case pr_rgas p entryID of None \<Rightarrow> NewRGA 0 | Some r \<Rightarrow> r)"

text \<open>
  The end of \<open>Apply\<close> and of an iteration of \<open>Restore\<close>: the entry, the snapshot and the
  markdown file are written. A failed snapshot or markdown write is only logged.
\<close>

datatype project_result = Projected | EntryMissing | EntrySaveFailed

definition projectEntry ::
  "proj_codec \<Rightarrow> proj_env \<Rightarrow> EntryProjector \<Rightarrow> uuid \<Rightarrow> RGA \<Rightarrow> EntryProjector \<times> project_result" where
  "projectEntry cdc env p entryID rga =
     (let txt = Text rga;
          (title, content) = deriveFields txt
      in case file_FindByID (pr_entries p) entryID of
           Inl _ \<Rightarrow> (p, EntryMissing)
         | Inr entry \<Rightarrow>
             (case file_Save (pc_entry cdc) (pe_entry env) (pr_entries p)
                     (entry\<lparr>en_Title := title, en_Content := content, en_Text := txt\<rparr>) of
                (es, Some _) \<Rightarrow> (p\<lparr>pr_entries := es\<rparr>, EntrySaveFailed)
              | (es, None) \<Rightarrow>
                  (p\<lparr>pr_entries := es,
                     pr_snaps := fst (SaveRGA cdc (pe_snap env) (pr_snaps p) entryID
                                        (Export (pc_ustr cdc) (pe_seen env) rga)),
                     pr_markdown := saveMarkdown cdc (pe_md env) (pr_markdown p) entryID txt\<rparr>,
                   Projected)))"

definition proj_Apply ::
  "proj_codec \<Rightarrow> proj_env \<Rightarrow> EntryProjector \<Rightarrow> uuid \<Rightarrow> string \<Rightarrow> (EntryProjector \<times> bool) option" where
  "proj_Apply cdc env p entryID payload =
     (case OperationFromPayload (pc_unmarshal cdc) (pc_uparse cdc) payload of
        Inl _ \<Rightarrow> Some (p, False)
      | Inr op \<Rightarrow>
          do {
            (rga, accepted) \<leftarrow> applyGated (pc_ustr cdc) (rga_of p entryID) op;
            let p1 = p\<lparr>pr_rgas := (pr_rgas p)(entryID \<mapsto> rga)\<rparr>;
            if \<not> accepted then Some (p1, False)
            else (let (p2, res) = projectEntry cdc env p1 entryID rga
                  in Some (p2, res = Projected))
          })"

definition proj_IsNodeAuthenticated :: "EntryProjector \<Rightarrow> uuid \<Rightarrow> NodeID \<Rightarrow> bool option" where
  "proj_IsNodeAuthenticated p entryID nodeID =
     (case pr_rgas p entryID of None \<Rightarrow> Some True | Some rga \<Rightarrow> IsNodeAuthenticated rga nodeID)"

subsection \<open>Start-up\<close>

text \<open>The snapshots that load and import replace the replicas.\<close>

fun restoreSnapshots ::
  "proj_codec \<Rightarrow> dir \<Rightarrow> uuid list \<Rightarrow> (uuid \<rightharpoonup> RGA) \<Rightarrow> (uuid \<rightharpoonup> RGA)" where
  "restoreSnapshots cdc d [] m = m"
| "restoreSnapshots cdc d (i # is) m =
     (case LoadRGA cdc d i of
        None \<Rightarrow> restoreSnapshots cdc d is m
      | Some snap \<Rightarrow>
          (case ImportRGA (pc_uparse cdc) snap of
             Inl _ \<Rightarrow> restoreSnapshots cdc d is m
           | Inr rga \<Rightarrow> restoreSnapshots cdc d is (m(i \<mapsto> rga))))"

fun replayEvents :: "proj_codec \<Rightarrow> Event list \<Rightarrow> RGA \<Rightarrow> RGA option" where
  "replayEvents cdc [] rga = Some rga"
| "replayEvents cdc (ev # evs) rga =
     (if ev_EventType ev \<noteq> EventCRDTOp then replayEvents cdc evs rga
      else (case OperationFromPayload (pc_unmarshal cdc) (pc_uparse cdc) (ev_Payload ev) of
              Inl _ \<Rightarrow> replayEvents cdc evs rga
            | Inr op \<Rightarrow>
                Option.bind (Apply (pc_ustr cdc) rga op) (\<lambda>(rga', _). replayEvents cdc evs rga')))"

text \<open>The second loop; each iteration has its own environment. The flag is "no error".\<close>

fun restoreEntries ::
  "proj_codec \<Rightarrow> (uuid \<Rightarrow> proj_env) \<Rightarrow> FileEventStore \<Rightarrow> uuid list \<Rightarrow> EntryProjector
     \<Rightarrow> (EntryProjector \<times> bool) option" where
  "restoreEntries cdc env es [] p = Some (p, True)"
| "restoreEntries cdc env es (i # is) p =
     Option.bind (replayEvents cdc (file_ListAfter es i 0) (rga_of p i))
       (\<lambda>rga. let (p', res) = projectEntry cdc (env i) (p\<lparr>pr_rgas := (pr_rgas p)(i \<mapsto> rga)\<rparr>) i rga
              in if res = EntrySaveFailed then Some (p', False)
                 else restoreEntries cdc env es is p')"

definition Restore ::
  "proj_codec \<Rightarrow> (uuid \<Rightarrow> proj_env) \<Rightarrow> string list option \<Rightarrow> FileEventStore \<Rightarrow> uuid list
     \<Rightarrow> EntryProjector \<Rightarrow> (EntryProjector \<times> bool) option" where
  "Restore cdc env names es entryIDs p =
     (case ListRGAEntryIDs cdc (pr_snaps p) names of
        None \<Rightarrow> Some (p, False)
      | Some snapIDs \<Rightarrow>
          restoreEntries cdc env es entryIDs
            (p\<lparr>pr_rgas := restoreSnapshots cdc (pr_snaps p) snapIDs (pr_rgas p)\<rparr>))"

end
