(* ===== verification/Projector_Props.thy ===== *)
theory Projector_Props
  imports Projector
begin

text \<open>
  Properties of the projector: what the view of an entry is, that the content of authenticated
  users is protected while the server runs, and what a restart does.
\<close>

subsection \<open>Derived fields\<close>

lemma runes_valid: "r \<in> set (runes_of_string s) \<Longrightarrow> valid_rune r"
proof (induction s rule: runes_of_string.induct)
  case (1 s)
  show ?case
  proof (cases "s = []")
    case True
    then show ?thesis using 1(2) by (simp add: runes_of_string.simps)
  next
    case False
    obtain x n where d: "DecodeRuneInString s = (x, n)" by (cases "DecodeRuneInString s")
    have "runes_of_string s = x # runes_of_string (drop n s)"
      using False by (subst runes_of_string.simps) (simp add: d)
    moreover have "valid_rune x" using DecodeRune_valid [of s] by (simp add: d)
    ultimately show ?thesis using 1 False d by auto
  qed
qed

lemma RuneCount_take: "RuneCountInString (string_of_runes (take n (runes_of_string s)))
    = min (RuneCountInString s) n"
  unfolding RuneCountInString_def
  by (subst runes_of_string_of_runes) (auto dest: in_set_takeD runes_valid)

lemma takeWhile_split:
  "\<exists>rest. s = takeWhile P s @ rest \<and> (rest = [] \<or> \<not> P (hd rest))"
  using hd_dropWhile [of P s] by (intro exI [of _ "dropWhile P s"]) auto

text \<open>
  title and content. The title is the first line of the text; the content is a text of at
  most 200 runes, the whole text when that is short enough, and for a text made of Unicode
  scalar values exactly its first 200 runes, so a multi-byte character is never cut.
\<close>

theorem derive_fields:
  "LF \<notin> set (fst (deriveFields txt))
   \<and> (\<exists>rest. txt = fst (deriveFields txt) @ rest \<and> (rest = [] \<or> hd rest = LF))
   \<and> RuneCountInString (snd (deriveFields txt)) = min (RuneCountInString txt) 200
   \<and> (\<forall>rs. txt = string_of_runes rs \<and> list_all valid_rune rs
        \<longrightarrow> snd (deriveFields txt) = string_of_runes (take 200 rs))"
proof (intro conjI allI impI)
  show "LF \<notin> set (fst (deriveFields txt))"
    by (auto simp: deriveFields_def dest: set_takeWhileD)
  show "\<exists>rest. txt = fst (deriveFields txt) @ rest \<and> (rest = [] \<or> hd rest = LF)"
    using takeWhile_split [of "txt" "\<lambda>c. c \<noteq> LF"] by (simp add: deriveFields_def)
  show "RuneCountInString (snd (deriveFields txt)) = min (RuneCountInString txt) 200"
    by (simp add: deriveFields_def RuneCount_take)
  fix rs
  assume rs: "txt = string_of_runes rs \<and> list_all valid_rune rs"
  then have "runes_of_string txt = rs"
    using runes_of_string_of_runes [of rs] by (simp add: list_all_iff)
  then show "snd (deriveFields txt) = string_of_runes (take 200 rs)"
    using rs by (simp add: deriveFields_def RuneCountInString_def)
qed

theorem derive_fields_witness:
  "LF \<notin> set (fst (deriveFields (string_of_runes [104, 105])))
   \<and> RuneCountInString (snd (deriveFields (string_of_runes [104, 105])))
       = min (RuneCountInString (string_of_runes [104, 105])) 200
   \<and> snd (deriveFields (string_of_runes [104, 105])) = string_of_runes (take 200 [104, 105])"
  using derive_fields [of "string_of_runes [104, 105]"]
  by (auto simp: valid_rune_def valid_code_def)

subsection \<open>The view of an entry\<close>

text \<open>
  C16: what \<open>Apply\<close> leaves behind. When it reports success the operation was accepted by the
  gate, the entry exists and its text, title and content are those of the replica with the
  operation applied, all other fields and all other entries are untouched, and the snapshot
  file (if its write succeeded) holds this replica. When it reports failure the entries and
  snapshots are as before unless the entry file could not be written.
\<close>

theorem apply_projects:
  assumes "proj_Apply cdc env p entryID payload = Some (p', b)"
  shows "(b \<longrightarrow> (\<exists>op rga entry. OperationFromPayload (pc_unmarshal cdc) (pc_uparse cdc) payload = Inr op
            \<and> applyGated (pc_ustr cdc) (rga_of p entryID) op = Some (rga, True)
            \<and> pr_rgas p' = (pr_rgas p)(entryID \<mapsto> rga)
            \<and> file_FindByID (pr_entries p) entryID = Inr entry
            \<and> st_entries (pr_entries p') = (st_entries (pr_entries p))(en_ID entry \<mapsto>
                 entry\<lparr>en_Title := fst (deriveFields (Text rga)),
                       en_Content := snd (deriveFields (Text rga)), en_Text := Text rga\<rparr>)
            \<and> pr_snaps p' = fst (SaveRGA cdc (pe_snap env) (pr_snaps p) entryID
                 (Export (pc_ustr cdc) (pe_seen env) rga))))
    \<and> (\<not> b \<longrightarrow> pr_snaps p' = pr_snaps p \<and> pr_markdown p' = pr_markdown p
          \<and> (pr_entries p' = pr_entries p \<or> write_fails (pe_entry env) (pr_entries p) (st_entries (pr_entries p'))))"
proof (cases "OperationFromPayload (pc_unmarshal cdc) (pc_uparse cdc) payload")
  case (Inl e)
  then show ?thesis using assms by (simp add: proj_Apply_def)
next
  case (Inr op)
  obtain rga acc where g: "applyGated (pc_ustr cdc) (rga_of p entryID) op = Some (rga, acc)"
    using assms Inr by (auto simp: proj_Apply_def bind_eq_Some_conv)
  let ?p1 = "p\<lparr>pr_rgas := (pr_rgas p)(entryID \<mapsto> rga)\<rparr>"
  show ?thesis
  proof (cases acc)
    case False
    then have "p' = ?p1" "\<not> b" using assms Inr g by (simp_all add: proj_Apply_def)
    then show ?thesis by simp
  next
    case True
    obtain p2 res where pe: "projectEntry cdc env ?p1 entryID rga = (p2, res)"
      by (cases "projectEntry cdc env ?p1 entryID rga")
    have p': "p' = p2" "b = (res = Projected)"
      using assms Inr g True pe by (simp_all add: proj_Apply_def)
    show ?thesis
    proof (cases "file_FindByID (pr_entries p) entryID")
      case (Inl e)
      then show ?thesis using pe p' by (auto simp: projectEntry_def Let_def split: prod.splits)
    next
      case (Inr entry)
      let ?e = "entry\<lparr>en_Title := fst (deriveFields (Text rga)),
          en_Content := snd (deriveFields (Text rga)), en_Text := Text rga\<rparr>"
      obtain es r where sv: "file_Save (pc_entry cdc) (pe_entry env) (pr_entries p) ?e = (es, r)"
        by (cases "file_Save (pc_entry cdc) (pe_entry env) (pr_entries p) ?e")
      note f = file_entries.save_abs [OF sv]
      have "p2 = (case r of Some _ \<Rightarrow> ?p1\<lparr>pr_entries := es\<rparr> | None \<Rightarrow> ?p1\<lparr>pr_entries := es,
            pr_snaps := fst (SaveRGA cdc (pe_snap env) (pr_snaps p) entryID
               (Export (pc_ustr cdc) (pe_seen env) rga)),
            pr_markdown := saveMarkdown cdc (pe_md env) (pr_markdown p) entryID (Text rga)\<rparr>)"
        "res = (case r of Some _ \<Rightarrow> EntrySaveFailed | None \<Rightarrow> Projected)"
        using pe Inr sv by (auto simp: projectEntry_def Let_def split_def split: option.splits)
      then show ?thesis
        using f p' Inr \<open>OperationFromPayload _ _ _ = Inr op\<close> g True
        by (cases r) (auto split: if_splits)
    qed
  qed
qed

text \<open>An entry and a message for it.\<close>

definition ex_env :: proj_env where
  "ex_env = \<lparr>pe_seen = [1], pe_entry = ([4], Writes), pe_snap = Writes, pe_md = Writes\<rparr>"

definition ex_pcodec :: "(string \<Rightarrow> payloadMsg option) \<Rightarrow> proj_codec" where
  "ex_pcodec unmarshal = \<lparr>pc_unmarshal = unmarshal, pc_uparse = unhex_canonical, pc_ustr = uuid_hex,
     pc_entry = ex_entry_codec [], pc_marshal_snap = (\<lambda>_. []), pc_unmarshal_snap = (\<lambda>_. None)\<rparr>"

definition ex_proj :: EntryProjector where
  "ex_proj = \<lparr>pr_rgas = Map.empty, pr_entries = ex_entries, pr_snaps = Map.empty, pr_markdown = Map.empty\<rparr>"

theorem apply_projects_witness:
  "\<exists>p' rga. proj_Apply (ex_pcodec (\<lambda>_. Some ex_msg)) ex_env ex_proj 4 ''m'' = Some (p', True)
     \<and> pr_rgas p' = (pr_rgas ex_proj)(4 \<mapsto> rga)"
proof -
  let ?c = "ex_pcodec (\<lambda>_. Some ex_msg)"
  have op: "OperationFromPayload (pc_unmarshal ?c) (pc_uparse ?c) ''m'' = Inr (ex_ins 1 1 None 97)"
    using ex_msg_op by (simp add: ex_pcodec_def)
  obtain r where "ApplyAll uuid_hex [ex_ins 1 1 None 97] (NewRGA 0) = Some r" using ex_one by blast
  then obtain b where "Apply uuid_hex (NewRGA 0) (ex_ins 1 1 None 97) = Some (r, b)"
    by (auto simp: Option.bind_eq_Some_conv)
  then have g: "applyGated (pc_ustr ?c) (rga_of ex_proj 4) (ex_ins 1 1 None 97) = Some (r, True)"
    by (simp add: applyGated_def rga_of_def ex_proj_def ex_pcodec_def ex_ins_def)
  let ?p1 = "ex_proj\<lparr>pr_rgas := (pr_rgas ex_proj)(4 \<mapsto> r)\<rparr>"
  have "snd (projectEntry ?c ex_env ?p1 4 r) = Projected"
    by (simp add: projectEntry_def ex_proj_def ex_entries_def file_FindByID_def
        ex_entry_def NewEntry_def file_Save_def saveToFile_def WriteFile_def ex_env_def io_ok_def
        deriveFields_def Let_def)
  moreover have "proj_Apply ?c ex_env ex_proj 4 ''m''
      = Some (fst (projectEntry ?c ex_env ?p1 4 r), snd (projectEntry ?c ex_env ?p1 4 r) = Projected)"
    by (simp add: proj_Apply_def op g split_def Let_def del: One_nat_def)
  ultimately obtain p' where p': "proj_Apply ?c ex_env ex_proj 4 ''m'' = Some (p', True)" by simp
  from apply_projects [OF p'] p' show ?thesis by blast
qed

subsection \<open>Protection of authenticated content\<close>

text \<open>The replica of one entry while the server runs: every operation goes through the gate.\<close>

fun gatedAll :: "(uuid \<Rightarrow> string) \<Rightarrow> Operation list \<Rightarrow> RGA \<Rightarrow> RGA option" where
  "gatedAll ustr [] r = Some r"
| "gatedAll ustr (op # ops) r =
     Option.bind (applyGated ustr r op) (\<lambda>(r', _). gatedAll ustr ops r')"

text \<open>
  The operations that were let through, \<open>S\<close>: an unauthenticated deletion among them has an
  unauthenticated target.
\<close>

definition gated_ok :: "(uuid \<Rightarrow> string) \<Rightarrow> Operation set \<Rightarrow> RGA \<Rightarrow> bool" where
  "gated_ok ustr S r \<longleftrightarrow> rga_state ustr S r
     \<and> (\<forall>d \<in> S. is_del d \<and> \<not> op_Authenticated d
          \<longrightarrow> (\<exists>i \<in> S. is_ins i \<and> op_NodeID i = op_NodeID d \<and> \<not> op_Authenticated i))"

lemma rga_state_node:
  assumes "rga_state ustr S r" and "index r x = Some k"
  shows "k < length (nodes r)"
    and "\<exists>i \<in> S. is_ins i \<and> op_NodeID i = x \<and> nd_authenticated (nodes r ! k) = op_Authenticated i"
proof -
  from assms(1) obtain A where A: "rga_rel ustr A r" "A \<subseteq> S"
    using rga_state_rel by blast
  have "index_ok r" using A(1) by (simp add: rga_rel_def rga_wf_def)
  then have k: "k < length (nodes r)" "nd_id (nodes r ! k) = x"
    using assms(2) by (simp_all add: index_ok_def)
  then show "k < length (nodes r)" by simp
  have "nodes r ! k \<in> final_node A ` {op \<in> A. is_ins op}"
    using A(1) k(1) unfolding rga_rel_def by (metis nth_mem)
  then show "\<exists>i \<in> S. is_ins i \<and> op_NodeID i = x \<and> nd_authenticated (nodes r ! k) = op_Authenticated i"
    using k(2) A(2) by (auto simp: final_node_def node_of_op_def)
qed

context uuid_text
begin

lemma gated_Apply:
  assumes ok: "gated_ok ustr S r" and uniq: "uniq_inserts (insert op S)"
    and pass: "is_del op \<and> \<not> op_Authenticated op \<Longrightarrow>
      \<exists>i \<in> S. is_ins i \<and> op_NodeID i = op_NodeID op \<and> \<not> op_Authenticated i"
  shows "\<exists>r' b S'. Apply ustr r op = Some (r', b) \<and> gated_ok ustr S' r' \<and> S' \<subseteq> insert op S"
proof (cases "op_RequestID op \<in> seen r")
  case True
  then have "Apply ustr r op = Some (r, False)" by (simp add: Apply_def)
  then show ?thesis using ok by blast
next
  case False
  have "rga_state ustr S r" using ok by (simp add: gated_ok_def)
  from Apply_ok [OF this uniq False] obtain r' where
    "Apply ustr r op = Some (r', True)" "rga_state ustr (insert op S) r'" by blast
  moreover from this have "gated_ok ustr (insert op S) r'"
    using ok pass unfolding gated_ok_def by blast
  ultimately show ?thesis by blast
qed

lemma applyGated_ok:
  assumes ok: "gated_ok ustr S r" and uniq: "uniq_inserts (insert op S)"
  shows "\<exists>r' b S'. applyGated ustr r op = Some (r', b) \<and> gated_ok ustr S' r' \<and> S' \<subseteq> insert op S"
proof (cases "is_del op \<and> \<not> op_Authenticated op")
  case False
  from gated_Apply [OF ok uniq] False obtain r' b S' where
    "Apply ustr r op = Some (r', b)" "gated_ok ustr S' r'" "S' \<subseteq> insert op S" by blast
  then show ?thesis using False by (auto simp: applyGated_def)
next
  case True
  have st: "rga_state ustr S r" using ok by (simp add: gated_ok_def)
  show ?thesis
  proof (cases "index r (op_NodeID op)")
    case None
    then have "applyGated ustr r op = Some (r, False)"
      using True by (simp add: applyGated_def IsNodeAuthenticated_def)
    then show ?thesis using ok by blast
  next
    case (Some k)
    note n = rga_state_node [OF st Some]
    show ?thesis
    proof (cases "nd_authenticated (nodes r ! k)")
      case yes: True
      then have "applyGated ustr r op = Some (r, False)"
        using True Some n(1) by (simp add: applyGated_def IsNodeAuthenticated_def)
      then show ?thesis using ok by blast
    next
      case no: False
      then have "\<exists>i \<in> S. is_ins i \<and> op_NodeID i = op_NodeID op \<and> \<not> op_Authenticated i"
        using n(2) by auto
      from gated_Apply [OF ok uniq this] obtain r' b S' where
        "Apply ustr r op = Some (r', b)" "gated_ok ustr S' r'" "S' \<subseteq> insert op S" by blast
      then show ?thesis
        using True Some n(1) no by (auto simp: applyGated_def IsNodeAuthenticated_def)
    qed
  qed
qed

lemma gatedAll_ok:
  assumes "gated_ok ustr S r" and "uniq_inserts (S \<union> set ops)"
  shows "\<exists>r' S'. gatedAll ustr ops r = Some r' \<and> gated_ok ustr S' r' \<and> S' \<subseteq> S \<union> set ops"
  using assms
proof (induction ops arbitrary: S r)
  case Nil
  then show ?case by auto
next
  case (Cons op ops)
  have "uniq_inserts (insert op S)" using Cons.prems(2) by (rule uniq_inserts_subset) auto
  from applyGated_ok [OF Cons.prems(1) this] obtain r1 b S1 where
    1: "applyGated ustr r op = Some (r1, b)" "gated_ok ustr S1 r1" "S1 \<subseteq> insert op S" by blast
  have "uniq_inserts (S1 \<union> set ops)"
    using Cons.prems(2) by (rule uniq_inserts_subset) (use 1(3) in auto)
  from Cons.IH [OF 1(2) this] obtain r' S' where
    2: "gatedAll ustr ops r1 = Some r'" "gated_ok ustr S' r'" "S' \<subseteq> S1 \<union> set ops" by blast
  have "S' \<subseteq> S \<union> set (op # ops)" using 2(3) 1(3) by auto
  then show ?case using 1(1) 2(1,2) by auto
qed

lemma gated_protects:
  assumes ok: "gated_ok ustr S r" and uniq: "uniq_inserts S"
    and n: "n \<in> set (nodes r)" "nd_authenticated n" "nd_deleted n"
  shows "\<exists>d \<in> S. is_del d \<and> op_Authenticated d \<and> op_NodeID d = nd_id n"
proof -
  from ok obtain A where A: "rga_rel ustr A r" "A \<subseteq> S"
    unfolding gated_ok_def using rga_state_rel by blast
  then obtain i where i: "i \<in> A" "is_ins i" "n = final_node A i"
    using n(1) by (auto simp: rga_rel_def)
  from n(3) obtain d where d: "d \<in> A" "is_del d" "op_NodeID d = op_NodeID i"
    unfolding i(3) by (auto simp: final_node_def)
  have "op_Authenticated d"
  proof (rule ccontr)
    assume "\<not> op_Authenticated d"
    then obtain j where j: "j \<in> S" "is_ins j" "op_NodeID j = op_NodeID i" "\<not> op_Authenticated j"
      using ok d A(2) unfolding gated_ok_def by auto
    then have "j = i" using uniq i(1,2) A(2) unfolding uniq_inserts_def inj_on_def by blast
    then show False using j(4) n(2) i(3) by (simp add: final_node_def node_of_op_def)
  qed
  then show ?thesis using d A(2) i(3) by auto
qed

end

text \<open>
  C3: content of authenticated users is protected while the server runs. For every history of
  operations with distinct insertions, all of which go through the gate of \<open>Apply\<close>, the gate
  and the replica return for each, and a node that an authenticated user inserted is deleted
  only if some authenticated deletion of it was received.
\<close>

theorem gate_protects_authenticated:
  assumes "inj ustr" and "uniq_inserts (set ops)"
  shows "\<exists>r. gatedAll ustr ops (NewRGA rid) = Some r
    \<and> (\<forall>n \<in> set (nodes r). nd_authenticated n \<and> nd_deleted n
         \<longrightarrow> (\<exists>d \<in> set ops. is_del d \<and> op_Authenticated d \<and> op_NodeID d = nd_id n))"
proof -
  note u = uuid_text.intro [OF assms(1)]
  have "gated_ok ustr {} (NewRGA rid)" by (simp add: gated_ok_def rga_state_New)
  from uuid_text.gatedAll_ok [OF u this, of ops] assms(2) obtain r S where
    r: "gatedAll ustr ops (NewRGA rid) = Some r" "gated_ok ustr S r" "S \<subseteq> set ops" by auto
  have "uniq_inserts S" using assms(2) r(3) by (rule uniq_inserts_subset)
  from uuid_text.gated_protects [OF u r(2) this] r(1,3) show ?thesis by blast
qed

text \<open>An authenticated insertion and an unauthenticated deletion of it.\<close>

definition ex_auth_ins :: Operation where
  "ex_auth_ins = (ex_ins 1 1 None 97)\<lparr>op_Authenticated := True\<rparr>"

theorem gate_protects_authenticated_witness:
  "\<exists>r. gatedAll uuid_hex [ex_auth_ins, ex_del 2 1] (NewRGA 0) = Some r
    \<and> (\<forall>n \<in> set (nodes r). nd_authenticated n \<and> nd_deleted n
         \<longrightarrow> (\<exists>d \<in> set [ex_auth_ins, ex_del 2 1]. is_del d \<and> op_Authenticated d \<and> op_NodeID d = nd_id n))"
  by (rule gate_protects_authenticated [OF canonical.string_inj])
    (auto simp: uniq_inserts_def inj_on_def ex_auth_ins_def ex_ins_def ex_del_def)

subsection \<open>Restart\<close>

lemma Apply_seen_id: "op_RequestID op \<in> seen r \<Longrightarrow> Apply ustr r op = Some (r, False)"
  by (simp add: Apply_def)

text \<open>Replaying what the replica has already seen changes nothing.\<close>

lemma replayEvents_seen:
  assumes "\<And>ev op. ev \<in> set evs \<Longrightarrow> ev_EventType ev = EventCRDTOp
      \<Longrightarrow> OperationFromPayload (pc_unmarshal cdc) (pc_uparse cdc) (ev_Payload ev) = Inr op
      \<Longrightarrow> op_RequestID op \<in> seen r"
  shows "replayEvents cdc evs r = Some r"
  using assms
proof (induction evs)
  case (Cons ev evs)
  have "replayEvents cdc evs r = Some r" by (rule Cons.IH) (use Cons.prems in auto)
  then show ?case
    using Cons.prems [of ev] by (auto simp: Apply_seen_id split: sum.splits)
qed simp

text \<open>
  a restart with an up-to-date snapshot keeps the replica. When the snapshot file of an
  entry holds a replica that has seen every recorded operation, loading it and replaying the
  whole event log of the entry gives exactly that replica back.
\<close>

theorem restart_keeps_replica:
  assumes codec: "uuid_codec (pc_ustr cdc) (pc_uparse cdc)"
    and snap: "LoadRGA cdc (pr_snaps p) i = Some (Export (pc_ustr cdc) order rga)"
    and rga: "set order = seen rga" "rga_wf (pc_ustr cdc) rga"
      "\<And>n. n \<in> set (nodes rga) \<Longrightarrow> valid_rune (nd_value n)"
    and seen: "\<And>ev op. ev \<in> set (file_ListAfter es i 0) \<Longrightarrow> ev_EventType ev = EventCRDTOp
      \<Longrightarrow> OperationFromPayload (pc_unmarshal cdc) (pc_uparse cdc) (ev_Payload ev) = Inr op
      \<Longrightarrow> op_RequestID op \<in> seen rga"
  shows "restoreSnapshots cdc (pr_snaps p) [i] m i = Some rga
    \<and> replayEvents cdc (file_ListAfter es i 0) (the (restoreSnapshots cdc (pr_snaps p) [i] m i)) = Some rga"
proof -
  have "ImportRGA (pc_uparse cdc) (Export (pc_ustr cdc) order rga) = Inr rga"
    by (rule uuid_codec.import_export [OF codec _ _ rga(1)])
      (use rga(2,3) in \<open>auto simp: rga_wf_def\<close>)
  then have "restoreSnapshots cdc (pr_snaps p) [i] m i = Some rga" by (simp add: snap)
  moreover have "replayEvents cdc (file_ListAfter es i 0) rga = Some rga"
    by (rule replayEvents_seen) (rule seen)
  ultimately show ?thesis by simp
qed

definition ex_snap_codec :: proj_codec where
  "ex_snap_codec = (ex_pcodec (\<lambda>_. Some ex_msg))\<lparr>pc_unmarshal_snap := (\<lambda>_. Some (Export uuid_hex [] (NewRGA 0)))\<rparr>"

theorem restart_keeps_replica_witness:
  "restoreSnapshots ex_snap_codec [snap_path ex_snap_codec 4 \<mapsto> RegFile []] [4] Map.empty 4 = Some (NewRGA 0)"
proof -
  let ?p = "ex_proj\<lparr>pr_snaps := [snap_path ex_snap_codec 4 \<mapsto> RegFile []]\<rparr>"
  let ?es = "\<lparr>es_events = Map.empty, es_seqs = Map.empty, es_seen = {}, es_dir = Map.empty\<rparr>"
  have "rga_wf uuid_hex (NewRGA 0)"
    using rga_state_rel [OF rga_state_New [of uuid_hex 0]] rga_rel_wf by blast
  then have "restoreSnapshots ex_snap_codec (pr_snaps ?p) [4] Map.empty 4 = Some (NewRGA 0)
    \<and> replayEvents ex_snap_codec (file_ListAfter ?es 4 0)
        (the (restoreSnapshots ex_snap_codec (pr_snaps ?p) [4] Map.empty 4)) = Some (NewRGA 0)"
    by (intro restart_keeps_replica [where order = "[]"])
      (auto simp: ex_snap_codec_def ex_pcodec_def canonical.uuid_codec_axioms LoadRGA_def NewRGA_def
        file_ListAfter_def events_of_def snap_path_def)
  then show ?thesis by simp
qed

definition ex_payload :: "string \<Rightarrow> payloadMsg option" where
  "ex_payload s = (if s = ''i'' then Some (ex_msg\<lparr>pm_Authenticated := Some True\<rparr>)
     else Some (ex_msg\<lparr>pm_RequestID := uuid_hex 2, pm_OpType := 2, pm_Value := []\<rparr>))"

definition ex_log :: "Event list" where
  "ex_log = map (\<lambda>s. \<lparr>ev_EntryID = 4, ev_ServerSeq = 1, ev_RequestID = 1, ev_EventType = EventCRDTOp,
     ev_SiteID = 7, ev_Payload = s, ev_CreatedAt = 0\<rparr>) [''i'', ''d'']"

lemma ex_payload_ops:
  "OperationFromPayload ex_payload unhex_canonical ''i'' = Inr ex_auth_ins"
  "OperationFromPayload ex_payload unhex_canonical ''d'' = Inr (ex_del 2 1)"
proof -
  have a: "fst (DecodeRuneInString ''a'') = 97"
    using ex_msg_op [of "[]"]
    by (simp add: OperationFromPayload_def ex_msg_def Let_def ex_ins_def canonical.parse_string)
  show "OperationFromPayload ex_payload unhex_canonical ''i'' = Inr ex_auth_ins"
    by (simp add: OperationFromPayload_def ex_payload_def ex_msg_def Let_def ex_auth_ins_def ex_ins_def
        ex_id_def canonical.parse_string OpInsert_def a)
  show "OperationFromPayload ex_payload unhex_canonical ''d'' = Inr (ex_del 2 1)"
    by (simp add: OperationFromPayload_def ex_payload_def ex_msg_def Let_def ex_del_def
        ex_id_def canonical.parse_string OpDelete_def)
qed

text \<open>
  C19: a restart undoes the gate. The deletions the gate refuses are recorded in the event log
  but not in the replica, and \<open>Restore\<close> replays the log without the gate: after an
  authenticated insertion and an unauthenticated deletion of it, the running server shows the
  character and the restarted one does not.
\<close>

theorem restore_bypasses_gate:
  "\<exists>r r'. gatedAll uuid_hex [ex_auth_ins, ex_del 2 1] (NewRGA 0) = Some r \<and> TextRunes r = [97]
     \<and> replayEvents (ex_pcodec ex_payload) ex_log (NewRGA 0) = Some r' \<and> TextRunes r' = []"
proof -
  let ?n = "node_of_op ex_auth_ins"
  let ?r = "\<lparr>clock = \<lparr>clk_replicaID = 0, clk_counter = 1\<rparr>, nodes = [?n], index = [ex_id 1 \<mapsto> 0],
      seen = {1}, pending = []\<rparr>"
  have ins: "Apply uuid_hex (NewRGA 0) ex_auth_ins = Some (?r, True)"
    by (simp add: Apply_def ex_auth_ins_def ex_ins_def NewRGA_def NewLamportClock_def Update_def ex_id_def
        applyInsert_def startIdx_def insertPos.simps slices_insert_def node_of_op_def flushPending_empty Let_def)
  have "applyGated uuid_hex (NewRGA 0) ex_auth_ins = Some (?r, True)"
    using ins by (simp add: applyGated_def ex_auth_ins_def ex_ins_def)
  moreover have "applyGated uuid_hex ?r (ex_del 2 1) = Some (?r, False)"
    by (simp add: applyGated_def ex_del_def IsNodeAuthenticated_def node_of_op_def ex_auth_ins_def)
  moreover have "TextRunes ?r = [97]"
    by (simp add: TextRunes_def node_of_op_def ex_auth_ins_def ex_ins_def)
  ultimately have live: "\<exists>r. gatedAll uuid_hex [ex_auth_ins, ex_del 2 1] (NewRGA 0) = Some r \<and> TextRunes r = [97]"
    by (simp del: One_nat_def)
  have "\<exists>r'. Apply uuid_hex ?r (ex_del 2 1) = Some (r', True) \<and> TextRunes r' = []"
    by (simp add: Apply_def ex_del_def applyDelete_def TextRunes_def Let_def)
  then obtain r' where "Apply uuid_hex ?r (ex_del 2 1) = Some (r', True)" "TextRunes r' = []" by blast
  then have "replayEvents (ex_pcodec ex_payload) ex_log (NewRGA 0) = Some r' \<and> TextRunes r' = []"
    using ins by (simp add: ex_log_def ex_pcodec_def ex_payload_ops del: One_nat_def)
  with live show ?thesis by blast
qed

end
