(* ===== verification/Tickets.thy ===== *)
theory Tickets
  imports Disk
begin

text \<open>
  One-time tickets for WebSocket connections, \<open>auth/ticket.go\<close>. A call reads the clock more
  than once; the readings are arguments. \<open>bytes\<close> are what \<open>crypto/rand\<close> returns, as numbers
  below 256.
\<close>

record TicketStore =
  ts_tickets :: "string \<rightharpoonup> go_time"
  ts_ttl :: int

definition NewTicketStore :: "int \<Rightarrow> TicketStore" where
  "NewTicketStore ttl = \<lparr>ts_tickets = Map.empty, ts_ttl = ttl\<rparr>"

definition EncodeToString :: "nat list \<Rightarrow> string" where
  "EncodeToString bs = concat (map hex_byte bs)"

definition cleanup :: "go_time \<Rightarrow> TicketStore \<Rightarrow> TicketStore" where
  "cleanup now s =
     s\<lparr>ts_tickets := (\<lambda>k. case ts_tickets s k of None \<Rightarrow> None
                           | Some exp \<Rightarrow> if now > exp then None else Some exp)\<rparr>"

definition Issue :: "nat list \<Rightarrow> go_time \<Rightarrow> go_time \<Rightarrow> TicketStore \<Rightarrow> TicketStore \<times> string" where
  "Issue bytes t1 t2 s =
     (let ticket = EncodeToString bytes;
          s1 = cleanup t1 s
      in (s1\<lparr>ts_tickets := (ts_tickets s1)(ticket \<mapsto> t2 + ts_ttl s1)\<rparr>, ticket))"

definition Redeem :: "string \<Rightarrow> go_time \<Rightarrow> go_time \<Rightarrow> TicketStore \<Rightarrow> TicketStore \<times> bool" where
  "Redeem ticket t1 t2 s =
     (let s1 = cleanup t1 s
      in case ts_tickets s1 ticket of
           None \<Rightarrow> (s1, False)
         | Some exp \<Rightarrow> (s1\<lparr>ts_tickets := (ts_tickets s1)(ticket := None)\<rparr>, t2 < exp))"

subsection \<open>Histories\<close>

datatype ticket_call = CallIssue "nat list" go_time go_time | CallRedeem string go_time go_time

text \<open>A history of calls, each with the ticket it is about and whether a redemption succeeded.\<close>

fun ticket_step :: "TicketStore \<Rightarrow> ticket_call \<Rightarrow> TicketStore \<times> bool" where
  "ticket_step s (CallIssue bs t1 t2) = (fst (Issue bs t1 t2 s), False)"
| "ticket_step s (CallRedeem t t1 t2) = Redeem t t1 t2 s"

fun ticket_run :: "TicketStore \<Rightarrow> ticket_call list \<Rightarrow> TicketStore" where
  "ticket_run s [] = s"
| "ticket_run s (c # cs) = ticket_run (fst (ticket_step s c)) cs"

fun issues :: "string \<Rightarrow> ticket_call list \<Rightarrow> nat" where
  "issues t [] = 0"
| "issues t (CallIssue bs t1 t2 # cs) = (if EncodeToString bs = t then 1 else 0) + issues t cs"
| "issues t (CallRedeem _ _ _ # cs) = issues t cs"

fun redeemed :: "string \<Rightarrow> TicketStore \<Rightarrow> ticket_call list \<Rightarrow> nat" where
  "redeemed t s [] = 0"
| "redeemed t s (CallIssue bs t1 t2 # cs) = redeemed t (fst (Issue bs t1 t2 s)) cs"
| "redeemed t s (CallRedeem u t1 t2 # cs) =
     (if u = t \<and> snd (Redeem u t1 t2 s) then 1 else 0) + redeemed t (fst (Redeem u t1 t2 s)) cs"

definition held :: "string \<Rightarrow> TicketStore \<Rightarrow> nat" where
  "held t s = (if ts_tickets s t = None then 0 else 1)"

lemma held_cleanup: "held t (cleanup now s) \<le> held t s"
  by (auto simp: held_def cleanup_def split: option.splits)

lemma held_Issue:
  "held t (fst (Issue bs t1 t2 s)) \<le> held t s + (if EncodeToString bs = t then 1 else 0)"
  using held_cleanup [of t t1 s] by (auto simp: Issue_def held_def Let_def split: if_splits)

lemma held_Redeem:
  "held t (fst (Redeem u t1 t2 s)) + (if u = t \<and> snd (Redeem u t1 t2 s) then 1 else 0) \<le> held t s"
  using held_cleanup [of t t1 s]
  by (auto simp: Redeem_def held_def Let_def split: option.splits if_splits)

lemma redeemed_le: "redeemed t s cs \<le> held t s + issues t cs"
proof (induction cs arbitrary: s)
  case Nil
  then show ?case by simp
next
  case (Cons c cs)
  show ?case
  proof (cases c)
    case (CallIssue bs t1 t2)
    then show ?thesis using Cons [of "fst (Issue bs t1 t2 s)"] held_Issue [of t bs t1 t2 s] by simp
  next
    case (CallRedeem u t1 t2)
    then show ?thesis using Cons [of "fst (Redeem u t1 t2 s)"] held_Redeem [of t u t1 t2 s] by simp
  qed
qed

text \<open>
  C13: a ticket opens at most one connection. In every history of calls on a fresh store, with
  any clock readings, a ticket is redeemed successfully at most as often as it was issued;
  a string that was never issued is never accepted.
\<close>

theorem ticket_used_once:
  "redeemed t (NewTicketStore ttl) cs \<le> issues t cs"
  using redeemed_le [of t "NewTicketStore ttl" cs] by (simp add: held_def NewTicketStore_def)

subsection \<open>Valid tickets are accepted\<close>

text \<open>A call at times up to \<open>now\<close> that neither redeems nor reissues the ticket.\<close>

fun spares :: "string \<Rightarrow> go_time \<Rightarrow> ticket_call \<Rightarrow> bool" where
  "spares t now (CallIssue bs t1 t2) = (EncodeToString bs \<noteq> t \<and> t1 \<le> now)"
| "spares t now (CallRedeem u t1 t2) = (u \<noteq> t \<and> t1 \<le> now)"

lemma cleanup_keeps: "ts_tickets s t = Some exp \<Longrightarrow> now \<le> exp \<Longrightarrow> ts_tickets (cleanup now s) t = Some exp"
  by (simp add: cleanup_def)

lemma ticket_run_keeps:
  "ts_tickets s t = Some exp \<Longrightarrow> list_all (spares t exp) cs \<Longrightarrow> ts_tickets (ticket_run s cs) t = Some exp"
proof (induction cs arbitrary: s)
  case (Cons c cs)
  have "ts_tickets (fst (ticket_step s c)) t = Some exp"
    using Cons.prems cleanup_keeps [of s t exp]
    by (cases c) (auto simp: Issue_def Redeem_def Let_def split: option.splits)
  then show ?case using Cons by simp
qed simp

text \<open>
  a fresh ticket works. Whatever other tickets are issued and redeemed meanwhile, a ticket
  redeemed before its time to live has passed, counted from its issue, is accepted.
\<close>

theorem ticket_accepted:
  assumes "list_all (spares (EncodeToString bytes) (t2 + ts_ttl s)) cs"
    and "now1 \<le> t2 + ts_ttl s" and "now2 < t2 + ts_ttl s"
  shows "snd (Redeem (EncodeToString bytes) now1 now2 (ticket_run (fst (Issue bytes t1 t2 s)) cs))"
proof -
  let ?s = "fst (Issue bytes t1 t2 s)"
  have "ts_tickets ?s (EncodeToString bytes) = Some (t2 + ts_ttl s)"
    by (simp add: Issue_def cleanup_def Let_def)
  from ticket_run_keeps [OF this assms(1)] cleanup_keeps assms(2,3) show ?thesis
    by (simp add: Redeem_def Let_def)
qed

theorem ticket_accepted_witness:
  "snd (Redeem (EncodeToString [171]) 10 11
     (ticket_run (fst (Issue [171] 0 1 (NewTicketStore 60))) [CallIssue [205] 5 6]))"
  by (rule ticket_accepted) (simp_all add: NewTicketStore_def EncodeToString_def hex_byte_def Let_def)

end
