(* ===== verification/Cf_Access.thy ===== *)
theory Cf_Access
  imports Disk
begin

text \<open>
  Verification of Cloudflare Access tokens, \<open>auth/cfaccess.go\<close>: the cache of public keys, its
  refresh from the certificate endpoint, and the use of the JWT library.

  The endpoint and the JWT library are outside: an answer of the endpoint is a value of
  \<open>certs_reply\<close> (its JSON already decoded), and the library is a record \<open>jwt_lib\<close> of what the
  code uses of \<open>jwt.ParseWithClaims\<close>: reading the header without trusting it, and checking
  signature, issuer and audience with the key the callback returned.
\<close>

record jwkKey =
  jk_KID :: string
  jk_KTY :: string
  jk_N :: string
  jk_E :: string

record rsa_key =
  rk_N :: nat
  rk_E :: int64

record CFAccessVerifier =
  cf_audience :: string
  cf_issuer :: string
  cf_keys :: "string \<rightharpoonup> rsa_key"

datatype certs_reply = NoReply | Reply nat "jwkKey list option"

subsection \<open>Base64 without padding, URL alphabet\<close>

definition b64_digit :: "char \<Rightarrow> nat option" where
  "b64_digit c =
     (let n = of_char c :: nat in
      if 65 \<le> n \<and> n \<le> 90 then Some (n - 65)
      else if 97 \<le> n \<and> n \<le> 122 then Some (n - 71)
      else if 48 \<le> n \<and> n \<le> 57 then Some (n + 4)
      else if n = 45 then Some 62 else if n = 95 then Some 63 else None)"

fun b64_bytes :: "nat list \<Rightarrow> nat list option" where
  "b64_bytes [] = Some []"
| "b64_bytes [a] = None"
| "b64_bytes [a, b] = Some [a * 4 + b div 16]"
| "b64_bytes [a, b, c] = Some [a * 4 + b div 16, b mod 16 * 16 + c div 4]"
| "b64_bytes (a # b # c # d # ds) =
     map_option (\<lambda>bs. (a * 4 + b div 16) # (b mod 16 * 16 + c div 4) # (c mod 4 * 64 + d) # bs)
       (b64_bytes ds)"

text \<open>The decoder skips carriage returns and line feeds.\<close>

definition DecodeString :: "string \<Rightarrow> nat list option" where
  "DecodeString s =
     (let ds = map b64_digit (filter (\<lambda>c. c \<noteq> CR \<and> c \<noteq> LF) s)
      in if list_all (\<lambda>d. d \<noteq> None) ds then b64_bytes (map the ds) else None)"

text \<open>\<open>big.Int.SetBytes\<close>: big endian.\<close>

definition SetBytes :: "nat list \<Rightarrow> nat" where
  "SetBytes bs = foldl (\<lambda>n b. n * 256 + b) 0 bs"

definition parseRSAPublicKey :: "jwkKey \<Rightarrow> rsa_key option" where
  "parseRSAPublicKey k =
     (case DecodeString (jk_N k) of
        None \<Rightarrow> None
      | Some nBytes \<Rightarrow>
          (case DecodeString (jk_E k) of
             None \<Rightarrow> None
           | Some eBytes \<Rightarrow> Some \<lparr>rk_N = SetBytes nBytes, rk_E = i64 (int (SetBytes eBytes))\<rparr>))"

subsection \<open>Keys\<close>

fun collectKeys :: "jwkKey list \<Rightarrow> (string \<rightharpoonup> rsa_key) \<Rightarrow> (string \<rightharpoonup> rsa_key)" where
  "collectKeys [] m = m"
| "collectKeys (k # ks) m =
     (if jk_KTY k \<noteq> ''RSA'' then collectKeys ks m
      else (case parseRSAPublicKey k of
              None \<Rightarrow> collectKeys ks m
            | Some pub \<Rightarrow> collectKeys ks (m(jk_KID k \<mapsto> pub))))"

definition refreshKeys :: "certs_reply \<Rightarrow> CFAccessVerifier \<Rightarrow> CFAccessVerifier \<times> bool" where
  "refreshKeys reply v =
     (case reply of
        NoReply \<Rightarrow> (v, False)
      | Reply status body \<Rightarrow>
          if status \<noteq> 200 then (v, False)
          else (case body of
                  None \<Rightarrow> (v, False)
                | Some ks \<Rightarrow> (v\<lparr>cf_keys := collectKeys ks Map.empty\<rparr>, True)))"

definition NewCFAccessVerifier :: "certs_reply \<Rightarrow> string \<Rightarrow> string \<Rightarrow> CFAccessVerifier option" where
  "NewCFAccessVerifier reply teamDomain audience =
     (let (v, ok) = refreshKeys reply
            \<lparr>cf_audience = audience, cf_issuer = ''https://'' @ teamDomain @ ''.cloudflareaccess.com'',
             cf_keys = Map.empty\<rparr>
      in if ok then Some v else None)"

definition getKey ::
  "certs_reply \<Rightarrow> string \<Rightarrow> CFAccessVerifier \<Rightarrow> CFAccessVerifier \<times> rsa_key option" where
  "getKey reply kid v =
     (case cf_keys v kid of
        Some key \<Rightarrow> (v, Some key)
      | None \<Rightarrow>
          (let (v', ok) = refreshKeys reply v
           in if \<not> ok then (v', None) else (v', cf_keys v' kid)))"

subsection \<open>Tokens\<close>

record jwt_header =
  jh_rsa :: bool
  jh_kid :: "string option"

record 'c jwt_lib =
  jl_header :: "string \<Rightarrow> jwt_header option"
  jl_check :: "string \<Rightarrow> rsa_key \<Rightarrow> string \<Rightarrow> string \<Rightarrow> 'c option"

text \<open>A token whose header does not parse is refused before the callback runs.\<close>

definition Verify ::
  "'c jwt_lib \<Rightarrow> certs_reply \<Rightarrow> string \<Rightarrow> CFAccessVerifier \<Rightarrow> CFAccessVerifier \<times> 'c option" where
  "Verify lib reply tokenStr v =
     (case jl_header lib tokenStr of
        None \<Rightarrow> (v, None)
      | Some h \<Rightarrow>
          if \<not> jh_rsa h then (v, None)
          else (let kid = (case jh_kid h of None \<Rightarrow> [] | Some k \<Rightarrow> k);
                    (v', key) = getKey reply kid v
                in case key of
                     None \<Rightarrow> (v', None)
                   | Some k \<Rightarrow> (v', jl_check lib tokenStr k (cf_issuer v) (cf_audience v))))"

subsection \<open>Properties\<close>

lemma collectKeys_sound:
  "collectKeys ks m kid = Some pub \<Longrightarrow>
     m kid = Some pub \<or> (\<exists>k \<in> set ks. jk_KTY k = ''RSA'' \<and> jk_KID k = kid \<and> parseRSAPublicKey k = Some pub)"
proof (induction ks arbitrary: m)
  case (Cons a ks)
  show ?case
  proof (cases "jk_KTY a = ''RSA'' \<and> (\<exists>x. parseRSAPublicKey a = Some x)")
    case True
    then obtain x where x: "jk_KTY a = ''RSA''" "parseRSAPublicKey a = Some x" by blast
    then have "collectKeys ks (m(jk_KID a \<mapsto> x)) kid = Some pub" using Cons.prems by simp
    from Cons.IH [OF this] x show ?thesis by (cases "kid = jk_KID a") auto
  next
    case False
    then have "collectKeys ks m kid = Some pub" using Cons.prems by (auto split: if_splits option.splits)
    from Cons.IH [OF this] show ?thesis by auto
  qed
qed simp

lemma refreshKeys_cases:
  "refreshKeys reply v = (v', ok) \<Longrightarrow>
     cf_issuer v' = cf_issuer v \<and> cf_audience v' = cf_audience v
     \<and> (if ok then \<exists>ks. reply = Reply 200 (Some ks) \<and> cf_keys v' = collectKeys ks Map.empty else v' = v)"
  by (auto simp: refreshKeys_def split: certs_reply.splits if_splits option.splits)

definition published :: "certs_reply \<Rightarrow> string \<Rightarrow> rsa_key \<Rightarrow> bool" where
  "published reply kid pub \<longleftrightarrow> (\<exists>ks k. reply = Reply 200 (Some ks) \<and> k \<in> set ks \<and> jk_KTY k = ''RSA''
     \<and> jk_KID k = kid \<and> parseRSAPublicKey k = Some pub)"

lemma getKey_sound:
  assumes "getKey reply kid v = (v', Some pub)"
  shows "cf_keys v kid = Some pub \<or> published reply kid pub"
proof (cases "cf_keys v kid")
  case None
  obtain v1 ok where r: "refreshKeys reply v = (v1, ok)" by (cases "refreshKeys reply v")
  have ok: ok "cf_keys v1 kid = Some pub"
    using assms None r by (auto simp: getKey_def split: if_splits)
  then obtain ks where ks: "reply = Reply 200 (Some ks)" "collectKeys ks Map.empty kid = Some pub"
    using refreshKeys_cases [OF r] by auto
  from collectKeys_sound [OF ks(2)] ks(1) show ?thesis by (auto simp: published_def)
qed (use assms in \<open>simp add: getKey_def\<close>)

lemma Verify_claims:
  assumes "Verify lib reply tok v = (v', Some claims)"
  shows "\<exists>h kid pub. jl_header lib tok = Some h \<and> jh_rsa h
    \<and> kid = (case jh_kid h of None \<Rightarrow> [] | Some k \<Rightarrow> k)
    \<and> (cf_keys v kid = Some pub \<or> published reply kid pub)
    \<and> jl_check lib tok pub (cf_issuer v) (cf_audience v) = Some claims"
proof -
  obtain h where h: "jl_header lib tok = Some h" "jh_rsa h"
    using assms by (auto simp: Verify_def split: option.splits if_splits)
  let ?kid = "case jh_kid h of None \<Rightarrow> [] | Some k \<Rightarrow> k"
  obtain v1 key where g: "getKey reply ?kid v = (v1, key)" by (cases "getKey reply ?kid v")
  obtain pub where pub: "key = Some pub" "jl_check lib tok pub (cf_issuer v) (cf_audience v) = Some claims"
    using assms h g by (cases key) (auto simp: Verify_def)
  from getKey_sound [of reply ?kid v v1 pub] g pub h show ?thesis by blast
qed

text \<open>
  C17: which tokens are accepted. \<open>Verify\<close> returns claims only for a token whose header names
  an RSA method and whose signature, issuer and audience the library checked with the
  configured values and with a key published under the token's key identifier: one already in
  the cache, or one the certificate endpoint has just served as an RSA key with status 200.
\<close>

theorem verify_sound:
  assumes "Verify lib reply tok v = (v', Some claims)"
  shows "\<exists>h kid pub. jl_header lib tok = Some h \<and> jh_rsa h
    \<and> kid = (case jh_kid h of None \<Rightarrow> [] | Some k \<Rightarrow> k)
    \<and> (cf_keys v kid = Some pub \<or> published reply kid pub)
    \<and> jl_check lib tok pub (cf_issuer v) (cf_audience v) = Some claims"
  by (rule Verify_claims [OF assms])

definition ex_verifier :: CFAccessVerifier where
  "ex_verifier = \<lparr>cf_audience = ''aud'', cf_issuer = ''iss'', cf_keys = [''k'' \<mapsto> \<lparr>rk_N = 3233, rk_E = 17\<rparr>]\<rparr>"

definition ex_lib :: "string jwt_lib" where
  "ex_lib = \<lparr>jl_header = (\<lambda>_. Some \<lparr>jh_rsa = True, jh_kid = Some ''k''\<rparr>),
     jl_check = (\<lambda>t k i a. if i = ''iss'' \<and> a = ''aud'' then Some t else None)\<rparr>"

theorem verify_sound_witness:
  "Verify ex_lib NoReply ''tok'' ex_verifier = (ex_verifier, Some ''tok'')
   \<and> (\<exists>h kid pub. jl_header ex_lib ''tok'' = Some h \<and> jh_rsa h
        \<and> kid = (case jh_kid h of None \<Rightarrow> [] | Some k \<Rightarrow> k)
        \<and> (cf_keys ex_verifier kid = Some pub \<or> published NoReply kid pub)
        \<and> jl_check ex_lib ''tok'' pub (cf_issuer ex_verifier) (cf_audience ex_verifier) = Some ''tok'')"
proof -
  have v: "Verify ex_lib NoReply ''tok'' ex_verifier = (ex_verifier, Some ''tok'')"
    by (simp add: Verify_def ex_lib_def ex_verifier_def getKey_def Let_def)
  show ?thesis using v verify_sound [OF v] by blast
qed

end
