(* ===== verification/Http_Api.thy ===== *)
theory Http_Api
  imports Entry_Store Tickets Cf_Access
begin

text \<open>
  The HTTP interface of \<open>flourish\<close>: problem details (\<open>handler/problem.go\<close>), the entry handler
  (\<open>handler/entry.go\<close>), the authentication handler and its middleware (\<open>handler/auth.go\<close>), the
  health check and the routes of \<open>router.go\<close>.

  A response is a status with a body; the bodies are the structures the code encodes.
  What a request meets in its environment (clock, fresh identifiers, map orders, write
  outcomes, the answer of the certificate endpoint) is the record \<open>http_env\<close>. The request
  logging and tracing wrappers pass everything through and are left out.
\<close>

subsection \<open>Responses\<close>

record ProblemDetail =
  pd_Type :: string
  pd_Status :: nat
  pd_Title :: string
  pd_Instance :: string

record EntryCreatedResponse =
  cr_ID :: string
  cr_Title :: string
  cr_CreatedAt :: string
  cr_UpdatedAt :: string

record EntryListItemResponse =
  lr_ID :: string
  lr_Title :: string
  lr_Content :: string
  lr_Thumbnail :: "string option"
  lr_CreatedAt :: string
  lr_UpdatedAt :: string

record EntryDetailResponse =
  dr_ID :: string
  dr_Title :: string
  dr_Content :: string
  dr_Text :: string
  dr_Thumbnail :: "string option"
  dr_CreatedAt :: string
  dr_UpdatedAt :: string

datatype body =
  NoBody | Problem ProblemDetail | Created EntryCreatedResponse | Entries "EntryListItemResponse list"
| Detail EntryDetailResponse | PlainError string | Ticket string | AuthStatus bool | Location string
| Healthy | Upgraded | CrossOrigin

record response =
  rp_Status :: nat
  rp_Body :: body

record 'c http_env =
  he_uuid :: uuid
  he_now :: go_time
  he_order :: "uuid list"
  he_entry :: "uuid list \<times> write_io"
  he_reply :: certs_reply
  he_random :: "nat list"
  he_times :: "go_time \<times> go_time"
  he_lib :: "'c jwt_lib"
  he_ustr :: "uuid \<Rightarrow> string"
  he_uparse :: "string \<Rightarrow> uuid option"
  he_rfc3339 :: "go_time \<Rightarrow> string"
  he_codec :: entry_codec

definition writeProblem :: "'c http_env \<Rightarrow> nat \<Rightarrow> string \<Rightarrow> string \<Rightarrow> response" where
  "writeProblem env status errType title =
     \<lparr>rp_Status = status,
      rp_Body = Problem \<lparr>pd_Type = errType, pd_Status = status, pd_Title = title,
                         pd_Instance = ''urn:uuid:'' @ he_ustr env (he_uuid env)\<rparr>\<rparr>"

definition writeJSON :: "nat \<Rightarrow> body \<Rightarrow> response" where
  "writeJSON status b = \<lparr>rp_Status = status, rp_Body = b\<rparr>"

definition internal_error :: "'c http_env \<Rightarrow> response" where
  "internal_error env = writeProblem env 500 ''about:blank'' ''Internal Server Error''"

subsection \<open>Entries\<close>

definition entry_Create :: "'c http_env \<Rightarrow> FileEntryStore \<Rightarrow> FileEntryStore \<times> response" where
  "entry_Create env s =
     (let entry = NewEntry (he_uuid env) (he_now env)
      in case file_Save (he_codec env) (he_entry env) s entry of
           (s', Some _) \<Rightarrow> (s', internal_error env)
         | (s', None) \<Rightarrow>
             (s', writeJSON 201 (Created
                \<lparr>cr_ID = he_ustr env (en_ID entry), cr_Title = en_Title entry,
                 cr_CreatedAt = he_rfc3339 env (en_CreatedAt entry),
                 cr_UpdatedAt = he_rfc3339 env (en_UpdatedAt entry)\<rparr>)))"

definition list_response :: "'c http_env \<Rightarrow> EntryListItem \<Rightarrow> EntryListItemResponse" where
  "list_response env it =
     \<lparr>lr_ID = he_ustr env (li_ID it), lr_Title = li_Title it, lr_Content = li_Content it,
      lr_Thumbnail = li_Thumbnail it, lr_CreatedAt = he_rfc3339 env (li_CreatedAt it),
      lr_UpdatedAt = he_rfc3339 env (li_UpdatedAt it)\<rparr>"

definition entry_List :: "'c http_env \<Rightarrow> FileEntryStore \<Rightarrow> response" where
  "entry_List env s = writeJSON 200 (Entries (map (list_response env) (file_List (he_order env) s)))"

definition entry_Delete :: "'c http_env \<Rightarrow> string \<Rightarrow> FileEntryStore \<Rightarrow> FileEntryStore \<times> response" where
  "entry_Delete env idStr s =
     (case he_uparse env idStr of
        None \<Rightarrow> (s, writeProblem env 400 ''about:blank'' ''Bad Request'')
      | Some i \<Rightarrow>
          (case file_Delete (he_codec env) (he_entry env) s i of
             (s', Some ErrEntryNotFound) \<Rightarrow>
               (s', writeProblem env 404 ''error:entry_not_found'' ''Entry Not Found'')
           | (s', Some _) \<Rightarrow> (s', internal_error env)
           | (s', None) \<Rightarrow> (s', \<lparr>rp_Status = 204, rp_Body = NoBody\<rparr>)))"

definition entry_Get :: "'c http_env \<Rightarrow> string \<Rightarrow> FileEntryStore \<Rightarrow> response" where
  "entry_Get env idStr s =
     (case he_uparse env idStr of
        None \<Rightarrow> writeProblem env 400 ''about:blank'' ''Bad Request''
      | Some i \<Rightarrow>
          (case file_FindByID s i of
             Inl e \<Rightarrow>
               if e = ErrEntryNotFound \<or> e = ErrEntryDeleted
               then writeProblem env 404 ''error:entry_not_found'' ''Entry Not Found''
               else internal_error env
           | Inr entry \<Rightarrow>
               writeJSON 200 (Detail
                 \<lparr>dr_ID = he_ustr env (en_ID entry), dr_Title = en_Title entry,
                  dr_Content = en_Content entry, dr_Text = en_Text entry,
                  dr_Thumbnail = en_Thumbnail entry,
                  dr_CreatedAt = he_rfc3339 env (en_CreatedAt entry),
                  dr_UpdatedAt = he_rfc3339 env (en_UpdatedAt entry)\<rparr>)))"

subsection \<open>Authentication\<close>

text \<open>
  The handler \<open>Auth\<close> holds the verifier and the tickets. The middleware turns the request
  into the authentication state its context carries.
\<close>

record Auth =
  au_cfAccess :: CFAccessVerifier
  au_tickets :: TicketStore
  au_teamDomain :: string

record request =
  rq_Method :: string
  rq_Segments :: "string list"
  rq_Jwt :: string
  rq_Cookie :: "string option"
  rq_CsrfOk :: bool

definition CFAccessMiddleware :: "'c http_env \<Rightarrow> request \<Rightarrow> Auth \<Rightarrow> Auth \<times> bool" where
  "CFAccessMiddleware env r a =
     (let tokenStr = (if rq_Jwt r = [] then (case rq_Cookie r of None \<Rightarrow> [] | Some c \<Rightarrow> c) else rq_Jwt r)
      in if tokenStr \<noteq> []
         then (let (v, claims) = Verify (he_lib env) (he_reply env) tokenStr (au_cfAccess a)
               in (a\<lparr>au_cfAccess := v\<rparr>, claims \<noteq> None))
         else (a, False))"

definition WSTicket :: "'c http_env \<Rightarrow> bool \<Rightarrow> Auth \<Rightarrow> Auth \<times> response" where
  "WSTicket env authenticated a =
     (if \<not> authenticated then (a, \<lparr>rp_Status = 401, rp_Body = PlainError ''Unauthorized''\<rparr>)
      else (let (ts, ticket) = Issue (he_random env) (fst (he_times env)) (snd (he_times env)) (au_tickets a)
            in (a\<lparr>au_tickets := ts\<rparr>, \<lparr>rp_Status = 200, rp_Body = Ticket ticket\<rparr>)))"

definition RequireAuth :: "bool \<Rightarrow> 's \<Rightarrow> 's \<times> response \<Rightarrow> 's \<times> response" where
  "RequireAuth authenticated s next =
     (if \<not> authenticated then (s, \<lparr>rp_Status = 403, rp_Body = PlainError ''Forbidden''\<rparr>) else next)"

definition Logout :: "Auth \<Rightarrow> response" where
  "Logout a = \<lparr>rp_Status = 302, rp_Body =
     Location (''https://'' @ au_teamDomain a @ ''.cloudflareaccess.com/cdn-cgi/access/logout'')\<rparr>"

definition RedeemTicket :: "go_time \<times> go_time \<Rightarrow> string \<Rightarrow> Auth \<Rightarrow> Auth \<times> bool" where
  "RedeemTicket ts ticket a =
     (let (s, ok) = Redeem ticket (fst ts) (snd ts) (au_tickets a) in (a\<lparr>au_tickets := s\<rparr>, ok))"

subsection \<open>Routes\<close>

datatype route =
  RHealth | RList | RCreate | RDelete string | RLogin | RLogout | RGet string | RWS | RTicket | RAuthStatus

text \<open>
  The patterns of the mux; a \<open>GET\<close> pattern also matches \<open>HEAD\<close>, and a wildcard matches one
  segment that is not empty. The administrative and authentication routes exist only when
  authentication is configured.
\<close>

definition match_route :: "bool \<Rightarrow> request \<Rightarrow> route option" where
  "match_route auth r =
     (let get = (rq_Method r = ''GET'' \<or> rq_Method r = ''HEAD''); post = (rq_Method r = ''POST'');
          segs = rq_Segments r
      in if get \<and> segs = [''api'', ''health''] then Some RHealth
         else if get \<and> segs = [''api'', ''entries''] then Some RList
         else if post \<and> segs = [''api'', ''entries''] then Some RCreate
         else if auth \<and> post \<and> length segs = 5 \<and> take 3 segs = [''api'', ''admin'', ''entries'']
                \<and> segs ! 3 \<noteq> [] \<and> segs ! 4 = ''delete'' then Some (RDelete (segs ! 3))
         else if auth \<and> get \<and> segs = [''login''] then Some RLogin
         else if auth \<and> get \<and> segs = [''logout''] then Some RLogout
         else if get \<and> length segs = 3 \<and> take 2 segs = [''api'', ''entries''] \<and> segs ! 2 \<noteq> []
              then Some (RGet (segs ! 2))
         else if get \<and> segs = [''api'', ''ws''] then Some RWS
         else if auth \<and> post \<and> segs = [''api'', ''ws-ticket''] then Some RTicket
         else if auth \<and> get \<and> segs = [''api'', ''auth'', ''status''] then Some RAuthStatus
         else None)"

text \<open>No pattern matches: 405 when the path is known under another method, else 404.\<close>

definition not_matched :: "bool \<Rightarrow> request \<Rightarrow> response" where
  "not_matched auth r =
     (if match_route auth (r\<lparr>rq_Method := ''GET''\<rparr>) \<noteq> None \<or> match_route auth (r\<lparr>rq_Method := ''POST''\<rparr>) \<noteq> None
      then \<lparr>rp_Status = 405, rp_Body = PlainError ''Method Not Allowed''\<rparr>
      else \<lparr>rp_Status = 404, rp_Body = PlainError ''404 page not found''\<rparr>)"

record http_state =
  hs_entries :: FileEntryStore
  hs_auth :: "Auth option"

definition csrf_error :: response where
  "csrf_error = \<lparr>rp_Status = 403, rp_Body = CrossOrigin\<rparr>"

text \<open>One request; the WebSocket route hands the connection to its own handler.\<close>

definition serve :: "'c http_env \<Rightarrow> request \<Rightarrow> http_state \<Rightarrow> http_state \<times> response" where
  "serve env r s =
     (case match_route (hs_auth s \<noteq> None) r of
        None \<Rightarrow> (s, not_matched (hs_auth s \<noteq> None) r)
      | Some RHealth \<Rightarrow> (s, writeJSON 200 Healthy)
      | Some RList \<Rightarrow> (s, entry_List env (hs_entries s))
      | Some RCreate \<Rightarrow>
          if \<not> rq_CsrfOk r then (s, csrf_error)
          else (let (es, resp) = entry_Create env (hs_entries s) in (s\<lparr>hs_entries := es\<rparr>, resp))
      | Some (RDelete idStr) \<Rightarrow>
          if \<not> rq_CsrfOk r then (s, csrf_error)
          else (let (a, authenticated) = CFAccessMiddleware env r (the (hs_auth s));
                    (es, resp) = RequireAuth authenticated (hs_entries s)
                                   (entry_Delete env idStr (hs_entries s))
                in (s\<lparr>hs_auth := Some a, hs_entries := es\<rparr>, resp))
      | Some RLogin \<Rightarrow> (s, \<lparr>rp_Status = 302, rp_Body = Location ''/''\<rparr>)
      | Some RLogout \<Rightarrow> (s, Logout (the (hs_auth s)))
      | Some (RGet idStr) \<Rightarrow> (s, entry_Get env idStr (hs_entries s))
      | Some RWS \<Rightarrow> (s, \<lparr>rp_Status = 101, rp_Body = Upgraded\<rparr>)
      | Some RTicket \<Rightarrow>
          if \<not> rq_CsrfOk r then (s, csrf_error)
          else (let (a, authenticated) = CFAccessMiddleware env r (the (hs_auth s));
                    (a', resp) = WSTicket env authenticated a
                in (s\<lparr>hs_auth := Some a'\<rparr>, resp))
      | Some RAuthStatus \<Rightarrow>
          (let (a, authenticated) = CFAccessMiddleware env r (the (hs_auth s))
           in (s\<lparr>hs_auth := Some a\<rparr>, \<lparr>rp_Status = 200, rp_Body = AuthStatus authenticated\<rparr>)))"

subsection \<open>Properties\<close>

definition token_of :: "request \<Rightarrow> string" where
  "token_of r = (if rq_Jwt r = [] then (case rq_Cookie r of None \<Rightarrow> [] | Some c \<Rightarrow> c) else rq_Jwt r)"

lemma CFAccessMiddleware_True:
  assumes "CFAccessMiddleware env r a = (a', True)"
  shows "\<exists>claims. snd (Verify (he_lib env) (he_reply env) (token_of r) (au_cfAccess a)) = Some claims"
  using assms by (auto simp: CFAccessMiddleware_def token_of_def Let_def split_def split: if_splits)

text \<open>Only the creation and the deletion route touch the entries.\<close>

lemma serve_entries:
  assumes "serve env r s = (s', resp)"
  shows "hs_entries s' = hs_entries s
    \<or> (match_route (hs_auth s \<noteq> None) r = Some RCreate \<and> rq_CsrfOk r
        \<and> hs_entries s' = fst (entry_Create env (hs_entries s)))
    \<or> (\<exists>idStr a. match_route (hs_auth s \<noteq> None) r = Some (RDelete idStr) \<and> rq_CsrfOk r
        \<and> CFAccessMiddleware env r (the (hs_auth s)) = (a, True)
        \<and> hs_entries s' = fst (entry_Delete env idStr (hs_entries s)))"
proof (cases "match_route (hs_auth s \<noteq> None) r")
  case None
  then show ?thesis using assms by (simp add: serve_def)
next
  case (Some rt)
  show ?thesis
  proof (cases rt)
    case (RDelete idStr)
    obtain a b where mw: "CFAccessMiddleware env r (the (hs_auth s)) = (a, b)"
      by (cases "CFAccessMiddleware env r (the (hs_auth s))")
    obtain es rs where de: "entry_Delete env idStr (hs_entries s) = (es, rs)"
      by (cases "entry_Delete env idStr (hs_entries s)")
    show ?thesis
    proof (cases "rq_CsrfOk r \<and> b")
      case True
      then show ?thesis using assms Some RDelete mw de by (auto simp: serve_def RequireAuth_def)
    next
      case False
      then have "hs_entries s' = hs_entries s"
        using assms Some RDelete mw by (auto simp: serve_def RequireAuth_def split: if_splits)
      then show ?thesis by simp
    qed
  next
    case RCreate
    then show ?thesis using assms Some
      by (cases "entry_Create env (hs_entries s)") (auto simp: serve_def split: if_splits)
  next
    case RTicket
    then show ?thesis using assms Some
      by (cases "rq_CsrfOk r") (auto simp: serve_def Let_def split_def)
  next
    case RAuthStatus
    then show ?thesis using assms Some by (auto simp: serve_def Let_def split_def)
  qed (use assms Some in \<open>auto simp: serve_def\<close>)
qed

lemma match_route_auth: "match_route auth r = Some (RDelete i) \<Longrightarrow> auth" "match_route auth r = Some RTicket \<Longrightarrow> auth"
  by (auto simp: match_route_def Let_def split: if_splits)

text \<open>
  C12: who can change an entry over HTTP. If a request changes or removes an existing entry,
  other than one whose identifier a creation has just drawn again, then authentication is
  configured, the request is a deletion that passed the cross-origin check, and its token was
  verified; the entry is then marked deleted and nothing else about it changes.
\<close>

theorem entry_change_requires_auth:
  assumes "serve env r s = (s', resp)" and "st_entries (hs_entries s) i = Some e"
    and "st_entries (hs_entries s') i \<noteq> Some e" and "i \<noteq> he_uuid env"
  shows "\<exists>a claims idStr. hs_auth s = Some a \<and> match_route True r = Some (RDelete idStr) \<and> rq_CsrfOk r
    \<and> he_uparse env idStr = Some i
    \<and> snd (Verify (he_lib env) (he_reply env) (token_of r) (au_cfAccess a)) = Some claims
    \<and> st_entries (hs_entries s') i = Some (e\<lparr>en_Deleted := True\<rparr>)"
proof -
  have "st_entries (fst (entry_Create env (hs_entries s))) i = Some e"
  proof -
    obtain es q where sv: "file_Save (he_codec env) (he_entry env) (hs_entries s)
        (NewEntry (he_uuid env) (he_now env)) = (es, q)" by fastforce
    have "fst (entry_Create env (hs_entries s)) = es"
      by (simp add: entry_Create_def sv Let_def split: option.splits)
    then show ?thesis
      using file_entries.save_abs [OF sv] assms(2,4) by (simp add: NewEntry_def)
  qed
  with serve_entries [OF assms(1)] assms(2,3) obtain idStr a where
    d: "match_route (hs_auth s \<noteq> None) r = Some (RDelete idStr)" "rq_CsrfOk r"
      "CFAccessMiddleware env r (the (hs_auth s)) = (a, True)"
      "hs_entries s' = fst (entry_Delete env idStr (hs_entries s))" by auto
  obtain au where au: "hs_auth s = Some au" using match_route_auth(1) [OF d(1)] by blast
  obtain j where j: "he_uparse env idStr = Some j"
    using d(4) assms(2,3) by (cases "he_uparse env idStr") (auto simp: entry_Delete_def)
  obtain es q where del: "file_Delete (he_codec env) (he_entry env) (hs_entries s) j = (es, q)"
    by fastforce
  have es: "hs_entries s' = es"
    using d(4) j del by (auto simp: entry_Delete_def split: option.splits EntryError.splits)
  have "j = i \<and> st_entries es i = Some (e\<lparr>en_Deleted := True\<rparr>)"
  proof (cases "st_entries (hs_entries s) j")
    case None
    then have "es = hs_entries s" using del by (simp add: file_entries.delete_missing)
    then show ?thesis using es assms(2,3) by simp
  next
    case (Some f)
    from file_entries.delete_abs [OF Some del] show ?thesis
      using es assms(2,3) Some by (cases "i = j") auto
  qed
  then show ?thesis
    using d au j es CFAccessMiddleware_True [OF d(3)] by auto
qed

text \<open>
  a ticket is handed out only to an authenticated request: a response carries one only if
  the request passed the cross-origin check and its token was verified, and this ticket is
  then redeemable.
\<close>

theorem ticket_requires_auth:
  assumes "serve env r s = (s', resp)" and "rp_Body resp = Ticket t"
  shows "\<exists>a a' claims. hs_auth s = Some a \<and> hs_auth s' = Some a' \<and> rq_CsrfOk r
    \<and> snd (Verify (he_lib env) (he_reply env) (token_of r) (au_cfAccess a)) = Some claims
    \<and> ts_tickets (au_tickets a') t = Some (snd (he_times env) + ts_ttl (au_tickets a))"
proof -
  have rt: "match_route (hs_auth s \<noteq> None) r = Some RTicket"
  proof (cases "match_route (hs_auth s \<noteq> None) r")
    case None
    then show ?thesis using assms by (auto simp: serve_def not_matched_def split: if_splits)
  next
    case (Some rt)
    then show ?thesis
      using assms by (cases rt) (auto simp: serve_def writeJSON_def entry_List_def entry_Create_def
          entry_Delete_def entry_Get_def writeProblem_def internal_error_def csrf_error_def
          RequireAuth_def Logout_def Let_def split_def
          split: if_splits option.splits sum.splits EntryError.splits)
  qed
  obtain au where au: "hs_auth s = Some au" using match_route_auth(2) [OF rt] by blast
  obtain a b where mw: "CFAccessMiddleware env r au = (a, b)" by fastforce
  have csrf: "rq_CsrfOk r" using assms rt by (auto simp: serve_def csrf_error_def split: if_splits)
  obtain a1 rs where w: "WSTicket env b a = (a1, rs)" by fastforce
  have res: "s' = s\<lparr>hs_auth := Some a1\<rparr>" "resp = rs"
    using assms(1) rt au csrf mw w by (auto simp: serve_def)
  have b: b using w assms(2) res(2) by (auto simp: WSTicket_def split: if_splits)
  have same: "au_tickets a = au_tickets au"
    using mw by (auto simp: CFAccessMiddleware_def Let_def split_def split: if_splits)
  have "ts_tickets (au_tickets a1) t = Some (snd (he_times env) + ts_ttl (au_tickets au))"
    using w b assms(2) res(2) same
    by (auto simp: WSTicket_def Issue_def cleanup_def Let_def)
  then show ?thesis
    using au res(1) csrf CFAccessMiddleware_True [of env r au a] mw b by simp
qed

text \<open>A request with a good token.\<close>

definition ex_henv :: "string http_env" where
  "ex_henv = \<lparr>he_uuid = 9, he_now = 5, he_order = [4], he_entry = ([4], Writes), he_reply = NoReply,
     he_random = [171], he_times = (0, 1), he_lib = ex_lib, he_ustr = uuid_hex, he_uparse = unhex_canonical,
     he_rfc3339 = unary_text, he_codec = ex_entry_codec []\<rparr>"

definition ex_hstate :: http_state where
  "ex_hstate = \<lparr>hs_entries = ex_entries, hs_auth = Some \<lparr>au_cfAccess = ex_verifier,
     au_tickets = NewTicketStore 60, au_teamDomain = ''team''\<rparr>\<rparr>"

definition ex_request :: "string list \<Rightarrow> request" where
  "ex_request segs = \<lparr>rq_Method = ''POST'', rq_Segments = segs, rq_Jwt = ''tok'', rq_Cookie = None, rq_CsrfOk = True\<rparr>"

lemma ex_verifies:
  "Verify ex_lib NoReply ''tok'' ex_verifier = (ex_verifier, Some ''tok'')"
  by (simp add: Verify_def ex_lib_def ex_verifier_def getKey_def Let_def)

theorem entry_change_requires_auth_witness:
  "\<exists>s' resp. serve ex_henv (ex_request [''api'', ''admin'', ''entries'', uuid_hex 4, ''delete'']) ex_hstate = (s', resp)
     \<and> st_entries (hs_entries s') 4 = Some (ex_entry\<lparr>en_Deleted := True\<rparr>)"
proof -
  let ?r = "ex_request [''api'', ''admin'', ''entries'', uuid_hex 4, ''delete'']"
  obtain s' resp where sv: "serve ex_henv ?r ex_hstate = (s', resp)" by fastforce
  have ne: "uuid_hex 4 \<noteq> []" by (simp add: uuid_hex_def add_dashes_def)
  have rt: "match_route True ?r = Some (RDelete (uuid_hex 4))"
    using ne by (simp add: match_route_def ex_request_def)
  have mw: "snd (CFAccessMiddleware ex_henv ?r \<lparr>au_cfAccess = ex_verifier,
     au_tickets = NewTicketStore 60, au_teamDomain = ''team''\<rparr>)"
    by (simp add: CFAccessMiddleware_def ex_request_def ex_henv_def ex_verifies)
  have e4: "st_entries (hs_entries ex_hstate) 4 = Some ex_entry"
    by (simp add: ex_hstate_def ex_entries_def)
  have "hs_entries s' = fst (entry_Delete ex_henv (uuid_hex 4) (hs_entries ex_hstate))"
    using sv rt mw by (auto simp: serve_def ex_hstate_def RequireAuth_def ex_request_def Let_def split_def)
  moreover have "st_entries (fst (entry_Delete ex_henv (uuid_hex 4) (hs_entries ex_hstate))) 4 \<noteq> Some ex_entry"
    by (auto simp: entry_Delete_def ex_henv_def unhex_uuid_hex ex_hstate_def ex_entries_def file_Delete_def
        saveToFile_def WriteFile_def io_ok_def Let_def ex_entry_def NewEntry_def)
  ultimately have "st_entries (hs_entries s') 4 \<noteq> Some ex_entry" by simp
  from entry_change_requires_auth [OF sv e4 this] sv show ?thesis by (auto simp: ex_henv_def)
qed

theorem ticket_requires_auth_witness:
  "\<exists>s' resp a'. serve ex_henv (ex_request [''api'', ''ws-ticket'']) ex_hstate = (s', resp)
     \<and> rp_Body resp = Ticket (EncodeToString [171]) \<and> hs_auth s' = Some a'
     \<and> ts_tickets (au_tickets a') (EncodeToString [171]) = Some 61"
proof -
  let ?r = "ex_request [''api'', ''ws-ticket'']"
  obtain s' resp where sv: "serve ex_henv ?r ex_hstate = (s', resp)" by fastforce
  have rt: "match_route True ?r = Some RTicket" by (simp add: match_route_def ex_request_def)
  have mw: "CFAccessMiddleware ex_henv ?r \<lparr>au_cfAccess = ex_verifier,
     au_tickets = NewTicketStore 60, au_teamDomain = ''team''\<rparr> = (\<lparr>au_cfAccess = ex_verifier,
     au_tickets = NewTicketStore 60, au_teamDomain = ''team''\<rparr>, True)"
    by (simp add: CFAccessMiddleware_def ex_request_def ex_henv_def ex_verifies)
  have t: "rp_Body resp = Ticket (EncodeToString [171])"
    using sv rt mw by (auto simp: serve_def ex_hstate_def WSTicket_def ex_request_def ex_henv_def Issue_def Let_def)
  from ticket_requires_auth [OF sv t] sv t show ?thesis
    by (auto simp: ex_hstate_def ex_henv_def NewTicketStore_def)
qed

text \<open>
  the life of an entry. After a successful creation the entry can be fetched under the
  identifier in the response, with empty text; once a deletion of it has been processed (even
  if its write failed) fetching it gives 404.
\<close>

theorem entry_lifecycle:
  assumes "entry_Create env s = (s1, r1)" and "rp_Status r1 = 201"
    and "he_uparse env (he_ustr env (he_uuid env)) = Some (he_uuid env)"
    and "entry_Delete env (he_ustr env (he_uuid env)) s1 = (s2, r2)"
  shows "(\<exists>d. entry_Get env (he_ustr env (he_uuid env)) s1 = \<lparr>rp_Status = 200, rp_Body = Detail d\<rparr>
        \<and> dr_ID d = he_ustr env (he_uuid env) \<and> dr_Text d = [] \<and> dr_CreatedAt d = he_rfc3339 env (he_now env))
    \<and> (rp_Status r2 = 204 \<or> rp_Status r2 = 500)
    \<and> rp_Status (entry_Get env (he_ustr env (he_uuid env)) s2) = 404"
proof -
  let ?e = "NewEntry (he_uuid env) (he_now env)"
  obtain es q where sv: "file_Save (he_codec env) (he_entry env) s ?e = (es, q)" by fastforce
  have s1: "s1 = es" using assms(1) sv by (auto simp: entry_Create_def Let_def split: option.splits)
  have st: "st_entries s1 (he_uuid env) = Some ?e"
    using file_entries.save_abs [OF sv] s1 by (simp add: NewEntry_def)
  have "file_FindByID s1 (he_uuid env) = Inr ?e" using st by (simp add: file_FindByID_def NewEntry_def)
  then have get: "\<exists>d. entry_Get env (he_ustr env (he_uuid env)) s1 = \<lparr>rp_Status = 200, rp_Body = Detail d\<rparr>
        \<and> dr_ID d = he_ustr env (he_uuid env) \<and> dr_Text d = [] \<and> dr_CreatedAt d = he_rfc3339 env (he_now env)"
    using assms(3) by (simp add: entry_Get_def writeJSON_def NewEntry_def)
  obtain es2 q2 where del: "file_Delete (he_codec env) (he_entry env) s1 (he_uuid env) = (es2, q2)"
    by fastforce
  note da = file_entries.delete_abs [OF st del]
  have r2: "s2 = es2" "rp_Status r2 = 204 \<or> rp_Status r2 = 500"
    using assms(3,4) del da
    by (auto simp: entry_Delete_def internal_error_def writeProblem_def
        split: option.splits EntryError.splits if_splits)
  have "file_FindByID s2 (he_uuid env) = Inl ErrEntryDeleted"
    using file_entries.find_delete [OF del st] r2(1) by simp
  then have "rp_Status (entry_Get env (he_ustr env (he_uuid env)) s2) = 404"
    using assms(3) by (simp add: entry_Get_def writeProblem_def)
  with get r2(2) show ?thesis by blast
qed

theorem entry_lifecycle_witness:
  "\<exists>s1 r1 s2 r2. entry_Create ex_henv ex_entries = (s1, r1)
    \<and> entry_Delete ex_henv (uuid_hex 9) s1 = (s2, r2)
    \<and> rp_Status (entry_Get ex_henv (uuid_hex 9) s2) = 404"
proof -
  obtain s1 r1 where c: "entry_Create ex_henv ex_entries = (s1, r1)" by fastforce
  obtain s2 r2 where d: "entry_Delete ex_henv (he_ustr ex_henv (he_uuid ex_henv)) s1 = (s2, r2)" by fastforce
  have "rp_Status r1 = 201"
    using c by (auto simp: entry_Create_def ex_henv_def ex_entries_def file_Save_def saveToFile_def
        WriteFile_def io_ok_def writeJSON_def Let_def)
  from entry_lifecycle [OF c this _ d] c d show ?thesis
    by (simp add: ex_henv_def unhex_uuid_hex)
qed

end
