(* ===== verification/Ws_Handler.thy ===== *)
theory Ws_Handler
  imports Sync_Service Projector_Props Http_Api
begin

text \<open>
  The WebSocket handler, \<open>handler/ws.go\<close> and \<open>handler/ws_protocol.go\<close>: one connection of an
  editor, its messages and what it sends.

  The messages a call writes, to its own connection or through a broadcast, are returned as a
  list of pairs of a receiver and a message, in the order of the writes. A receiver is the
  identity of the \<open>wsSubscriber\<close>. The JSON text of messages is the pair \<open>wk_unmarshal\<close>,
  \<open>wk_marshal\<close>; messages whose encoding cannot fail are not encoded in the model. A call gives
  \<open>None\<close> when the projection or a broadcast does not return.
\<close>

subsection \<open>Messages\<close>

definition MsgTypeOp :: string where "MsgTypeOp = ''op''"
definition MsgTypeAck :: string where "MsgTypeAck = ''ack''"
definition MsgTypeSyncRequest :: string where "MsgTypeSyncRequest = ''sync_request''"
definition MsgTypeSync :: string where "MsgTypeSync = ''sync''"
definition MsgTypeError :: string where "MsgTypeError = ''error''"

record NodeIDMsg =
  nm_SiteID :: string
  nm_Timestamp :: u64

record IncomingMessage =
  im_Type :: string
  im_RequestID :: string
  im_EntryID :: string
  im_OpType :: int
  im_NodeID :: "NodeIDMsg option"
  im_After :: "NodeIDMsg option"
  im_Value :: string
  im_LastServerSeq :: int64
  im_Authenticated :: "bool option"

record AckMsg =
  ak_Type :: string
  ak_RequestID :: string
  ak_EntryID :: string
  ak_ServerSeq :: int64

record SyncOpMsg =
  sp_RequestID :: string
  sp_ServerSeq :: int64
  sp_OpType :: int
  sp_NodeID :: "NodeIDMsg option"
  sp_After :: "NodeIDMsg option"
  sp_Value :: string
  sp_Authenticated :: "bool option"

record SyncMsg =
  sy_Type :: string
  sy_EntryID :: string
  sy_Ops :: "SyncOpMsg list"
  sy_LatestServerSeq :: int64

record ErrorMsg =
  er_Type :: string
  er_RequestID :: "string option"
  er_ErrorType :: string
  er_Title :: string
  er_Instance :: string

datatype out_msg = OutAuthStatus bool | OutAck AckMsg | OutSync SyncMsg | OutError ErrorMsg

record ws_codec =
  wk_unmarshal :: "string \<Rightarrow> IncomingMessage option"
  wk_marshal :: "IncomingMessage \<Rightarrow> string"
  wk_ustr :: "uuid \<Rightarrow> string"
  wk_uparse :: "string \<Rightarrow> uuid option"
  wk_event :: event_codec
  wk_proj :: proj_codec

record ws_env =
  we_append :: "go_time \<times> write_io"
  we_proj :: proj_env
  we_uuid :: uuid
  we_grow :: nat

record WS =
  ws_store :: FileEventStore
  ws_sync :: SyncService
  ws_projector :: "EntryProjector option"

record ws_conn =
  wc_sub :: subscriber
  wc_subscribed :: "uuid list"
  wc_authenticated :: bool

definition newErrorMsg :: "ws_codec \<Rightarrow> ws_env \<Rightarrow> string option \<Rightarrow> string \<Rightarrow> string \<Rightarrow> ErrorMsg" where
  "newErrorMsg cdc env requestID errorType title =
     \<lparr>er_Type = MsgTypeError, er_RequestID = requestID, er_ErrorType = errorType, er_Title = title,
      er_Instance = ''urn:uuid:'' @ wk_ustr cdc (we_uuid env)\<rparr>"

definition invalid_op :: "ws_codec \<Rightarrow> ws_env \<Rightarrow> string option \<Rightarrow> out_msg" where
  "invalid_op cdc env requestID =
     OutError (newErrorMsg cdc env requestID ''error:invalid_op'' ''Invalid Operation'')"

text \<open>A stored payload that does not decode leaves the zero message.\<close>

definition zero_msg :: IncomingMessage where
  "zero_msg = \<lparr>im_Type = [], im_RequestID = [], im_EntryID = [], im_OpType = 0, im_NodeID = None,
     im_After = None, im_Value = [], im_LastServerSeq = 0, im_Authenticated = None\<rparr>"

definition convertSyncOp :: "ws_codec \<Rightarrow> SyncOp \<Rightarrow> SyncOpMsg" where
  "convertSyncOp cdc op =
     (let incoming = (case wk_unmarshal cdc (so_Payload op) of None \<Rightarrow> zero_msg | Some m \<Rightarrow> m)
      in \<lparr>sp_RequestID = wk_ustr cdc (so_RequestID op), sp_ServerSeq = so_ServerSeq op,
          sp_OpType = im_OpType incoming, sp_NodeID = im_NodeID incoming, sp_After = im_After incoming,
          sp_Value = im_Value incoming, sp_Authenticated = im_Authenticated incoming\<rparr>)"

definition convertSyncMessage :: "ws_codec \<Rightarrow> SyncMessage \<Rightarrow> SyncMsg" where
  "convertSyncMessage cdc msg =
     \<lparr>sy_Type = MsgTypeSync, sy_EntryID = wk_ustr cdc (sm_EntryID msg),
      sy_Ops = map (convertSyncOp cdc) (sm_Ops msg), sy_LatestServerSeq = sm_LatestServerSeq msg\<rparr>"

text \<open>What a subscriber writes for a broadcast; the outcome of the write is only logged.\<close>

definition ws_Send :: "ws_codec \<Rightarrow> SyncMessage \<Rightarrow> subscriber \<Rightarrow> subscriber \<times> out_msg" where
  "ws_Send cdc msg = (\<lambda>s. (s, OutSync (convertSyncMessage cdc msg)))"

subsection \<open>The calls\<close>

definition NewWS :: "FileEventStore \<Rightarrow> SyncService \<Rightarrow> EntryProjector option \<Rightarrow> WS" where
  "NewWS store syncService projector = \<lparr>ws_store = store, ws_sync = syncService, ws_projector = projector\<rparr>"

definition ensureSubscribed :: "ws_env \<Rightarrow> uuid \<Rightarrow> WS \<Rightarrow> ws_conn \<Rightarrow> WS \<times> ws_conn" where
  "ensureSubscribed env entryID h c =
     (if entryID \<in> set (wc_subscribed c) then (h, c)
      else (h\<lparr>ws_sync := Subscribe (we_grow env) (ws_sync h) entryID (wc_sub c)\<rparr>,
            c\<lparr>wc_subscribed := wc_subscribed c @ [entryID]\<rparr>))"

definition project_op ::
  "ws_codec \<Rightarrow> ws_env \<Rightarrow> WS \<Rightarrow> uuid \<Rightarrow> string \<Rightarrow> (WS \<times> bool) option" where
  "project_op cdc env h entryID payload =
     (case ws_projector h of
        None \<Rightarrow> Some (h, True)
      | Some p \<Rightarrow>
          map_option (\<lambda>(p', applied). (h\<lparr>ws_projector := Some p'\<rparr>, applied))
            (proj_Apply (wk_proj cdc) (we_proj env) p entryID payload))"

definition handleOp ::
  "ws_codec \<Rightarrow> ws_env \<Rightarrow> WS \<Rightarrow> ws_conn \<Rightarrow> IncomingMessage
     \<Rightarrow> (WS \<times> ws_conn \<times> (subscriber \<times> out_msg) list) option" where
  "handleOp cdc env h c msg =
     (case wk_uparse cdc (im_EntryID msg) of
        None \<Rightarrow> Some (h, c, [(wc_sub c, invalid_op cdc env (Some (im_RequestID msg)))])
      | Some entryID \<Rightarrow>
     (case wk_uparse cdc (im_RequestID msg) of
        None \<Rightarrow> Some (h, c, [(wc_sub c, invalid_op cdc env (Some (im_RequestID msg)))])
      | Some requestID \<Rightarrow>
          (let msg = msg\<lparr>im_Authenticated := Some (wc_authenticated c)\<rparr>;
               payload = wk_marshal cdc msg;
               (h1, c1) = ensureSubscribed env entryID h c;
               siteID = (case im_NodeID msg of None \<Rightarrow> 0 | Some n \<Rightarrow> uuid_or_nil (wk_uparse cdc (nm_SiteID n)));
               (st, res) = HandleOp (file_Append (wk_event cdc) (we_append env)) (ws_store h1)
                             entryID siteID requestID payload;
               h2 = h1\<lparr>ws_store := st\<rparr>
           in case res of
                Inl _ \<Rightarrow> Some (h2, c1, [(wc_sub c, OutError (newErrorMsg cdc env (Some (im_RequestID msg))
                                           ''error:internal'' ''Internal Error''))])
              | Inr ack \<Rightarrow>
                  (let ackMsg = (wc_sub c, OutAck \<lparr>ak_Type = MsgTypeAck, ak_RequestID = im_RequestID msg,
                                   ak_EntryID = im_EntryID msg, ak_ServerSeq = am_ServerSeq ack\<rparr>)
                   in if am_ServerSeq ack > 0 then
                        do {
                          (h3, applied) \<leftarrow> project_op cdc env h2 entryID payload;
                          if \<not> applied then Some (h3, c1, [ackMsg])
                          else do {
                            receivers \<leftarrow> Broadcast (ws_sync h3) entryID;
                            let m = \<lparr>sm_EntryID = entryID,
                                     sm_Ops = [\<lparr>so_RequestID = requestID, so_ServerSeq = am_ServerSeq ack,
                                                so_Payload = payload\<rparr>],
                                     sm_LatestServerSeq = am_ServerSeq ack\<rparr>;
                            Some (h3, c1, ackMsg # map (ws_Send cdc m) receivers)
                          }
                        }
                      else Some (h2, c1, [ackMsg])))))"

definition handleSyncRequest ::
  "ws_codec \<Rightarrow> ws_env \<Rightarrow> WS \<Rightarrow> ws_conn \<Rightarrow> IncomingMessage
     \<Rightarrow> (WS \<times> ws_conn \<times> (subscriber \<times> out_msg) list) option" where
  "handleSyncRequest cdc env h c msg =
     (case wk_uparse cdc (im_EntryID msg) of
        None \<Rightarrow> Some (h, c, [(wc_sub c, invalid_op cdc env (Some (im_RequestID msg)))])
      | Some entryID \<Rightarrow>
          (let (h1, c1) = ensureSubscribed env entryID h c
           in case GetDiff (\<lambda>s k a. Inr (file_ListAfter s k a)) (\<lambda>s k. Inr (file_MaxServerSeq s k))
                     (ws_store h1) entryID (im_LastServerSeq msg) of
                Inl _ \<Rightarrow> Some (h1, c1, [(wc_sub c, OutError (newErrorMsg cdc env (Some (im_RequestID msg))
                                           ''error:internal'' ''Internal Error''))])
              | Inr diff \<Rightarrow> Some (h1, c1, [(wc_sub c, OutSync (convertSyncMessage cdc diff))])))"

text \<open>One turn of the read loop of \<open>ServeHTTP\<close>.\<close>

definition handleFrame ::
  "ws_codec \<Rightarrow> ws_env \<Rightarrow> string \<Rightarrow> WS \<Rightarrow> ws_conn \<Rightarrow> (WS \<times> ws_conn \<times> (subscriber \<times> out_msg) list) option" where
  "handleFrame cdc env data h c =
     (case wk_unmarshal cdc data of
        None \<Rightarrow> Some (h, c, [(wc_sub c, invalid_op cdc env None)])
      | Some msg \<Rightarrow>
          if im_Type msg = MsgTypeOp then handleOp cdc env h c msg
          else if im_Type msg = MsgTypeSyncRequest then handleSyncRequest cdc env h c msg
          else Some (h, c, [(wc_sub c, invalid_op cdc env (Some (im_RequestID msg)))]))"

text \<open>
  \<open>ServeHTTP\<close>: the ticket decides the authentication of the connection, the frames are handled
  until a read fails, and the deferred function unsubscribes from everything.
\<close>

definition open_conn ::
  "go_time \<times> go_time \<Rightarrow> string \<Rightarrow> subscriber \<Rightarrow> Auth option \<Rightarrow> Auth option \<times> ws_conn \<times> (subscriber \<times> out_msg) list" where
  "open_conn ts ticket sub auth =
     (let (auth', authenticated) =
            (case auth of
               None \<Rightarrow> (None, False)
             | Some a \<Rightarrow> if ticket \<noteq> [] then (let (a', ok) = RedeemTicket ts ticket a in (Some a', ok))
                         else (Some a, False))
      in (auth', \<lparr>wc_sub = sub, wc_subscribed = [], wc_authenticated = authenticated\<rparr>,
          [(sub, OutAuthStatus authenticated)]))"

fun read_loop ::
  "ws_codec \<Rightarrow> (ws_env \<times> string) list \<Rightarrow> WS \<Rightarrow> ws_conn \<Rightarrow> (WS \<times> ws_conn \<times> (subscriber \<times> out_msg) list) option" where
  "read_loop cdc [] h c = Some (h, c, [])"
| "read_loop cdc ((env, data) # fs) h c =
     Option.bind (handleFrame cdc env data h c)
       (\<lambda>(h1, c1, out1). map_option (\<lambda>(h2, c2, out2). (h2, c2, out1 @ out2)) (read_loop cdc fs h1 c1))"

definition close_conn :: "WS \<Rightarrow> ws_conn \<Rightarrow> WS" where
  "close_conn h c =
     h\<lparr>ws_sync := foldl (\<lambda>s entryID. Unsubscribe s entryID (wc_sub c)) (ws_sync h) (wc_subscribed c)\<rparr>"

end
