(* ===== verification/Ws_Props.thy ===== *)
theory Ws_Props
  imports Ws_Handler
begin

text \<open>
  Properties of the WebSocket handler: the server decides who is authenticated, what an
  accepted and a refused operation cause, and that a closed connection leaves no subscription.
\<close>

lemma ensureSubscribed_fields [simp]:
  "ws_store (fst (ensureSubscribed env i h c)) = ws_store h"
  "ws_projector (fst (ensureSubscribed env i h c)) = ws_projector h"
  "wc_sub (snd (ensureSubscribed env i h c)) = wc_sub c"
  "wc_authenticated (snd (ensureSubscribed env i h c)) = wc_authenticated c"
  by (simp_all add: ensureSubscribed_def)

lemma project_op_fields:
  "project_op cdc env h i pl = Some (h', b) \<Longrightarrow> ws_store h' = ws_store h \<and> ws_sync h' = ws_sync h"
  by (auto simp: project_op_def split: option.splits)

text \<open>The stored message: the client's claim about its authentication is replaced.\<close>

definition stamped :: "ws_conn \<Rightarrow> IncomingMessage \<Rightarrow> IncomingMessage" where
  "stamped c msg = msg\<lparr>im_Authenticated := Some (wc_authenticated c)\<rparr>"

definition site_of :: "ws_codec \<Rightarrow> IncomingMessage \<Rightarrow> uuid" where
  "site_of cdc msg = (case im_NodeID msg of None \<Rightarrow> 0 | Some n \<Rightarrow> uuid_or_nil (wk_uparse cdc (nm_SiteID n)))"

definition record_op ::
  "ws_codec \<Rightarrow> ws_env \<Rightarrow> WS \<Rightarrow> ws_conn \<Rightarrow> IncomingMessage \<Rightarrow> uuid \<Rightarrow> uuid
     \<Rightarrow> FileEventStore \<times> (StoreError + AckMessage)" where
  "record_op cdc env h c msg entryID requestID =
     HandleOp (file_Append (wk_event cdc) (we_append env)) (ws_store h) entryID (site_of cdc msg) requestID
       (wk_marshal cdc (stamped c msg))"

text \<open>What happens after the identifiers have been parsed.\<close>

definition after_record ::
  "ws_codec \<Rightarrow> ws_env \<Rightarrow> WS \<Rightarrow> ws_conn \<Rightarrow> IncomingMessage \<Rightarrow> uuid \<Rightarrow> uuid \<Rightarrow> int64
     \<Rightarrow> (WS \<times> ws_conn \<times> (subscriber \<times> out_msg) list) option" where
  "after_record cdc env h c msg entryID requestID n =
     (let ackMsg = (wc_sub c, OutAck \<lparr>ak_Type = MsgTypeAck, ak_RequestID = im_RequestID msg,
                                   ak_EntryID = im_EntryID msg, ak_ServerSeq = n\<rparr>)
      in if n > 0 then
           do {
             (h3, applied) \<leftarrow> project_op cdc env h entryID (wk_marshal cdc (stamped c msg));
             if \<not> applied then Some (h3, c, [ackMsg])
             else do {
               receivers \<leftarrow> Broadcast (ws_sync h3) entryID;
               Some (h3, c, ackMsg # map (\<lambda>s. (s, OutSync (convertSyncMessage cdc
                  \<lparr>sm_EntryID = entryID,
                   sm_Ops = [\<lparr>so_RequestID = requestID, so_ServerSeq = n,
                              so_Payload = wk_marshal cdc (stamped c msg)\<rparr>],
                   sm_LatestServerSeq = n\<rparr>))) receivers)
             }
           }
         else Some (h, c, [ackMsg]))"

lemma handleOp_parsed:
  assumes "wk_uparse cdc (im_EntryID msg) = Some entryID" and "wk_uparse cdc (im_RequestID msg) = Some requestID"
    and "record_op cdc env h c msg entryID requestID = (st, res)"
    and "ensureSubscribed env entryID h c = (h1, c1)"
  shows "handleOp cdc env h c msg =
    (case res of
       Inl _ \<Rightarrow> Some (h1\<lparr>ws_store := st\<rparr>, c1, [(wc_sub c, OutError (newErrorMsg cdc env
                   (Some (im_RequestID msg)) ''error:internal'' ''Internal Error''))])
     | Inr ack \<Rightarrow> after_record cdc env (h1\<lparr>ws_store := st\<rparr>) c1 msg entryID requestID (am_ServerSeq ack))"
proof -
  have eq: "ws_store h1 = ws_store h" "wc_sub c1 = wc_sub c" "wc_authenticated c1 = wc_authenticated c"
    using ensureSubscribed_fields [of env entryID h c] assms(4) by simp_all
  show ?thesis
    using assms(3) unfolding record_op_def site_of_def stamped_def
    by (cases res) (simp_all add: handleOp_def assms(1,2,4) after_record_def stamped_def ws_Send_def eq Let_def
        cong: if_cong prod.case_cong)
qed

lemma after_record_fields:
  assumes "after_record cdc env h c msg entryID requestID n = Some (h', c', outs)"
  shows "ws_store h' = ws_store h \<and> ws_sync h' = ws_sync h \<and> c' = c"
  using assms by (auto simp: after_record_def bind_eq_Some_conv Let_def split: if_splits
      dest: project_op_fields)

lemma handleOp_cases:
  assumes "handleOp cdc env h c msg = Some (h', c', outs)"
  shows "(h' = h \<and> c' = c) \<or> (\<exists>entryID requestID res.
     wk_uparse cdc (im_EntryID msg) = Some entryID \<and> wk_uparse cdc (im_RequestID msg) = Some requestID
     \<and> record_op cdc env h c msg entryID requestID = (ws_store h', res)
     \<and> ws_sync h' = ws_sync (fst (ensureSubscribed env entryID h c))
     \<and> c' = snd (ensureSubscribed env entryID h c))"
proof (cases "wk_uparse cdc (im_EntryID msg)")
  case None
  then show ?thesis using assms by (simp add: handleOp_def)
next
  case (Some entryID)
  note e = this
  show ?thesis
  proof (cases "wk_uparse cdc (im_RequestID msg)")
    case None
    then show ?thesis using assms e by (simp add: handleOp_def)
  next
    case (Some requestID)
    obtain st res where r: "record_op cdc env h c msg entryID requestID = (st, res)" by fastforce
    obtain h1 c1 where s: "ensureSubscribed env entryID h c = (h1, c1)" by fastforce
    have "ws_store h' = st \<and> ws_sync h' = ws_sync h1 \<and> c' = c1"
    proof (cases res)
      case (Inl err)
      then show ?thesis using assms handleOp_parsed [OF e Some r s] by auto
    next
      case (Inr ack)
      then have "after_record cdc env (h1\<lparr>ws_store := st\<rparr>) c1 msg entryID requestID (am_ServerSeq ack)
          = Some (h', c', outs)"
        using assms handleOp_parsed [OF e Some r s] by simp
      from after_record_fields [OF this] show ?thesis by simp
    qed
    then show ?thesis using e Some r s by auto
  qed
qed

subsection \<open>Authentication\<close>

text \<open>
  The fields the projector reads from the stored text of a message: both structures have the
  same JSON names, and an omitted empty field reads as empty.
\<close>

definition payload_nid :: "NodeIDMsg \<Rightarrow> payloadNID" where
  "payload_nid n = \<lparr>pn_SiteID = nm_SiteID n, pn_Timestamp = nm_Timestamp n\<rparr>"

definition payload_of :: "IncomingMessage \<Rightarrow> payloadMsg" where
  "payload_of m = \<lparr>pm_RequestID = im_RequestID m, pm_OpType = im_OpType m,
     pm_NodeID = map_option payload_nid (im_NodeID m), pm_After = map_option payload_nid (im_After m),
     pm_Value = im_Value m, pm_Authenticated = im_Authenticated m\<rparr>"

lemma stamped_operation:
  assumes "pc_unmarshal (wk_proj cdc) (wk_marshal cdc (stamped c msg)) = Some (payload_of (stamped c msg))"
    and "OperationFromPayload (pc_unmarshal (wk_proj cdc)) uparse (wk_marshal cdc (stamped c msg)) = Inr op"
  shows "op_Authenticated op = wc_authenticated c"
proof -
  have "pm_Authenticated (payload_of (stamped c msg)) = Some (wc_authenticated c)"
    by (simp add: payload_of_def stamped_def)
  then show ?thesis
    using assms by (auto simp: OperationFromPayload_def Let_def split: option.splits if_splits)
qed

lemma handleOp_recorded:
  assumes json: "pc_unmarshal (wk_proj cdc) (wk_marshal cdc (stamped c msg)) = Some (payload_of (stamped c msg))"
    and inv: "file_inv (ws_store h)" and len: "\<And>k. length (file_log (ws_store h) k) < 2 ^ 63 - 1"
    and op: "handleOp cdc env h c msg = Some (h', c', outs)"
  shows "file_inv (ws_store h') \<and> (\<exists>k evs. length evs \<le> 1
    \<and> file_log (ws_store h') = (file_log (ws_store h))(k := file_log (ws_store h) k @ evs)
    \<and> (\<forall>ev \<in> set evs. \<forall>o'. OperationFromPayload (pc_unmarshal (wk_proj cdc)) uparse (ev_Payload ev) = Inr o'
          \<longrightarrow> op_Authenticated o' = wc_authenticated c))"
proof -
  have none: ?thesis if "ws_store h' = ws_store h"
    using inv that by (intro conjI exI [of _ 0] exI [of _ "[]"]) simp_all
  from handleOp_cases [OF op] show ?thesis
  proof (elim disjE exE conjE)
    assume "h' = h"
    then show ?thesis using none by simp
  next
    fix k rid res
    assume rec: "record_op cdc env h c msg k rid = (ws_store h', res)"
    show ?thesis
    proof (cases "rid \<in> es_seen (ws_store h)")
      case True
      then have "ws_store h' = ws_store h"
        using rec disk.HandleOp_duplicate [OF inv True] unfolding record_op_def by simp
      then show ?thesis by (rule none)
    next
      case False
      define e where "e = \<lparr>ev_EntryID = k, ev_ServerSeq = 0, ev_RequestID = rid, ev_EventType = EventCRDTOp,
        ev_SiteID = site_of cdc msg, ev_Payload = wk_marshal cdc (stamped c msg), ev_CreatedAt = time_or_zero None\<rparr>"
      obtain st r where a: "file_Append (wk_event cdc) (we_append env) (ws_store h) e = (st, r)" by fastforce
      have st: "st = ws_store h'"
        using rec a by (auto simp: record_op_def HandleOp_def e_def [symmetric] Let_def split: sum.splits)
      have "file_inv st \<and> (\<exists>t n. file_log st = (file_log (ws_store h))(k := file_log (ws_store h) k
          @ [e\<lparr>ev_ServerSeq := n, ev_CreatedAt := t\<rparr>]))"
        using disk.append_new [OF inv _ _ a] False len by (auto simp: e_def)
      then obtain t n where f: "file_inv st"
        "file_log st = (file_log (ws_store h))(k := file_log (ws_store h) k
          @ [e\<lparr>ev_ServerSeq := n, ev_CreatedAt := t\<rparr>])" by blast
      have "op_Authenticated o' = wc_authenticated c"
        if "OperationFromPayload (pc_unmarshal (wk_proj cdc)) uparse (ev_Payload e) = Inr o'" for o'
        using stamped_operation [OF json] that by (simp add: e_def)
      then show ?thesis
        using f unfolding st
        by (intro conjI exI [of _ k] exI [of _ "[e\<lparr>ev_ServerSeq := n, ev_CreatedAt := t\<rparr>]"]) auto
    qed
  qed
qed

text \<open>
  C5: the server decides who is authenticated. Whatever a client writes into its message, an
  operation that is recorded for a connection carries the authentication state the ticket of
  this connection gave it; nothing already recorded changes, and at most one event is added.
\<close>

theorem ws_authentication_enforced:
  assumes json: "pc_unmarshal (wk_proj cdc) (wk_marshal cdc (stamped c msg)) = Some (payload_of (stamped c msg))"
    and inv: "file_inv (ws_store h)" and len: "\<And>k. length (file_log (ws_store h) k) < 2 ^ 63 - 1"
    and op: "handleOp cdc env h c msg = Some (h', c', outs)"
  shows "file_inv (ws_store h') \<and> (\<exists>k evs. length evs \<le> 1
    \<and> file_log (ws_store h') = (file_log (ws_store h))(k := file_log (ws_store h) k @ evs)
    \<and> (\<forall>ev \<in> set evs. \<forall>o'. OperationFromPayload (pc_unmarshal (wk_proj cdc)) uparse (ev_Payload ev) = Inr o'
          \<longrightarrow> op_Authenticated o' = wc_authenticated c))"
  by (rule handleOp_recorded [OF assms])

text \<open>A connection without a ticket and its message, which claims to be authenticated.\<close>

definition ex_wmsg :: IncomingMessage where
  "ex_wmsg = \<lparr>im_Type = MsgTypeOp, im_RequestID = uuid_hex 2, im_EntryID = uuid_hex 1, im_OpType = 1,
     im_NodeID = Some \<lparr>nm_SiteID = uuid_hex 3, nm_Timestamp = 1\<rparr>, im_After = None, im_Value = ''a'',
     im_LastServerSeq = 0, im_Authenticated = Some True\<rparr>"

definition ex_wconn :: ws_conn where
  "ex_wconn = \<lparr>wc_sub = 6, wc_subscribed = [], wc_authenticated = False\<rparr>"

definition ex_wcodec_for :: "IncomingMessage \<Rightarrow> ws_codec" where
  "ex_wcodec_for m = \<lparr>wk_unmarshal = (\<lambda>_. Some m), wk_marshal = (\<lambda>_. ''{}''), wk_ustr = uuid_hex,
     wk_uparse = unhex_canonical, wk_event = ex_codec,
     wk_proj = ex_pcodec (\<lambda>_. Some (payload_of (stamped ex_wconn m)))\<rparr>"

definition ex_wcodec :: ws_codec where
  "ex_wcodec = ex_wcodec_for ex_wmsg"

definition ex_wenv :: ws_env where
  "ex_wenv = \<lparr>we_append = (0, Writes), we_proj = ex_env, we_uuid = 0, we_grow = 1\<rparr>"

definition ex_ws :: WS where
  "ex_ws = \<lparr>ws_store = ex_empty_store, ws_sync = NewSyncService, ws_projector = None\<rparr>"

lemma ex_ws_inv: "file_inv (ws_store ex_ws)" "file_log (ws_store ex_ws) k = []" "es_seen (ws_store ex_ws) = {}"
  using store_inv_empty by (simp_all add: ex_ws_def file_inv_def ex_empty_store_def file_log_def events_of_def)

lemma file_Append_created: "file_Append cdc x s (e\<lparr>ev_CreatedAt := t\<rparr>) = file_Append cdc x s e"
  by (simp add: file_Append_def Let_def)

lemma ex_record:
  assumes "ws_store h = ex_empty_store"
  shows "record_op (ex_wcodec_for m) ex_wenv h ex_wconn (ex_wmsg\<lparr>im_OpType := t\<rparr>) 1 2
    = (ex_store, Inr \<lparr>am_RequestID = 2, am_EntryID = 1, am_ServerSeq = 1\<rparr>)"
proof -
  have "\<lparr>ev_EntryID = 1, ev_ServerSeq = 0, ev_RequestID = 2, ev_EventType = EventCRDTOp, ev_SiteID = 3,
      ev_Payload = ''{}'', ev_CreatedAt = time_or_zero None\<rparr> = ex_event\<lparr>ev_CreatedAt := time_or_zero None\<rparr>"
    by (simp add: ex_event_def)
  then have "file_Append ex_codec (0, Writes) ex_empty_store \<lparr>ev_EntryID = 1, ev_ServerSeq = 0, ev_RequestID = 2,
      ev_EventType = EventCRDTOp, ev_SiteID = 3, ev_Payload = ''{}'', ev_CreatedAt = time_or_zero None\<rparr>
    = (ex_store, Inr 1)"
    using ex_store_eq by (simp only: file_Append_created)
  then show ?thesis
    by (simp add: record_op_def HandleOp_def ex_wcodec_for_def ex_wenv_def assms site_of_def ex_wmsg_def
        uuid_or_nil_def unhex_uuid_hex)
qed

lemma ex_ids: "wk_uparse (ex_wcodec_for m) (im_EntryID (ex_wmsg\<lparr>im_OpType := t\<rparr>)) = Some 1"
  "wk_uparse (ex_wcodec_for m) (im_RequestID (ex_wmsg\<lparr>im_OpType := t\<rparr>)) = Some 2"
  by (simp_all add: ex_wcodec_for_def ex_wmsg_def unhex_uuid_hex)

lemma ex_wmsg_1: "ex_wmsg\<lparr>im_OpType := 1\<rparr> = ex_wmsg"
  by (simp add: ex_wmsg_def)

lemma ex_handleOp: "\<exists>h' outs. handleOp ex_wcodec ex_wenv ex_ws ex_wconn ex_wmsg = Some (h', outs)"
proof -
  obtain h1 c1 where s: "ensureSubscribed ex_wenv 1 ex_ws ex_wconn = (h1, c1)" by fastforce
  have wf: "subs_wf (ws_sync h1)"
    using s Subscribe_refines [OF subs_wf_New]
    by (auto simp: ensureSubscribed_def ex_wconn_def ex_ws_def)
  have "ws_projector (fst (h1, c1)) = ws_projector ex_ws" unfolding s [symmetric] by simp
  then have p: "ws_projector h1 = None" by (simp add: ex_ws_def)
  have st: "ws_store ex_ws = ex_empty_store" by (simp add: ex_ws_def)
  note ids = ex_ids [of ex_wmsg 1, unfolded ex_wmsg_1 ex_wcodec_def [symmetric]]
  note rec = ex_record [OF st, of ex_wmsg 1, unfolded ex_wmsg_1 ex_wcodec_def [symmetric]]
  have "Broadcast (ws_sync h1) 1 = Some (subs_of (ws_sync h1) 1)"
    using range_run_view [OF range_view_begin [OF wf]] by (simp add: Broadcast_def)
  then show ?thesis
    using handleOp_parsed [OF ids rec s] p by (simp add: after_record_def project_op_def Let_def)
qed

theorem ws_authentication_enforced_witness:
  "\<exists>h' c' outs. handleOp ex_wcodec ex_wenv ex_ws ex_wconn ex_wmsg = Some (h', c', outs)
    \<and> im_Authenticated ex_wmsg = Some True \<and> file_inv (ws_store h')
    \<and> (\<exists>k evs. length evs \<le> 1
        \<and> file_log (ws_store h') = (file_log (ws_store ex_ws))(k := file_log (ws_store ex_ws) k @ evs)
        \<and> (\<forall>ev \<in> set evs. \<forall>o'. OperationFromPayload (pc_unmarshal (wk_proj ex_wcodec)) unhex_canonical (ev_Payload ev) = Inr o'
             \<longrightarrow> op_Authenticated o' = wc_authenticated ex_wconn))"
proof -
  obtain h' c' outs where op: "handleOp ex_wcodec ex_wenv ex_ws ex_wconn ex_wmsg = Some (h', c', outs)"
    using ex_handleOp by auto
  have "pc_unmarshal (wk_proj ex_wcodec) (wk_marshal ex_wcodec (stamped ex_wconn ex_wmsg))
      = Some (payload_of (stamped ex_wconn ex_wmsg))"
    by (simp add: ex_wcodec_def ex_wcodec_for_def ex_pcodec_def)
  from ws_authentication_enforced [OF this ex_ws_inv(1) _ op, of unhex_canonical] op ex_ws_inv(2)
  show ?thesis by (simp add: ex_wmsg_def)
qed

subsection \<open>Accepted and refused operations\<close>

lemma handleOp_accepted:
  assumes ids: "wk_uparse cdc (im_EntryID msg) = Some k" "wk_uparse cdc (im_RequestID msg) = Some rid"
    and inv: "file_inv (ws_store h)" "length (file_log (ws_store h) k) < 2 ^ 63 - 1"
    and new: "rid \<notin> es_seen (ws_store h)"
    and rec: "record_op cdc env h c msg k rid = (st, Inr ack)"
    and wf: "subs_wf (ws_sync h)" and sub: "k \<in> set (wc_subscribed c) \<Longrightarrow> wc_sub c \<in> set (subs_of (ws_sync h) k)"
    and proj: "ws_projector h = Some p"
      "proj_Apply (wk_proj cdc) (we_proj env) p k (wk_marshal cdc (stamped c msg)) = Some (p', True)"
  shows "\<exists>h' c' n. n = int (length (file_log (ws_store h) k)) + 1
    \<and> handleOp cdc env h c msg = Some (h', c',
        (wc_sub c, OutAck \<lparr>ak_Type = MsgTypeAck, ak_RequestID = im_RequestID msg, ak_EntryID = im_EntryID msg,
                           ak_ServerSeq = n\<rparr>)
        # map (\<lambda>s. (s, OutSync (convertSyncMessage cdc
              \<lparr>sm_EntryID = k, sm_Ops = [\<lparr>so_RequestID = rid, so_ServerSeq = n,
                 so_Payload = wk_marshal cdc (stamped c msg)\<rparr>], sm_LatestServerSeq = n\<rparr>)))
            (subs_of (ws_sync h') k))
    \<and> wc_sub c \<in> set (subs_of (ws_sync h') k) \<and> ws_projector h' = Some p' \<and> ws_store h' = st"
proof -
  obtain h1 c1 where s: "ensureSubscribed env k h c = (h1, c1)" by fastforce
  have n: "am_ServerSeq ack = int (length (file_log (ws_store h) k)) + 1"
    using disk.HandleOp_new [OF inv(1) new inv(2) rec [unfolded record_op_def]] by simp
  have f: "ws_projector h1 = Some p" "wc_sub c1 = wc_sub c" "wc_authenticated c1 = wc_authenticated c"
    using ensureSubscribed_fields [of env k h c] s proj by simp_all
  have wf1: "subs_wf (ws_sync h1)" and mem: "wc_sub c \<in> set (subs_of (ws_sync h1) k)"
    using s Subscribe_refines [OF wf] wf sub by (auto simp: ensureSubscribed_def split: if_splits)
  have bc: "Broadcast (ws_sync h1) k = Some (subs_of (ws_sync h1) k)"
    using range_run_view [OF range_view_begin [OF wf1]] by (simp add: Broadcast_def)
  have "stamped c1 msg = stamped c msg" by (simp add: stamped_def f)
  then have "handleOp cdc env h c msg = Some (h1\<lparr>ws_store := st, ws_projector := Some p'\<rparr>, c1,
      (wc_sub c, OutAck \<lparr>ak_Type = MsgTypeAck, ak_RequestID = im_RequestID msg, ak_EntryID = im_EntryID msg,
           ak_ServerSeq = am_ServerSeq ack\<rparr>)
      # map (\<lambda>s. (s, OutSync (convertSyncMessage cdc
              \<lparr>sm_EntryID = k, sm_Ops = [\<lparr>so_RequestID = rid, so_ServerSeq = am_ServerSeq ack,
                 so_Payload = wk_marshal cdc (stamped c msg)\<rparr>], sm_LatestServerSeq = am_ServerSeq ack\<rparr>)))
            (subs_of (ws_sync h1) k))"
    using handleOp_parsed [OF ids rec s] n
    by (simp add: after_record_def project_op_def f proj bc Let_def)
  then show ?thesis using n mem by auto
qed

text \<open>
  C7: an accepted operation reaches every editor. When the operation is new, its event is
  written and the projector applies it, the sender first gets the acknowledgement with the next
  sequence number, then every subscriber of the entry, the sender included, gets one sync
  message with exactly this operation.
\<close>

theorem ws_accepted_op:
  assumes ids: "wk_uparse cdc (im_EntryID msg) = Some k" "wk_uparse cdc (im_RequestID msg) = Some rid"
    and inv: "file_inv (ws_store h)" "length (file_log (ws_store h) k) < 2 ^ 63 - 1"
    and new: "rid \<notin> es_seen (ws_store h)"
    and rec: "record_op cdc env h c msg k rid = (st, Inr ack)"
    and wf: "subs_wf (ws_sync h)" and sub: "k \<in> set (wc_subscribed c) \<Longrightarrow> wc_sub c \<in> set (subs_of (ws_sync h) k)"
    and proj: "ws_projector h = Some p"
      "proj_Apply (wk_proj cdc) (we_proj env) p k (wk_marshal cdc (stamped c msg)) = Some (p', True)"
  shows "\<exists>h' c' n. n = int (length (file_log (ws_store h) k)) + 1
    \<and> handleOp cdc env h c msg = Some (h', c',
        (wc_sub c, OutAck \<lparr>ak_Type = MsgTypeAck, ak_RequestID = im_RequestID msg, ak_EntryID = im_EntryID msg,
                           ak_ServerSeq = n\<rparr>)
        # map (\<lambda>s. (s, OutSync (convertSyncMessage cdc
              \<lparr>sm_EntryID = k, sm_Ops = [\<lparr>so_RequestID = rid, so_ServerSeq = n,
                 so_Payload = wk_marshal cdc (stamped c msg)\<rparr>], sm_LatestServerSeq = n\<rparr>)))
            (subs_of (ws_sync h') k))
    \<and> wc_sub c \<in> set (subs_of (ws_sync h') k) \<and> ws_projector h' = Some p' \<and> ws_store h' = st"
  by (rule handleOp_accepted [OF assms])

definition ex_wproj :: EntryProjector where
  "ex_wproj = \<lparr>pr_rgas = Map.empty, pr_entries = \<lparr>st_entries = [1 \<mapsto> NewEntry 1 0], st_dir = Map.empty\<rparr>,
     pr_snaps = Map.empty, pr_markdown = Map.empty\<rparr>"

definition ex_ws_proj :: WS where
  "ex_ws_proj = ex_ws\<lparr>ws_projector := Some ex_wproj\<rparr>"

definition ex_wop :: "rune \<Rightarrow> bool \<Rightarrow> Operation" where
  "ex_wop v b = \<lparr>op_RequestID = 2, op_OpType = OpInsert, op_NodeID = \<lparr>nid_ReplicaID = 3, nid_Timestamp = 1\<rparr>,
     op_After = None, op_Value = v, op_Authenticated = b\<rparr>"

lemma ex_wproj_inserts:
  assumes "OperationFromPayload (pc_unmarshal cdc) (pc_uparse cdc) s = Inr (ex_wop v b)"
  shows "\<exists>p'. proj_Apply cdc ex_env ex_wproj 1 s = Some (p', True)"
proof -
  have "\<exists>r. applyGated (pc_ustr cdc) (NewRGA 0) (ex_wop v b) = Some (r, True)"
    by (simp add: applyGated_def Apply_def NewRGA_def NewLamportClock_def Update_def applyInsert_def startIdx_def
        insertPos.simps flushPending_empty ex_wop_def Let_def)
  then obtain r where g: "applyGated (pc_ustr cdc) (NewRGA 0) (ex_wop v b) = Some (r, True)" by blast
  have "rga_of ex_wproj 1 = NewRGA 0" by (simp add: rga_of_def ex_wproj_def)
  moreover have "snd (projectEntry cdc ex_env (ex_wproj\<lparr>pr_rgas := q\<rparr>) 1 r) = Projected" for q
    by (simp add: projectEntry_def ex_wproj_def file_FindByID_def NewEntry_def file_Save_def saveToFile_def
        WriteFile_def ex_env_def io_ok_def deriveFields_def Let_def)
  ultimately show ?thesis
    by (simp add: proj_Apply_def assms g Let_def split_def)
qed

lemma ex_payload_op:
  "\<exists>v. OperationFromPayload (\<lambda>_. Some (payload_of (stamped c ex_wmsg))) unhex_canonical s = Inr (ex_wop v (wc_authenticated c))"
  by (simp add: OperationFromPayload_def payload_of_def stamped_def ex_wmsg_def ex_wop_def
      payload_nid_def unhex_uuid_hex OpInsert_def Let_def)

lemma ex_wproj_accepts:
  "\<exists>p'. proj_Apply (wk_proj (ex_wcodec_for ex_wmsg)) ex_env ex_wproj 1 s = Some (p', True)"
proof -
  let ?c = "wk_proj (ex_wcodec_for ex_wmsg)"
  obtain v where "OperationFromPayload (pc_unmarshal ?c) (pc_uparse ?c) s = Inr (ex_wop v False)"
    using ex_payload_op [of ex_wconn s] by (auto simp: ex_wcodec_for_def ex_pcodec_def ex_wconn_def)
  then show ?thesis by (rule ex_wproj_inserts)
qed

theorem ws_accepted_op_witness:
  "\<exists>h' c' n. n = 1 \<and> handleOp (ex_wcodec_for ex_wmsg) ex_wenv ex_ws_proj ex_wconn ex_wmsg = Some (h', c',
        (6, OutAck \<lparr>ak_Type = MsgTypeAck, ak_RequestID = uuid_hex 2, ak_EntryID = uuid_hex 1, ak_ServerSeq = n\<rparr>)
        # map (\<lambda>s. (s, OutSync (convertSyncMessage (ex_wcodec_for ex_wmsg)
              \<lparr>sm_EntryID = 1, sm_Ops = [\<lparr>so_RequestID = 2, so_ServerSeq = n, so_Payload = ''{}''\<rparr>],
               sm_LatestServerSeq = n\<rparr>)))
            (subs_of (ws_sync h') 1))
    \<and> 6 \<in> set (subs_of (ws_sync h') 1)"
proof -
  obtain p' where p': "proj_Apply (wk_proj (ex_wcodec_for ex_wmsg)) (we_proj ex_wenv) ex_wproj 1
      (wk_marshal (ex_wcodec_for ex_wmsg) (stamped ex_wconn ex_wmsg)) = Some (p', True)"
    using ex_wproj_accepts by (auto simp: ex_wenv_def)
  have h: "ws_store ex_ws_proj = ex_empty_store" "ws_sync ex_ws_proj = NewSyncService"
    "ws_projector ex_ws_proj = Some ex_wproj" by (simp_all add: ex_ws_proj_def ex_ws_def)
  have c: "wc_subscribed ex_wconn = []" "wc_sub ex_wconn = 6" by (simp_all add: ex_wconn_def)
  have st: "file_inv (ws_store ex_ws_proj)" "length (file_log (ws_store ex_ws_proj) 1) < 2 ^ 63 - 1"
    "2 \<notin> es_seen (ws_store ex_ws_proj)" "file_log (ws_store ex_ws_proj) 1 = []" "subs_wf (ws_sync ex_ws_proj)"
    using ex_ws_inv subs_wf_New by (simp_all add: h ex_ws_def)
  from ws_accepted_op [OF ex_ids [of ex_wmsg 1, unfolded ex_wmsg_1] st(1-3)
      ex_record [OF h(1), of ex_wmsg 1, unfolded ex_wmsg_1] st(5) _ h(3) p'] st(4) c
  show ?thesis by (auto simp: ex_wmsg_def ex_wcodec_for_def)
qed

text \<open>
  C20: a refused operation is acknowledged and served all the same. When the projector refuses
  a new operation (an unauthenticated deletion of authenticated content), the sender gets an
  ordinary acknowledgement and nobody is told, yet the operation is in the log: whoever asks
  for the difference from then on receives it.
\<close>

theorem ws_refused_op_is_served:
  assumes ids: "wk_uparse cdc (im_EntryID msg) = Some k" "wk_uparse cdc (im_RequestID msg) = Some rid"
    and inv: "file_inv (ws_store h)" "length (file_log (ws_store h) k) < 2 ^ 63 - 1"
    and new: "rid \<notin> es_seen (ws_store h)"
    and rec: "record_op cdc env h c msg k rid = (st, Inr ack)"
    and proj: "ws_projector h = Some p"
      "proj_Apply (wk_proj cdc) (we_proj env) p k (wk_marshal cdc (stamped c msg)) = Some (p', False)"
  shows "\<exists>h' c' n. n = int (length (file_log (ws_store h) k)) + 1
    \<and> handleOp cdc env h c msg = Some (h', c',
        [(wc_sub c, OutAck \<lparr>ak_Type = MsgTypeAck, ak_RequestID = im_RequestID msg, ak_EntryID = im_EntryID msg,
                           ak_ServerSeq = n\<rparr>)])
    \<and> GetDiff (\<lambda>s k a. Inr (file_ListAfter s k a)) (\<lambda>s k. Inr (file_MaxServerSeq s k)) (ws_store h') k (n - 1)
        = Inr \<lparr>sm_EntryID = k, sm_Ops = [\<lparr>so_RequestID = rid, so_ServerSeq = n,
             so_Payload = wk_marshal cdc (stamped c msg)\<rparr>], sm_LatestServerSeq = n\<rparr>"
proof -
  obtain h1 c1 where s: "ensureSubscribed env k h c = (h1, c1)" by fastforce
  note hn = disk.HandleOp_new [OF inv(1) new inv(2) rec [unfolded record_op_def]]
  have n: "am_ServerSeq ack = int (length (file_log (ws_store h) k)) + 1" using hn by simp
  have f: "ws_projector h1 = Some p" "wc_sub c1 = wc_sub c" "wc_authenticated c1 = wc_authenticated c"
    using ensureSubscribed_fields [of env k h c] s proj by simp_all
  have "stamped c1 msg = stamped c msg" by (simp add: stamped_def f)
  then have "handleOp cdc env h c msg = Some (h1\<lparr>ws_store := st, ws_projector := Some p'\<rparr>, c1,
      [(wc_sub c, OutAck \<lparr>ak_Type = MsgTypeAck, ak_RequestID = im_RequestID msg, ak_EntryID = im_EntryID msg,
           ak_ServerSeq = am_ServerSeq ack\<rparr>)])"
    using handleOp_parsed [OF ids rec s] n
    by (simp add: after_record_def project_op_def f proj Let_def)
  then show ?thesis using n hn by auto
qed

definition ex_wdel :: IncomingMessage where
  "ex_wdel = ex_wmsg\<lparr>im_OpType := 2\<rparr>"

lemma ex_wproj_refuses:
  "\<exists>p'. proj_Apply (wk_proj (ex_wcodec_for ex_wdel)) ex_env ex_wproj 1 s = Some (p', False)"
proof -
  let ?c = "wk_proj (ex_wcodec_for ex_wdel)"
  obtain v where op: "OperationFromPayload (pc_unmarshal ?c) (pc_uparse ?c) s = Inr \<lparr>op_RequestID = 2, op_OpType = OpDelete,
      op_NodeID = \<lparr>nid_ReplicaID = 3, nid_Timestamp = 1\<rparr>, op_After = None, op_Value = v, op_Authenticated = False\<rparr>"
    by (simp add: ex_wcodec_for_def ex_pcodec_def OperationFromPayload_def payload_of_def stamped_def ex_wdel_def
        ex_wmsg_def payload_nid_def unhex_uuid_hex ex_wconn_def OpDelete_def Let_def)
  then show ?thesis
    by (simp add: proj_Apply_def op applyGated_def IsNodeAuthenticated_def rga_of_def ex_wproj_def NewRGA_def Let_def)
qed

theorem ws_refused_op_is_served_witness:
  "\<exists>h' c' n. n = 1 \<and> handleOp (ex_wcodec_for ex_wdel) ex_wenv ex_ws_proj ex_wconn ex_wdel = Some (h', c',
        [(6, OutAck \<lparr>ak_Type = MsgTypeAck, ak_RequestID = uuid_hex 2, ak_EntryID = uuid_hex 1, ak_ServerSeq = n\<rparr>)])
    \<and> GetDiff (\<lambda>s k a. Inr (file_ListAfter s k a)) (\<lambda>s k. Inr (file_MaxServerSeq s k)) (ws_store h') 1 (n - 1)
        = Inr \<lparr>sm_EntryID = 1, sm_Ops = [\<lparr>so_RequestID = 2, so_ServerSeq = n, so_Payload = ''{}''\<rparr>],
             sm_LatestServerSeq = n\<rparr>"
proof -
  obtain p' where p': "proj_Apply (wk_proj (ex_wcodec_for ex_wdel)) (we_proj ex_wenv) ex_wproj 1
      (wk_marshal (ex_wcodec_for ex_wdel) (stamped ex_wconn ex_wdel)) = Some (p', False)"
    using ex_wproj_refuses by (auto simp: ex_wenv_def)
  have h: "ws_store ex_ws_proj = ex_empty_store" "ws_projector ex_ws_proj = Some ex_wproj"
    by (simp_all add: ex_ws_proj_def ex_ws_def)
  have c: "wc_sub ex_wconn = 6" by (simp add: ex_wconn_def)
  have st: "file_inv (ws_store ex_ws_proj)" "length (file_log (ws_store ex_ws_proj) 1) < 2 ^ 63 - 1"
    "2 \<notin> es_seen (ws_store ex_ws_proj)" "file_log (ws_store ex_ws_proj) 1 = []"
    using ex_ws_inv by (simp_all add: h ex_ws_def)
  from ws_refused_op_is_served [OF ex_ids [of ex_wdel 2, folded ex_wdel_def] st(1-3)
      ex_record [OF h(1), of ex_wdel 2, folded ex_wdel_def] h(2) p'] st(4) c
  show ?thesis by (auto simp: ex_wdel_def ex_wmsg_def ex_wcodec_for_def)
qed

subsection \<open>Closing\<close>

text \<open>The list a connection keeps is exactly what it is subscribed to, once each.\<close>

definition conn_ok :: "SyncService \<Rightarrow> ws_conn \<Rightarrow> bool" where
  "conn_ok s c \<longleftrightarrow> subs_wf s \<and> distinct (wc_subscribed c)
     \<and> (\<forall>k. count_list (subs_of s k) (wc_sub c) = (if k \<in> set (wc_subscribed c) then 1 else 0))"

lemma conn_ok_ensure:
  assumes "conn_ok (ws_sync h) c"
  shows "conn_ok (ws_sync (fst (ensureSubscribed env i h c))) (snd (ensureSubscribed env i h c))"
proof (cases "i \<in> set (wc_subscribed c)")
  case True
  then show ?thesis using assms by (simp add: ensureSubscribed_def)
next
  case False
  have "subs_wf (ws_sync h)" using assms by (simp add: conn_ok_def)
  from Subscribe_refines [OF this, of "we_grow env" i "wc_sub c"] False assms show ?thesis
    by (auto simp: ensureSubscribed_def conn_ok_def)
qed

lemma conn_ok_handleFrame:
  assumes "conn_ok (ws_sync h) c" and "handleFrame cdc env data h c = Some (h', c', outs)"
  shows "conn_ok (ws_sync h') c' \<and> wc_sub c' = wc_sub c"
proof (cases "wk_unmarshal cdc data")
  case None
  then show ?thesis using assms by (simp add: handleFrame_def)
next
  case (Some msg)
  consider "handleOp cdc env h c msg = Some (h', c', outs)"
    | "handleSyncRequest cdc env h c msg = Some (h', c', outs)" | "h' = h" "c' = c"
    using assms(2) Some by (auto simp: handleFrame_def split: if_splits)
  then show ?thesis
  proof cases
    case 1
    from handleOp_cases [OF this] show ?thesis using assms(1) conn_ok_ensure by auto
  next
    case 2
    then show ?thesis
      using assms(1) conn_ok_ensure [OF assms(1)] ensureSubscribed_fields(3)
      by (auto simp: handleSyncRequest_def GetDiff_def Let_def split_def split: option.splits)
  qed (use assms(1) in simp)
qed

lemma conn_ok_read_loop:
  "conn_ok (ws_sync h) c \<Longrightarrow> read_loop cdc fs h c = Some (h', c', outs) \<Longrightarrow>
     conn_ok (ws_sync h') c' \<and> wc_sub c' = wc_sub c"
proof (induction fs arbitrary: h c outs)
  case (Cons f fs)
  obtain env data where f: "f = (env, data)" by (cases f)
  from Cons.prems(2) obtain h1 c1 o1 o2 where
    1: "handleFrame cdc env data h c = Some (h1, c1, o1)" "read_loop cdc fs h1 c1 = Some (h', c', o2)"
    by (auto simp: f Option.bind_eq_Some_conv)
  from conn_ok_handleFrame [OF Cons.prems(1) 1(1)] Cons.IH [OF _ 1(2)] show ?case by auto
qed simp

lemma unsubscribe_all:
  assumes "subs_wf s" and "distinct ks"
    and "\<And>k. count_list (subs_of s k) x = (if k \<in> set ks then 1 else 0)"
  shows "x \<notin> set (subs_of (foldl (\<lambda>s i. Unsubscribe s i x) s ks) k')"
  using assms
proof (induction ks arbitrary: s)
  case Nil
  then show ?case by (simp add: count_list_0_iff)
next
  case (Cons k ks)
  note u = Unsubscribe_refines [OF Cons.prems(1), of k x]
  have "count_list (subs_of (Unsubscribe s k x) j) x = (if j \<in> set ks then 1 else 0)" for j
  proof (cases "j = k")
    case True
    have "count_list (subs_of s k) x = 1" using Cons.prems(3) [of k] by simp
    then have "count_list (remove1 x (subs_of s k)) x = 0" by simp
    then show ?thesis using u True Cons.prems(2) by simp
  next
    case False
    then show ?thesis using u Cons.prems(3) [of j] by auto
  qed
  with Cons.IH [of "Unsubscribe s k x"] u Cons.prems(2) show ?case by simp
qed

text \<open>
  a closed connection leaves nothing behind. Whatever frames a connection has handled,
  when it ends its subscriber is in no list of any entry, so no broadcast reaches a closed
  socket.
\<close>

theorem ws_close_unsubscribes:
  assumes "subs_wf (ws_sync h)" and "\<And>k. sub \<notin> set (subs_of (ws_sync h) k)"
    and "open_conn ts ticket sub auth = (auth', c, out0)"
    and "read_loop cdc fs h c = Some (h', c', outs)"
  shows "sub \<notin> set (subs_of (ws_sync (close_conn h' c')) k)"
proof -
  have c: "wc_sub c = sub" "wc_subscribed c = []"
    using assms(3) by (auto simp: open_conn_def Let_def split_def)
  have "conn_ok (ws_sync h) c"
    using assms(1,2) by (simp add: conn_ok_def c count_list_0_iff)
  from conn_ok_read_loop [OF this assms(4)] have ok: "conn_ok (ws_sync h') c'" "wc_sub c' = sub"
    by (simp_all add: c)
  then show ?thesis
    using unsubscribe_all [of "ws_sync h'" "wc_subscribed c'" sub k]
    by (auto simp: conn_ok_def close_conn_def)
qed

theorem ws_close_unsubscribes_witness:
  "\<exists>h' c' outs. read_loop ex_wcodec [(ex_wenv, ''{}'')] ex_ws ex_wconn = Some (h', c', outs)
     \<and> 6 \<notin> set (subs_of (ws_sync (close_conn h' c')) 1)"
proof -
  obtain h' c' outs where op: "handleOp ex_wcodec ex_wenv ex_ws ex_wconn ex_wmsg = Some (h', c', outs)"
    using ex_handleOp by auto
  then have run: "read_loop ex_wcodec [(ex_wenv, ''{}'')] ex_ws ex_wconn = Some (h', c', outs)"
    by (simp add: handleFrame_def ex_wcodec_def ex_wcodec_for_def ex_wmsg_def)
  have open6: "open_conn (0, 0) [] 6 None = (None, ex_wconn, [(6, OutAuthStatus False)])"
    by (simp add: open_conn_def ex_wconn_def)
  have "6 \<notin> set (subs_of (ws_sync (close_conn h' c')) 1)"
    by (rule ws_close_unsubscribes [OF _ _ open6 run]) (use subs_wf_New in \<open>simp_all add: ex_ws_def subs_of_def NewSyncService_def no_slices_def\<close>)
  then show ?thesis using run by blast
qed

end
