(* ===== verification/Flourish_Main.thy ===== *)
theory Flourish_Main
  imports Ws_Props
begin

text \<open>
  The start of \<open>flourish\<close>, \<open>cmd/main.go\<close>: the stores are opened, the projector is restored from the
  snapshots and the event log, and the authentication is set up when the environment asks for it.

  The data directory is \<open>data_dir\<close>, one map per subdirectory; what the operating system answers
  (directories created, the order of listings, outcomes of writes) and the order of the map
  iteration in \<open>EntryIDs\<close> are in \<open>boot_env\<close>. \<open>os.Exit(1)\<close> after an error is \<open>Inl\<close>, \<open>None\<close> is a
  \<open>Restore\<close> that does not return. Logging and telemetry are left out.
\<close>

record data_dir =
  dd_entries :: dir
  dd_events :: dir
  dd_snaps :: dir
  dd_markdown :: dir

record boot_env =
  be_mkdir_entries :: bool
  be_mkdir_events :: bool
  be_mkdir_snaps :: bool
  be_event_names :: "string list option"
  be_snap_names :: "string list option"
  be_order :: "uuid set \<Rightarrow> uuid list"
  be_proj :: "uuid \<Rightarrow> proj_env"
  be_getenv :: "string \<Rightarrow> string"
  be_certs :: certs_reply

datatype boot_error = BootEntryStore | BootEventStore | BootRGAStateStore | BootRestore | BootCFAccess

record flourish_server =
  fs_addr :: string
  fs_events :: FileEventStore
  fs_sync :: SyncService
  fs_projector :: EntryProjector
  fs_auth :: "Auth option"

definition envOrDefault :: "(string \<Rightarrow> string) \<Rightarrow> string \<Rightarrow> string \<Rightarrow> string" where
  "envOrDefault Getenv key defaultVal = (let v = Getenv key in if v \<noteq> '''' then v else defaultVal)"

definition NewRGAStateStore :: "bool \<Rightarrow> dir \<Rightarrow> dir option" where
  "NewRGAStateStore mkdir_ok d = (if \<not> mkdir_ok then None else Some d)"

definition NewEntryProjector :: "FileEntryStore \<Rightarrow> dir \<Rightarrow> dir \<Rightarrow> EntryProjector" where
  "NewEntryProjector entryStore snaps markdownDir =
     \<lparr>pr_rgas = Map.empty, pr_entries = entryStore, pr_snaps = snaps, pr_markdown = markdownDir\<rparr>"

definition NewAuth :: "CFAccessVerifier \<Rightarrow> TicketStore \<Rightarrow> string \<Rightarrow> Auth" where
  "NewAuth cfAccess tickets teamDomain =
     \<lparr>au_cfAccess = cfAccess, au_tickets = tickets, au_teamDomain = teamDomain\<rparr>"

definition setup_auth :: "boot_env \<Rightarrow> boot_error + Auth option" where
  "setup_auth env =
     (let cfTeamDomain = be_getenv env ''CF_ACCESS_TEAM_DOMAIN'';
          cfAudience = be_getenv env ''CF_ACCESS_AUDIENCE''
      in if cfTeamDomain \<noteq> '''' \<and> cfAudience \<noteq> '''' then
           (case NewCFAccessVerifier (be_certs env) cfTeamDomain cfAudience of
              None \<Rightarrow> Inl BootCFAccess
            | Some cfAccess \<Rightarrow>
                let ticketStore = NewTicketStore (60 * 1000000000)
                in Inr (Some (NewAuth cfAccess ticketStore cfTeamDomain)))
         else Inr None)"

definition flourish_boot ::
  "event_codec \<Rightarrow> proj_codec \<Rightarrow> boot_env \<Rightarrow> data_dir \<Rightarrow> (boot_error + flourish_server) option" where
  "flourish_boot ecdc cdc env d =
     (let addr = envOrDefault (be_getenv env) ''ADDRESS'' '':8080''
      in case NewFileEntryStore (pc_entry cdc) (be_mkdir_entries env) (dd_entries d) of
        None \<Rightarrow> Some (Inl BootEntryStore)
      | Some entryStore \<Rightarrow>
     (case NewFileEventStore ecdc (be_mkdir_events env) (be_event_names env) (dd_events d) of
        None \<Rightarrow> Some (Inl BootEventStore)
      | Some eventStore \<Rightarrow>
     (case NewRGAStateStore (be_mkdir_snaps env) (dd_snaps d) of
        None \<Rightarrow> Some (Inl BootRGAStateStore)
      | Some rgaStateStore \<Rightarrow>
          let syncService = NewSyncService;
              projector = NewEntryProjector entryStore rgaStateStore (dd_markdown d)
          in do {
            (projector, ok) \<leftarrow> Restore cdc (be_proj env) (be_snap_names env) eventStore (be_order env (EntryIDs eventStore)) projector;
            Some (if \<not> ok then Inl BootRestore
                  else case setup_auth env of
                         Inl e \<Rightarrow> Inl e
                       | Inr authHandler \<Rightarrow>
                           Inr \<lparr>fs_addr = addr, fs_events = eventStore, fs_sync = syncService,
                                fs_projector = projector, fs_auth = authHandler\<rparr>)
          })))"

subsection \<open>Restoring from complete snapshots\<close>

definition snapshot_of :: "proj_codec \<Rightarrow> dir \<Rightarrow> uuid \<Rightarrow> RGA \<Rightarrow> bool" where
  "snapshot_of cdc d i rga \<longleftrightarrow> rga_wf (pc_ustr cdc) rga \<and> (\<forall>n \<in> set (nodes rga). valid_rune (nd_value n))
     \<and> (\<exists>order. set order = seen rga \<and> LoadRGA cdc d i = Some (Export (pc_ustr cdc) order rga))"

lemma LoadRGA_file: "LoadRGA cdc d i = Some snap \<Longrightarrow> \<exists>c. d (snap_path cdc i) = Some (RegFile c)"
  by (auto simp: LoadRGA_def split: option.splits dirent.splits)

lemma ListRGAEntryIDs_paths:
  assumes "uuid_codec (pc_ustr cdc) (pc_uparse cdc)" "\<And>i. i \<in> set ids \<Longrightarrow> snapshot_of cdc d i (rga i)"
  shows "ListRGAEntryIDs cdc d (Some (map (snap_path cdc) ids)) = Some ids"
proof -
  have p: "pc_uparse cdc (pc_ustr cdc i) = Some i" for i using assms(1) by (simp add: uuid_codec_def)
  have s: "HasSuffix (snap_path cdc i) ''.json''" "TrimSuffix (snap_path cdc i) ''.json'' = pc_ustr cdc i" for i
    by (simp_all add: HasSuffix_def TrimSuffix_def snap_path_def)
  have f: "d (snap_path cdc i) \<noteq> Some SubDir" if "i \<in> set ids" for i
    using assms(2) [OF that] LoadRGA_file [of cdc d i] by (auto simp: snapshot_of_def)
  have "List.map_filter (\<lambda>n. if d n = Some SubDir \<or> \<not> HasSuffix n ''.json'' then None
      else pc_uparse cdc (TrimSuffix n ''.json'')) (map (snap_path cdc) ids) = ids"
    using f by (induction ids) (simp_all add: s p)
  then show ?thesis by (simp add: ListRGAEntryIDs_def)
qed

lemma restoreSnapshots_all:
  assumes "uuid_codec (pc_ustr cdc) (pc_uparse cdc)" "\<And>i. i \<in> set ids \<Longrightarrow> snapshot_of cdc d i (rga i)"
  shows "restoreSnapshots cdc d ids m = (\<lambda>i. if i \<in> set ids then Some (rga i) else m i)"
  using assms(2)
proof (induction ids arbitrary: m)
  case (Cons i ids)
  obtain order where o: "set order = seen (rga i)" "LoadRGA cdc d i = Some (Export (pc_ustr cdc) order (rga i))"
    "rga_wf (pc_ustr cdc) (rga i)" "\<forall>n \<in> set (nodes (rga i)). valid_rune (nd_value n)"
    using Cons.prems [of i] by (auto simp: snapshot_of_def)
  have "ImportRGA (pc_uparse cdc) (Export (pc_ustr cdc) order (rga i)) = Inr (rga i)"
    by (rule uuid_codec.import_export [OF assms(1) _ _ o(1)]) (use o(3,4) in \<open>auto simp: rga_wf_def\<close>)
  moreover have "restoreSnapshots cdc d ids (m(i \<mapsto> rga i)) = (\<lambda>j. if j \<in> set ids then Some (rga j) else (m(i \<mapsto> rga i)) j)"
    by (rule Cons.IH) (use Cons.prems in simp)
  ultimately show ?case using o(2) by (simp del: fun_upd_apply) (auto simp: fun_eq_iff)
qed simp

text \<open>The map of a loaded store has no empty log.\<close>

lemma load_line_nonempty: "\<forall>k. es_events s k \<noteq> Some [] \<Longrightarrow> \<forall>k. es_events (load_line cdc i s l) k \<noteq> Some []"
  by (auto simp: load_line_def Let_def split: option.splits)

lemma load_lines_nonempty:
  "\<forall>k. es_events s k \<noteq> Some [] \<Longrightarrow> \<forall>k. es_events (foldl (load_line cdc i) s ls) k \<noteq> Some []"
proof (induction ls arbitrary: s)
  case (Cons l ls)
  from Cons.IH [OF load_line_nonempty [OF Cons.prems]] show ?case by simp
qed simp

lemma load_files_nonempty:
  "load_files cdc ns s = Some s' \<Longrightarrow> \<forall>k. es_events s k \<noteq> Some [] \<Longrightarrow> \<forall>k. es_events s' k \<noteq> Some []"
proof (induction ns arbitrary: s)
  case (Cons n ns)
  show ?case
  proof (cases "\<exists>s1. load_files cdc ns s1 = Some s' \<and> (\<forall>k. es_events s1 k \<noteq> Some [])")
    case True
    then show ?thesis using Cons.IH by blast
  next
    case False
    with Cons.prems load_lines_nonempty [OF Cons.prems(2)] show ?thesis
      by (auto split: if_splits option.splits dirent.splits)
  qed
qed simp

lemma loaded_nonempty:
  assumes "NewFileEventStore cdc b (Some names) d = Some s'" "i \<in> EntryIDs s'"
  shows "file_log s' i \<noteq> []"
proof -
  have "load_files cdc names \<lparr>es_events = Map.empty, es_seqs = Map.empty, es_seen = {}, es_dir = d\<rparr> = Some s'"
    using assms(1) by (simp add: NewFileEventStore_def loadAll_def split: if_splits)
  then have "\<forall>k. es_events s' k \<noteq> Some []" by (rule load_files_nonempty) simp
  with assms(2) show ?thesis by (auto simp: EntryIDs_def file_log_def events_of_def)
qed

text \<open>An entry shows the text of a replica.\<close>

definition shows_text :: "RGA \<Rightarrow> Entry \<Rightarrow> bool" where
  "shows_text rga e \<longleftrightarrow> en_Text e = Text rga \<and> en_Title e = fst (deriveFields (Text rga))
     \<and> en_Content e = snd (deriveFields (Text rga))"

definition writable :: "FileEntryStore \<Rightarrow> bool" where
  "writable s \<longleftrightarrow> st_dir s entries_path \<noteq> Some SubDir \<and> st_dir s entries_path \<noteq> Some Unreadable"

lemma NewFileEntryStore_writable: "NewFileEntryStore cdc b d = Some s \<Longrightarrow> writable s"
  by (auto simp: NewFileEntryStore_def loadFromFile_def writable_def split: if_splits option.splits dirent.splits)

lemma file_Save_same:
  assumes "writable s" "snd x = Writes" "st_entries s i = Some e" "en_ID e = i"
  shows "\<exists>s'. file_Save cdc x s e = (s', None) \<and> st_entries s' = st_entries s \<and> writable s'"
  using assms
  by (auto simp: file_Save_def saveToFile_def WriteFile_def writable_def io_ok_def Let_def fun_upd_idem)

lemma projectEntry_same:
  assumes "writable (pr_entries p)" "snd (pe_entry env) = Writes"
    and "\<And>e. file_FindByID (pr_entries p) i = Inr e \<Longrightarrow> en_ID e = i \<and> shows_text rga e"
  shows "\<exists>p' res. projectEntry cdc env p i rga = (p', res) \<and> res \<noteq> EntrySaveFailed \<and> pr_rgas p' = pr_rgas p
    \<and> st_entries (pr_entries p') = st_entries (pr_entries p) \<and> writable (pr_entries p')"
proof (cases "file_FindByID (pr_entries p) i")
  case (Inl e)
  then show ?thesis using assms(1) by (simp add: projectEntry_def Let_def split_def)
next
  case (Inr e)
  note t = assms(3) [OF Inr]
  have e: "st_entries (pr_entries p) i = Some e" using Inr by (auto simp: file_FindByID_def split: option.splits if_splits)
  have same: "e\<lparr>en_Title := fst (deriveFields (Text rga)), en_Content := snd (deriveFields (Text rga)), en_Text := Text rga\<rparr> = e"
    using t by (simp add: shows_text_def)
  obtain s' where "file_Save (pc_entry cdc) (pe_entry env) (pr_entries p) e = (s', None)"
    "st_entries s' = st_entries (pr_entries p)" "writable s'"
    using file_Save_same [OF assms(1,2) e] t by blast
  with Inr same show ?thesis by (simp add: projectEntry_def Let_def split_def)
qed

lemma restoreEntries_same:
  assumes "writable (pr_entries p)" "\<And>i. snd (pe_entry (env i)) = Writes"
    and "\<And>i. i \<in> set is \<Longrightarrow> \<exists>rga. pr_rgas p i = Some rga \<and> replayEvents cdc (file_ListAfter es i 0) rga = Some rga
      \<and> (\<forall>e. file_FindByID (pr_entries p) i = Inr e \<longrightarrow> en_ID e = i \<and> shows_text rga e)"
  shows "\<exists>p'. restoreEntries cdc env es is p = Some (p', True) \<and> pr_rgas p' = pr_rgas p
    \<and> st_entries (pr_entries p') = st_entries (pr_entries p)"
  using assms
proof (induction "is" arbitrary: p)
  case (Cons i "is")
  obtain rga where r: "pr_rgas p i = Some rga" "replayEvents cdc (file_ListAfter es i 0) rga = Some rga"
    "\<And>e. file_FindByID (pr_entries p) i = Inr e \<Longrightarrow> en_ID e = i \<and> shows_text rga e" using Cons.prems(3) [of i] by auto
  have same: "p\<lparr>pr_rgas := (pr_rgas p)(i \<mapsto> rga)\<rparr> = p" using r(1) by (simp add: fun_upd_idem)
  obtain p1 res where p1: "projectEntry cdc (env i) p i rga = (p1, res)" "res \<noteq> EntrySaveFailed" "pr_rgas p1 = pr_rgas p"
    "st_entries (pr_entries p1) = st_entries (pr_entries p)" "writable (pr_entries p1)"
    using projectEntry_same [OF Cons.prems(1,2) r(3)] by blast
  have find: "file_FindByID (pr_entries p1) = file_FindByID (pr_entries p)" by (simp add: file_FindByID_def p1(4) fun_eq_iff)
  obtain p' where "restoreEntries cdc env es is p1 = Some (p', True)" "pr_rgas p' = pr_rgas p1"
    "st_entries (pr_entries p') = st_entries (pr_entries p1)"
    using Cons.IH [OF p1(5) Cons.prems(2)] Cons.prems(3) unfolding find p1(3) by (meson list.set_intros(2))
  with r(1,2) p1 same show ?case by (simp add: rga_of_def)
qed simp

subsection \<open>A restart\<close>

text \<open>What a server that has nothing left to write leaves behind.\<close>

definition all_saved :: "event_codec \<Rightarrow> (string \<Rightarrow> string) \<Rightarrow> proj_codec \<Rightarrow> FileEventStore \<Rightarrow> EntryProjector \<Rightarrow> bool" where
  "all_saved ecdc compact cdc es p \<longleftrightarrow> {k. file_log es k \<noteq> []} \<subseteq> dom (pr_rgas p)
     \<and> (\<forall>i rga. pr_rgas p i = Some rga \<longrightarrow> snapshot_of cdc (pr_snaps p) i rga
         \<and> (\<forall>ev op. ev \<in> set (file_log es i) \<longrightarrow> ev_EventType ev = EventCRDTOp \<longrightarrow>
              OperationFromPayload (pc_unmarshal cdc) (pc_uparse cdc) (compact (ev_Payload ev)) = Inr op \<longrightarrow> op_RequestID op \<in> seen rga)
         \<and> (\<forall>e. file_FindByID (pr_entries p) i = Inr e \<longrightarrow> en_ID e = i \<and> shows_text rga e))"

lemma replay_saved:
  assumes "all_saved ecdc compact cdc es p" "pr_rgas p i = Some rga" "file_log es' i = map (stored compact) (file_log es i)"
  shows "replayEvents cdc (file_ListAfter es' i 0) rga = Some rga"
proof (rule replayEvents_seen)
  fix ev op
  assume ev: "ev \<in> set (file_ListAfter es' i 0)" "ev_EventType ev = EventCRDTOp"
    "OperationFromPayload (pc_unmarshal cdc) (pc_uparse cdc) (ev_Payload ev) = Inr op"
  then have "ev \<in> set (file_log es' i)" by (auto simp: file_ListAfter_def file_log_def)
  then obtain ev' where "ev' \<in> set (file_log es i)" "ev = stored compact ev'" unfolding assms(3) by auto
  with ev assms(1,2) show "op_RequestID op \<in> seen rga" unfolding all_saved_def stored_def by auto
qed


text \<open>A server with one entry, whose log holds the insertion of a character.\<close>

definition ex_replica :: RGA where
  "ex_replica = \<lparr>clock = \<lparr>clk_replicaID = 0, clk_counter = 1\<rparr>, nodes = [node_of_op ex_auth_ins], index = [ex_id 1 \<mapsto> 0],
     seen = {1}, pending = []\<rparr>"

definition ex_shown :: Entry where
  "ex_shown = (NewEntry 1 0)\<lparr>en_Title := fst (deriveFields (Text ex_replica)), en_Content := snd (deriveFields (Text ex_replica)),
     en_Text := Text ex_replica\<rparr>"

definition ex_restart_codec :: proj_codec where
  "ex_restart_codec = (ex_pcodec (\<lambda>_. ex_payload ''i''))\<lparr>pc_entry := ex_entry_codec [entry_json (ex_entry_codec []) ex_shown],
     pc_unmarshal_snap := (\<lambda>_. Some (Export uuid_hex [1] ex_replica))\<rparr>"

definition ex_boot_env :: boot_env where
  "ex_boot_env = \<lparr>be_mkdir_entries = True, be_mkdir_events = True, be_mkdir_snaps = True,
     be_event_names = Some [event_path ex_codec 1], be_snap_names = Some (map (snap_path ex_restart_codec) [1]),
     be_order = sorted_list_of_set, be_proj = (\<lambda>_. \<lparr>pe_seen = [], pe_entry = ([], Writes), pe_snap = Writes, pe_md = Writes\<rparr>),
     be_getenv = (\<lambda>_. ''''), be_certs = NoReply\<rparr>"

definition ex_saved_proj :: EntryProjector where
  "ex_saved_proj = \<lparr>pr_rgas = [1 \<mapsto> ex_replica],
     pr_entries = \<lparr>st_entries = [1 \<mapsto> ex_shown], st_dir = [entries_path \<mapsto> RegFile ''[{}]'']\<rparr>,
     pr_snaps = [snap_path ex_restart_codec 1 \<mapsto> RegFile []], pr_markdown = Map.empty\<rparr>"

lemma ex_replica_snapshot: "snapshot_of ex_restart_codec (pr_snaps ex_saved_proj) 1 ex_replica"
proof -
  have "Apply uuid_hex (NewRGA 0) ex_auth_ins = Some (ex_replica, True)"
    by (simp add: Apply_def ex_auth_ins_def ex_ins_def NewRGA_def NewLamportClock_def Update_def ex_id_def ex_replica_def
        applyInsert_def startIdx_def insertPos.simps slices_insert_def node_of_op_def flushPending_empty Let_def)
  then have "ApplyAll uuid_hex [ex_auth_ins] (NewRGA 0) = Some ex_replica" by simp
  moreover have "\<exists>r. ApplyAll uuid_hex [ex_auth_ins] (NewRGA 0) = Some r \<and> rga_wf uuid_hex r"
    using hex.ApplyAll_contents [of "[ex_auth_ins]" 0] by (fastforce simp: uniq_inserts_def inj_on_def)
  ultimately have "rga_wf uuid_hex ex_replica" by simp
  then show ?thesis
    by (auto simp: snapshot_of_def ex_restart_codec_def ex_pcodec_def LoadRGA_def ex_saved_proj_def ex_replica_def
        node_of_op_def ex_auth_ins_def ex_ins_def valid_rune_def valid_code_def intro: exI [of _ "[1]"])
qed

lemma ex_all_saved: "all_saved ex_codec (\<lambda>p. p) ex_restart_codec ex_store ex_saved_proj"
proof -
  have op: "OperationFromPayload (pc_unmarshal ex_restart_codec) (pc_uparse ex_restart_codec) s = Inr ex_auth_ins" for s
    using ex_payload_ops(1) by (simp add: OperationFromPayload_def ex_restart_codec_def ex_pcodec_def)
  have log: "file_log ex_store = (\<lambda>_. [])(1 := [ex_event\<lparr>ev_ServerSeq := 1\<rparr>])" using ex_store_eq by blast
  have "file_FindByID (pr_entries ex_saved_proj) 1 = Inr ex_shown"
    by (simp add: ex_saved_proj_def file_FindByID_def ex_shown_def NewEntry_def)
  moreover have "en_ID ex_shown = 1 \<and> shows_text ex_replica ex_shown"
    by (simp add: ex_shown_def NewEntry_def shows_text_def)
  moreover have "pr_rgas ex_saved_proj = [1 \<mapsto> ex_replica]" "op_RequestID ex_auth_ins \<in> seen ex_replica"
    by (simp_all add: ex_saved_proj_def ex_replica_def ex_auth_ins_def ex_ins_def)
  ultimately show ?thesis
    using ex_replica_snapshot unfolding all_saved_def log op by (auto split: if_splits)
qed


end
