(* ===== verification/Flourish_Server.thy ===== *)
theory Flourish_Server
  imports Flourish_Main "HOL-Library.Sublist"
begin

text \<open>
  The running server of \<open>flourish\<close>: what \<open>cmd/main.go\<close> and \<open>router.go\<close> put together. The HTTP
  handlers, the WebSocket connections, the tickets and the stores work on one state; the entry
  store of the HTTP handlers is the one the projector holds. The requests and the frames of the
  connections come in any order. A call of a handler is one step here; what happens inside a
  broadcast that overlaps other calls is in \<open>Sync_Service\<close>.
\<close>

record server_state =
  sv_ws :: WS
  sv_auth :: "Auth option"
  sv_conns :: "subscriber \<rightharpoonup> ws_conn"

definition start_server :: "flourish_server \<Rightarrow> server_state" where
  "start_server fs =
     \<lparr>sv_ws = NewWS (fs_events fs) (fs_sync fs) (Some (fs_projector fs)), sv_auth = fs_auth fs, sv_conns = Map.empty\<rparr>"

definition server_http :: "'c http_env \<Rightarrow> request \<Rightarrow> server_state \<Rightarrow> server_state \<times> response" where
  "server_http env r s =
     (let p = the (ws_projector (sv_ws s));
          (hs, resp) = serve env r \<lparr>hs_entries = pr_entries p, hs_auth = sv_auth s\<rparr>
      in (s\<lparr>sv_ws := (sv_ws s)\<lparr>ws_projector := Some (p\<lparr>pr_entries := hs_entries hs\<rparr>)\<rparr>, sv_auth := hs_auth hs\<rparr>, resp))"

text \<open>What has happened, in its order.\<close>

datatype 'c server_event =
    Answered "'c http_env" request response
  | Opened subscriber string bool
  | Framed subscriber string "(subscriber \<times> out_msg) list"
  | Closed subscriber

inductive server_run ::
  "ws_codec \<Rightarrow> 'c jwt_lib \<Rightarrow> server_state \<Rightarrow> 'c server_event list \<Rightarrow> server_state \<Rightarrow> bool"
  for cdc lib s0 where
    start: "server_run cdc lib s0 [] s0"
  | http: "server_run cdc lib s0 tr s \<Longrightarrow> he_lib env = lib \<Longrightarrow> server_http env r s = (s', resp)
      \<Longrightarrow> server_run cdc lib s0 (tr @ [Answered env r resp]) s'"
  | opened: "server_run cdc lib s0 tr s \<Longrightarrow> sv_conns s sub = None \<Longrightarrow> open_conn ts ticket sub (sv_auth s) = (auth', c, out)
      \<Longrightarrow> server_run cdc lib s0 (tr @ [Opened sub ticket (wc_authenticated c)])
            (s\<lparr>sv_auth := auth', sv_conns := (sv_conns s)(sub \<mapsto> c)\<rparr>)"
  | framed: "server_run cdc lib s0 tr s \<Longrightarrow> sv_conns s sub = Some c \<Longrightarrow> handleFrame cdc env data (sv_ws s) c = Some (h', c', outs)
      \<Longrightarrow> server_run cdc lib s0 (tr @ [Framed sub data outs]) (s\<lparr>sv_ws := h', sv_conns := (sv_conns s)(sub \<mapsto> c')\<rparr>)"
  | closed: "server_run cdc lib s0 tr s \<Longrightarrow> sv_conns s sub = Some c
      \<Longrightarrow> server_run cdc lib s0 (tr @ [Closed sub]) (s\<lparr>sv_ws := close_conn (sv_ws s) c, sv_conns := (sv_conns s)(sub := None)\<rparr>)"

text \<open>A state the server can start in.\<close>

definition server_start :: "server_state \<Rightarrow> bool" where
  "server_start s \<longleftrightarrow> file_inv (ws_store (sv_ws s)) \<and> subs_wf (ws_sync (sv_ws s))
     \<and> (\<forall>k. subs_of (ws_sync (sv_ws s)) k = []) \<and> sv_conns s = Map.empty
     \<and> (\<forall>a. sv_auth s = Some a \<longrightarrow> ts_tickets (au_tickets a) = Map.empty)"

lemma server_start_boot:
  assumes "file_inv (fs_events fs)" "fs_sync fs = NewSyncService"
    and "\<And>a. fs_auth fs = Some a \<Longrightarrow> ts_tickets (au_tickets a) = Map.empty"
  shows "server_start (start_server fs)"
  using assms subs_wf_New
  by (auto simp: server_start_def start_server_def NewWS_def NewSyncService_def subs_of_def no_slices_def)

lemma setup_auth_fresh: "setup_auth env = Inr (Some a) \<Longrightarrow> ts_tickets (au_tickets a) = Map.empty"
  by (auto simp: setup_auth_def NewAuth_def NewTicketStore_def Let_def split: if_splits option.splits)

lemma flourish_boot_starts:
  assumes "flourish_boot ecdc cdc env d = Some (Inr fs)" "file_inv (fs_events fs)"
  shows "server_start (start_server fs)"
proof (rule server_start_boot)
  show "fs_sync fs = NewSyncService"
    using assms(1) by (cases "setup_auth env")
      (auto simp: flourish_boot_def bind_eq_Some_conv Let_def split: option.splits if_splits)
  show "ts_tickets (au_tickets a) = Map.empty" if "fs_auth fs = Some a" for a
    using assms(1) that setup_auth_fresh [of env a] by (cases "setup_auth env")
      (auto simp: flourish_boot_def bind_eq_Some_conv Let_def split: option.splits if_splits)
qed (rule assms(2))

subsection \<open>Subscriptions\<close>

text \<open>The lists of subscribers hold exactly the open connections that asked for an entry, once each.\<close>

definition conns_ok :: "server_state \<Rightarrow> bool" where
  "conns_ok s \<longleftrightarrow> subs_wf (ws_sync (sv_ws s))
     \<and> (\<forall>sub c. sv_conns s sub = Some c \<longrightarrow> wc_sub c = sub \<and> distinct (wc_subscribed c))
     \<and> (\<forall>k. distinct (subs_of (ws_sync (sv_ws s)) k)
          \<and> set (subs_of (ws_sync (sv_ws s)) k) = {sub. \<exists>c. sv_conns s sub = Some c \<and> k \<in> set (wc_subscribed c)})"

lemma conns_okD: "conns_ok s \<Longrightarrow> x \<in> set (subs_of (ws_sync (sv_ws s)) k) \<Longrightarrow> x \<in> dom (sv_conns s)"
  by (auto simp: conns_ok_def)

lemma handleFrame_cases:
  assumes "handleFrame cdc env data h c = Some (h', c', outs)"
  obtains (op) msg where "wk_unmarshal cdc data = Some msg" "handleOp cdc env h c msg = Some (h', c', outs)"
    | (sync) msg where "handleSyncRequest cdc env h c msg = Some (h', c', outs)"
    | (error) m where "h' = h" "c' = c" "outs = [(wc_sub c, m)]"
  using assms by (auto simp: handleFrame_def split: option.splits if_splits)

lemma handleSyncRequest_cases:
  assumes "handleSyncRequest cdc env h c msg = Some (h', c', outs)"
  shows "(h' = h \<and> c' = c) \<or> (\<exists>i. h' = fst (ensureSubscribed env i h c) \<and> c' = snd (ensureSubscribed env i h c))"
    "\<exists>m. outs = [(wc_sub c, m)]"
  using assms ensureSubscribed_fields(3) [of env _ h c]
  by (auto simp: handleSyncRequest_def GetDiff_def Let_def split_def split: option.splits sum.splits)

lemma handleFrame_sync:
  assumes "handleFrame cdc env data h c = Some (h', c', outs)"
  shows "(ws_sync h' = ws_sync h \<and> c' = c) \<or> (\<exists>i. ws_sync h' = ws_sync (fst (ensureSubscribed env i h c))
    \<and> c' = snd (ensureSubscribed env i h c))"
  using assms
proof (cases rule: handleFrame_cases)
  case (op msg)
  from handleOp_cases [OF op(2)] show ?thesis by auto
next
  case (sync msg)
  from handleSyncRequest_cases(1) [OF sync] show ?thesis by auto
qed simp

lemma conns_ok_subscribe:
  assumes ok: "conns_ok s" and c: "sv_conns s sub = Some c"
    and h: "ws_sync h' = ws_sync (fst (ensureSubscribed env i (sv_ws s) c))"
  shows "conns_ok (s\<lparr>sv_ws := h', sv_conns := (sv_conns s)(sub \<mapsto> snd (ensureSubscribed env i (sv_ws s) c))\<rparr>)"
proof (cases "i \<in> set (wc_subscribed c)")
  case True
  then show ?thesis using ok c h by (simp add: ensureSubscribed_def conns_ok_def fun_upd_idem)
next
  case False
  have wf: "subs_wf (ws_sync (sv_ws s))" using ok by (simp add: conns_ok_def)
  have sub: "wc_sub c = sub" using ok c by (simp add: conns_ok_def)
  have new: "sub \<notin> set (subs_of (ws_sync (sv_ws s)) i)" using ok c False by (auto simp: conns_ok_def)
  show ?thesis
    using Subscribe_refines [OF wf, of "we_grow env" i sub] h False ok c sub new
    by (auto simp: ensureSubscribed_def conns_ok_def split: if_splits)
qed

lemma Unsubscribe_all_refines:
  assumes "subs_wf s" "distinct ks"
  shows "subs_wf (foldl (\<lambda>s i. Unsubscribe s i x) s ks)
    \<and> subs_of (foldl (\<lambda>s i. Unsubscribe s i x) s ks) k = (if k \<in> set ks then remove1 x (subs_of s k) else subs_of s k)"
  using assms
proof (induction ks arbitrary: s)
  case (Cons i ks)
  note u = Unsubscribe_refines [OF Cons.prems(1), of i x]
  from Cons.IH [of "Unsubscribe s i x"] u Cons.prems(2) show ?case by auto
qed simp

lemma conns_ok_close:
  assumes ok: "conns_ok s" and c: "sv_conns s sub = Some c"
  shows "conns_ok (s\<lparr>sv_ws := close_conn (sv_ws s) c, sv_conns := (sv_conns s)(sub := None)\<rparr>)"
proof -
  have wf: "subs_wf (ws_sync (sv_ws s))" and d: "distinct (wc_subscribed c)" and sub: "wc_sub c = sub"
    using ok c by (simp_all add: conns_ok_def)
  show ?thesis
    using Unsubscribe_all_refines [OF wf d, of sub] ok c sub
    by (auto simp: conns_ok_def close_conn_def split: if_splits)
qed

lemma server_run_conns:
  assumes "server_run cdc lib s0 tr s" "server_start s0"
  shows "conns_ok s"
  using assms
proof (induction rule: server_run.induct)
  case start
  then show ?case by (simp add: server_start_def conns_ok_def)
next
  case (http tr s env r s' resp)
  have "ws_sync (sv_ws s') = ws_sync (sv_ws s)" "sv_conns s' = sv_conns s"
    using http.hyps by (auto simp: server_http_def Let_def split_def)
  with http show ?case by (simp add: conns_ok_def)
next
  case (opened tr s sub ts ticket auth' c out)
  have "wc_sub c = sub" "wc_subscribed c = []"
    using opened.hyps by (auto simp: open_conn_def Let_def split_def)
  with opened show ?case by (auto simp: conns_ok_def split: if_splits)
next
  case (framed tr s sub c env data h' c' outs)
  from handleFrame_sync [OF framed.hyps(3)] show ?case
  proof (elim disjE conjE exE)
    assume "ws_sync h' = ws_sync (sv_ws s)" "c' = c"
    then show ?thesis using framed by (simp add: conns_ok_def fun_upd_idem)
  next
    fix i
    assume "ws_sync h' = ws_sync (fst (ensureSubscribed env i (sv_ws s) c))" "c' = snd (ensureSubscribed env i (sv_ws s) c)"
    with framed show ?thesis using conns_ok_subscribe by simp
  qed
next
  case (closed tr s sub c)
  then show ?case by (simp add: conns_ok_close)
qed

subsection \<open>Receivers\<close>

lemma handleOp_outs:
  assumes op: "handleOp cdc env h c msg = Some (h', c', outs)" and wf: "subs_wf (ws_sync h)" and out: "(x, m) \<in> set outs"
  shows "x = wc_sub c \<or> (\<exists>k. x \<in> set (subs_of (ws_sync h') k))"
proof (cases "wk_uparse cdc (im_EntryID msg)")
  case None
  then show ?thesis using op out by (auto simp: handleOp_def)
next
  case (Some i)
  note e = this
  show ?thesis
  proof (cases "wk_uparse cdc (im_RequestID msg)")
    case None
    then show ?thesis using op out e by (auto simp: handleOp_def)
  next
    case (Some rid)
    obtain st res where r: "record_op cdc env h c msg i rid = (st, res)" by fastforce
    obtain h1 c1 where s: "ensureSubscribed env i h c = (h1, c1)" by fastforce
    have c1: "wc_sub c1 = wc_sub c" using ensureSubscribed_fields(3) [of env i h c] s by simp
    have wf1: "subs_wf (ws_sync h1)"
      using s wf Subscribe_refines [OF wf] by (auto simp: ensureSubscribed_def split: if_splits)
    show ?thesis
    proof (cases res)
      case (Inl err)
      then show ?thesis using op out handleOp_parsed [OF e Some r s] by auto
    next
      case (Inr ack)
      let ?h = "h1\<lparr>ws_store := st\<rparr>"
      have a: "after_record cdc env ?h c1 msg i rid (am_ServerSeq ack) = Some (h', c', outs)"
        using op handleOp_parsed [OF e Some r s] Inr by simp
      have "ws_sync h' = ws_sync h1" using after_record_fields [OF a] by simp
      moreover have "Broadcast (ws_sync h1) i = Some (subs_of (ws_sync h1) i)"
        using range_run_view [OF range_view_begin [OF wf1]] by (simp add: Broadcast_def)
      ultimately show ?thesis
        using a out c1 by (auto simp: after_record_def bind_eq_Some_conv Let_def split: if_splits dest: project_op_fields)
    qed
  qed
qed

lemma handleFrame_outs:
  assumes "handleFrame cdc env data h c = Some (h', c', outs)" "subs_wf (ws_sync h)" "(x, m) \<in> set outs"
  shows "x = wc_sub c \<or> (\<exists>k. x \<in> set (subs_of (ws_sync h') k))"
  using assms(1)
proof (cases rule: handleFrame_cases)
  case (op msg)
  from handleOp_outs [OF op(2) assms(2,3)] show ?thesis .
next
  case (sync msg)
  from handleSyncRequest_cases(2) [OF sync] assms(3) show ?thesis by auto
qed (use assms(3) in simp)

text \<open>The connections that are open after a history.\<close>

fun open_after :: "subscriber set \<Rightarrow> 'c server_event list \<Rightarrow> subscriber set" where
  "open_after conns [] = conns"
| "open_after conns (Opened sub _ _ # tr) = open_after (insert sub conns) tr"
| "open_after conns (Closed sub # tr) = open_after (conns - {sub}) tr"
| "open_after conns (_ # tr) = open_after conns tr"

lemma open_after_append: "open_after conns (tr @ tr') = open_after (open_after conns tr) tr'"
  by (induction conns tr rule: open_after.induct) simp_all

text \<open>What holds of every event, given the events before it.\<close>

definition at_every :: "('e list \<Rightarrow> 'e \<Rightarrow> bool) \<Rightarrow> 'e list \<Rightarrow> bool" where
  "at_every P tr \<longleftrightarrow> (\<forall>pre e post. tr = pre @ e # post \<longrightarrow> P pre e)"

lemma at_every_Nil [simp]: "at_every P []"
  by (simp add: at_every_def)

lemma at_every_snoc [simp]: "at_every P (tr @ [e]) \<longleftrightarrow> at_every P tr \<and> P tr e"
proof
  assume *: "at_every P (tr @ [e])"
  have "P pre x" if "tr = pre @ x # post" for pre x post
    using * that unfolding at_every_def by (metis append_Cons append_assoc)
  with * show "at_every P tr \<and> P tr e" unfolding at_every_def by blast
next
  assume *: "at_every P tr \<and> P tr e"
  have "P pre x" if "tr @ [e] = pre @ x # post" for pre x post
    using that * by (cases post rule: rev_cases) (auto simp: at_every_def)
  then show "at_every P (tr @ [e])" by (auto simp: at_every_def)
qed

definition sent_to_open :: "'c server_event list \<Rightarrow> bool" where
  "sent_to_open = at_every (\<lambda>pre e. case e of
     Framed _ _ outs \<Rightarrow> fst ` set outs \<subseteq> open_after {} pre | _ \<Rightarrow> True)"

lemma sent_to_open_snoc: "sent_to_open (tr @ [e]) \<longleftrightarrow> sent_to_open tr
    \<and> (case e of Framed _ _ outs \<Rightarrow> fst ` set outs \<subseteq> open_after {} tr | _ \<Rightarrow> True)"
  by (simp add: sent_to_open_def)

lemma server_run_open:
  assumes "server_run cdc lib s0 tr s" "server_start s0"
  shows "dom (sv_conns s) = open_after {} tr" (is ?dom) and "sent_to_open tr" (is ?sent)
proof -
  have "?dom \<and> ?sent"
    using assms
  proof (induction rule: server_run.induct)
    case start
    then show ?case by (simp add: server_start_def sent_to_open_def)
  next
    case (http tr s env r s' resp)
    have "sv_conns s' = sv_conns s" using http.hyps by (auto simp: server_http_def Let_def split_def)
    with http.IH [OF http.prems] show ?case by (simp add: open_after_append sent_to_open_snoc)
  next
    case (opened tr s sub ts ticket auth' c out)
    have "dom ((sv_conns s)(sub \<mapsto> c)) = insert sub (dom (sv_conns s))" by simp
    with opened.IH [OF opened.prems] show ?case
      by (simp add: open_after_append sent_to_open_snoc del: fun_upd_apply)
  next
    case (framed tr s sub c env data h' c' outs)
    let ?s = "s\<lparr>sv_ws := h', sv_conns := (sv_conns s)(sub \<mapsto> c')\<rparr>"
    have ok: "conns_ok s" by (rule server_run_conns [OF framed.hyps(1) framed.prems])
    have ok': "conns_ok ?s"
      by (rule server_run_conns [OF server_run.framed [OF framed.hyps(1-3)] framed.prems])
    have wf: "subs_wf (ws_sync (sv_ws s))" using ok by (simp add: conns_ok_def)
    have sub: "wc_sub c = sub" using ok framed.hyps(2) by (simp add: conns_ok_def)
    have d: "dom ((sv_conns s)(sub \<mapsto> c')) = dom (sv_conns s)" using framed.hyps(2) by auto
    have "fst ` set outs \<subseteq> dom (sv_conns s)"
    proof
      fix x
      assume "x \<in> fst ` set outs"
      then obtain m where "(x, m) \<in> set outs" by auto
      from handleFrame_outs [OF framed.hyps(3) wf this] consider "x = sub" | k where "x \<in> set (subs_of (ws_sync h') k)"
        using sub by blast
      then show "x \<in> dom (sv_conns s)"
      proof cases
        case 1
        then show ?thesis using framed.hyps(2) by blast
      next
        case (2 k)
        with conns_okD [OF ok', of x k] d show ?thesis by (simp del: fun_upd_apply dom_fun_upd)
      qed
    qed
    with framed.IH [OF framed.prems] d show ?case
      by (simp add: open_after_append sent_to_open_snoc del: fun_upd_apply)
  next
    case (closed tr s sub c)
    have "dom ((sv_conns s)(sub := None)) = dom (sv_conns s) - {sub}" by simp
    with closed.IH [OF closed.prems] show ?case
      by (simp add: open_after_append sent_to_open_snoc del: fun_upd_apply)
  qed
  then show ?dom ?sent by auto
qed

subsection \<open>Tickets and tokens\<close>

text \<open>
  A token is vouched for after a history when the library accepts its signature, issuer and audience
  for the configured team, with a key that was known at the start or that the certificate endpoint
  served meanwhile.
\<close>

definition trusted_key :: "server_state \<Rightarrow> 'c server_event list \<Rightarrow> string \<Rightarrow> rsa_key \<Rightarrow> bool" where
  "trusted_key s0 tr kid pub \<longleftrightarrow> (\<exists>a. sv_auth s0 = Some a \<and> cf_keys (au_cfAccess a) kid = Some pub)
     \<or> (\<exists>env r resp. Answered env r resp \<in> set tr \<and> published (he_reply env) kid pub)"

definition vouched :: "'c jwt_lib \<Rightarrow> server_state \<Rightarrow> 'c server_event list \<Rightarrow> string \<Rightarrow> bool" where
  "vouched lib s0 tr tok \<longleftrightarrow> (\<exists>a h kid pub claims. sv_auth s0 = Some a \<and> jl_header lib tok = Some h \<and> jh_rsa h
     \<and> kid = (case jh_kid h of None \<Rightarrow> [] | Some k \<Rightarrow> k) \<and> trusted_key s0 tr kid pub
     \<and> jl_check lib tok pub (cf_issuer (au_cfAccess a)) (cf_audience (au_cfAccess a)) = Some claims)"

definition granted :: "'c jwt_lib \<Rightarrow> server_state \<Rightarrow> 'c server_event list \<Rightarrow> string \<Rightarrow> bool" where
  "granted lib s0 tr t \<longleftrightarrow> (\<exists>pre env r resp post. tr = pre @ Answered env r resp # post \<and> rp_Body resp = Ticket t
     \<and> rq_CsrfOk r \<and> vouched lib s0 (pre @ [Answered env r resp]) (token_of r))"

definition admitted :: "'c jwt_lib \<Rightarrow> server_state \<Rightarrow> 'c server_event list \<Rightarrow> subscriber \<Rightarrow> bool" where
  "admitted lib s0 tr sub \<longleftrightarrow> (\<exists>pre t post. tr = pre @ Opened sub t True # post \<and> granted lib s0 pre t)"

lemma granted_snoc: "granted lib s0 tr t \<Longrightarrow> granted lib s0 (tr @ [e]) t"
  unfolding granted_def by (metis append_Cons append_assoc)

lemma admitted_snoc: "admitted lib s0 tr sub \<Longrightarrow> admitted lib s0 (tr @ [e]) sub"
  unfolding admitted_def by (metis append_Cons append_assoc)

text \<open>What a request does to the authentication: at most a verification and an issued ticket.\<close>

lemma CFAccessMiddleware_parts:
  assumes "CFAccessMiddleware env r a = (a', b)"
  shows "au_tickets a' = au_tickets a"
    "au_cfAccess a' = au_cfAccess a \<or> au_cfAccess a' = fst (Verify (he_lib env) (he_reply env) (token_of r) (au_cfAccess a))"
    "b \<Longrightarrow> snd (Verify (he_lib env) (he_reply env) (token_of r) (au_cfAccess a)) \<noteq> None"
  using assms by (auto simp: CFAccessMiddleware_def token_of_def Let_def split_def split: if_splits)

lemma serve_auth:
  assumes "serve env r s = (s', resp)"
  obtains (same) "hs_auth s' = hs_auth s" "\<And>t. rp_Body resp \<noteq> Ticket t"
    | (verified) a a' b where "hs_auth s = Some a" "CFAccessMiddleware env r a = (a', b)" "hs_auth s' = Some a'"
        "\<And>t. rp_Body resp \<noteq> Ticket t"
    | (issued) a a' ts t where "hs_auth s = Some a" "CFAccessMiddleware env r a = (a', True)" "rq_CsrfOk r"
        "Issue (he_random env) (fst (he_times env)) (snd (he_times env)) (au_tickets a) = (ts, t)"
        "hs_auth s' = Some (a'\<lparr>au_tickets := ts\<rparr>)" "rp_Body resp = Ticket t"
proof (cases "match_route (hs_auth s \<noteq> None) r")
  case None
  then show thesis using assms by (intro same) (auto simp: serve_def not_matched_def split: if_splits)
next
  case (Some rt)
  note plain = entry_List_def entry_Create_def entry_Delete_def entry_Get_def writeProblem_def internal_error_def
    csrf_error_def RequireAuth_def Logout_def writeJSON_def
  show thesis
  proof (cases rt)
    case (RDelete i)
    then obtain a where a: "hs_auth s = Some a" using Some match_route_auth(1) by blast
    obtain a' b where mw: "CFAccessMiddleware env r a = (a', b)" by fastforce
    show thesis
    proof (cases "rq_CsrfOk r")
      case True
      with assms Some RDelete a mw show thesis
        by (intro verified [OF a mw]) (auto simp: serve_def plain Let_def split_def split: if_splits option.splits EntryError.splits)
    next
      case False
      with assms Some RDelete show thesis by (intro same) (auto simp: serve_def plain)
    qed
  next
    case RTicket
    then obtain a where a: "hs_auth s = Some a" using Some match_route_auth(2) by blast
    obtain a' b where mw: "CFAccessMiddleware env r a = (a', b)" by fastforce
    obtain ts t where i: "Issue (he_random env) (fst (he_times env)) (snd (he_times env)) (au_tickets a) = (ts, t)" by fastforce
    have tk: "au_tickets a' = au_tickets a" by (rule CFAccessMiddleware_parts(1) [OF mw])
    consider "rq_CsrfOk r" b | "rq_CsrfOk r" "\<not> b" | "\<not> rq_CsrfOk r" by blast
    then show thesis
    proof cases
      case 1
      with mw have mw: "CFAccessMiddleware env r a = (a', True)" by simp
      show thesis
        by (rule issued [OF a mw \<open>rq_CsrfOk r\<close> i]) (use assms Some RTicket a mw 1 i tk in \<open>auto simp: serve_def WSTicket_def\<close>)
    next
      case 2
      show thesis
        by (rule verified [OF a mw]) (use assms Some RTicket a mw 2 in \<open>auto simp: serve_def WSTicket_def\<close>)
    next
      case 3
      with assms Some RTicket show thesis by (intro same) (auto simp: serve_def plain)
    qed
  next
    case RAuthStatus
    then obtain a where a: "hs_auth s = Some a" using Some by (auto simp: match_route_def Let_def split: if_splits)
    obtain a' b where mw: "CFAccessMiddleware env r a = (a', b)" by fastforce
    from assms Some RAuthStatus a mw show thesis by (intro verified [OF a mw]) (auto simp: serve_def)
  qed (use assms Some in \<open>(intro same; auto simp: serve_def plain Let_def split_def split: if_splits option.splits sum.splits EntryError.splits)\<close>)+
qed

lemma refreshKeys_published:
  assumes "refreshKeys reply v = (v', ok)" "cf_keys v' kid = Some pub"
  shows "cf_keys v kid = Some pub \<or> published reply kid pub"
proof (cases ok)
  case True
  then obtain ks where ks: "reply = Reply 200 (Some ks)" "cf_keys v' = collectKeys ks Map.empty"
    using refreshKeys_cases [OF assms(1)] by auto
  from collectKeys_sound [of ks Map.empty kid pub] ks assms(2) show ?thesis by (auto simp: published_def)
qed (use refreshKeys_cases [OF assms(1)] assms(2) in simp)

lemma Verify_state:
  assumes "Verify lib reply tok v = (v', res)"
  shows "cf_issuer v' = cf_issuer v" "cf_audience v' = cf_audience v"
    "cf_keys v' kid = Some pub \<Longrightarrow> cf_keys v kid = Some pub \<or> published reply kid pub"
proof -
  have "v' = v \<or> (\<exists>ok. refreshKeys reply v = (v', ok))"
    using assms by (auto simp: Verify_def getKey_def Let_def split_def prod_eq_iff split: option.splits if_splits)
  then show "cf_issuer v' = cf_issuer v" "cf_audience v' = cf_audience v"
    "cf_keys v' kid = Some pub \<Longrightarrow> cf_keys v kid = Some pub \<or> published reply kid pub"
    using refreshKeys_cases refreshKeys_published by blast+
qed

definition auth_ok :: "'c jwt_lib \<Rightarrow> server_state \<Rightarrow> 'c server_event list \<Rightarrow> Auth \<Rightarrow> bool" where
  "auth_ok lib s0 tr a \<longleftrightarrow> (\<exists>a0. sv_auth s0 = Some a0 \<and> cf_issuer (au_cfAccess a) = cf_issuer (au_cfAccess a0)
     \<and> cf_audience (au_cfAccess a) = cf_audience (au_cfAccess a0))
     \<and> (\<forall>kid pub. cf_keys (au_cfAccess a) kid = Some pub \<longrightarrow> trusted_key s0 tr kid pub)
     \<and> (\<forall>t. ts_tickets (au_tickets a) t \<noteq> None \<longrightarrow> granted lib s0 tr t)"

lemma trusted_key_snoc: "trusted_key s0 tr kid pub \<Longrightarrow> trusted_key s0 (tr @ [e]) kid pub"
  by (auto simp: trusted_key_def)

lemma trusted_key_served:
  "published (he_reply env) kid pub \<Longrightarrow> trusted_key s0 (tr @ [Answered env r resp]) kid pub"
  by (auto simp: trusted_key_def)

lemma auth_okD:
  assumes "auth_ok lib s0 tr a"
  shows "\<exists>a0. sv_auth s0 = Some a0 \<and> cf_issuer (au_cfAccess a) = cf_issuer (au_cfAccess a0)
      \<and> cf_audience (au_cfAccess a) = cf_audience (au_cfAccess a0)"
    and "cf_keys (au_cfAccess a) kid = Some pub \<Longrightarrow> trusted_key s0 tr kid pub"
    and "ts_tickets (au_tickets a) t \<noteq> None \<Longrightarrow> granted lib s0 tr t"
  using assms unfolding auth_ok_def by blast+

lemma auth_ok_snoc: "auth_ok lib s0 tr a \<Longrightarrow> auth_ok lib s0 (tr @ [e]) a"
  unfolding auth_ok_def by (blast intro: trusted_key_snoc granted_snoc)

text \<open>A verification keeps the invariant, and a token it accepts is vouched for.\<close>

lemma auth_ok_Verify:
  assumes ok: "auth_ok lib s0 tr a" and v: "Verify lib (he_reply env) tok (au_cfAccess a) = (v', res)"
    and a': "au_cfAccess a' = v'" "au_tickets a' = au_tickets a"
  shows "auth_ok lib s0 (tr @ [Answered env r resp]) a'"
    and "res \<noteq> None \<Longrightarrow> vouched lib s0 (tr @ [Answered env r resp]) tok"
proof -
  let ?tr = "tr @ [Answered env r resp]"
  obtain a0 where a0: "sv_auth s0 = Some a0" "cf_issuer (au_cfAccess a) = cf_issuer (au_cfAccess a0)"
    "cf_audience (au_cfAccess a) = cf_audience (au_cfAccess a0)" using auth_okD(1) [OF ok] by blast
  have now: "trusted_key s0 ?tr kid pub" if "cf_keys (au_cfAccess a) kid = Some pub \<or> published (he_reply env) kid pub" for kid pub
    using that
  proof
    assume "cf_keys (au_cfAccess a) kid = Some pub"
    from trusted_key_snoc [OF auth_okD(2) [OF ok this]] show ?thesis .
  qed (rule trusted_key_served)
  show "auth_ok lib s0 ?tr a'"
    unfolding auth_ok_def
  proof (intro conjI allI impI)
    show "\<exists>a0. sv_auth s0 = Some a0 \<and> cf_issuer (au_cfAccess a') = cf_issuer (au_cfAccess a0)
        \<and> cf_audience (au_cfAccess a') = cf_audience (au_cfAccess a0)"
      using a0 a'(1) Verify_state(1,2) [OF v] by simp
    show "trusted_key s0 ?tr kid pub" if "cf_keys (au_cfAccess a') kid = Some pub" for kid pub
      using now [OF Verify_state(3) [OF v]] that a'(1) by simp
    show "granted lib s0 ?tr t" if "ts_tickets (au_tickets a') t \<noteq> None" for t
      using granted_snoc [OF auth_okD(3) [OF ok]] that a'(2) by simp
  qed
  assume "res \<noteq> None"
  then obtain claims where res: "Verify lib (he_reply env) tok (au_cfAccess a) = (v', Some claims)" using v by blast
  obtain h kid pub where k: "jl_header lib tok = Some h" "jh_rsa h" "kid = (case jh_kid h of None \<Rightarrow> [] | Some k \<Rightarrow> k)"
    "cf_keys (au_cfAccess a) kid = Some pub \<or> published (he_reply env) kid pub"
    "jl_check lib tok pub (cf_issuer (au_cfAccess a)) (cf_audience (au_cfAccess a)) = Some claims"
    using Verify_claims [OF res] by (elim exE conjE) (rule that)
  show "vouched lib s0 ?tr tok"
    unfolding vouched_def using a0 k(1-3,5) now [OF k(4)] by (intro exI conjI) simp_all
qed

lemma cleanup_tickets: "ts_tickets (cleanup now s) t \<noteq> None \<Longrightarrow> ts_tickets s t \<noteq> None"
  by (auto simp: cleanup_def split: option.splits)

lemma Issue_tickets:
  assumes "Issue bs t1 t2 s = (s', t)" "ts_tickets s' u \<noteq> None"
  shows "u = t \<or> ts_tickets s u \<noteq> None"
proof (cases "u = t")
  case False
  then have "ts_tickets (cleanup t1 s) u \<noteq> None" using assms by (auto simp: Issue_def Let_def)
  then show ?thesis using cleanup_tickets by blast
qed simp

lemma Redeem_tickets:
  assumes "Redeem u t1 t2 s = (s', ok)"
  shows "ts_tickets s' t \<noteq> None \<Longrightarrow> ts_tickets s t \<noteq> None" and "ok \<Longrightarrow> ts_tickets s u \<noteq> None"
proof -
  have "ts_tickets s' t \<noteq> None \<Longrightarrow> ts_tickets (cleanup t1 s) t \<noteq> None" "ok \<Longrightarrow> ts_tickets (cleanup t1 s) u \<noteq> None"
    using assms by (auto simp: Redeem_def Let_def split: option.splits if_splits)
  then show "ts_tickets s' t \<noteq> None \<Longrightarrow> ts_tickets s t \<noteq> None" "ok \<Longrightarrow> ts_tickets s u \<noteq> None"
    using cleanup_tickets by blast+
qed

lemma auth_ok_served:
  assumes ok: "\<And>a. sv_auth s = Some a \<Longrightarrow> auth_ok lib s0 tr a" and lib: "he_lib env = lib"
    and http: "server_http env r s = (s', resp)" and a': "sv_auth s' = Some a'"
  shows "auth_ok lib s0 (tr @ [Answered env r resp]) a'"
proof -
  let ?tr = "tr @ [Answered env r resp]"
  obtain hs where hs: "serve env r \<lparr>hs_entries = pr_entries (the (ws_projector (sv_ws s))), hs_auth = sv_auth s\<rparr> = (hs, resp)"
    "hs_auth hs = Some a'" using http a'
    by (cases "serve env r \<lparr>hs_entries = pr_entries (the (ws_projector (sv_ws s))), hs_auth = sv_auth s\<rparr>")
      (auto simp: server_http_def Let_def)
  have mw: "auth_ok lib s0 ?tr a1" "b \<Longrightarrow> vouched lib s0 ?tr (token_of r)"
    if "sv_auth s = Some a" "CFAccessMiddleware env r a = (a1, b)" for a a1 b
  proof -
    note parts = CFAccessMiddleware_parts [OF that(2)]
    obtain v res where v: "Verify lib (he_reply env) (token_of r) (au_cfAccess a) = (v, res)" by fastforce
    note sound = auth_ok_Verify [OF ok [OF that(1)] v, of _ r resp]
    show "auth_ok lib s0 ?tr a1"
      using parts(2)
    proof
      assume "au_cfAccess a1 = au_cfAccess a"
      with auth_ok_snoc [OF ok [OF that(1)]] parts(1) show ?thesis by (simp add: auth_ok_def)
    qed (use sound(1) [of a1] parts(1) v lib in simp)
    show "vouched lib s0 ?tr (token_of r)" if b
      using sound(2) [of "a\<lparr>au_cfAccess := v\<rparr>"] parts(3) [OF that] v lib by simp
  qed
  from hs(1) show ?thesis
  proof (cases rule: serve_auth)
    case same
    with hs(2) ok [of a'] auth_ok_snoc show ?thesis by simp
  next
    case (verified a a1 b)
    with hs(2) mw(1) [of a a1 b] show ?thesis by simp
  next
    case (issued a a1 ts t)
    then have a: "sv_auth s = Some a" and a1: "a' = a1\<lparr>au_tickets := ts\<rparr>" using hs(2) by simp_all
    have tk: "au_tickets a1 = au_tickets a" by (rule CFAccessMiddleware_parts(1) [OF issued(2)])
    note D = auth_okD [OF mw(1) [OF a issued(2)]]
    have "granted lib s0 ?tr t"
      using issued(3,6) mw(2) [OF a issued(2)] unfolding granted_def by blast
    then have "granted lib s0 ?tr u" if "ts_tickets ts u \<noteq> None" for u
      using Issue_tickets [OF issued(4) that] D(3) [of u] tk by metis
    then show ?thesis using D(1,2) a1 unfolding auth_ok_def by simp
  qed
qed

lemma server_run_auth:
  assumes "server_run cdc lib s0 tr s" "server_start s0"
  shows "sv_auth s = Some a \<Longrightarrow> auth_ok lib s0 tr a"
    and "sv_conns s sub = Some c \<Longrightarrow> wc_authenticated c \<Longrightarrow> admitted lib s0 tr sub"
proof -
  have "(\<forall>a. sv_auth s = Some a \<longrightarrow> auth_ok lib s0 tr a)
    \<and> (\<forall>sub c. sv_conns s sub = Some c \<longrightarrow> wc_authenticated c \<longrightarrow> admitted lib s0 tr sub)"
    using assms
  proof (induction rule: server_run.induct)
    case start
    then show ?case by (auto simp: server_start_def auth_ok_def trusted_key_def)
  next
    case (http tr s env r s' resp)
    have "sv_conns s' = sv_conns s" using http.hyps by (auto simp: server_http_def Let_def split_def)
    with http.IH [OF http.prems] auth_ok_served [OF _ http.hyps(2,3)] admitted_snoc show ?case by metis
  next
    case (opened tr s sub ts ticket auth' c out)
    note IH = opened.IH [OF opened.prems]
    let ?e = "Opened sub ticket (wc_authenticated c)"
    have parts: "(auth' = sv_auth s \<and> \<not> wc_authenticated c) \<or> (\<exists>a a'. sv_auth s = Some a
        \<and> RedeemTicket ts ticket a = (a', wc_authenticated c) \<and> auth' = Some a')"
      using opened.hyps(3) by (cases "sv_auth s") (auto simp: open_conn_def Let_def split_def split: if_splits)
    have ok: "auth_ok lib s0 tr a'" "wc_authenticated c \<Longrightarrow> granted lib s0 tr ticket"
      if a: "sv_auth s = Some a" and red: "RedeemTicket ts ticket a = (a', wc_authenticated c)" for a a'
    proof -
      note D = auth_okD [OF IH [THEN conjunct1, rule_format, OF a]]
      obtain s1 where r: "Redeem ticket (fst ts) (snd ts) (au_tickets a) = (s1, wc_authenticated c)" "a' = a\<lparr>au_tickets := s1\<rparr>"
        using red by (auto simp: RedeemTicket_def Let_def split: prod.splits)
      have "granted lib s0 tr t" if "ts_tickets s1 t \<noteq> None" for t
        by (rule D(3) [OF Redeem_tickets(1) [OF r(1) that]])
      then show "auth_ok lib s0 tr a'" using D(1,2) r(2) unfolding auth_ok_def by simp
      show "granted lib s0 tr ticket" if "wc_authenticated c"
        by (rule D(3) [OF Redeem_tickets(2) [OF r(1) that]])
    qed
    have new: "admitted lib s0 (tr @ [?e]) sub" if "wc_authenticated c"
      using parts that ok(2) unfolding admitted_def by (metis (full_types))
    have auth: "auth_ok lib s0 (tr @ [?e]) a" if "auth' = Some a" for a
      using parts
    proof (elim disjE exE conjE)
      assume "auth' = sv_auth s"
      then show ?thesis using IH that auth_ok_snoc by metis
    next
      fix b b'
      assume "sv_auth s = Some b" "RedeemTicket ts ticket b = (b', wc_authenticated c)" "auth' = Some b'"
      then show ?thesis using ok(1) [of b b'] that auth_ok_snoc by simp
    qed
    have "admitted lib s0 (tr @ [?e]) x" if "((sv_conns s)(sub \<mapsto> c)) x = Some d" "wc_authenticated d" for x d
    proof (cases "x = sub")
      case True
      then show ?thesis using that new by simp
    next
      case False
      then have "sv_conns s x = Some d" using that(1) by simp
      then show ?thesis using IH that(2) admitted_snoc by blast
    qed
    with auth show ?case by simp
  next
    case (framed tr s sub c env data h' c' outs)
    have "wc_authenticated c' = wc_authenticated c"
      using handleFrame_sync [OF framed.hyps(3)] ensureSubscribed_fields(4) by metis
    then have "admitted lib s0 tr x" if "((sv_conns s)(sub \<mapsto> c')) x = Some d" "wc_authenticated d" for x d
      using that framed.IH [OF framed.prems] framed.hyps(2) by (cases "x = sub") auto
    then have "admitted lib s0 (tr @ [Framed sub data outs]) x"
      if "((sv_conns s)(sub \<mapsto> c')) x = Some d" "wc_authenticated d" for x d
      using that by (blast intro: admitted_snoc)
    moreover have "auth_ok lib s0 (tr @ [Framed sub data outs]) a" if "sv_auth s = Some a" for a
      using framed.IH [OF framed.prems] that by (blast intro: auth_ok_snoc)
    ultimately show ?case by simp
  next
    case (closed tr s sub c)
    have "auth_ok lib s0 (tr @ [Closed sub]) a" if "sv_auth s = Some a" for a
      using closed.IH [OF closed.prems] that by (blast intro: auth_ok_snoc)
    moreover have "admitted lib s0 (tr @ [Closed sub]) x" if "sv_conns s x = Some d" "wc_authenticated d" for x d
      using closed.IH [OF closed.prems] that by (blast intro: admitted_snoc)
    ultimately show ?case by simp
  qed
  then show "sv_auth s = Some a \<Longrightarrow> auth_ok lib s0 tr a"
    "sv_conns s sub = Some c \<Longrightarrow> wc_authenticated c \<Longrightarrow> admitted lib s0 tr sub" by blast+
qed

text \<open>A ticket opens at most as many authenticated connections as it was handed out.\<close>

definition issuances :: "string \<Rightarrow> 'c server_event list \<Rightarrow> nat" where
  "issuances t tr = length (filter (\<lambda>e. case e of Answered _ _ resp \<Rightarrow> rp_Body resp = Ticket t | _ \<Rightarrow> False) tr)"

definition openings :: "string \<Rightarrow> 'c server_event list \<Rightarrow> nat" where
  "openings t tr = length (filter (\<lambda>e. case e of Opened _ u ok \<Rightarrow> u = t \<and> ok | _ \<Rightarrow> False) tr)"

definition outstanding :: "string \<Rightarrow> server_state \<Rightarrow> nat" where
  "outstanding t s = (case sv_auth s of None \<Rightarrow> 0 | Some a \<Rightarrow> held t (au_tickets a))"

lemma outstanding_http:
  assumes "server_http env r s = (s', resp)"
  shows "outstanding t s' \<le> outstanding t s + (if rp_Body resp = Ticket t then 1 else 0)"
proof -
  obtain hs where hs: "serve env r \<lparr>hs_entries = pr_entries (the (ws_projector (sv_ws s))), hs_auth = sv_auth s\<rparr> = (hs, resp)"
    "sv_auth s' = hs_auth hs" using assms
    by (cases "serve env r \<lparr>hs_entries = pr_entries (the (ws_projector (sv_ws s))), hs_auth = sv_auth s\<rparr>")
      (auto simp: server_http_def Let_def)
  from hs(1) show ?thesis
  proof (cases rule: serve_auth)
    case (issued a a1 ts u)
    have "u = EncodeToString (he_random env)" using issued(4) by (simp add: Issue_def Let_def)
    with held_Issue [of t "he_random env" "fst (he_times env)" "snd (he_times env)" "au_tickets a"] issued hs(2)
    show ?thesis by (simp add: outstanding_def)
  next
    case (verified a a1 b)
    with hs(2) CFAccessMiddleware_parts(1) [OF verified(2)] show ?thesis by (simp add: outstanding_def held_def)
  qed (use hs(2) in \<open>simp add: outstanding_def\<close>)
qed

lemma outstanding_open:
  assumes op: "open_conn ts ticket sub (sv_auth s) = (auth', c, out)"
  shows "outstanding t (s\<lparr>sv_auth := auth', sv_conns := m\<rparr>) + (if ticket = t \<and> wc_authenticated c then 1 else 0)
    \<le> outstanding t s"
proof (cases "sv_auth s")
  case None
  with op show ?thesis by (auto simp: open_conn_def outstanding_def)
next
  case (Some a)
  obtain s1 ok where r: "Redeem ticket (fst ts) (snd ts) (au_tickets a) = (s1, ok)" by fastforce
  show ?thesis
  proof (cases "ticket = []")
    case True
    with op Some show ?thesis by (auto simp: open_conn_def outstanding_def)
  next
    case False
    with op Some r have "auth' = Some (a\<lparr>au_tickets := s1\<rparr>)" "wc_authenticated c = ok"
      by (auto simp: open_conn_def RedeemTicket_def)
    with Some held_Redeem [of t ticket "fst ts" "snd ts" "au_tickets a"] r show ?thesis
      by (simp add: outstanding_def split: if_splits)
  qed
qed

lemma count_snoc:
  "issuances t (tr @ [e]) = issuances t tr + (case e of Answered _ _ resp \<Rightarrow> if rp_Body resp = Ticket t then 1 else 0 | _ \<Rightarrow> 0)"
  "openings t (tr @ [e]) = openings t tr + (case e of Opened _ u ok \<Rightarrow> if u = t \<and> ok then 1 else 0 | _ \<Rightarrow> 0)"
  by (cases e; simp add: issuances_def openings_def)+

lemma server_run_tickets:
  assumes "server_run cdc lib s0 tr s" "server_start s0"
  shows "openings t tr + outstanding t s \<le> issuances t tr"
  using assms
proof (induction rule: server_run.induct)
  case start
  then show ?case
    by (auto simp: server_start_def openings_def outstanding_def held_def split: option.splits)
next
  case (http tr s env r s' resp)
  from http.IH [OF http.prems] outstanding_http [OF http.hyps(3), of t] show ?case
    by (simp add: count_snoc split: if_splits)
next
  case (opened tr s sub ts ticket auth' c out)
  from opened.IH [OF opened.prems] outstanding_open [OF opened.hyps(3), of t "(sv_conns s)(sub \<mapsto> c)"] show ?case
    by (simp add: count_snoc split: if_splits)
qed (simp_all add: count_snoc outstanding_def)

subsection \<open>What is recorded\<close>

definition recorded_json :: "ws_codec \<Rightarrow> bool" where
  "recorded_json cdc \<longleftrightarrow> (\<forall>data msg c. wk_unmarshal cdc data = Some msg
     \<longrightarrow> pc_unmarshal (wk_proj cdc) (wk_marshal cdc (stamped c msg)) = Some (payload_of (stamped c msg)))"

definition authenticated_event :: "ws_codec \<Rightarrow> Event \<Rightarrow> bool" where
  "authenticated_event cdc ev \<longleftrightarrow>
     (case OperationFromPayload (pc_unmarshal (wk_proj cdc)) (pc_uparse (wk_proj cdc)) (ev_Payload ev) of
        Inl _ \<Rightarrow> False | Inr op \<Rightarrow> op_Authenticated op)"

lemma handleFrame_recorded:
  assumes json: "recorded_json cdc" and inv: "file_inv (ws_store h)" and len: "\<And>k. length (file_log (ws_store h) k) < 2 ^ 63 - 1"
    and frame: "handleFrame cdc env data h c = Some (h', c', outs)"
  shows "file_inv (ws_store h')" and "\<exists>evs. length evs \<le> 1 \<and> file_log (ws_store h') k = file_log (ws_store h) k @ evs
    \<and> (\<forall>ev \<in> set evs. authenticated_event cdc ev \<longrightarrow> wc_authenticated c)"
proof -
  have same: "file_inv (ws_store h') \<and> (\<exists>evs. length evs \<le> 1 \<and> file_log (ws_store h') k = file_log (ws_store h) k @ evs
    \<and> (\<forall>ev \<in> set evs. authenticated_event cdc ev \<longrightarrow> wc_authenticated c))" if "ws_store h' = ws_store h"
    using that inv by (intro conjI exI [of _ "[]"]) simp_all
  from frame have "file_inv (ws_store h') \<and> (\<exists>evs. length evs \<le> 1 \<and> file_log (ws_store h') k = file_log (ws_store h) k @ evs
    \<and> (\<forall>ev \<in> set evs. authenticated_event cdc ev \<longrightarrow> wc_authenticated c))"
  proof (cases rule: handleFrame_cases)
    case (op msg)
    have "pc_unmarshal (wk_proj cdc) (wk_marshal cdc (stamped c msg)) = Some (payload_of (stamped c msg))"
      using json op(1) by (simp add: recorded_json_def)
    from handleOp_recorded [OF this inv len op(2), of "pc_uparse (wk_proj cdc)"] obtain i evs where r: "file_inv (ws_store h')"
      "length evs \<le> 1" "file_log (ws_store h') = (file_log (ws_store h))(i := file_log (ws_store h) i @ evs)"
      "\<forall>ev \<in> set evs. \<forall>o'. OperationFromPayload (pc_unmarshal (wk_proj cdc)) (pc_uparse (wk_proj cdc)) (ev_Payload ev) = Inr o'
          \<longrightarrow> op_Authenticated o' = wc_authenticated c"
      by (elim exE conjE) (rule that)
    have "wc_authenticated c" if "ev \<in> set evs" "authenticated_event cdc ev" for ev
      using that r(4) unfolding authenticated_event_def
      by (cases "OperationFromPayload (pc_unmarshal (wk_proj cdc)) (pc_uparse (wk_proj cdc)) (ev_Payload ev)") auto
    then have "\<forall>ev \<in> set evs. authenticated_event cdc ev \<longrightarrow> wc_authenticated c" by blast
    then show ?thesis
      using r(1-3) by (intro conjI exI [of _ "if k = i then evs else []"]) (auto split: if_splits)
  next
    case (sync msg)
    then show ?thesis using handleSyncRequest_cases(1) [OF sync] ensureSubscribed_fields(1) by (intro same) auto
  next
    case error
    then show ?thesis by (intro same) simp
  qed
  then show "file_inv (ws_store h')" and "\<exists>evs. length evs \<le> 1 \<and> file_log (ws_store h') k = file_log (ws_store h) k @ evs
    \<and> (\<forall>ev \<in> set evs. authenticated_event cdc ev \<longrightarrow> wc_authenticated c)" by auto
qed

text \<open>An event of a connection that was admitted.\<close>

definition from_admitted :: "'c jwt_lib \<Rightarrow> server_state \<Rightarrow> 'c server_event list \<Rightarrow> bool" where
  "from_admitted lib s0 tr \<longleftrightarrow>
     (\<exists>pre sub data outs post. tr = pre @ Framed sub data outs # post \<and> admitted lib s0 pre sub)"

lemma from_admitted_snoc: "from_admitted lib s0 tr \<Longrightarrow> from_admitted lib s0 (tr @ [e])"
  unfolding from_admitted_def by (metis append_Cons append_assoc)

text \<open>What a history has added to the logs.\<close>

definition logged :: "ws_codec \<Rightarrow> 'c jwt_lib \<Rightarrow> server_state \<Rightarrow> 'c server_event list \<Rightarrow> WS \<Rightarrow> bool" where
  "logged cdc lib s0 tr h \<longleftrightarrow> file_inv (ws_store h) \<and> (\<forall>k. \<exists>evs. length evs \<le> length tr
     \<and> file_log (ws_store h) k = file_log (ws_store (sv_ws s0)) k @ evs
     \<and> (\<forall>ev \<in> set evs. authenticated_event cdc ev \<longrightarrow> from_admitted lib s0 tr))"

lemma logged_same:
  assumes "logged cdc lib s0 tr h" "ws_store h' = ws_store h"
  shows "logged cdc lib s0 (tr @ [e]) h'"
proof -
  have "\<exists>evs. length evs \<le> length (tr @ [e]) \<and> file_log (ws_store h') k = file_log (ws_store (sv_ws s0)) k @ evs
    \<and> (\<forall>ev \<in> set evs. authenticated_event cdc ev \<longrightarrow> from_admitted lib s0 (tr @ [e]))" for k
  proof -
    obtain evs where "length evs \<le> length tr" "file_log (ws_store h) k = file_log (ws_store (sv_ws s0)) k @ evs"
      "\<forall>ev \<in> set evs. authenticated_event cdc ev \<longrightarrow> from_admitted lib s0 tr"
      using assms(1) unfolding logged_def by blast
    then show ?thesis
      using assms(2) from_admitted_snoc by (intro exI [of _ evs] conjI) auto
  qed
  then show ?thesis using assms unfolding logged_def by simp
qed

lemma logged_framed:
  assumes "logged cdc lib s0 tr h" "recorded_json cdc" "handleFrame cdc env data h c = Some (h', c', outs)"
    and len: "\<And>k. length (file_log (ws_store (sv_ws s0)) k) + length tr < 2 ^ 63 - 1"
    and adm: "wc_authenticated c \<Longrightarrow> admitted lib s0 tr sub"
  shows "logged cdc lib s0 (tr @ [Framed sub data outs]) h'"
proof -
  let ?tr = "tr @ [Framed sub data outs]"
  have inv: "file_inv (ws_store h)" using assms(1) by (simp add: logged_def)
  have old: "\<exists>evs. length evs \<le> length tr \<and> file_log (ws_store h) k = file_log (ws_store (sv_ws s0)) k @ evs
     \<and> (\<forall>ev \<in> set evs. authenticated_event cdc ev \<longrightarrow> from_admitted lib s0 tr)" for k
    using assms(1) unfolding logged_def by blast
  have short: "length (file_log (ws_store h) k) < 2 ^ 63 - 1" for k using old [of k] len [of k] by auto
  note new = handleFrame_recorded [OF assms(2) inv short assms(3)]
  have "\<exists>evs. length evs \<le> length ?tr \<and> file_log (ws_store h') k = file_log (ws_store (sv_ws s0)) k @ evs
    \<and> (\<forall>ev \<in> set evs. authenticated_event cdc ev \<longrightarrow> from_admitted lib s0 ?tr)" for k
  proof -
    obtain evs where evs: "length evs \<le> length tr" "file_log (ws_store h) k = file_log (ws_store (sv_ws s0)) k @ evs"
      "\<forall>ev \<in> set evs. authenticated_event cdc ev \<longrightarrow> from_admitted lib s0 tr" using old by blast
    obtain e where e: "length e \<le> 1" "file_log (ws_store h') k = file_log (ws_store h) k @ e"
      "\<forall>ev \<in> set e. authenticated_event cdc ev \<longrightarrow> wc_authenticated c" using new(2) by blast
    have here: "from_admitted lib s0 ?tr" if "wc_authenticated c"
      using adm [OF that] unfolding from_admitted_def by blast
    have "from_admitted lib s0 ?tr" if "ev \<in> set (evs @ e)" "authenticated_event cdc ev" for ev
      using that evs(3) e(3) here from_admitted_snoc by auto
    with evs(1,2) e(1,2) show ?thesis by (intro exI [of _ "evs @ e"]) auto
  qed
  with new(1) show ?thesis unfolding logged_def by blast
qed

lemma server_run_log:
  assumes "server_run cdc lib s0 tr s" "server_start s0" "recorded_json cdc"
    and "\<And>k. length (file_log (ws_store (sv_ws s0)) k) + length tr < 2 ^ 63 - 1"
  shows "logged cdc lib s0 tr (sv_ws s)"
  using assms
proof (induction rule: server_run.induct)
  case start
  then show ?case by (simp add: server_start_def logged_def)
next
  case (http tr s env r s' resp)
  have "ws_store (sv_ws s') = ws_store (sv_ws s)" using http.hyps by (auto simp: server_http_def Let_def split_def)
  moreover have "length (file_log (ws_store (sv_ws s0)) k) + length tr < 2 ^ 63 - 1" for k using http.prems(3) [of k] by simp
  ultimately show ?case using logged_same [OF http.IH [OF http.prems(1,2)]] by blast
next
  case (opened tr s sub ts ticket auth' c out)
  have "length (file_log (ws_store (sv_ws s0)) k) + length tr < 2 ^ 63 - 1" for k using opened.prems(3) [of k] by simp
  from logged_same [OF opened.IH [OF opened.prems(1,2) this]] show ?case by simp
next
  case (framed tr s sub c env data h' c' outs)
  have len: "length (file_log (ws_store (sv_ws s0)) k) + length tr < 2 ^ 63 - 1" for k using framed.prems(3) [of k] by simp
  have "logged cdc lib s0 (tr @ [Framed sub data outs]) h'"
    by (rule logged_framed [OF framed.IH [OF framed.prems(1,2) len] framed.prems(2) framed.hyps(3) len
          server_run_auth(2) [OF framed.hyps(1) framed.prems(1) framed.hyps(2)]])
  then show ?case by simp
next
  case (closed tr s sub c)
  have "length (file_log (ws_store (sv_ws s0)) k) + length tr < 2 ^ 63 - 1" for k using closed.prems(3) [of k] by simp
  from logged_same [OF closed.IH [OF closed.prems(1,2) this], of "close_conn (sv_ws s) c"] show ?case
    by (simp add: close_conn_def)
qed

subsection \<open>Properties\<close>



text \<open>A user fetches a ticket, opens a connection with it and sends an insertion.\<close>

definition ex_scodec :: ws_codec where
  "ex_scodec = (ex_wcodec_for ex_wmsg)
     \<lparr>wk_marshal := (\<lambda>m. if im_Authenticated m = Some True then ''{}'' else ''u''),
      wk_proj := ex_pcodec (\<lambda>s. Some (payload_of (stamped (ex_wconn\<lparr>wc_authenticated := (s = ''{}'')\<rparr>) ex_wmsg)))\<rparr>"

definition ex_auth :: Auth where
  "ex_auth = \<lparr>au_cfAccess = ex_verifier, au_tickets = NewTicketStore 60, au_teamDomain = ''team''\<rparr>"

definition ex_server :: server_state where
  "ex_server = \<lparr>sv_ws = NewWS ex_empty_store NewSyncService (Some ex_wproj), sv_auth = Some ex_auth, sv_conns = Map.empty\<rparr>"

lemma ex_server_start: "server_start ex_server"
proof -
  have "file_inv ex_empty_store" using ex_ws_inv(1) by (simp add: ex_ws_def)
  then show ?thesis
    using subs_wf_New by (simp add: server_start_def ex_server_def NewWS_def ex_auth_def NewTicketStore_def
        NewSyncService_def subs_of_def no_slices_def)
qed

lemma ex_recorded_json: "recorded_json ex_scodec"
  by (auto simp: recorded_json_def ex_scodec_def ex_wcodec_for_def ex_pcodec_def stamped_def)

lemma ex_ticket:
  obtains ts where "serve ex_henv (ex_request [''api'', ''ws-ticket'']) \<lparr>hs_entries = es, hs_auth = Some ex_auth\<rparr>
      = (\<lparr>hs_entries = es, hs_auth = Some (ex_auth\<lparr>au_tickets := ts\<rparr>)\<rparr>, \<lparr>rp_Status = 200, rp_Body = Ticket ''ab''\<rparr>)"
    "ts_tickets ts = [''ab'' \<mapsto> 61]"
proof -
  let ?r = "ex_request [''api'', ''ws-ticket'']"
  have rt: "match_route True ?r = Some RTicket" by (simp add: match_route_def ex_request_def)
  have mw: "CFAccessMiddleware ex_henv ?r ex_auth = (ex_auth, True)"
    by (simp add: CFAccessMiddleware_def ex_request_def ex_henv_def ex_auth_def ex_verifies)
  have t: "EncodeToString [171] = ''ab''" by code_simp
  obtain ts where i: "Issue [171] 0 1 (NewTicketStore 60) = (ts, ''ab'')"
    using t by (simp add: Issue_def Let_def)
  have "ts_tickets ts = [''ab'' \<mapsto> 61]"
    using i t by (auto simp: Issue_def cleanup_def NewTicketStore_def Let_def)
  moreover have "WSTicket ex_henv True ex_auth = (ex_auth\<lparr>au_tickets := ts\<rparr>, \<lparr>rp_Status = 200, rp_Body = Ticket ''ab''\<rparr>)"
    using i by (simp add: WSTicket_def ex_henv_def ex_auth_def)
  ultimately show thesis
    using rt mw by (intro that [of ts]) (simp_all add: serve_def ex_request_def)
qed

lemma ex_frame:
  assumes "ws_store h = ex_empty_store" "ws_sync h = NewSyncService" "ws_projector h = Some ex_wproj"
  shows "\<exists>h' c' outs ev. handleFrame ex_scodec ex_wenv data h (ex_wconn\<lparr>wc_authenticated := True\<rparr>) = Some (h', c', outs)
    \<and> file_log (ws_store h') 1 = [ev] \<and> authenticated_event ex_scodec ev"
proof -
  let ?c = "ex_wconn\<lparr>wc_authenticated := True\<rparr>"
  have "\<lparr>ev_EntryID = 1, ev_ServerSeq = 0, ev_RequestID = 2, ev_EventType = EventCRDTOp, ev_SiteID = 3,
      ev_Payload = ''{}'', ev_CreatedAt = time_or_zero None\<rparr> = ex_event\<lparr>ev_CreatedAt := time_or_zero None\<rparr>"
    by (simp add: ex_event_def)
  then have app: "file_Append ex_codec (0, Writes) ex_empty_store \<lparr>ev_EntryID = 1, ev_ServerSeq = 0, ev_RequestID = 2,
      ev_EventType = EventCRDTOp, ev_SiteID = 3, ev_Payload = ''{}'', ev_CreatedAt = time_or_zero None\<rparr> = (ex_store, Inr 1)"
    using ex_store_eq by (simp only: file_Append_created)
  have pay: "wk_marshal ex_scodec (stamped ?c ex_wmsg) = ''{}''" by (simp add: ex_scodec_def stamped_def)
  have rec: "record_op ex_scodec ex_wenv h ?c ex_wmsg 1 2 = (ex_store, Inr \<lparr>am_RequestID = 2, am_EntryID = 1, am_ServerSeq = 1\<rparr>)"
    unfolding record_op_def pay using app
    by (simp add: HandleOp_def ex_scodec_def ex_wcodec_for_def ex_wenv_def assms site_of_def ex_wmsg_def
        uuid_or_nil_def unhex_uuid_hex)
  have ids: "wk_uparse ex_scodec (im_EntryID ex_wmsg) = Some 1" "wk_uparse ex_scodec (im_RequestID ex_wmsg) = Some 2"
    by (simp_all add: ex_scodec_def ex_wcodec_for_def ex_wmsg_def unhex_uuid_hex)
  have st: "file_inv (ws_store h)" "length (file_log (ws_store h) 1) < 2 ^ 63 - 1" "2 \<notin> es_seen (ws_store h)" "subs_wf (ws_sync h)"
    using ex_ws_inv subs_wf_New by (simp_all add: assms ex_ws_def)
  obtain v where op: "OperationFromPayload (pc_unmarshal (wk_proj ex_scodec)) (pc_uparse (wk_proj ex_scodec)) ''{}'' = Inr (ex_wop v True)"
    using ex_payload_op [of ?c "''{}''"]
    by (auto simp: ex_scodec_def ex_pcodec_def OperationFromPayload_def split: option.splits)
  obtain p' where p': "proj_Apply (wk_proj ex_scodec) (we_proj ex_wenv) ex_wproj 1 (wk_marshal ex_scodec (stamped ?c ex_wmsg)) = Some (p', True)"
    using ex_wproj_inserts [OF op] by (auto simp: pay ex_wenv_def)
  have sub: "wc_sub ?c \<in> set (subs_of (ws_sync h) 1)" if "1 \<in> set (wc_subscribed ?c)"
    using that by (simp add: ex_wconn_def)
  obtain h' c' outs where r: "handleOp ex_scodec ex_wenv h ?c ex_wmsg = Some (h', c', outs)" "ws_store h' = ex_store"
    using handleOp_accepted [OF ids st(1-3) rec st(4) sub assms(3) p'] by blast
  have "handleFrame ex_scodec ex_wenv data h ?c = Some (h', c', outs)"
    using r(1) by (simp add: handleFrame_def ex_scodec_def ex_wcodec_for_def ex_wmsg_def)
  moreover have "file_log ex_store 1 = [ex_event\<lparr>ev_ServerSeq := 1\<rparr>]" using ex_store_eq by simp
  moreover have "authenticated_event ex_scodec (ex_event\<lparr>ev_ServerSeq := 1\<rparr>)"
    using op by (simp add: authenticated_event_def ex_event_def ex_wop_def)
  ultimately show ?thesis using r(2) by auto
qed

text \<open>The history of this user, with its final state.\<close>

lemma ex_server_run:
  obtains env r resp outs s ev where
    "server_run ex_scodec ex_lib ex_server [Answered env r resp, Opened 6 ''ab'' True, Framed 6 [] outs] s"
    "rp_Body resp = Ticket ''ab''" "file_log (ws_store (sv_ws s)) 1 = [ev]" "authenticated_event ex_scodec ev"
proof -
  let ?r = "ex_request [''api'', ''ws-ticket'']"
  obtain ts where ts: "serve ex_henv ?r \<lparr>hs_entries = pr_entries ex_wproj, hs_auth = Some ex_auth\<rparr>
      = (\<lparr>hs_entries = pr_entries ex_wproj, hs_auth = Some (ex_auth\<lparr>au_tickets := ts\<rparr>)\<rparr>, \<lparr>rp_Status = 200, rp_Body = Ticket ''ab''\<rparr>)"
    "ts_tickets ts = [''ab'' \<mapsto> 61]" by (rule ex_ticket)
  let ?resp = "\<lparr>rp_Status = 200, rp_Body = Ticket ''ab''\<rparr>" and ?a = "ex_auth\<lparr>au_tickets := ts\<rparr>"
  let ?s1 = "ex_server\<lparr>sv_auth := Some ?a\<rparr>"
  have 1: "server_http ex_henv ?r ex_server = (?s1, ?resp)"
    using ts(1) by (simp add: server_http_def ex_server_def NewWS_def)
  have run1: "server_run ex_scodec ex_lib ex_server [Answered ex_henv ?r ?resp] ?s1"
    using server_run.http [OF server_run.start _ 1] by (simp add: ex_henv_def)
  let ?c = "ex_wconn\<lparr>wc_authenticated := True\<rparr>"
  obtain auth' out where 2: "open_conn (2, 2) ''ab'' 6 (Some ?a) = (auth', ?c, out)"
    using ts(2) by (simp add: open_conn_def RedeemTicket_def Redeem_def cleanup_def ex_wconn_def)
  have run2: "server_run ex_scodec ex_lib ex_server [Answered ex_henv ?r ?resp, Opened 6 ''ab'' True]
      (?s1\<lparr>sv_auth := auth', sv_conns := [6 \<mapsto> ?c]\<rparr>)"
    using server_run.opened [OF run1, of 6 "(2, 2)" "''ab''" auth' ?c out] 2 by (simp add: ex_server_def)
  obtain h' c' outs ev where 3: "handleFrame ex_scodec ex_wenv [] (sv_ws ex_server) ?c = Some (h', c', outs)"
    "file_log (ws_store h') 1 = [ev]" "authenticated_event ex_scodec ev"
    using ex_frame [of "sv_ws ex_server" "[]"] by (auto simp: ex_server_def NewWS_def)
  have run3: "server_run ex_scodec ex_lib ex_server [Answered ex_henv ?r ?resp, Opened 6 ''ab'' True, Framed 6 [] outs]
      (?s1\<lparr>sv_auth := auth', sv_ws := h', sv_conns := [6 \<mapsto> c']\<rparr>)"
    using server_run.framed [OF run2, of 6 ?c ex_wenv "[]" h' c' outs] 3(1) by simp
  show thesis by (rule that [OF run3 _ _ 3(3)]) (simp_all add: 3(2))
qed



end
