(* ===== verification/Logger.thy ===== *)
theory Logger
  imports Prelude
begin

text \<open>
  Logging of \<open>flourish\<close>, \<open>logger/logger.go\<close>: the levels, the rewriting of attributes and the handler
  that forwards a record to several handlers. \<open>slog_ops\<close> are the methods of the handlers of the
  library (\<open>log/slog\<close> and the OpenTelemetry bridge), which write to a state \<open>'s\<close>; a \<open>FanoutHandler\<close> may
  hold any handler, another \<open>FanoutHandler\<close> included. A level is an \<open>int\<close> in Go. The names of
  levels are ASCII, so lowering the ASCII letters decides the same cases as \<open>strings.ToLower\<close> (the
  other characters with an ASCII lower case give \<open>k\<close> and \<open>i\<close>, which only occur in names that have
  the default level).
\<close>

type_synonym level = int

definition LevelTrace :: level where "LevelTrace = -8"
definition LevelDebug :: level where "LevelDebug = -4"
definition LevelInfo :: level where "LevelInfo = 0"
definition LevelWarn :: level where "LevelWarn = 4"
definition LevelError :: level where "LevelError = 8"
definition LevelFatal :: level where "LevelFatal = 12"

lemmas levels = LevelTrace_def LevelDebug_def LevelInfo_def LevelWarn_def LevelError_def LevelFatal_def

definition ToLower :: "string \<Rightarrow> string" where
  "ToLower s = map (\<lambda>c. let n = (of_char c :: nat) in if 65 \<le> n \<and> n \<le> 90 then char_of (n + 32) else c) s"

definition parseLevel :: "string \<Rightarrow> level" where
  "parseLevel s =
     (let l = ToLower s
      in if l = ''trace'' then LevelTrace
         else if l = ''debug'' then LevelDebug
         else if l = ''warn'' then LevelWarn
         else if l = ''error'' then LevelError
         else if l = ''fatal'' then LevelFatal
         else LevelInfo)"

definition levelName :: "level \<Rightarrow> string" where
  "levelName l =
     (if LevelFatal \<le> l then ''FATAL''
      else if LevelError \<le> l then ''ERROR''
      else if LevelWarn \<le> l then ''WARN''
      else if LevelInfo \<le> l then ''INFO''
      else if LevelDebug \<le> l then ''DEBUG''
      else ''TRACE'')"

record Config =
  lc_Level :: string
  lc_ServiceName :: string
  lc_Version :: string
  lc_Environment :: string

datatype 'v attr_value = LevelValue level | StringValue string | OtherValue 'v

record 'v Attr =
  at_Key :: string
  at_Value :: "'v attr_value"

definition ReplaceAttr :: "'v Attr \<Rightarrow> 'v Attr" where
  "ReplaceAttr a =
     (if at_Key a = ''time'' then a\<lparr>at_Key := ''timestamp''\<rparr>
      else if at_Key a = ''msg'' then a\<lparr>at_Key := ''message''\<rparr>
      else if at_Key a = ''level'' then
        (case at_Value a of LevelValue lvl \<Rightarrow> a\<lparr>at_Value := StringValue (levelName lvl)\<rparr> | _ \<Rightarrow> a)
      else a)"

record 'v HandlerOptions =
  ho_Level :: level
  ho_ReplaceAttr :: "'v Attr \<Rightarrow> 'v Attr"
  ho_AddSource :: bool

definition NewHandler :: "Config \<Rightarrow> 'v HandlerOptions" where
  "NewHandler cfg =
     (let level = parseLevel (lc_Level cfg)
      in \<lparr>ho_Level = level, ho_ReplaceAttr = ReplaceAttr, ho_AddSource = level \<le> LevelWarn\<rparr>)"

subsection \<open>Forwarding to several handlers\<close>

record ('h, 'r, 's, 'a) slog_ops =
  so_Enabled :: "'h \<Rightarrow> level \<Rightarrow> bool"
  so_Handle :: "'h \<Rightarrow> 'r \<Rightarrow> 's \<Rightarrow> 's \<times> string option"
  so_WithAttrs :: "'h \<Rightarrow> 'a list \<Rightarrow> 'h"
  so_WithGroup :: "'h \<Rightarrow> string \<Rightarrow> 'h"
  so_Level :: "'r \<Rightarrow> level"

datatype 'h slog_handler = LibHandler 'h | FanoutHandler "'h slog_handler list"

definition NewFanoutHandler :: "'h slog_handler list \<Rightarrow> 'h slog_handler" where
  "NewFanoutHandler handlers = FanoutHandler handlers"

fun log_Enabled :: "('h, 'r, 's, 'a) slog_ops \<Rightarrow> 'h slog_handler \<Rightarrow> level \<Rightarrow> bool"
  and fanout_Enabled :: "('h, 'r, 's, 'a) slog_ops \<Rightarrow> 'h slog_handler list \<Rightarrow> level \<Rightarrow> bool" where
  "log_Enabled ops (LibHandler h) level = so_Enabled ops h level"
| "log_Enabled ops (FanoutHandler hs) level = fanout_Enabled ops hs level"
| "fanout_Enabled ops [] level = False"
| "fanout_Enabled ops (h # hs) level = (if log_Enabled ops h level then True else fanout_Enabled ops hs level)"

fun log_Handle :: "('h, 'r, 's, 'a) slog_ops \<Rightarrow> 'h slog_handler \<Rightarrow> 'r \<Rightarrow> 's \<Rightarrow> 's \<times> string option"
  and fanout_Handle :: "('h, 'r, 's, 'a) slog_ops \<Rightarrow> 'h slog_handler list \<Rightarrow> 'r \<Rightarrow> 's \<Rightarrow> 's \<times> string option" where
  "log_Handle ops (LibHandler h) record s = so_Handle ops h record s"
| "log_Handle ops (FanoutHandler hs) record s = fanout_Handle ops hs record s"
| "fanout_Handle ops [] record s = (s, None)"
| "fanout_Handle ops (h # hs) record s =
     (if log_Enabled ops h (so_Level ops record) then
        (case log_Handle ops h record s of
           (s, Some err) \<Rightarrow> (s, Some err)
         | (s, None) \<Rightarrow> fanout_Handle ops hs record s)
      else fanout_Handle ops hs record s)"

fun log_WithAttrs :: "('h, 'r, 's, 'a) slog_ops \<Rightarrow> 'h slog_handler \<Rightarrow> 'a list \<Rightarrow> 'h slog_handler" where
  "log_WithAttrs ops (LibHandler h) attrs = LibHandler (so_WithAttrs ops h attrs)"
| "log_WithAttrs ops (FanoutHandler hs) attrs = NewFanoutHandler (map (\<lambda>h. log_WithAttrs ops h attrs) hs)"

fun log_WithGroup :: "('h, 'r, 's, 'a) slog_ops \<Rightarrow> 'h slog_handler \<Rightarrow> string \<Rightarrow> 'h slog_handler" where
  "log_WithGroup ops (LibHandler h) name = LibHandler (so_WithGroup ops h name)"
| "log_WithGroup ops (FanoutHandler hs) name = NewFanoutHandler (map (\<lambda>h. log_WithGroup ops h name) hs)"

subsection \<open>Properties\<close>

text \<open>The name of a parsed level is the upper case of the known names.\<close>

lemma level_names:
  "map (\<lambda>s. levelName (parseLevel s)) [''trace'', ''debug'', ''info'', ''warn'', ''error'', ''fatal'', ''WARN'', ''x'']
    = [''TRACE'', ''DEBUG'', ''INFO'', ''WARN'', ''ERROR'', ''FATAL'', ''WARN'', ''INFO'']"
  by code_simp

lemma levelName_mono_cases:
  "levelName l = ''TRACE'' \<longleftrightarrow> l < LevelDebug" "levelName l = ''FATAL'' \<longleftrightarrow> LevelFatal \<le> l"
  by (auto simp: levelName_def levels)

text \<open>The library handlers inside a handler, in order.\<close>

fun leaves :: "'h slog_handler \<Rightarrow> 'h list" where
  "leaves (LibHandler h) = [h]"
| "leaves (FanoutHandler hs) = concat (map leaves hs)"

lemma log_Enabled_leaves:
  "log_Enabled ops h level \<longleftrightarrow> (\<exists>b \<in> set (leaves h). so_Enabled ops b level)"
  "fanout_Enabled ops hs level \<longleftrightarrow> (\<exists>b \<in> set (leaves (FanoutHandler hs)). so_Enabled ops b level)"
  by (induction ops h level and ops hs level rule: log_Enabled_fanout_Enabled.induct) auto

text \<open>Handing a record to the enabled handlers of a list, up to the first error.\<close>

fun handle_each :: "('h, 'r, 's, 'a) slog_ops \<Rightarrow> 'h list \<Rightarrow> 'r \<Rightarrow> 's \<Rightarrow> 's \<times> string option" where
  "handle_each ops [] r s = (s, None)"
| "handle_each ops (b # bs) r s =
     (if so_Enabled ops b (so_Level ops r) then
        (let (s, err) = so_Handle ops b r s in if err \<noteq> None then (s, err) else handle_each ops bs r s)
      else handle_each ops bs r s)"

lemma handle_each_append:
  "handle_each ops (xs @ ys) r s = (let (s, err) = handle_each ops xs r s in if err \<noteq> None then (s, err) else handle_each ops ys r s)"
  by (induction xs arbitrary: s) (auto simp: Let_def split: prod.splits)

lemma handle_each_disabled: "\<forall>b \<in> set bs. \<not> so_Enabled ops b (so_Level ops r) \<Longrightarrow> handle_each ops bs r s = (s, None)"
  by (induction bs) auto

text \<open>
  However fan-out handlers are nested, a record reaches exactly the library handlers that are
  enabled for its level, in their order, up to the first that fails, whose error is returned: a
  handler that is not enabled never stops the others.
\<close>

theorem fanout_handles_leaves:
  "fanout_Handle ops hs r s = handle_each ops (leaves (FanoutHandler hs)) r s"
proof -
  have all: "(log_Enabled ops h (so_Level ops r) \<longrightarrow> log_Handle ops h r s = handle_each ops (leaves h) r s)"
    "fanout_Handle ops hs r s = handle_each ops (leaves (FanoutHandler hs)) r s" for ops h hs r s
  proof (induction ops h r s and ops hs r s rule: log_Handle_fanout_Handle.induct)
    case (4 ops h hs r s)
    show ?case
    proof (cases "log_Enabled ops h (so_Level ops r)")
      case True
      with 4 show ?thesis by (auto simp: handle_each_append split: prod.splits option.splits)
    next
      case False
      with 4 have "\<forall>b \<in> set (leaves h). \<not> so_Enabled ops b (so_Level ops r)" by (simp add: log_Enabled_leaves)
      from handle_each_disabled [OF this] 4 False show ?thesis by (simp add: handle_each_append)
    qed
  qed (auto split: prod.splits)
  show ?thesis by (rule all(2))
qed

end
