(* ===== verification/Telemetry.thy ===== *)
theory Telemetry
  imports Logger Http_Api
begin

text \<open>
  What \<open>flourish\<close> tells about itself: the loggers of \<open>logger/logger.go\<close>, the middleware of
  \<open>logger/middleware.go\<close> and the set-up of OpenTelemetry, \<open>otel/otel.go\<close>. The handlers of
  \<open>log/slog\<close> and the exporters are a library: \<open>slog_ops\<close> and \<open>otel_lib\<close> are its answers, and \<open>'s\<close>
  is the state its handlers write to (files, batches of the exporters).
\<close>

subsection \<open>Loggers\<close>

datatype log_value = LStr string | LInt int | LSeconds int

type_synonym log_attr = "string \<times> log_value"

record log_record =
  lr_Level :: level
  lr_Message :: string
  lr_Attrs :: "log_attr list"

type_synonym ('h, 's) logging = "('h, log_record, 's, log_attr) slog_ops"

text \<open>\<open>Logger.Log\<close> of the library: a handler that is not enabled gets no record, its error is dropped.\<close>

definition slog_Log :: "('h, 's) logging \<Rightarrow> 'h slog_handler \<Rightarrow> level \<Rightarrow> string \<Rightarrow> log_attr list \<Rightarrow> 's \<Rightarrow> 's" where
  "slog_Log ops log level msg attrs s =
     (if log_Enabled ops log level
      then fst (log_Handle ops log \<lparr>lr_Level = level, lr_Message = msg, lr_Attrs = attrs\<rparr> s)
      else s)"

definition service_attrs :: "Config \<Rightarrow> log_attr list" where
  "service_attrs cfg =
     [(''service.name'', LStr (lc_ServiceName cfg)),
      (''service.version'', LStr (lc_Version cfg)),
      (''deployment.environment'', LStr (lc_Environment cfg))]"

definition New_logger :: "('v HandlerOptions \<Rightarrow> 'h) \<Rightarrow> ('h, 's) logging \<Rightarrow> Config \<Rightarrow> 'h slog_handler" where
  "New_logger NewJSONHandler ops cfg =
     log_WithAttrs ops (LibHandler (NewJSONHandler (NewHandler cfg))) (service_attrs cfg)"

text \<open>The lines of the banner.\<close>

definition PrintBanner :: "string \<Rightarrow> Config \<Rightarrow> string \<Rightarrow> string \<Rightarrow> string list" where
  "PrintBanner now cfg address scyllaHost =
     [replicate 50 (CHR ''=''),
      '' Service:   '' @ lc_ServiceName cfg,
      '' Ver:       '' @ lc_Version cfg,
      '' Timestamp: '' @ now,
      '' ENV:       '' @ lc_Environment cfg,
      '' LogLevel:  '' @ lc_Level cfg,
      '' Address:   '' @ address]
     @ (if scyllaHost \<noteq> '''' then ['' Scylla:    '' @ scyllaHost] else [])
     @ [replicate 50 (CHR ''='')]"

subsection \<open>The middleware\<close>

text \<open>
  The writer of \<open>net/http\<close>: the first header that is not informational decides the status, a
  write without a header sends 200 first, and later headers are ignored.
\<close>

record 'b net_writer =
  nw_Status :: "nat option"
  nw_Body :: "'b list"

definition nw_WriteHeader :: "nat \<Rightarrow> 'b net_writer \<Rightarrow> 'b net_writer" where
  "nw_WriteHeader code w =
     (if nw_Status w \<noteq> None \<or> (100 \<le> code \<and> code < 200 \<and> code \<noteq> 101) then w else w\<lparr>nw_Status := Some code\<rparr>)"

definition nw_Write :: "'b \<Rightarrow> 'b net_writer \<Rightarrow> 'b net_writer" where
  "nw_Write b w =
     (let w = (if nw_Status w = None then w\<lparr>nw_Status := Some 200\<rparr> else w)
      in w\<lparr>nw_Body := nw_Body w @ [b]\<rparr>)"

definition sent_status :: "'b net_writer \<Rightarrow> nat" where
  "sent_status w = (case nw_Status w of None \<Rightarrow> 200 | Some code \<Rightarrow> code)"

record 'b responseWriter =
  rw_ResponseWriter :: "'b net_writer"
  rw_statusCode :: nat

definition rw_WriteHeader :: "nat \<Rightarrow> 'b responseWriter \<Rightarrow> 'b responseWriter" where
  "rw_WriteHeader code w =
     w\<lparr>rw_statusCode := code, rw_ResponseWriter := nw_WriteHeader code (rw_ResponseWriter w)\<rparr>"

definition rw_Unwrap :: "'b responseWriter \<Rightarrow> 'b net_writer" where
  "rw_Unwrap w = rw_ResponseWriter w"

text \<open>What a handler does with the writer it is given; \<open>Write\<close> is the method of the embedded writer.\<close>

datatype 'b writer_call = CallWriteHeader nat | CallWrite 'b

fun rw_call :: "'b responseWriter \<Rightarrow> 'b writer_call \<Rightarrow> 'b responseWriter" where
  "rw_call w (CallWriteHeader code) = rw_WriteHeader code w"
| "rw_call w (CallWrite b) = w\<lparr>rw_ResponseWriter := nw_Write b (rw_ResponseWriter w)\<rparr>"

fun nw_call :: "'b net_writer \<Rightarrow> 'b writer_call \<Rightarrow> 'b net_writer" where
  "nw_call w (CallWriteHeader code) = nw_WriteHeader code w"
| "nw_call w (CallWrite b) = nw_Write b w"

record http_info =
  hi_Method :: string
  hi_Path :: string
  hi_RemoteAddr :: string
  hi_UserAgent :: string
  hi_ContentLength :: int
  hi_requestId :: string
  hi_trace :: "(string \<times> string) option"
  hi_trace_after :: "(string \<times> string) option"
  hi_duration :: int

definition trace_attrs :: "(string \<times> string) option \<Rightarrow> log_attr list" where
  "trace_attrs span = (case span of None \<Rightarrow> []
     | Some (traceID, spanID) \<Rightarrow> [(''trace_id'', LStr traceID), (''span_id'', LStr spanID)])"

definition HTTPMiddleware ::
  "('h, 's) logging \<Rightarrow> 'h slog_handler \<Rightarrow> http_info \<Rightarrow> 'b writer_call list \<Rightarrow> 'b net_writer \<Rightarrow> 's \<Rightarrow> 'b net_writer \<times> 's" where
  "HTTPMiddleware ops log r serveNext w s =
     (let attrs = [(''http.request.method'', LStr (hi_Method r)), (''url.path'', LStr (hi_Path r)),
                   (''client.address'', LStr (hi_RemoteAddr r)), (''user_agent.original'', LStr (hi_UserAgent r)),
                   (''http.request.body.size'', LInt (hi_ContentLength r)), (''requestId'', LStr (hi_requestId r))]
                  @ trace_attrs (hi_trace r);
          s = slog_Log ops log LevelInfo ''request received'' attrs s;
          rw = foldl rw_call \<lparr>rw_ResponseWriter = w, rw_statusCode = 200\<rparr> serveNext;
          respAttrs = [(''http.request.method'', LStr (hi_Method r)), (''url.path'', LStr (hi_Path r)),
                       (''http.response.status_code'', LInt (int (rw_statusCode rw))),
                       (''http.server.request.duration'', LSeconds (hi_duration r)), (''requestId'', LStr (hi_requestId r))]
                      @ trace_attrs (hi_trace_after r)
      in (rw_ResponseWriter rw, slog_Log ops log LevelInfo ''response sent'' respAttrs s))"

text \<open>The calls by which the handlers answer a request.\<close>

definition response_calls :: "response \<Rightarrow> body writer_call list" where
  "response_calls resp = [CallWriteHeader (rp_Status resp), CallWrite (rp_Body resp)]"

text \<open>The middleware does not change what the client gets.\<close>

lemma rw_calls_transparent: "rw_ResponseWriter (foldl rw_call w calls) = foldl nw_call (rw_ResponseWriter w) calls"
proof (induction calls arbitrary: w)
  case (Cons call calls)
  then show ?case by (cases call) (simp_all add: rw_WriteHeader_def)
qed simp

text \<open>A handler that writes at most one header, a final one, and before its body.\<close>

fun plain_calls :: "'b writer_call list \<Rightarrow> bool" where
  "plain_calls [] = True"
| "plain_calls (CallWriteHeader code # calls) = ((200 \<le> code \<or> code = 101) \<and> (\<forall>c. CallWriteHeader c \<notin> set calls))"
| "plain_calls (CallWrite b # calls) = (\<forall>c. CallWriteHeader c \<notin> set calls)"

lemma writes_keep_status:
  assumes "\<forall>c. CallWriteHeader c \<notin> set calls" "nw_Status (rw_ResponseWriter w) = Some code"
  shows "nw_Status (rw_ResponseWriter (foldl rw_call w calls)) = Some code"
    "rw_statusCode (foldl rw_call w calls) = rw_statusCode w"
  using assms
proof (induction calls arbitrary: w)
  case (Cons call calls)
  case 1
  with Cons show ?case by (cases call) (auto simp: nw_Write_def Let_def)
next
  case (Cons call calls)
  case 2
  with Cons show ?case by (cases call) (auto simp: nw_Write_def Let_def)
qed simp_all

lemma middleware_status:
  assumes "plain_calls calls"
  shows "rw_statusCode (foldl rw_call \<lparr>rw_ResponseWriter = \<lparr>nw_Status = None, nw_Body = []\<rparr>, rw_statusCode = 200\<rparr> calls)
    = sent_status (foldl nw_call \<lparr>nw_Status = None, nw_Body = []\<rparr> calls)"
proof (cases calls)
  case (Cons call rest)
  let ?init = "\<lparr>rw_ResponseWriter = \<lparr>nw_Status = None, nw_Body = []\<rparr>, rw_statusCode = 200\<rparr>"
  let ?w = "rw_call ?init call"
  have "nw_Status (rw_ResponseWriter ?w) = Some (rw_statusCode ?w)" "\<forall>c. CallWriteHeader c \<notin> set rest"
    using assms Cons by (cases call; auto simp: rw_WriteHeader_def nw_WriteHeader_def nw_Write_def)+
  note kept = writes_keep_status [OF this(2,1)]
  have t: "foldl nw_call \<lparr>nw_Status = None, nw_Body = []\<rparr> calls = rw_ResponseWriter (foldl rw_call ?w rest)"
    using rw_calls_transparent [of ?init calls] Cons by simp
  show ?thesis unfolding t using kept Cons by (simp add: sent_status_def)
qed (simp add: sent_status_def)

text \<open>
  The answer of every handler reaches the client unchanged, and the second record of the
  middleware carries the status the client got.
\<close>

theorem middleware_logs_answer:
  assumes "200 \<le> rp_Status resp \<or> rp_Status resp = 101"
  shows "\<exists>attrs. HTTPMiddleware ops log r (response_calls resp) \<lparr>nw_Status = None, nw_Body = []\<rparr> s
      = (\<lparr>nw_Status = Some (rp_Status resp), nw_Body = [rp_Body resp]\<rparr>,
         slog_Log ops log LevelInfo ''response sent''
           ([(''http.request.method'', LStr (hi_Method r)), (''url.path'', LStr (hi_Path r)),
             (''http.response.status_code'', LInt (int (rp_Status resp))),
             (''http.server.request.duration'', LSeconds (hi_duration r)), (''requestId'', LStr (hi_requestId r))]
            @ trace_attrs (hi_trace_after r))
           (slog_Log ops log LevelInfo ''request received'' attrs s))"
  using assms
  by (auto simp: HTTPMiddleware_def response_calls_def rw_WriteHeader_def nw_WriteHeader_def nw_Write_def Let_def)

text \<open>A second header is ignored by the writer, and yet it is the status that is logged.\<close>

lemma superfluous_header_logged:
  "let rw = foldl rw_call \<lparr>rw_ResponseWriter = \<lparr>nw_Status = None, nw_Body = []\<rparr>, rw_statusCode = 200\<rparr>
              [CallWriteHeader 200, CallWriteHeader 500]
   in sent_status (rw_ResponseWriter rw) = 200 \<and> rw_statusCode rw = 500"
  by (simp add: rw_WriteHeader_def nw_WriteHeader_def sent_status_def)

subsection \<open>OpenTelemetry\<close>

text \<open>
  \<open>ol_resource\<close>, \<open>ol_traceExporter\<close> and \<open>ol_logExporter\<close> are the constructors of the SDK, which may
  fail with an error text; the last two fields are the \<open>Shutdown\<close> methods of the providers, which
  export what they have batched, and \<open>ol_bridge\<close> is the handler that sends records to the provider
  of logs. A provider is the pair of its exporter and its resource.
\<close>

record ('res, 'te, 'le, 'h, 's) otel_lib =
  ol_resource :: "(string \<times> string) list \<Rightarrow> string + 'res"
  ol_traceExporter :: "string \<Rightarrow> string + 'te"
  ol_logExporter :: "string \<Rightarrow> string + 'le"
  ol_bridge :: "string \<Rightarrow> 'le \<times> 'res \<Rightarrow> 'h"
  ol_ShutdownTracer :: "'te \<times> 'res \<Rightarrow> 's \<Rightarrow> 's"
  ol_ShutdownLogger :: "'le \<times> 'res \<Rightarrow> 's \<Rightarrow> 's"

record OtelConfig =
  oc_ServiceName :: string
  oc_ServiceVersion :: string
  oc_Environment :: string
  oc_OTLPEndpoint :: string

record ('res, 'te, 'le) Providers =
  pv_TracerProvider :: "('te \<times> 'res) option"
  pv_LoggerProvider :: "('le \<times> 'res) option"

text \<open>The global settings of the SDK.\<close>

record ('res, 'te) otel_global =
  og_TracerProvider :: "('te \<times> 'res) option"
  og_TextMapPropagator :: "string list"

definition Setup ::
  "('res, 'te, 'le, 'h, 's) otel_lib \<Rightarrow> OtelConfig \<Rightarrow> ('res, 'te) otel_global
     \<Rightarrow> ('res, 'te) otel_global \<times> (string + ('res, 'te, 'le) Providers)" where
  "Setup lib cfg g =
     (case ol_resource lib
             [(''service.name'', oc_ServiceName cfg),
              (''service.version'', oc_ServiceVersion cfg),
              (''deployment.environment'', oc_Environment cfg)] of
        Inl err \<Rightarrow> (g, Inl (''create resource: '' @ err))
      | Inr res \<Rightarrow>
     (case ol_traceExporter lib (oc_OTLPEndpoint cfg) of
        Inl err \<Rightarrow> (g, Inl (''create trace exporter: '' @ err))
      | Inr traceExporter \<Rightarrow>
          (let tp = (traceExporter, res);
               g = \<lparr>og_TracerProvider = Some tp, og_TextMapPropagator = [''tracecontext'', ''baggage'']\<rparr>
           in case ol_logExporter lib (oc_OTLPEndpoint cfg) of
                Inl err \<Rightarrow> (g, Inl (''create log exporter: '' @ err))
              | Inr logExporter \<Rightarrow>
                  (let lp = (logExporter, res)
                   in (g, Inr \<lparr>pv_TracerProvider = Some tp, pv_LoggerProvider = Some lp\<rparr>)))))"

definition Shutdown :: "('res, 'te, 'le, 'h, 's) otel_lib \<Rightarrow> ('res, 'te, 'le) Providers \<Rightarrow> 's \<Rightarrow> 's" where
  "Shutdown lib p s =
     (let s = (case pv_TracerProvider p of None \<Rightarrow> s | Some tp \<Rightarrow> ol_ShutdownTracer lib tp s)
      in case pv_LoggerProvider p of None \<Rightarrow> s | Some lp \<Rightarrow> ol_ShutdownLogger lib lp s)"

definition NewSlogHandler :: "('res, 'te, 'le, 'h, 's) otel_lib \<Rightarrow> 'le \<times> 'res \<Rightarrow> 'h" where
  "NewSlogHandler lib lp = ol_bridge lib ''crdt-blog'' lp"

text \<open>
  A set-up that succeeds has made the tracer the global one and gives both providers, with the same
  resource; one that fails on the log exporter leaves the tracer behind as the global one.
\<close>

lemma Setup_ok:
  assumes "Setup lib cfg g = (g', Inr p)"
  obtains te le res where "p = \<lparr>pv_TracerProvider = Some (te, res), pv_LoggerProvider = Some (le, res)\<rparr>"
    "og_TracerProvider g' = Some (te, res)" "ol_traceExporter lib (oc_OTLPEndpoint cfg) = Inr te"
    "ol_logExporter lib (oc_OTLPEndpoint cfg) = Inr le"
  using assms by (auto simp: Setup_def Let_def split: sum.splits)

lemma Setup_leaves_tracer:
  assumes "Setup lib cfg g = (g', Inl err)"
  shows "g' = g \<or> (\<exists>tp e. og_TracerProvider g' = Some tp \<and> err = ''create log exporter: '' @ e)"
  using assms by (auto simp: Setup_def Let_def split: sum.splits)

end
