(* ===== verification/Flourish_Process.thy ===== *)
theory Flourish_Process
  imports Flourish_Server Telemetry
begin

text \<open>
  The process of \<open>flourish\<close>: \<open>server.go\<close>, which listens until a signal comes, and \<open>main\<close> of
  \<open>cmd/main.go\<close> around the start of \<open>Flourish_Main\<close>: the telemetry, the logger, the exit code and
  the deferred shutdown of the telemetry. \<open>'s\<close> is what the handlers of the loggers write to. The
  lines that the projector logs while it restores are left out.
\<close>

subsection \<open>The HTTP server\<close>

datatype http_error = ErrServerClosed | HttpError string

record Server =
  srv_Addr :: string
  srv_ReadHeaderTimeout :: int

definition Server_New :: "string \<Rightarrow> Server" where
  "Server_New addr = \<lparr>srv_Addr = addr, srv_ReadHeaderTimeout = 10 * 1000000000\<rparr>"

text \<open>
  What ends \<open>Run\<close>: \<open>ListenAndServe\<close> returns, or a signal comes first and \<open>Shutdown\<close> returns within
  the five seconds it is given.
\<close>

datatype run_event = ListenReturns http_error | SignalReceived "http_error option"

definition Run :: "('h, 's) logging \<Rightarrow> 'h slog_handler \<Rightarrow> run_event \<Rightarrow> Server \<Rightarrow> 's \<Rightarrow> 's \<times> http_error option" where
  "Run ops log ev srv s =
     (let s = slog_Log ops log LevelInfo ''http server listening'' [(''address'', LStr (srv_Addr srv))] s
      in case ev of
           ListenReturns err \<Rightarrow> (s, if err \<noteq> ErrServerClosed then Some err else None)
         | SignalReceived shutdown \<Rightarrow>
             (slog_Log ops log LevelInfo ''shutdown signal received'' [] s, shutdown))"

subsection \<open>The main function\<close>

text \<open>
  \<open>ml_Default\<close> is the default logger of \<open>slog\<close>, \<open>ml_Stdout\<close> prints the lines of the banner at the
  time \<open>ml_now\<close>, \<open>ml_NewJSONHandler\<close> makes the handler for standard output, and \<open>ml_Error\<close> is the
  text of an error of the start.
\<close>

record ('res, 'te, 'le, 'h, 's) main_lib =
  ml_otel :: "('res, 'te, 'le, 'h, 's) otel_lib"
  ml_slog :: "('h, 's) logging"
  ml_Default :: "'h slog_handler"
  ml_NewJSONHandler :: "unit HandlerOptions \<Rightarrow> 'h"
  ml_Stdout :: "string list \<Rightarrow> 's \<Rightarrow> 's"
  ml_now :: string
  ml_Error :: "boot_error \<Rightarrow> string"
  ml_HttpError :: "http_error \<Rightarrow> string"

text \<open>The UTF-8 bytes of the words for initialisation error and for restoring error.\<close>

definition init_error :: string where
  "init_error = map char_of ([229, 136, 157, 230, 156, 159, 229, 140, 150, 227, 130, 168, 227, 131, 169, 227, 131, 188] :: nat list)"

definition restore_error :: string where
  "restore_error = map char_of ([229, 190, 169, 229, 133, 131, 227, 130, 168, 227, 131, 169, 227, 131, 188] :: nat list)"

fun boot_message :: "boot_error \<Rightarrow> string" where
  "boot_message BootEntryStore = ''entry store'' @ init_error"
| "boot_message BootEventStore = ''event store'' @ init_error"
| "boot_message BootRGAStateStore = ''rga state store'' @ init_error"
| "boot_message BootRestore = ''projector'' @ restore_error"
| "boot_message BootCFAccess = ''CF Access'' @ init_error"

text \<open>The lines about authentication: it is on with the team domain, or off because a variable is not set.\<close>

definition auth_log :: "('h, 's) logging \<Rightarrow> 'h slog_handler \<Rightarrow> Auth option \<Rightarrow> 's \<Rightarrow> 's" where
  "auth_log ops log auth s =
     (case auth of
        Some a \<Rightarrow> slog_Log ops log LevelInfo
          (''CF Access'' @ map char_of ([232, 170, 141, 232, 168, 188, 230, 156, 137, 229, 138, 185] :: nat list))
          [(''teamDomain'', LStr (au_teamDomain a))] s
      | None \<Rightarrow> slog_Log ops log LevelInfo
          (map char_of ([232, 170, 141, 232, 168, 188, 231, 132, 161, 229, 138, 185, 239, 188, 136] :: nat list)
             @ ''CF_ACCESS_TEAM_DOMAIN/CF_ACCESS_AUDIENCE''
             @ map char_of ([230, 156, 170, 232, 168, 173, 229, 174, 154, 239, 188, 137] :: nat list)) [] s)"

definition main_config :: "(string \<Rightarrow> string) \<Rightarrow> Config" where
  "main_config getenv =
     \<lparr>lc_Level = envOrDefault getenv ''LOG_LEVEL'' ''info'', lc_ServiceName = ''crdt-blog'',
      lc_Version = ''v0.1.0'', lc_Environment = envOrDefault getenv ''ENV'' ''development''\<rparr>"

definition main_telemetry ::
  "('res, 'te, 'le, 'h, 's) otel_lib \<Rightarrow> (string \<Rightarrow> string) \<Rightarrow> Config \<Rightarrow> ('res, 'te) otel_global
     \<Rightarrow> ('res, 'te) otel_global \<times> (string + ('res, 'te, 'le) Providers option)" where
  "main_telemetry lib getenv cfg g =
     (let otlpEndpoint = getenv ''OTEL_EXPORTER_OTLP_ENDPOINT''
      in if otlpEndpoint \<noteq> '''' then
           (case Setup lib \<lparr>oc_ServiceName = lc_ServiceName cfg, oc_ServiceVersion = lc_Version cfg,
                            oc_Environment = lc_Environment cfg, oc_OTLPEndpoint = otlpEndpoint\<rparr> g of
              (g', Inl err) \<Rightarrow> (g', Inl err)
            | (g', Inr providers) \<Rightarrow> (g', Inr (Some providers)))
         else (g, Inr None))"

definition main_logger ::
  "('res, 'te, 'le, 'h, 's) main_lib \<Rightarrow> Config \<Rightarrow> ('res, 'te, 'le) Providers option \<Rightarrow> 'h slog_handler" where
  "main_logger lib cfg otelProviders =
     (case otelProviders of
        Some p \<Rightarrow>
          (let localHandler = LibHandler (ml_NewJSONHandler lib (NewHandler cfg));
               otelHandler = LibHandler (NewSlogHandler (ml_otel lib) (the (pv_LoggerProvider p)))
           in log_WithAttrs (ml_slog lib) (NewFanoutHandler [localHandler, otelHandler]) (service_attrs cfg))
      | None \<Rightarrow> New_logger (ml_NewJSONHandler lib) (ml_slog lib) cfg)"

text \<open>
  \<open>os.Exit\<close> does not run deferred functions: only a \<open>main\<close> that returns, with exit code 0, shuts the
  telemetry down. \<open>None\<close> is a restoring of the projector that does not end.
\<close>

definition main ::
  "('res, 'te, 'le, 'h, 's) main_lib \<Rightarrow> event_codec \<Rightarrow> proj_codec \<Rightarrow> boot_env \<Rightarrow> data_dir \<Rightarrow> run_event
     \<Rightarrow> ('res, 'te) otel_global \<Rightarrow> 's \<Rightarrow> ('s \<times> nat) option" where
  "main lib ecdc cdc env d ev g s =
     (let getenv = be_getenv env; ops = ml_slog lib;
          addr = envOrDefault getenv ''ADDRESS'' '':8080'';
          cfg = main_config getenv
      in case snd (main_telemetry (ml_otel lib) getenv cfg g) of
           Inl err \<Rightarrow>
             Some (slog_Log ops (ml_Default lib) LevelError (''OTel'' @ init_error) [(''error'', LStr err)] s, 1)
         | Inr otelProviders \<Rightarrow>
             (let log = main_logger lib cfg otelProviders;
                  s = ml_Stdout lib (PrintBanner (ml_now lib) cfg addr '''') s
              in case flourish_boot ecdc cdc env d of
                   None \<Rightarrow> None
                 | Some (Inl err) \<Rightarrow>
                     Some (slog_Log ops log LevelError (boot_message err) [(''error'', LStr (ml_Error lib err))] s, 1)
                 | Some (Inr srv) \<Rightarrow>
                     (case Run ops log ev (Server_New (fs_addr srv)) (auth_log ops log (fs_auth srv) s) of
                        (s, Some err) \<Rightarrow>
                          Some (slog_Log ops log LevelError ''server error'' [(''error'', LStr (ml_HttpError lib err))] s, 1)
                      | (s, None) \<Rightarrow>
                          Some (case otelProviders of None \<Rightarrow> s | Some p \<Rightarrow> Shutdown (ml_otel lib) p s, 0))))"

subsection \<open>Properties\<close>

text \<open>How \<open>main\<close> can end.\<close>

lemma main_cases:
  assumes "main lib ecdc cdc env d ev g s = Some (s', code)"
  obtains (telemetry) err where "snd (main_telemetry (ml_otel lib) (be_getenv env) (main_config (be_getenv env)) g) = Inl err" "code = 1"
    | (boot) p err where "snd (main_telemetry (ml_otel lib) (be_getenv env) (main_config (be_getenv env)) g) = Inr p"
        "flourish_boot ecdc cdc env d = Some (Inl err)" "code = 1"
    | (run) p srv err where "snd (main_telemetry (ml_otel lib) (be_getenv env) (main_config (be_getenv env)) g) = Inr p"
        "flourish_boot ecdc cdc env d = Some (Inr srv)" "ev = ListenReturns err \<and> err \<noteq> ErrServerClosed \<or> ev = SignalReceived (Some err)" "code = 1"
    | (ends) p srv s1 where "snd (main_telemetry (ml_otel lib) (be_getenv env) (main_config (be_getenv env)) g) = Inr p"
        "flourish_boot ecdc cdc env d = Some (Inr srv)" "ev = ListenReturns ErrServerClosed \<or> ev = SignalReceived None"
        "s' = (case p of None \<Rightarrow> s1 | Some p \<Rightarrow> Shutdown (ml_otel lib) p s1)" "code = 0"
proof (cases "snd (main_telemetry (ml_otel lib) (be_getenv env) (main_config (be_getenv env)) g)")
  case (Inl err)
  with assms show thesis by (intro telemetry) (auto simp: main_def)
next
  case (Inr p)
  note tel = this
  obtain r where r: "flourish_boot ecdc cdc env d = Some r"
    using assms Inr by (cases "flourish_boot ecdc cdc env d") (auto simp: main_def Let_def)
  show thesis
  proof (cases r)
    case (Inl err)
    with assms tel r show thesis by (intro boot [of p err]) (auto simp: main_def Let_def)
  next
    case (Inr srv)
    obtain s1 e where fin: "Run (ml_slog lib) (main_logger lib (main_config (be_getenv env)) p) ev (Server_New (fs_addr srv))
        (auth_log (ml_slog lib) (main_logger lib (main_config (be_getenv env)) p) (fs_auth srv)
          (ml_Stdout lib (PrintBanner (ml_now lib) (main_config (be_getenv env)) (envOrDefault (be_getenv env) ''ADDRESS'' '':8080'') '''') s))
        = (s1, e)" by fastforce
    show thesis
    proof (cases e)
      case None
      with assms tel r Inr fin have "s' = (case p of None \<Rightarrow> s1 | Some p \<Rightarrow> Shutdown (ml_otel lib) p s1)" "code = 0"
        by (auto simp: main_def Let_def)
      moreover have "ev = ListenReturns ErrServerClosed \<or> ev = SignalReceived None"
        using fin None by (cases ev) (auto simp: Run_def Let_def split: if_splits)
      ultimately show thesis using tel r Inr by (intro ends) simp_all
    next
      case (Some err)
      with assms tel r Inr fin have "code = 1" by (auto simp: main_def Let_def)
      moreover have "ev = ListenReturns err \<and> err \<noteq> ErrServerClosed \<or> ev = SignalReceived (Some err)"
        using fin Some by (cases ev) (auto simp: Run_def Let_def split: if_splits)
      ultimately show thesis using tel r Inr by (intro run) simp_all
    qed
  qed
qed

lemma main_exit_code:
  assumes "main lib ecdc cdc env d ev g s = Some (s', code)"
  shows "code = 0 \<longleftrightarrow> (\<exists>p srv. snd (main_telemetry (ml_otel lib) (be_getenv env) (main_config (be_getenv env)) g) = Inr p
    \<and> flourish_boot ecdc cdc env d = Some (Inr srv) \<and> (ev = ListenReturns ErrServerClosed \<or> ev = SignalReceived None))"
  using assms by (cases rule: main_cases) auto

text \<open>Records that a handler only takes in leave a part of the state unchanged.\<close>

lemma handle_each_keeps:
  assumes "\<And>h r s. exported (fst (so_Handle ops h r s)) = exported s"
  shows "exported (fst (handle_each ops bs r s)) = exported s"
proof (induction bs arbitrary: s)
  case (Cons b bs)
  show ?case
  proof (cases "so_Handle ops b r s")
    case (Pair s1 err)
    then have "exported s1 = exported s" using assms [of b r s] by simp
    with Cons [of s1] Cons [of s] Pair show ?thesis by (simp add: Let_def)
  qed
qed simp

lemma slog_Log_keeps:
  assumes "\<And>h r s. exported (fst (so_Handle ops h r s)) = exported s"
  shows "exported (slog_Log ops log level msg attrs s) = exported s"
proof (cases log)
  case (FanoutHandler hs)
  then show ?thesis
    using handle_each_keeps [where exported = exported and ops = ops and bs = "leaves (FanoutHandler hs)", OF assms]
    by (simp add: slog_Log_def fanout_handles_leaves)
qed (simp add: slog_Log_def assms)

text \<open>
  C22: A start that fails loses its telemetry. When the telemetry is set up and the start then fails, \<open>main\<close>
  logs the error through its handlers and exits with code 1 without the deferred \<open>Shutdown\<close>: whatever the
  providers would do there, nothing that the handlers only batch has been exported by \<open>main\<close>.
\<close>

theorem exit_skips_shutdown:
  assumes "\<And>h r s. exported (fst (so_Handle (ml_slog lib) h r s)) = exported s"
    and "\<And>ls s. exported (ml_Stdout lib ls s) = exported s"
    and "snd (main_telemetry (ml_otel lib) (be_getenv env) (main_config (be_getenv env)) g) = Inr (Some p)"
    and "flourish_boot ecdc cdc env d = Some (Inl err)"
  shows "\<exists>s'. (\<forall>f1 f2. main (lib\<lparr>ml_otel := (ml_otel lib)\<lparr>ol_ShutdownTracer := f1, ol_ShutdownLogger := f2\<rparr>\<rparr>)
        ecdc cdc env d ev g s = Some (s', 1))
    \<and> exported s' = exported s"
proof -
  define log where "log = main_logger lib (main_config (be_getenv env)) (Some p)"
  define s1 where "s1 = ml_Stdout lib (PrintBanner (ml_now lib) (main_config (be_getenv env))
    (envOrDefault (be_getenv env) ''ADDRESS'' '':8080'') '''') s"
  define s' where "s' = slog_Log (ml_slog lib) log LevelError (boot_message err) [(''error'', LStr (ml_Error lib err))] s1"
  have "main (lib\<lparr>ml_otel := (ml_otel lib)\<lparr>ol_ShutdownTracer := f1, ol_ShutdownLogger := f2\<rparr>\<rparr>) ecdc cdc env d ev g s = Some (s', 1)"
    for f1 f2
  proof -
    let ?o = "(ml_otel lib)\<lparr>ol_ShutdownTracer := f1, ol_ShutdownLogger := f2\<rparr>"
    let ?lib = "lib\<lparr>ml_otel := ?o\<rparr>"
    have "main_telemetry ?o (be_getenv env) cfg g = main_telemetry (ml_otel lib) (be_getenv env) cfg g" for cfg
      by (simp add: main_telemetry_def Setup_def Let_def cong: sum.case_cong)
    moreover have "main_logger ?lib cfg q = main_logger lib cfg q" for cfg q
      by (simp add: main_logger_def NewSlogHandler_def split: option.splits)
    ultimately show ?thesis
      using assms(3,4) by (simp add: main_def s'_def s1_def log_def Let_def)
  qed
  moreover have "exported s' = exported s"
    using slog_Log_keeps [where exported = exported, OF assms(1)] assms(2) by (simp add: s'_def s1_def)
  ultimately show ?thesis by blast
qed

text \<open>
  Sinks: the lines of standard output, and the batch of the exporter, which \<open>Shutdown\<close> moves out. The
  directory of the entries cannot be made.
\<close>

record ex_sinks =
  sk_Stdout :: "string list"
  sk_Batch :: "string list"
  sk_Exported :: "string list"

definition ex_slog :: "(bool, ex_sinks) logging" where
  "ex_slog = \<lparr>so_Enabled = (\<lambda>_ level. level \<ge> LevelInfo),
     so_Handle = (\<lambda>bridge r s. (if bridge then s\<lparr>sk_Batch := sk_Batch s @ [lr_Message r]\<rparr>
                                else s\<lparr>sk_Stdout := sk_Stdout s @ [lr_Message r]\<rparr>, None)),
     so_WithAttrs = (\<lambda>h _. h), so_WithGroup = (\<lambda>h _. h), so_Level = lr_Level\<rparr>"

definition ex_main_lib :: "(unit, unit, unit, bool, ex_sinks) main_lib" where
  "ex_main_lib = \<lparr>ml_otel = \<lparr>ol_resource = (\<lambda>_. Inr ()), ol_traceExporter = (\<lambda>_. Inr ()), ol_logExporter = (\<lambda>_. Inr ()),
       ol_bridge = (\<lambda>_ _. True), ol_ShutdownTracer = (\<lambda>_ s. s),
       ol_ShutdownLogger = (\<lambda>_ s. s\<lparr>sk_Exported := sk_Exported s @ sk_Batch s, sk_Batch := []\<rparr>)\<rparr>,
     ml_slog = ex_slog, ml_Default = LibHandler False, ml_NewJSONHandler = (\<lambda>_. False),
     ml_Stdout = (\<lambda>_ s. s), ml_now = [], ml_Error = (\<lambda>_. ''mkdir''), ml_HttpError = (\<lambda>_. [])\<rparr>"

definition ex_tele_env :: boot_env where
  "ex_tele_env = ex_boot_env\<lparr>be_mkdir_entries := False,
     be_getenv := (\<lambda>k. if k = ''OTEL_EXPORTER_OTLP_ENDPOINT'' then ''localhost:4317'' else '''')\<rparr>"

theorem exit_skips_shutdown_witness:
  "\<exists>s'. main ex_main_lib ex_codec ex_restart_codec ex_tele_env \<lparr>dd_entries = Map.empty, dd_events = Map.empty,
        dd_snaps = Map.empty, dd_markdown = Map.empty\<rparr> (SignalReceived None) \<lparr>og_TracerProvider = None, og_TextMapPropagator = []\<rparr>
        \<lparr>sk_Stdout = [], sk_Batch = [], sk_Exported = []\<rparr> = Some (s', 1)
    \<and> sk_Exported s' = [] \<and> sk_Batch s' = [''entry store'' @ init_error]"
proof -
  let ?d = "\<lparr>dd_entries = Map.empty, dd_events = Map.empty, dd_snaps = Map.empty, dd_markdown = Map.empty\<rparr>"
  let ?g = "\<lparr>og_TracerProvider = None, og_TextMapPropagator = []\<rparr> :: (unit, unit) otel_global"
  let ?s = "\<lparr>sk_Stdout = [], sk_Batch = [], sk_Exported = []\<rparr>"
  have quiet: "sk_Exported (fst (so_Handle (ml_slog ex_main_lib) h r s)) = sk_Exported s"
    "sk_Exported (ml_Stdout ex_main_lib ls s) = sk_Exported s" for h r s ls
    by (simp_all add: ex_main_lib_def ex_slog_def)
  have tel: "snd (main_telemetry (ml_otel ex_main_lib) (be_getenv ex_tele_env) (main_config (be_getenv ex_tele_env)) ?g)
      = Inr (Some \<lparr>pv_TracerProvider = Some ((), ()), pv_LoggerProvider = Some ((), ())\<rparr>)"
    by (simp add: main_telemetry_def Setup_def ex_main_lib_def ex_tele_env_def Let_def)
  have boot: "flourish_boot ex_codec ex_restart_codec ex_tele_env ?d = Some (Inl BootEntryStore)"
    by (simp add: flourish_boot_def NewFileEntryStore_def ex_tele_env_def Let_def)
  obtain s' where s': "main ex_main_lib ex_codec ex_restart_codec ex_tele_env ?d (SignalReceived None) ?g ?s = Some (s', 1)"
    "sk_Exported s' = []"
  proof -
    from exit_skips_shutdown [where exported = sk_Exported, OF quiet tel boot, of "SignalReceived None" ?s] obtain s' where
      r: "\<And>f1 f2. main (ex_main_lib\<lparr>ml_otel := (ml_otel ex_main_lib)\<lparr>ol_ShutdownTracer := f1, ol_ShutdownLogger := f2\<rparr>\<rparr>)
        ex_codec ex_restart_codec ex_tele_env ?d (SignalReceived None) ?g ?s = Some (s', 1)" "sk_Exported s' = sk_Exported ?s" by blast
    have "ex_main_lib\<lparr>ml_otel := (ml_otel ex_main_lib)\<lparr>ol_ShutdownTracer := ol_ShutdownTracer (ml_otel ex_main_lib),
        ol_ShutdownLogger := ol_ShutdownLogger (ml_otel ex_main_lib)\<rparr>\<rparr> = ex_main_lib" by simp
    with r(1) [of "ol_ShutdownLogger (ml_otel ex_main_lib)" "ol_ShutdownTracer (ml_otel ex_main_lib)"] r(2) show thesis
      by (intro that [of s']) simp_all
  qed
  have log: "main_logger ex_main_lib cfg (Some p) = FanoutHandler [LibHandler False, LibHandler True]" for cfg p
    by (simp add: main_logger_def NewFanoutHandler_def NewSlogHandler_def ex_main_lib_def ex_slog_def)
  have "s' = slog_Log ex_slog (FanoutHandler [LibHandler False, LibHandler True]) LevelError (''entry store'' @ init_error)
      [(''error'', LStr ''mkdir'')] ?s"
    using s'(1) tel boot log by (simp add: main_def ex_main_lib_def Let_def)
  then have "sk_Batch s' = [''entry store'' @ init_error]"
    by (simp add: slog_Log_def ex_slog_def levels Let_def)
  with s' show ?thesis by blast
qed

end
