(* ===== verification/Float32.thy ===== *)
theory Float32
  imports Prelude
begin

unbundle bit_operations_syntax

text \<open>
  Go's \<open>float32\<close> arithmetic as the game uses it: IEEE 754 binary32 with rounding to the nearest
  value, ties to even. A \<open>float32\<close> is its bit pattern. Every finite value is a multiple of
  \<open>2 ^ -149\<close>, so magnitudes are natural numbers in this unit and \<open>round_mag n d\<close> rounds the
  exact quotient \<open>n / d\<close> of such numbers; all operations are executable.

  \<^item> An operation is evaluated and rounded on its own, as Go does on its baseline targets
    (the language lets an implementation fuse a product with a sum; the model does not).
  \<^item> The result of an invalid operation is the one NaN \<open>f32_nan\<close>; the hardware chooses
    among the NaN patterns.
  \<^item> \<open>f32_sqrt\<close> is \<open>float32(math.Sqrt(float64(x)))\<close>: the root is rounded to 53 bits and the
    result to 24. The root of a positive \<open>float32\<close> lies well within the normal range of
    \<open>float64\<close>.

  The lemmas at the end show that rounding is monotone and exact on representable values, which
  is what bounds on computed positions need.
\<close>

type_synonym float32 = u32

subsection \<open>Magnitudes\<close>

text \<open>The number of binary digits.\<close>

fun blen :: "nat \<Rightarrow> nat" where
  "blen n = (if n = 0 then 0 else Suc (blen (n div 2)))"

declare blen.simps [simp del]

text \<open>The quotient rounded to the nearest natural number, ties to even.\<close>

definition rne :: "nat \<Rightarrow> nat \<Rightarrow> nat" where
  "rne n d =
     (let q = n div d; r = n mod d
      in if 2 * r < d then q else if d < 2 * r then Suc q else if even q then q else Suc q)"

definition inf_mag :: nat where "inf_mag = 0x7F800000"

text \<open>
  The bit pattern, without sign, of \<open>n / d\<close> units: \<open>sh\<close> low bits are dropped so that 24 remain,
  and since the leading bit of a normal number is hidden, \<open>sh * 2 ^ 23\<close> plus the rounded
  significand is the pattern in every case, a carry into the exponent included.
\<close>

definition round_mag :: "nat \<Rightarrow> nat \<Rightarrow> nat" where
  "round_mag n d =
     (let sh = blen (n div d) - 24
      in min inf_mag (sh * 2 ^ 23 + rne n (d * 2 ^ sh)))"

definition mag_val :: "nat \<Rightarrow> nat" where
  "mag_val b =
     (let e = b div 2 ^ 23; f = b mod 2 ^ 23
      in if e = 0 then f else (2 ^ 23 + f) * 2 ^ (e - 1))"

text \<open>The integer square root, one binary digit of the root at a time.\<close>

fun isqrt :: "nat \<Rightarrow> nat" where
  "isqrt n =
     (if n = 0 then 0
      else let r = 2 * isqrt (n div 4) in if (r + 1) * (r + 1) \<le> n then r + 1 else r)"

declare isqrt.simps [simp del]

subsection \<open>Patterns\<close>

definition f32_sign :: "float32 \<Rightarrow> bool" where
  "f32_sign x \<longleftrightarrow> bit x 31"

definition f32_mag :: "float32 \<Rightarrow> nat" where
  "f32_mag x = unat (take_bit 31 x)"

definition f32_make :: "bool \<Rightarrow> nat \<Rightarrow> float32" where
  "f32_make s m = (if s then 0x80000000 else 0) OR of_nat m"

definition f32_nan :: float32 where "f32_nan = 0x7FC00000"

definition is_nan :: "float32 \<Rightarrow> bool" where
  "is_nan x \<longleftrightarrow> inf_mag < f32_mag x"

definition is_inf :: "float32 \<Rightarrow> bool" where
  "is_inf x \<longleftrightarrow> f32_mag x = inf_mag"

definition is_finite :: "float32 \<Rightarrow> bool" where
  "is_finite x \<longleftrightarrow> f32_mag x < inf_mag"

text \<open>The signed value in units of \<open>2 ^ -149\<close>, and the position of a pattern in the order.\<close>

definition f32_int :: "float32 \<Rightarrow> int" where
  "f32_int x = (if f32_sign x then - int (mag_val (f32_mag x)) else int (mag_val (f32_mag x)))"

definition f32_key :: "float32 \<Rightarrow> int" where
  "f32_key x = (if f32_sign x then - int (f32_mag x) else int (f32_mag x))"

subsection \<open>Operations\<close>

definition f32_neg :: "float32 \<Rightarrow> float32" where
  "f32_neg x = x XOR 0x80000000"

definition f32_add :: "float32 \<Rightarrow> float32 \<Rightarrow> float32" where
  "f32_add a b =
     (if is_nan a \<or> is_nan b then f32_nan
      else if is_inf a then (if is_inf b \<and> f32_sign a \<noteq> f32_sign b then f32_nan else a)
      else if is_inf b then b
      else let s = f32_int a + f32_int b
           in if s = 0 then f32_make (f32_sign a \<and> f32_sign b) 0
              else f32_make (s < 0) (round_mag (nat \<bar>s\<bar>) 1))"

definition f32_sub :: "float32 \<Rightarrow> float32 \<Rightarrow> float32" where
  "f32_sub a b = f32_add a (f32_neg b)"

definition f32_mul :: "float32 \<Rightarrow> float32 \<Rightarrow> float32" where
  "f32_mul a b =
     (let s = (f32_sign a \<noteq> f32_sign b)
      in if is_nan a \<or> is_nan b \<or> is_inf a \<and> f32_mag b = 0 \<or> is_inf b \<and> f32_mag a = 0 then f32_nan
         else if is_inf a \<or> is_inf b then f32_make s inf_mag
         else f32_make s (round_mag (mag_val (f32_mag a) * mag_val (f32_mag b)) (2 ^ 149)))"

definition f32_div :: "float32 \<Rightarrow> float32 \<Rightarrow> float32" where
  "f32_div a b =
     (let s = (f32_sign a \<noteq> f32_sign b)
      in if is_nan a \<or> is_nan b \<or> is_inf a \<and> is_inf b \<or> f32_mag a = 0 \<and> f32_mag b = 0 then f32_nan
         else if is_inf a \<or> f32_mag b = 0 then f32_make s inf_mag
         else if is_inf b then f32_make s 0
         else f32_make s (round_mag (mag_val (f32_mag a) * 2 ^ 149) (mag_val (f32_mag b))))"

text \<open>
  \<open>float32(math.Sqrt(float64(x)))\<close>. With \<open>N = v * 2 ^ 121\<close> for \<open>v\<close> units, the root is
  \<open>sqrt N * 2 ^ -135\<close>. The last bit of \<open>2 * s + sticky\<close> says that the root is above \<open>s\<close>,
  which decides ties; \<open>2 ^ 14\<close> converts to units.
\<close>

definition sqrt_mag :: "nat \<Rightarrow> nat" where
  "sqrt_mag v =
     (let N = v * 2 ^ 121; s = isqrt N; t = blen s - 53;
          q = rne (2 * s + (if s * s = N then 0 else 1)) (2 * 2 ^ t)
      in round_mag (q * 2 ^ t * 2 ^ 14) 1)"

definition f32_sqrt :: "float32 \<Rightarrow> float32" where
  "f32_sqrt x =
     (if is_nan x then f32_nan
      else if f32_mag x = 0 then x
      else if f32_sign x then f32_nan
      else if is_inf x then x
      else f32_make False (sqrt_mag (mag_val (f32_mag x))))"

definition f32_lt :: "float32 \<Rightarrow> float32 \<Rightarrow> bool" where
  "f32_lt a b \<longleftrightarrow> \<not> is_nan a \<and> \<not> is_nan b \<and> f32_key a < f32_key b"

definition f32_le :: "float32 \<Rightarrow> float32 \<Rightarrow> bool" where
  "f32_le a b \<longleftrightarrow> \<not> is_nan a \<and> \<not> is_nan b \<and> f32_key a \<le> f32_key b"

definition f32_eq :: "float32 \<Rightarrow> float32 \<Rightarrow> bool" where
  "f32_eq a b \<longleftrightarrow> \<not> is_nan a \<and> \<not> is_nan b \<and> f32_key a = f32_key b"

text \<open>Constants written as decimal fractions, and the conversion \<open>float32(n)\<close> of an integer.\<close>

definition f32_ratio :: "nat \<Rightarrow> nat \<Rightarrow> float32" where
  "f32_ratio n d = f32_make False (round_mag (n * 2 ^ 149) d)"

definition f32_of_int :: "int \<Rightarrow> float32" where
  "f32_of_int n = f32_make (n < 0) (round_mag (nat \<bar>n\<bar> * 2 ^ 149) 1)"

subsection \<open>Rounding is monotone and exact\<close>

lemma blen_bounds: "0 < n \<Longrightarrow> 2 ^ (blen n - 1) \<le> n \<and> n < 2 ^ blen n \<and> 0 < blen n"
proof (induction n rule: blen.induct)
  case (1 n)
  show ?case
  proof (cases "n div 2 = 0")
    case True
    with 1(2) have "n = 1" by auto
    moreover have "blen (Suc 0) = Suc 0" by (simp add: blen.simps [of "Suc 0"] blen.simps [of 0])
    ultimately show ?thesis by simp
  next
    case False
    then have "2 ^ (blen (n div 2) - 1) \<le> n div 2" "n div 2 < 2 ^ blen (n div 2)" "0 < blen (n div 2)"
      using 1 by auto
    moreover from this obtain k where "blen (n div 2) = Suc k" by (cases "blen (n div 2)") auto
    ultimately show ?thesis using 1(2) by (subst (1 2 3) blen.simps) auto
  qed
qed

lemma blen_0 [simp]: "blen 0 = 0"
  by (simp add: blen.simps)

lemma blen_eq: "2 ^ k \<le> n \<Longrightarrow> n < 2 ^ Suc k \<Longrightarrow> blen n = Suc k"
proof -
  assume *: "2 ^ k \<le> n" "n < 2 ^ Suc k"
  then have pos: "0 < n" using zero_less_power [of "2 :: nat" k] by linarith
  note b = blen_bounds [OF this]
  have "2 ^ k < (2 :: nat) ^ blen n" "2 ^ (blen n - 1) < (2 :: nat) ^ Suc k" using * b by linarith+
  then have "k < blen n" "blen n - 1 < Suc k" by (simp_all only: power_less_imp_less_exp power_strict_increasing_iff)
  with b show ?thesis by linarith
qed

lemma blen_le: "n < 2 ^ k \<Longrightarrow> blen n \<le> k"
proof (cases "n = 0")
  case False
  assume "n < 2 ^ k"
  with False have "2 ^ (blen n - 1) < (2 :: nat) ^ k" using blen_bounds [of n] by linarith
  then have "blen n - 1 < k" by (rule power_less_imp_less_exp [rotated]) simp
  then show ?thesis by linarith
qed simp

lemma blen_mono: "m \<le> n \<Longrightarrow> blen m \<le> blen n"
  using blen_bounds [of n] by (cases "n = 0") (auto intro: blen_le)

lemma rne_le_iff:
  assumes "0 < d"
  shows "rne n d \<le> k \<longleftrightarrow> 2 * n < (2 * k + 1) * d \<or> 2 * n = (2 * k + 1) * d \<and> even k"
proof -
  define q r where "q = n div d" and "r = n mod d"
  have n: "n = q * d + r" and r: "r < d" using assms by (simp_all add: q_def r_def)
  have e: "rne n d = (if 2 * r < d \<or> 2 * r = d \<and> even q then q else Suc q)"
    by (auto simp: rne_def q_def r_def Let_def)
  consider "k < q" | "k = q" | "q < k" by linarith
  then show ?thesis
  proof cases
    case 1
    then have "(2 * k + 1) * d < 2 * q * d" using assms by (intro mult_strict_right_mono) auto
    then show ?thesis using 1 e n by auto
  next
    case 2
    then show ?thesis using e n by (auto simp: algebra_simps)
  next
    case 3
    then have "(2 * q + 3) * d \<le> (2 * k + 1) * d" by (intro mult_right_mono) auto
    then have "2 * n < (2 * k + 1) * d" using n r by (simp add: algebra_simps)
    then show ?thesis using 3 e by auto
  qed
qed

lemma rne_mono:
  assumes "n * d' \<le> n' * d" "0 < d" "0 < d'"
  shows "rne n d \<le> rne n' d'"
proof -
  define k where "k = rne n' d'"
  have "2 * n' < (2 * k + 1) * d' \<or> 2 * n' = (2 * k + 1) * d' \<and> even k"
    using rne_le_iff [OF assms(3), of n' k] by (simp add: k_def)
  moreover have "2 * n < (2 * k + 1) * d" if "2 * n' < (2 * k + 1) * d'"
  proof -
    have "2 * (n * d') \<le> 2 * n' * d" using assms(1) by simp
    also have "\<dots> < (2 * k + 1) * d' * d" using that assms(2) by (intro mult_strict_right_mono) auto
    finally have "(2 * n) * d' < ((2 * k + 1) * d) * d'" by (simp add: algebra_simps)
    then show ?thesis by (simp only: mult_less_cancel2) 
  qed
  moreover have "2 * n \<le> (2 * k + 1) * d" if "2 * n' = (2 * k + 1) * d'"
  proof -
    have "2 * (n * d') \<le> 2 * n' * d" using assms(1) by simp
    then have "(2 * n) * d' \<le> ((2 * k + 1) * d) * d'" unfolding that by (simp add: algebra_simps)
    then show ?thesis using assms(3) by (simp only: mult_le_cancel2)
  qed
  ultimately show ?thesis unfolding k_def [symmetric] rne_le_iff [OF assms(2)] by (auto simp: le_less)
qed

lemma rne_multiple [simp]: "0 < d \<Longrightarrow> rne (m * d) d = m"
  by (simp add: rne_def)

lemma rne_bounds:
  assumes "0 < d"
  shows "n \<le> m * d \<Longrightarrow> rne n d \<le> m" "m * d \<le> n \<Longrightarrow> m \<le> rne n d"
  using rne_mono [of n d "m * d" d] rne_mono [of "m * d" d n d] assms by auto

text \<open>Before the cut at infinity, the pattern of a quotient.\<close>

definition raw_mag :: "nat \<Rightarrow> nat \<Rightarrow> nat" where
  "raw_mag n d = (let sh = blen (n div d) - 24 in sh * 2 ^ 23 + rne n (d * 2 ^ sh))"

lemma round_raw: "round_mag n d = min inf_mag (raw_mag n d)"
  by (simp add: round_mag_def raw_mag_def Let_def)

lemma significand_bounds:
  assumes "0 < d" and sh: "sh = blen (n div d) - 24"
  shows "rne n (d * 2 ^ sh) \<le> 2 ^ 24" "0 < sh \<Longrightarrow> 2 ^ 23 \<le> rne n (d * 2 ^ sh)"
proof -
  have "n div d < 2 ^ (24 + sh)"
  proof (cases "n div d = 0")
    case False
    then have "n div d < 2 ^ blen (n div d)" using blen_bounds [of "n div d"] by simp
    also have "\<dots> \<le> 2 ^ (24 + sh)" using sh by (intro power_increasing) auto
    finally show ?thesis .
  qed simp
  then have "n < 2 ^ (24 + sh) * d" using assms(1) by (simp add: less_mult_imp_div_less div_less_iff_less_mult)
  then have "n \<le> 2 ^ 24 * (d * 2 ^ sh)" by (simp add: power_add algebra_simps)
  then show "rne n (d * 2 ^ sh) \<le> 2 ^ 24" using assms(1) by (intro rne_bounds) auto
  assume "0 < sh"
  then have "0 < n div d" using sh by (cases "n div d = 0") auto
  then have "2 ^ (blen (n div d) - 1) \<le> n div d" using blen_bounds by blast
  moreover have "blen (n div d) - 1 = 23 + sh" using \<open>0 < sh\<close> sh by linarith
  ultimately have "2 ^ (23 + sh) \<le> n div d" by simp
  then have "2 ^ (23 + sh) * d \<le> n" using assms(1) by (simp add: less_eq_div_iff_mult_less_eq)
  then have "2 ^ 23 * (d * 2 ^ sh) \<le> n" by (simp add: power_add algebra_simps)
  then show "2 ^ 23 \<le> rne n (d * 2 ^ sh)" using assms(1) by (intro rne_bounds) auto
qed

lemma raw_mag_mono:
  assumes "n * d' \<le> n' * d" "0 < d" "0 < d'"
  shows "raw_mag n d \<le> raw_mag n' d'"
proof -
  define sh sh' where "sh = blen (n div d) - 24" and "sh' = blen (n' div d') - 24"
  have "n div d \<le> n' div d'"
  proof -
    have "(n div d) * d' * d \<le> n * d'" by (metis div_times_less_eq_dividend mult.assoc mult.commute mult_le_mono2)
    then have "(n div d) * d' * d \<le> n' * d" using assms(1) by linarith
    then have "(n div d) * d' \<le> n'" using assms(2) by simp
    then show ?thesis using assms(3) by (simp add: less_eq_div_iff_mult_less_eq)
  qed
  then have le: "sh \<le> sh'" unfolding sh_def sh'_def using blen_mono diff_le_mono by blast
  have r: "raw_mag n d = sh * 2 ^ 23 + rne n (d * 2 ^ sh)" "raw_mag n' d' = sh' * 2 ^ 23 + rne n' (d' * 2 ^ sh')"
    by (simp_all add: raw_mag_def Let_def sh_def sh'_def)
  show ?thesis
  proof (cases "sh = sh'")
    case True
    have "n * (d' * 2 ^ sh) \<le> n' * (d * 2 ^ sh)" using assms(1) by (simp add: mult.assoc [symmetric])
    then show ?thesis unfolding r True [symmetric] using assms(2,3) by (simp add: rne_mono)
  next
    case False
    with le have lt: "Suc sh \<le> sh'" by simp
    have "rne n (d * 2 ^ sh) \<le> 2 ^ 24" "2 ^ 23 \<le> rne n' (d' * 2 ^ sh')"
      using significand_bounds [OF assms(2) sh_def] significand_bounds [OF assms(3) sh'_def] lt by auto
    moreover have "Suc sh * 2 ^ 23 \<le> sh' * 2 ^ 23" using lt by (rule mult_le_mono1)
    ultimately show ?thesis unfolding r by simp
  qed
qed

lemma round_mag_mono: "n * d' \<le> n' * d \<Longrightarrow> 0 < d \<Longrightarrow> 0 < d' \<Longrightarrow> round_mag n d \<le> round_mag n' d'"
  using raw_mag_mono [of n d' n' d] by (auto simp: round_raw)

lemma round_mag_le_inf: "round_mag n d \<le> inf_mag"
  by (simp add: round_raw)

lemma mag_val_small: "b < 2 ^ 24 \<Longrightarrow> mag_val b = b"
proof -
  assume *: "b < 2 ^ 24"
  consider "b div 2 ^ 23 = 0" | "b div 2 ^ 23 = 1" using * by (cases "b < 2 ^ 23") auto
  then show ?thesis
  proof cases
    case 2
    then have "b = 2 ^ 23 + b mod 2 ^ 23" by (metis div_mult_mod_eq mult_1)
    with 2 show ?thesis by (simp add: mag_val_def Let_def)
  qed (simp add: mag_val_def Let_def)
qed

lemma raw_mag_val: "raw_mag (mag_val b) 1 = b"
proof (cases "b < 2 ^ 24")
  case True
  then show ?thesis using blen_le [of b 24] rne_multiple [of 1 b] by (simp add: raw_mag_def mag_val_small)
next
  case False
  define e f where "e = b div 2 ^ 23" and "f = b mod 2 ^ 23"
  have b: "b = e * 2 ^ 23 + f" and f: "f < 2 ^ 23" by (simp_all add: e_def f_def)
  have e: "2 \<le> e" using False f b by simp
  then obtain s where s: "e = Suc s" "0 < s" by (cases e) auto
  have v: "mag_val b = (2 ^ 23 + f) * 2 ^ s" unfolding mag_val_def Let_def e_def [symmetric] f_def [symmetric] using s by simp
  have "2 ^ (23 + s) \<le> mag_val b" "mag_val b < 2 ^ Suc (23 + s)"
    unfolding v using f by (simp_all add: power_add)
  then have "blen (mag_val b) = Suc (23 + s)" by (rule blen_eq)
  then have "raw_mag (mag_val b) 1 = s * 2 ^ 23 + rne ((2 ^ 23 + f) * 2 ^ s) (2 ^ s)"
    by (simp add: raw_mag_def v)
  also have "\<dots> = b" using s b by simp
  finally show ?thesis .
qed

lemma round_mag_val: "b \<le> inf_mag \<Longrightarrow> round_mag (mag_val b) 1 = b"
  by (simp add: round_raw raw_mag_val [simplified])

lemma mag_val_mono: "b \<le> b' \<Longrightarrow> mag_val b \<le> mag_val b'"
  using raw_mag_mono [of "mag_val b'" 1 "mag_val b" 1] raw_mag_val [of b] raw_mag_val [of b']
  by (metis le_antisym nat_le_linear nat_mult_1_right zero_less_one)

lemma mag_val_0 [simp]: "mag_val 0 = 0"
  by (simp add: mag_val_def)

lemma mag_val_0_iff [simp]: "mag_val b = 0 \<longleftrightarrow> b = 0"
  using mag_val_mono [of 1 b] mag_val_small [of 1] mag_val_small [of 0] by (cases "b = 0") auto

subsection \<open>Patterns and order\<close>

lemma f32_mag_lt: "f32_mag x < 2 ^ 31"
  unfolding f32_mag_def unsigned_take_bit_eq by (rule take_bit_nat_less_exp)

lemma small_word: "m < 2 ^ 31 \<Longrightarrow> unat (of_nat m :: u32) = m \<and> take_bit 31 (of_nat m :: u32) = of_nat m"
  using take_bit_self [of "of_nat m :: u32" 31] by (simp add: unat_of_nat take_bit_nat_eq_self)

lemma f32_make_mag [simp]: "m < 2 ^ 31 \<Longrightarrow> f32_mag (f32_make s m) = m"
  using small_word [of m] by (cases s) (simp_all add: f32_mag_def f32_make_def)

lemma f32_make_sign [simp]: "m < 2 ^ 31 \<Longrightarrow> f32_sign (f32_make s m) = s"
proof -
  assume "m < 2 ^ 31"
  then have "take_bit 31 (of_nat m :: u32) = of_nat m" using small_word by blast
  then have "\<not> bit (of_nat m :: u32) 31" by (metis bit_take_bit_iff less_irrefl)
  then show ?thesis by (simp add: f32_make_def f32_sign_def bit_or_iff)
qed

lemma f32_neg_parts [simp]: "f32_mag (f32_neg x) = f32_mag x" "f32_sign (f32_neg x) = (\<not> f32_sign x)"
  by (simp_all add: f32_neg_def f32_mag_def f32_sign_def bit_xor_iff)

text \<open>A representable bound of an exact quotient is a bound of the rounded one.\<close>

lemma round_mag_upper: "n \<le> mag_val b * d \<Longrightarrow> b \<le> inf_mag \<Longrightarrow> 0 < d \<Longrightarrow> round_mag n d \<le> b"
  using round_mag_mono [of n 1 "mag_val b" d] round_mag_val [of b] by simp

lemma round_mag_lower: "mag_val b * d \<le> n \<Longrightarrow> b \<le> inf_mag \<Longrightarrow> 0 < d \<Longrightarrow> b \<le> round_mag n d"
  using round_mag_mono [of "mag_val b" d n 1] round_mag_val [of b] by simp

lemma inf_mag_small: "m \<le> inf_mag \<Longrightarrow> m < 2 ^ 31"
  by (simp add: inf_mag_def)

lemma round_mag_small [simp]: "round_mag n d < 2 ^ 31"
  using inf_mag_small [OF round_mag_le_inf] .

lemma make_round [simp]: "f32_mag (f32_make s (round_mag n d)) = round_mag n d" "f32_sign (f32_make s (round_mag n d)) = s"
  by (rule f32_make_mag f32_make_sign, rule round_mag_small)+

lemma not_nan_round [simp]: "\<not> is_nan (f32_make s (round_mag n d))"
  using round_mag_le_inf [of n d] by (simp add: is_nan_def)

lemma make_inf_mag [simp]: "f32_mag (f32_make s inf_mag) = inf_mag" "f32_mag (f32_make s 0) = 0"
    "f32_sign (f32_make s 0) = s"
  by (simp_all add: inf_mag_def)

lemma finite_cases: "is_finite x \<longleftrightarrow> \<not> is_nan x \<and> \<not> is_inf x"
  by (auto simp: is_finite_def is_nan_def is_inf_def)

lemma is_finite_neg [simp]: "is_finite (f32_neg x) = is_finite x" "is_nan (f32_neg x) = is_nan x"
  by (simp_all add: is_finite_def is_nan_def)

lemma f32_add_not_nan: "is_finite b \<Longrightarrow> \<not> is_nan a \<Longrightarrow> \<not> is_nan (f32_add a b)"
  by (auto simp: f32_add_def finite_cases Let_def) (simp add: is_nan_def)

lemma f32_sub_not_nan: "is_finite a \<Longrightarrow> is_finite b \<Longrightarrow> \<not> is_nan (f32_sub a b)"
  using f32_add_not_nan [of "f32_neg b" a] finite_cases [of a] by (simp add: f32_sub_def)

text \<open>The magnitudes of results.\<close>

lemma f32_int_abs: "nat \<bar>f32_int x\<bar> = mag_val (f32_mag x)"
  by (simp add: f32_int_def)

lemma f32_add_mag:
  assumes "is_finite a" "is_finite b"
  shows "f32_mag (f32_add a b) = round_mag (nat \<bar>f32_int a + f32_int b\<bar>) 1"
proof -
  have "round_mag 0 1 = 0" using round_mag_val [of 0] by (simp add: mag_val_def)
  then show ?thesis using assms by (simp add: f32_add_def finite_cases Let_def)
qed

lemma f32_add_nonneg_sign:
  assumes "is_finite a" "is_finite b" "\<not> f32_sign a" "\<not> f32_sign b"
  shows "\<not> f32_sign (f32_add a b)"
  using assms by (simp add: f32_add_def finite_cases Let_def f32_int_def)

lemma f32_mul_mag:
  assumes "is_finite a" "is_finite b"
  shows "f32_mag (f32_mul a b) = round_mag (mag_val (f32_mag a) * mag_val (f32_mag b)) (2 ^ 149)"
    "f32_sign (f32_mul a b) \<longleftrightarrow> f32_sign a \<noteq> f32_sign b"
  using assms by (simp_all add: f32_mul_def finite_cases Let_def)

lemma f32_div_mag:
  assumes "is_finite a" "is_finite b" "f32_mag b \<noteq> 0"
  shows "f32_mag (f32_div a b) = round_mag (mag_val (f32_mag a) * 2 ^ 149) (mag_val (f32_mag b))"
  using assms by (simp add: f32_div_def finite_cases Let_def)

text \<open>The order.\<close>

lemma f32_le_refl: "\<not> is_nan a \<Longrightarrow> f32_le a a"
  by (simp add: f32_le_def)

lemma f32_le_trans: "f32_le a b \<Longrightarrow> f32_le b c \<Longrightarrow> f32_le a c"
  by (auto simp: f32_le_def)

lemma f32_not_lt: "\<not> is_nan a \<Longrightarrow> \<not> is_nan b \<Longrightarrow> \<not> f32_lt a b \<longleftrightarrow> f32_le b a"
  by (auto simp: f32_le_def f32_lt_def)

lemma f32_le_nonneg:
  assumes "\<not> f32_sign a" "\<not> f32_sign b" "f32_mag b \<le> inf_mag" "f32_mag a \<le> f32_mag b"
  shows "f32_le a b"
  using assms by (simp add: f32_le_def f32_key_def is_nan_def)

lemma f32_le_mag:
  assumes "f32_le a b" "\<not> f32_sign a"
  shows "f32_mag a \<le> f32_mag b \<and> f32_mag b \<le> inf_mag \<and> (f32_mag b = 0 \<or> \<not> f32_sign b)"
  using assms by (auto simp: f32_le_def f32_key_def is_nan_def split: if_splits)

text \<open>For the evaluation of the operations on concrete patterns.\<close>

lemma blen_div: "2 ^ k \<le> n \<Longrightarrow> blen n = k + blen (n div 2 ^ k)"
proof (induction k arbitrary: n)
  case (Suc k)
  have "0 < n" using Suc.prems zero_less_power [of "2 :: nat" "Suc k"] by linarith
  then have "blen n = Suc (blen (n div 2))" by (simp add: blen.simps [of n])
  also have "blen (n div 2) = k + blen (n div 2 div 2 ^ k)" using Suc.prems by (intro Suc.IH) simp
  finally show ?case by (simp add: div_mult2_eq)
qed simp

lemma blen_eval:
  "blen n = (if n = 0 then 0 else if n < 256 then Suc (blen (n div 2))
     else if n < 4294967296 then 8 + blen (n div 256) else 32 + blen (n div 4294967296))"
  using blen_div [of 8 n] blen_div [of 32 n] blen.simps [of n] by simp

lemmas f32_eval = f32_ratio_def f32_of_int_def round_mag_def rne_def inf_mag_def f32_make_def Let_def blen_eval
  f32_add_def f32_sub_def f32_mul_def f32_div_def is_nan_def is_inf_def is_finite_def f32_mag_def f32_sign_def
  f32_int_def f32_key_def mag_val_def f32_neg_def f32_nan_def f32_lt_def f32_le_def f32_eq_def

end
