(* ===== verification/App_Protocol.thy ===== *)
theory App_Protocol
  imports Utf8 Float32
begin

unbundle bit_operations_syntax

text \<open>
  The application messages of \<open>withered\<close>, \<open>server/application/protocol/protocol.go\<close>: little-endian
  records of fixed size, and \<open>Actor3DUpdate\<close> with a number of bones that its bit mask announces.
  A \<open>float32\<close> is its IEEE 754 bit pattern (theory \<open>Float32\<close>), so \<open>math.Float32bits\<close> and \<open>math.Float32frombits\<close>
  are the identity. \<open>put_at\<close> is the write of a slice of a buffer, \<open>go_slice\<close> the slice
  expression.
\<close>

definition go_slice :: "nat \<Rightarrow> nat \<Rightarrow> 'a list \<Rightarrow> 'a list" where
  "go_slice a b xs = drop a (take b xs)"

definition put_at :: "nat \<Rightarrow> 'a list \<Rightarrow> 'a list \<Rightarrow> 'a list" where
  "put_at i ys xs = take i xs @ ys @ drop (i + length ys) xs"

text \<open>\<open>encoding/binary\<close>, little endian.\<close>

definition Uint16 :: "byte list \<Rightarrow> u16" where
  "Uint16 b = ucast (b ! 0) OR push_bit 8 (ucast (b ! 1))"

definition PutUint16 :: "u16 \<Rightarrow> byte list" where
  "PutUint16 v = [ucast v, ucast (drop_bit 8 v)]"

definition Uint32 :: "byte list \<Rightarrow> u32" where
  "Uint32 b = ucast (b ! 0) OR push_bit 8 (ucast (b ! 1)) OR push_bit 16 (ucast (b ! 2)) OR push_bit 24 (ucast (b ! 3))"

definition PutUint32 :: "u32 \<Rightarrow> byte list" where
  "PutUint32 v = [ucast v, ucast (drop_bit 8 v), ucast (drop_bit 16 v), ucast (drop_bit 24 v)]"

datatype AppProtocolError =
    ErrInvalidPayloadSize | ErrInvalidPosition2DData | ErrInvalidPositionSize | ErrInvalidBoneDataSize
  | ErrInvalidActor2DSpawnSize | ErrInvalidActor2DUpdateSize | ErrInvalidActor3DSpawnSize
  | ErrInvalidActor3DUpdateSize | ErrInvalidInputPayloadSize

definition PayloadHeaderSize :: nat where "PayloadHeaderSize = 2"
definition Position2DSize :: nat where "Position2DSize = 8"
definition PositionSize :: nat where "PositionSize = 28"
definition BoneDataSize :: nat where "BoneDataSize = 17"
definition InputPayloadSize :: nat where "InputPayloadSize = 4"
definition BitmaskSize :: nat where "BitmaskSize = 16"

lemmas sizes = PayloadHeaderSize_def Position2DSize_def PositionSize_def BoneDataSize_def
  InputPayloadSize_def BitmaskSize_def

subsection \<open>Message kinds and records\<close>

definition DataTypeInput :: byte where "DataTypeInput = 0"
definition DataTypeActor2D :: byte where "DataTypeActor2D = 1"
definition DataTypeVoice :: byte where "DataTypeVoice = 2"
definition DataTypeControl :: byte where "DataTypeControl = 3"
definition DataTypeActor3D :: byte where "DataTypeActor3D = 4"
definition DataTypeSnapshot :: byte where "DataTypeSnapshot = 5"

definition ActorSubTypeSpawn :: byte where "ActorSubTypeSpawn = 1"
definition ActorSubTypeUpdate :: byte where "ActorSubTypeUpdate = 2"
definition ActorSubTypeDespawn :: byte where "ActorSubTypeDespawn = 3"

record PayloadHeader = DataType :: byte  SubType :: byte

record Position2D = X2 :: float32  Y2 :: float32

record Position =
  PX :: float32  PY :: float32  PZ :: float32
  PQX :: float32  PQY :: float32  PQZ :: float32  PQW :: float32

record BoneData = BoneID :: byte  BQX :: float32  BQY :: float32  BQZ :: float32  BQW :: float32

record Actor2DSpawn = spawn2D :: Position2D
record Actor2DUpdate = update2D :: Position2D
record Actor3DSpawn = spawn3D :: Position

record Actor3DUpdate = Bitmask :: "byte list"  update3D :: Position  Bones :: "BoneData list"

record InputPayload = KeyMask :: u32

subsection \<open>Parsers and encoders\<close>

definition ParsePayloadHeader :: "byte list \<Rightarrow> AppProtocolError + PayloadHeader" where
  "ParsePayloadHeader data =
     (if length data < PayloadHeaderSize then Inl ErrInvalidPayloadSize
      else Inr \<lparr>DataType = data ! 0, SubType = data ! 1\<rparr>)"

definition PayloadHeader_Encode :: "PayloadHeader \<Rightarrow> byte list" where
  "PayloadHeader_Encode p =
     (let data = replicate PayloadHeaderSize 0;
          data = data[0 := DataType p];
          data = data[1 := SubType p]
      in data)"

text \<open>The placeholder names of bones: \<open>'0' + id\<close> is a byte sum, read as a code point.\<close>

definition BoneIDToName :: "byte \<Rightarrow> string" where
  "BoneIDToName i = string_of_rune (ucast (48 + i))"

definition BoneNameToID :: "string \<Rightarrow> byte" where
  "BoneNameToID name = (if length name = 0 then 0 else of_nat (of_char (name ! 0)) - 48)"

definition ParsePosition2D :: "byte list \<Rightarrow> AppProtocolError + Position2D" where
  "ParsePosition2D data =
     (if length data < Position2DSize then Inl ErrInvalidPosition2DData
      else Inr \<lparr>X2 = Uint32 (go_slice 0 4 data), Y2 = Uint32 (go_slice 4 8 data)\<rparr>)"

definition Position2D_Encode :: "Position2D \<Rightarrow> byte list" where
  "Position2D_Encode p =
     (let buf = replicate Position2DSize 0;
          buf = put_at 0 (PutUint32 (X2 p)) buf;
          buf = put_at 4 (PutUint32 (Y2 p)) buf
      in buf)"

definition ParsePosition :: "byte list \<Rightarrow> AppProtocolError + Position" where
  "ParsePosition data =
     (if length data < PositionSize then Inl ErrInvalidPositionSize
      else Inr \<lparr>PX = Uint32 (go_slice 0 4 data), PY = Uint32 (go_slice 4 8 data), PZ = Uint32 (go_slice 8 12 data),
                PQX = Uint32 (go_slice 12 16 data), PQY = Uint32 (go_slice 16 20 data),
                PQZ = Uint32 (go_slice 20 24 data), PQW = Uint32 (go_slice 24 28 data)\<rparr>)"

definition Position_Encode :: "Position \<Rightarrow> byte list" where
  "Position_Encode p =
     (let data = replicate PositionSize 0;
          data = put_at 0 (PutUint32 (PX p)) data;
          data = put_at 4 (PutUint32 (PY p)) data;
          data = put_at 8 (PutUint32 (PZ p)) data;
          data = put_at 12 (PutUint32 (PQX p)) data;
          data = put_at 16 (PutUint32 (PQY p)) data;
          data = put_at 20 (PutUint32 (PQZ p)) data;
          data = put_at 24 (PutUint32 (PQW p)) data
      in data)"

definition ParseBoneData :: "byte list \<Rightarrow> AppProtocolError + BoneData" where
  "ParseBoneData data =
     (if length data < BoneDataSize then Inl ErrInvalidBoneDataSize
      else Inr \<lparr>BoneID = data ! 0, BQX = Uint32 (go_slice 1 5 data), BQY = Uint32 (go_slice 5 9 data),
                BQZ = Uint32 (go_slice 9 13 data), BQW = Uint32 (go_slice 13 17 data)\<rparr>)"

definition BoneData_Encode :: "BoneData \<Rightarrow> byte list" where
  "BoneData_Encode b =
     (let data = replicate BoneDataSize 0;
          data = data[0 := BoneID b];
          data = put_at 1 (PutUint32 (BQX b)) data;
          data = put_at 5 (PutUint32 (BQY b)) data;
          data = put_at 9 (PutUint32 (BQZ b)) data;
          data = put_at 13 (PutUint32 (BQW b)) data
      in data)"

definition ParseActor2DSpawn :: "byte list \<Rightarrow> AppProtocolError + Actor2DSpawn" where
  "ParseActor2DSpawn data =
     (if length data < Position2DSize then Inl ErrInvalidActor2DSpawnSize
      else case ParsePosition2D data of Inl err \<Rightarrow> Inl err | Inr pos \<Rightarrow> Inr \<lparr>spawn2D = pos\<rparr>)"

definition Actor2DSpawn_Encode :: "Actor2DSpawn \<Rightarrow> byte list" where
  "Actor2DSpawn_Encode a = Position2D_Encode (spawn2D a)"

definition ParseActor2DUpdate :: "byte list \<Rightarrow> AppProtocolError + Actor2DUpdate" where
  "ParseActor2DUpdate data =
     (if length data < Position2DSize then Inl ErrInvalidActor2DUpdateSize
      else case ParsePosition2D data of Inl err \<Rightarrow> Inl err | Inr pos \<Rightarrow> Inr \<lparr>update2D = pos\<rparr>)"

definition Actor2DUpdate_Encode :: "Actor2DUpdate \<Rightarrow> byte list" where
  "Actor2DUpdate_Encode a = Position2D_Encode (update2D a)"

definition ParseActor3DSpawn :: "byte list \<Rightarrow> AppProtocolError + Actor3DSpawn" where
  "ParseActor3DSpawn data =
     (if length data < PositionSize then Inl ErrInvalidActor3DSpawnSize
      else case ParsePosition data of Inl err \<Rightarrow> Inl err | Inr pos \<Rightarrow> Inr \<lparr>spawn3D = pos\<rparr>)"

definition Actor3DSpawn_Encode :: "Actor3DSpawn \<Rightarrow> byte list" where
  "Actor3DSpawn_Encode a = Position_Encode (spawn3D a)"

text \<open>The loop over the bits of one byte of the mask, then over the bytes.\<close>

function countBits :: "byte \<Rightarrow> nat \<Rightarrow> nat" where
  "countBits b count = (if b = 0 then count else countBits (drop_bit 1 b) (count + unat (b AND 1)))"
  by pat_completeness auto

termination countBits
proof (relation "measure (unat \<circ> fst)")
  fix b :: byte and count :: nat
  assume "b \<noteq> 0"
  then have "unat (b div 2) < unat b"
    by (simp add: unat_div_distrib unat_gt_0)
  then show "((drop_bit 1 b, count + unat (b AND 1)), b, count) \<in> measure (unat \<circ> fst)"
    by (simp add: drop_bit_Suc)
qed simp

fun countSetBits :: "byte list \<Rightarrow> nat \<Rightarrow> nat" where
  "countSetBits [] count = count"
| "countSetBits (b # bitmask) count = countSetBits bitmask (countBits b count)"

text \<open>The loop over the announced bones, from \<open>offset\<close>.\<close>

fun parseBones :: "nat \<Rightarrow> nat \<Rightarrow> byte list \<Rightarrow> BoneData list \<Rightarrow> AppProtocolError + BoneData list" where
  "parseBones 0 offset data bones = Inr bones"
| "parseBones (Suc i) offset data bones =
     (if offset + BoneDataSize > length data then Inl ErrInvalidActor3DUpdateSize
      else case ParseBoneData (drop offset data) of
          Inl err \<Rightarrow> Inl err
        | Inr bone \<Rightarrow> parseBones i (offset + BoneDataSize) data (bones @ [bone]))"

definition ParseActor3DUpdate :: "byte list \<Rightarrow> AppProtocolError + Actor3DUpdate" where
  "ParseActor3DUpdate data =
     (let minSize = BitmaskSize + PositionSize
      in if length data < minSize then Inl ErrInvalidActor3DUpdateSize
      else
        (let bitmask = go_slice 0 BitmaskSize data
         in case ParsePosition (drop BitmaskSize data) of
              Inl err \<Rightarrow> Inl err
            | Inr pos \<Rightarrow>
                (let boneCount = countSetBits bitmask 0
                 in case parseBones boneCount (BitmaskSize + PositionSize) data [] of
                      Inl err \<Rightarrow> Inl err
                    | Inr bones \<Rightarrow> Inr \<lparr>Bitmask = bitmask, update3D = pos, Bones = bones\<rparr>)))"

fun encodeBones :: "BoneData list \<Rightarrow> nat \<Rightarrow> byte list \<Rightarrow> byte list" where
  "encodeBones [] offset data = data"
| "encodeBones (bone # bones) offset data =
     encodeBones bones (offset + BoneDataSize) (put_at offset (BoneData_Encode bone) data)"

definition Actor3DUpdate_Encode :: "Actor3DUpdate \<Rightarrow> byte list" where
  "Actor3DUpdate_Encode a =
     (let size = BitmaskSize + PositionSize + length (Bones a) * BoneDataSize;
          data = replicate size 0;
          data = put_at 0 (Bitmask a) data;
          data = put_at BitmaskSize (Position_Encode (update3D a)) data
      in encodeBones (Bones a) (BitmaskSize + PositionSize) data)"

definition ParseInputPayload :: "byte list \<Rightarrow> AppProtocolError + InputPayload" where
  "ParseInputPayload data =
     (if length data < InputPayloadSize then Inl ErrInvalidInputPayloadSize
      else Inr \<lparr>KeyMask = Uint32 (go_slice 0 4 data)\<rparr>)"

definition InputPayload_Encode :: "InputPayload \<Rightarrow> byte list" where
  "InputPayload_Encode i = put_at 0 (PutUint32 (KeyMask i)) (replicate InputPayloadSize 0)"

subsection \<open>The codecs\<close>

declare countBits.simps [simp del]

lemma Uint16_Put [wire]: "Uint16 (PutUint16 v @ rest) = v"
proof -
  have "Uint16 (PutUint16 v @ rest) = push_bit 8 (take_bit 8 (drop_bit 8 v)) OR take_bit 8 v"
    by (simp add: Uint16_def PutUint16_def byte_slice ac_simps)
  also have "\<dots> = take_bit 16 v" by (simp add: join_slices)
  finally show ?thesis by (simp add: take_bit_word_eq_self)
qed

lemma Uint32_Put [wire]: "Uint32 (PutUint32 v @ rest) = v"
proof -
  have "Uint32 (PutUint32 v @ rest) = push_bit 24 (take_bit 8 (drop_bit 24 v))
      OR push_bit 16 (take_bit 8 (drop_bit 16 v)) OR push_bit 8 (take_bit 8 (drop_bit 8 v)) OR take_bit 8 v"
    by (simp add: Uint32_def PutUint32_def byte_slice ac_simps)
  also have "\<dots> = take_bit 32 v" by (simp add: join_slices join_slices [of 8 8] join_slices [of 16 8] join_slices [of 24 8])
  finally show ?thesis by (simp add: take_bit_word_eq_self)
qed

lemma Put_Uint32:
  assumes "length bs = 4"
  shows "PutUint32 (Uint32 bs) = bs"
proof -
  obtain a b c d where bs: "bs = [a, b, c, d]"
    using assms by (auto simp: eval_nat_numeral length_Suc_conv)
  have hi: "\<not> bit x n" if "8 \<le> n" for x :: byte and n using that bit_imp_le_length [of x n] by auto
  have "ucast (Uint32 bs) = a" "ucast (drop_bit 8 (Uint32 bs)) = b"
    "ucast (drop_bit 16 (Uint32 bs)) = c" "ucast (drop_bit 24 (Uint32 bs)) = d"
    by (rule bit_eqI, auto simp: bs Uint32_def bit_unsigned_iff bit_or_iff bit_push_bit_iff bit_drop_bit_eq hi)+
  then show ?thesis by (simp add: PutUint32_def bs)
qed

lemma length_Put [simp]: "length (PutUint32 v) = 4" "length (PutUint16 w) = 2"
  by (simp_all add: PutUint32_def PutUint16_def)

lemma take_slice: "a \<le> b \<Longrightarrow> take a d @ go_slice a b d = take b d"
  by (metis go_slice_def append_take_drop_id min.absorb1 take_take)

text \<open>Writing one slice after the other into a fresh buffer appends the slices.\<close>

lemma put_at_first: "length ys \<le> k \<Longrightarrow> put_at 0 ys (replicate k z) = ys @ replicate (k - length ys) z"
  by (simp add: put_at_def)

lemma put_at_next:
  "i = length xs \<Longrightarrow> length ys \<le> k
     \<Longrightarrow> put_at i ys (xs @ replicate k z) = (xs @ ys) @ replicate (k - length ys) z"
  by (simp add: put_at_def)

text \<open>
  A codec of a record of fixed size: encoding gives that many bytes, decoding reads them
  from the front of a buffer, fails exactly on shorter buffers, and loses nothing.
\<close>

locale fixed_codec =
  fixes size :: nat and enc :: "'a \<Rightarrow> byte list" and dec :: "byte list \<Rightarrow> AppProtocolError + 'a"
    and err :: AppProtocolError
  assumes length_enc: "length (enc x) = size"
    and dec_enc: "dec (enc x @ rest) = Inr x"
    and dec_short: "length data < size \<Longrightarrow> dec data = Inl err"
    and enc_dec: "dec data = Inr x \<Longrightarrow> enc x = take size data"
begin

lemma dec_iff: "dec data = Inr x \<longleftrightarrow> size \<le> length data \<and> take size data = enc x"
proof
  assume r: "dec data = Inr x"
  then have "size \<le> length data" using dec_short [of data] by (cases "length data < size") auto
  with enc_dec [OF r] show "size \<le> length data \<and> take size data = enc x" by simp
next
  assume "size \<le> length data \<and> take size data = enc x"
  then have eq: "data = enc x @ drop size data" using append_take_drop_id [of size data] by simp
  show "dec data = Inr x" by (subst eq) (rule dec_enc)
qed

lemma enc_inject: "enc x = enc y \<longleftrightarrow> x = y"
  by (metis dec_enc sum.inject(2))

end

text \<open>The encoders write their fields one after the other.\<close>

lemma Encode_fields:
  "PayloadHeader_Encode h = [DataType h, SubType h]"
  "Position2D_Encode p = PutUint32 (X2 p) @ PutUint32 (Y2 p)"
  "Position_Encode q = PutUint32 (PX q) @ PutUint32 (PY q) @ PutUint32 (PZ q)
     @ PutUint32 (PQX q) @ PutUint32 (PQY q) @ PutUint32 (PQZ q) @ PutUint32 (PQW q)"
  "BoneData_Encode b = BoneID b # PutUint32 (BQX b) @ PutUint32 (BQY b) @ PutUint32 (BQZ b) @ PutUint32 (BQW b)"
  "InputPayload_Encode i = PutUint32 (KeyMask i)"
proof -
  have blank: "(replicate 17 0)[0 := c] = [c] @ replicate 16 0" for c :: byte
    by (simp add: numeral_eq_Suc)
  show "PayloadHeader_Encode h = [DataType h, SubType h]"
    by (simp add: PayloadHeader_Encode_def sizes numeral_eq_Suc)
  note put = put_at_first put_at_next sizes Let_def
  show "Position2D_Encode p = PutUint32 (X2 p) @ PutUint32 (Y2 p)"
    unfolding Position2D_Encode_def by (simp add: put)
  show "Position_Encode q = PutUint32 (PX q) @ PutUint32 (PY q) @ PutUint32 (PZ q)
     @ PutUint32 (PQX q) @ PutUint32 (PQY q) @ PutUint32 (PQZ q) @ PutUint32 (PQW q)"
    unfolding Position_Encode_def by (simp add: put del: append_assoc)
  show "BoneData_Encode b
      = BoneID b # PutUint32 (BQX b) @ PutUint32 (BQY b) @ PutUint32 (BQZ b) @ PutUint32 (BQW b)"
    unfolding BoneData_Encode_def by (simp only: put blank) (simp add: put_at_def)
  show "InputPayload_Encode i = PutUint32 (KeyMask i)"
    by (simp add: InputPayload_Encode_def put)
qed

lemma slice_0: "go_slice 0 n d = take n d"
  by (simp add: go_slice_def)

lemma take_slice_append: "a \<le> b \<Longrightarrow> take a d @ go_slice a b d @ r = take b d @ r"
  using take_slice [of a b d] by (metis append_assoc)

lemma Put_Uint32_slice: "b = a + 4 \<Longrightarrow> b \<le> length d \<Longrightarrow> PutUint32 (Uint32 (go_slice a b d)) = go_slice a b d"
  by (rule Put_Uint32) (simp add: go_slice_def)

lemma Put_Uint32_take: "4 \<le> length d \<Longrightarrow> PutUint32 (Uint32 (take 4 d)) = take 4 d"
  by (rule Put_Uint32) simp

lemma Uint32_Put_all: "Uint32 (PutUint32 v) = v"
  using Uint32_Put [of v "[]"] by simp

lemmas fixed_record = Encode_fields sizes slice_0 Put_Uint32_take Put_Uint32_slice take_slice_append take_slice Uint32_Put_all

interpretation header: fixed_codec PayloadHeaderSize PayloadHeader_Encode ParsePayloadHeader ErrInvalidPayloadSize
proof
  fix data x
  assume "ParsePayloadHeader data = Inr x"
  then show "PayloadHeader_Encode x = take PayloadHeaderSize data"
    by (cases data; cases "tl data") (auto simp: ParsePayloadHeader_def fixed_record split: if_splits)
qed (simp_all add: ParsePayloadHeader_def fixed_record)

interpretation pos2: fixed_codec Position2DSize Position2D_Encode ParsePosition2D ErrInvalidPosition2DData
proof
  show "ParsePosition2D (Position2D_Encode x @ rest) = Inr x" for x rest
    by (simp add: ParsePosition2D_def fixed_record go_slice_def)
qed (auto simp: ParsePosition2D_def fixed_record split: if_splits)

interpretation pos3: fixed_codec PositionSize Position_Encode ParsePosition ErrInvalidPositionSize
proof
  show "ParsePosition (Position_Encode x @ rest) = Inr x" for x rest
    by (simp add: ParsePosition_def fixed_record go_slice_def)
qed (auto simp: ParsePosition_def fixed_record split: if_splits)

interpretation bone: fixed_codec BoneDataSize BoneData_Encode ParseBoneData ErrInvalidBoneDataSize
proof
  show "ParseBoneData (BoneData_Encode x @ rest) = Inr x" for x rest
    by (simp add: ParseBoneData_def fixed_record go_slice_def)
  show "BoneData_Encode x = take BoneDataSize data" if "ParseBoneData data = Inr x" for data x
  proof -
    have "data ! 0 # go_slice 1 5 data @ go_slice 5 9 data @ go_slice 9 13 data @ go_slice 13 17 data = take 17 data"
      if "17 \<le> length data"
    proof -
      have "take 1 data @ go_slice 1 5 data @ go_slice 5 9 data @ go_slice 9 13 data @ go_slice 13 17 data
          = take 17 data"
        by (simp add: take_slice take_slice_append del: One_nat_def)
      moreover have "take 1 data = [data ! 0]" using that by (cases data) simp_all
      ultimately show ?thesis by simp
    qed
    with that show ?thesis by (auto simp: ParseBoneData_def fixed_record split: if_splits)
  qed
qed (auto simp: ParseBoneData_def fixed_record split: if_splits)

interpretation input: fixed_codec InputPayloadSize InputPayload_Encode ParseInputPayload ErrInvalidInputPayloadSize
proof
  show "ParseInputPayload (InputPayload_Encode x @ rest) = Inr x" for x rest
    by (simp add: ParseInputPayload_def fixed_record go_slice_def)
qed (auto simp: ParseInputPayload_def fixed_record split: if_splits)

interpretation spawn2: fixed_codec Position2DSize Actor2DSpawn_Encode ParseActor2DSpawn ErrInvalidActor2DSpawnSize
proof
  show "Actor2DSpawn_Encode x = take Position2DSize data" if "ParseActor2DSpawn data = Inr x" for data x
    using that by (auto simp: ParseActor2DSpawn_def Actor2DSpawn_Encode_def pos2.enc_dec split: if_splits sum.splits)
qed (simp_all add: ParseActor2DSpawn_def Actor2DSpawn_Encode_def pos2.dec_enc pos2.length_enc)

interpretation update2: fixed_codec Position2DSize Actor2DUpdate_Encode ParseActor2DUpdate ErrInvalidActor2DUpdateSize
proof
  show "Actor2DUpdate_Encode x = take Position2DSize data" if "ParseActor2DUpdate data = Inr x" for data x
    using that by (auto simp: ParseActor2DUpdate_def Actor2DUpdate_Encode_def pos2.enc_dec split: if_splits sum.splits)
qed (simp_all add: ParseActor2DUpdate_def Actor2DUpdate_Encode_def pos2.dec_enc pos2.length_enc)

interpretation spawn3: fixed_codec PositionSize Actor3DSpawn_Encode ParseActor3DSpawn ErrInvalidActor3DSpawnSize
proof
  show "Actor3DSpawn_Encode x = take PositionSize data" if "ParseActor3DSpawn data = Inr x" for data x
    using that by (auto simp: ParseActor3DSpawn_def Actor3DSpawn_Encode_def pos3.enc_dec split: if_splits sum.splits)
qed (simp_all add: ParseActor3DSpawn_def Actor3DSpawn_Encode_def pos3.dec_enc pos3.length_enc)

subsection \<open>The bone mask\<close>

lemma card_bits_shift: "card {i. bit b i} = unat (b AND 1) + card {i. bit (drop_bit 1 b) i}" for b :: byte
proof -
  have fin: "finite {i. bit c i}" for c :: byte
    by (rule finite_subset [of _ "{..<8}"]) (auto dest: bit_imp_le_length)
  have eq: "{i. bit b i} = {i. i = 0 \<and> bit b 0} \<union> Suc ` {i. bit (drop_bit 1 b) i}"
  proof (rule set_eqI)
    show "i \<in> {i. bit b i} \<longleftrightarrow> i \<in> {i. i = 0 \<and> bit b 0} \<union> Suc ` {i. bit (drop_bit 1 b) i}" for i
      by (cases i) (auto simp: bit_drop_bit_eq)
  qed
  have "unat (b AND 1) = card {i. i = (0 :: nat) \<and> bit b 0}"
    by (cases "bit b 0") (auto simp: and_one_eq bit_0 odd_iff_mod_2_eq_one even_iff_mod_2_eq_zero)
  then show ?thesis
    by (subst eq, subst card_Un_disjoint) (auto simp: fin card_image)
qed

lemma countBits_card: "countBits b count = count + card {i. bit b i}"
proof (induction b count rule: countBits.induct)
  case (1 b count)
  then show ?case
    using card_bits_shift [of b] by (simp add: countBits.simps [of b])
qed

lemma countSetBits_card: "countSetBits bitmask count = count + (\<Sum>b\<leftarrow>bitmask. card {i. bit b i})"
  by (induction bitmask arbitrary: count) (simp_all add: countBits_card)

subsection \<open>Actor updates\<close>

lemma encodeBones_blank:
  "encodeBones bones (length xs) (xs @ replicate (length bones * BoneDataSize) z)
     = xs @ concat (map BoneData_Encode bones)"
proof (induction bones arbitrary: xs)
  case (Cons bone bones)
  have "encodeBones (bone # bones) (length xs) (xs @ replicate (length (bone # bones) * BoneDataSize) z)
      = encodeBones bones (length (xs @ BoneData_Encode bone))
          ((xs @ BoneData_Encode bone) @ replicate (length bones * BoneDataSize) z)"
    by (simp add: put_at_next bone.length_enc)
  then show ?case using Cons.IH [of "xs @ BoneData_Encode bone"] by simp
qed simp

lemma Actor3DUpdate_Encode_fields:
  assumes "length (Bitmask a) = BitmaskSize"
  shows "Actor3DUpdate_Encode a
    = Bitmask a @ Position_Encode (update3D a) @ concat (map BoneData_Encode (Bones a))"
proof -
  have "put_at BitmaskSize (Position_Encode (update3D a)) (put_at 0 (Bitmask a)
        (replicate (BitmaskSize + PositionSize + length (Bones a) * BoneDataSize) 0))
      = (Bitmask a @ Position_Encode (update3D a)) @ replicate (length (Bones a) * BoneDataSize) 0"
    using assms by (simp add: put_at_first put_at_next pos3.length_enc del: append_assoc)
  then show ?thesis
    using assms encodeBones_blank [of "Bones a" "Bitmask a @ Position_Encode (update3D a)" 0]
    by (simp add: Actor3DUpdate_Encode_def Let_def pos3.length_enc)
qed

lemma parseBones_encoded:
  "parseBones n (length xs) (xs @ concat (map BoneData_Encode bones) @ rest) acc
     = (if n \<le> length bones then Inr (acc @ take n bones)
        else parseBones (n - length bones) (length xs + length bones * BoneDataSize)
               (xs @ concat (map BoneData_Encode bones) @ rest) (acc @ bones))"
proof (induction bones arbitrary: n xs acc)
  case Nil
  then show ?case by (cases n) simp_all
next
  case (Cons bone bones)
  show ?case
  proof (cases n)
    case (Suc m)
    have "parseBones n (length xs) (xs @ concat (map BoneData_Encode (bone # bones)) @ rest) acc
      = parseBones m (length (xs @ BoneData_Encode bone))
          ((xs @ BoneData_Encode bone) @ concat (map BoneData_Encode bones) @ rest) (acc @ [bone])"
      by (simp add: Suc bone.length_enc bone.dec_enc)
    then show ?thesis
      by (simp only: Cons.IH) (simp add: Suc bone.length_enc add.assoc)
  qed simp
qed

lemma parseBones_decoded:
  "parseBones n offset data acc = Inr bones
     \<Longrightarrow> \<exists>new. bones = acc @ new \<and> length new = n \<and> offset + n * BoneDataSize \<le> max offset (length data)
       \<and> concat (map BoneData_Encode new) = take (n * BoneDataSize) (drop offset data)"
proof (induction n offset data acc rule: parseBones.induct)
  case (2 n offset data acc)
  from "2.prems" obtain b where fits: "offset + BoneDataSize \<le> length data"
    and b: "ParseBoneData (drop offset data) = Inr b"
    and rest: "parseBones n (offset + BoneDataSize) data (acc @ [b]) = Inr bones"
    by (auto split: if_splits sum.splits)
  from "2.IH" [OF _ b rest] fits obtain new where new: "bones = (acc @ [b]) @ new" "length new = n"
    "offset + BoneDataSize + n * BoneDataSize \<le> max (offset + BoneDataSize) (length data)"
    "concat (map BoneData_Encode new) = take (n * BoneDataSize) (drop (offset + BoneDataSize) data)"
    by auto
  have "concat (map BoneData_Encode (b # new)) = take (Suc n * BoneDataSize) (drop offset data)"
    using new(4) bone.enc_dec [OF b] by (simp add: take_add add.commute)
  with new fits show ?case by (intro exI [of _ "b # new"]) auto
qed simp

lemma Parse_Actor3DUpdate:
  assumes len: "length (Bitmask a) = BitmaskSize"
  shows "ParseActor3DUpdate (Actor3DUpdate_Encode a)
    = (if length (Bones a) < countSetBits (Bitmask a) 0 then Inl ErrInvalidActor3DUpdateSize
       else Inr (a\<lparr>Bones := take (countSetBits (Bitmask a) 0) (Bones a)\<rparr>))"
proof -
  define n where "n = countSetBits (Bitmask a) 0"
  define xs where "xs = Bitmask a @ Position_Encode (update3D a)"
  define data where "data = xs @ concat (map BoneData_Encode (Bones a))"
  have lx: "length xs = BitmaskSize + PositionSize" by (simp add: xs_def len pos3.length_enc)
  have ld: "length data = length xs + length (Bones a) * BoneDataSize"
    unfolding data_def by (induction "Bones a") (simp_all add: length_concat bone.length_enc comp_def sum_list_triv)
  have loop: "parseBones n (length xs) data []
      = (if n \<le> length (Bones a) then Inr (take n (Bones a)) else Inl ErrInvalidActor3DUpdateSize)"
  proof (cases "n \<le> length (Bones a)")
    case False
    then obtain m where "n - length (Bones a) = Suc m" by (metis diff_is_0_eq not0_implies_Suc)
    with False ld show ?thesis
      using parseBones_encoded [of n xs "Bones a" "[]" "[]"] by (simp add: data_def sizes)
  qed (use parseBones_encoded [of n xs "Bones a" "[]" "[]"] in \<open>simp add: data_def\<close>)
  have "Actor3DUpdate_Encode a = data"
    using Actor3DUpdate_Encode_fields [OF len] by (simp add: data_def xs_def)
  moreover have "go_slice 0 BitmaskSize data = Bitmask a"
    "ParsePosition (drop BitmaskSize data) = Inr (update3D a)"
    using len by (simp_all add: data_def xs_def slice_0 pos3.dec_enc)
  ultimately show ?thesis
    using loop ld unfolding n_def [symmetric]
    by (simp add: ParseActor3DUpdate_def Let_def lx flip: n_def)
qed

lemma Actor3DUpdate_parsed:
  assumes p: "ParseActor3DUpdate data = Inr a"
  shows "length (Bitmask a) = BitmaskSize" "length (Bones a) = countSetBits (Bitmask a) 0"
    "Actor3DUpdate_Encode a = take (BitmaskSize + PositionSize + length (Bones a) * BoneDataSize) data"
proof -
  from p obtain pos bones where len: "BitmaskSize + PositionSize \<le> length data"
    and pos: "ParsePosition (drop BitmaskSize data) = Inr pos"
    and bones: "parseBones (countSetBits (go_slice 0 BitmaskSize data) 0) (BitmaskSize + PositionSize) data [] = Inr bones"
    and a: "a = \<lparr>Bitmask = go_slice 0 BitmaskSize data, update3D = pos, Bones = bones\<rparr>"
    by (auto simp: ParseActor3DUpdate_def Let_def split: if_splits sum.splits)
  from parseBones_decoded [OF bones] have nb: "length bones = countSetBits (go_slice 0 BitmaskSize data) 0"
    and enc: "concat (map BoneData_Encode bones)
      = take (length bones * BoneDataSize) (drop (BitmaskSize + PositionSize) data)" by auto
  show bm: "length (Bitmask a) = BitmaskSize" using len by (simp add: a slice_0)
  show "length (Bones a) = countSetBits (Bitmask a) 0" using nb by (simp add: a)
  show "Actor3DUpdate_Encode a = take (BitmaskSize + PositionSize + length (Bones a) * BoneDataSize) data"
    unfolding Actor3DUpdate_Encode_fields [OF bm]
    by (simp add: a slice_0 enc pos3.enc_dec [OF pos] take_add add.commute)
qed

text \<open>
  Encoding an actor update and parsing it gives it back whenever it carries as many bones as
  its 128-bit mask has bits set; with fewer bones the parser reports the size error, with more
  the surplus is dropped. Conversely an update that was parsed has exactly the announced number
  of bones and its encoding is the part of the buffer that was read.
\<close>

theorem actor3d_update_codec:
  assumes "length (Bitmask a) = BitmaskSize"
  shows "ParseActor3DUpdate (Actor3DUpdate_Encode a)
      = (if length (Bones a) < (\<Sum>b\<leftarrow>Bitmask a. card {i. bit b i}) then Inl ErrInvalidActor3DUpdateSize
         else Inr (a\<lparr>Bones := take (\<Sum>b\<leftarrow>Bitmask a. card {i. bit b i}) (Bones a)\<rparr>))
    \<and> (ParseActor3DUpdate data = Inr a'
      \<longrightarrow> length (Bones a') = (\<Sum>b\<leftarrow>Bitmask a'. card {i. bit b i})
        \<and> Actor3DUpdate_Encode a' = take (BitmaskSize + PositionSize + length (Bones a') * BoneDataSize) data)"
  using Parse_Actor3DUpdate [OF assms] Actor3DUpdate_parsed [of data a'] by (simp_all add: countSetBits_card)

theorem actor3d_update_codec_witness:
  "let a = \<lparr>Bitmask = 1 # replicate 15 0, update3D = \<lparr>PX = 1, PY = 2, PZ = 3, PQX = 4, PQY = 5, PQZ = 6, PQW = 7\<rparr>,
            Bones = [\<lparr>BoneID = 9, BQX = 1, BQY = 2, BQZ = 3, BQW = 0xFFFFFFFF\<rparr>]\<rparr>
   in ParseActor3DUpdate (Actor3DUpdate_Encode a) = Inr a"
proof -
  have "{i. bit (1 :: byte) i} = {0}" by (auto simp: bit_1_iff)
  then have "(\<Sum>b\<leftarrow>1 # replicate 15 0. card {i. bit (b :: byte) i}) = 1" by (simp add: sum_list_triv flip: bot_set_def)
  then show ?thesis
    unfolding Let_def by (subst conjunct1 [OF actor3d_update_codec]) (simp_all add: sizes)
qed

end
