(* ===== verification/Session.thy ===== *)
theory Session
  imports Prelude
begin

unbundle bit_operations_syntax

text \<open>
  Sessions of \<open>withered\<close>: \<open>server/domain/session.go\<close>, \<open>idle_reason.go\<close> and \<open>session_registry.go\<close>.
  A session identifier is the unpadded URL-safe base64 text of 16 random bytes; the part of
  \<open>encoding/base64\<close> the code calls is modelled first. The random bytes and the clock are
  arguments: \<open>now\<close> is what \<open>time.Now\<close> returns at the call, in nanoseconds.
\<close>

subsection \<open>Base64\<close>

definition b64_alphabet :: string where
  "b64_alphabet = ''ABCDEFGHIJKLMNOPQRSTUVWXYZabcdefghijklmnopqrstuvwxyz0123456789-_''"

fun index_of :: "'a \<Rightarrow> 'a list \<Rightarrow> nat option" where
  "index_of x [] = None"
| "index_of x (y # ys) = (if x = y then Some 0 else map_option Suc (index_of x ys))"

definition b64_value :: "char \<Rightarrow> nat option" where
  "b64_value c = index_of c b64_alphabet"

definition b64_char :: "nat \<Rightarrow> char" where
  "b64_char n = b64_alphabet ! n"

fun base64_Encode :: "byte list \<Rightarrow> string" where
  "base64_Encode [] = []"
| "base64_Encode [a] =
     (let v = unat a * 65536
      in [b64_char (v div 262144 mod 64), b64_char (v div 4096 mod 64)])"
| "base64_Encode [a, b] =
     (let v = unat a * 65536 + unat b * 256
      in [b64_char (v div 262144 mod 64), b64_char (v div 4096 mod 64), b64_char (v div 64 mod 64)])"
| "base64_Encode (a # b # c # src) =
     (let v = unat a * 65536 + unat b * 256 + unat c
      in [b64_char (v div 262144 mod 64), b64_char (v div 4096 mod 64), b64_char (v div 64 mod 64),
          b64_char (v mod 64)] @ base64_Encode src)"

text \<open>
  The bytes decoded before the first malformed group; line breaks are skipped, a single
  character left over is malformed, and the unused low bits of a short last group are ignored.
\<close>

fun decode_groups :: "nat option list \<Rightarrow> byte list" where
  "decode_groups [Some p, Some q] = [of_nat ((p * 262144 + q * 4096) div 65536)]"
| "decode_groups [Some p, Some q, Some r] =
     (let v = p * 262144 + q * 4096 + r * 64 in [of_nat (v div 65536), of_nat (v div 256)])"
| "decode_groups (Some p # Some q # Some r # Some t # src) =
     (let v = p * 262144 + q * 4096 + r * 64 + t
      in [of_nat (v div 65536), of_nat (v div 256), of_nat v] @ decode_groups src)"
| "decode_groups _ = []"

definition base64_Decode :: "string \<Rightarrow> byte list" where
  "base64_Decode s = decode_groups (map b64_value (filter (\<lambda>c. c \<noteq> CHR 0x0A \<and> c \<noteq> CHR 0x0D) s))"

subsection \<open>Session identifiers\<close>

type_synonym SessionID = string

definition NewSessionID :: "byte list \<Rightarrow> SessionID" where
  "NewSessionID rnd = base64_Encode rnd"

definition SessionID_Bytes :: "SessionID \<Rightarrow> byte list" where
  "SessionID_Bytes i = (let decoded = base64_Decode i in take 16 decoded @ replicate (16 - length decoded) 0)"

definition SessionIDFromBytes :: "byte list \<Rightarrow> SessionID" where
  "SessionIDFromBytes b = base64_Encode b"

subsection \<open>Idle reasons\<close>

type_synonym IdleReason = byte

definition IdleNone :: IdleReason where "IdleNone = 0"
definition IdleRead :: IdleReason where "IdleRead = push_bit 0 1"
definition IdleWrite :: IdleReason where "IdleWrite = push_bit 1 1"
definition IdlePong :: IdleReason where "IdlePong = push_bit 2 1"
definition IdleDisabled :: IdleReason where "IdleDisabled = push_bit 7 1"

lemmas idle_reasons = IdleNone_def IdleRead_def IdleWrite_def IdlePong_def IdleDisabled_def

definition Has :: "IdleReason \<Rightarrow> IdleReason \<Rightarrow> bool" where
  "Has r x \<longleftrightarrow> r AND x \<noteq> 0"

definition idle_add :: "string \<Rightarrow> string \<Rightarrow> string" where
  "idle_add s out = (if out = '''' then s else out @ ''|'' @ s)"

text \<open>\<open>%d\<close> of a number.\<close>

fun digits :: "nat \<Rightarrow> string" where
  "digits n = (if n < 10 then [char_of (48 + n)] else digits (n div 10) @ [char_of (48 + n mod 10)])"

definition IdleReason_String :: "IdleReason \<Rightarrow> string" where
  "IdleReason_String r =
     (if r = IdleNone then ''none''
      else if r = IdleDisabled then ''disabled''
      else
        (let out = '''';
             out = (if Has r IdleRead then idle_add ''read'' out else out);
             out = (if Has r IdleWrite then idle_add ''write'' out else out);
             out = (if Has r IdlePong then idle_add ''pong'' out else out)
         in if out = '''' then ''unknown('' @ digits (unat r) @ '')'' else out))"

subsection \<open>Sessions\<close>

record Session =
  se_id :: SessionID
  se_lastRead :: int64
  se_lastWrite :: int64
  se_lastPong :: int64
  se_closed :: bool

definition NewSession :: "byte list \<Rightarrow> int64 \<Rightarrow> Session" where
  "NewSession rnd now = \<lparr>se_id = NewSessionID rnd, se_lastRead = now, se_lastWrite = now, se_lastPong = now,
     se_closed = False\<rparr>"

definition TouchRead :: "int64 \<Rightarrow> Session \<Rightarrow> Session" where
  "TouchRead now s = s\<lparr>se_lastRead := now\<rparr>"

definition TouchWrite :: "int64 \<Rightarrow> Session \<Rightarrow> Session" where
  "TouchWrite now s = s\<lparr>se_lastWrite := now\<rparr>"

definition TouchPong :: "int64 \<Rightarrow> Session \<Rightarrow> Session" where
  "TouchPong now s = s\<lparr>se_lastPong := now\<rparr>"

definition Session_Close :: "Session \<Rightarrow> Session \<times> bool" where
  "Session_Close s = (if \<not> se_closed s then (s\<lparr>se_closed := True\<rparr>, True) else (s, False))"

text \<open>\<open>time.Since\<close>: the difference, saturated to a \<open>Duration\<close>.\<close>

definition Since :: "int64 \<Rightarrow> int64 \<Rightarrow> int64" where
  "Since now since = max (- (2 ^ 63)) (min (2 ^ 63 - 1) (now - since))"

definition isIdleSince :: "int64 \<Rightarrow> int64 \<Rightarrow> int64 \<Rightarrow> bool" where
  "isIdleSince now since timeout \<longleftrightarrow> Since now since > timeout"

definition IsReadIdle :: "int64 \<Rightarrow> Session \<Rightarrow> int64 \<Rightarrow> bool" where
  "IsReadIdle now s timeout = isIdleSince now (se_lastRead s) timeout"

definition IsWriteIdle :: "int64 \<Rightarrow> Session \<Rightarrow> int64 \<Rightarrow> bool" where
  "IsWriteIdle now s timeout = isIdleSince now (se_lastWrite s) timeout"

definition IsPongIdle :: "int64 \<Rightarrow> Session \<Rightarrow> int64 \<Rightarrow> bool" where
  "IsPongIdle now s timeout = isIdleSince now (se_lastPong s) timeout"

text \<open>The three readings of the clock are the argument \<open>(n1, n2, n3)\<close>.\<close>

definition IsIdle :: "int64 \<times> int64 \<times> int64 \<Rightarrow> Session \<Rightarrow> int64 \<Rightarrow> bool \<times> IdleReason" where
  "IsIdle nows s timeout =
     (case nows of (n1, n2, n3) \<Rightarrow>
       if timeout \<le> 0 then (False, IdleDisabled)
       else
         (let reason = 0;
              reason = (if IsReadIdle n1 s timeout then reason OR IdleRead else reason);
              reason = (if IsWriteIdle n2 s timeout then reason OR IdleWrite else reason);
              reason = (if IsPongIdle n3 s timeout then reason OR IdlePong else reason)
          in (reason \<noteq> IdleNone, reason)))"

subsection \<open>The registry\<close>

text \<open>A Go map used as a set; \<open>List\<close> returns the keys in an order Go chooses.\<close>

type_synonym LocalSessionRegistry = "SessionID set"

definition NewLocalSessionRegistry :: LocalSessionRegistry where
  "NewLocalSessionRegistry = {}"

definition reg_Add :: "SessionID \<Rightarrow> LocalSessionRegistry \<Rightarrow> LocalSessionRegistry" where
  "reg_Add i r = insert i r"

definition reg_Remove :: "SessionID \<Rightarrow> LocalSessionRegistry \<Rightarrow> LocalSessionRegistry" where
  "reg_Remove i r = r - {i}"

definition reg_List :: "LocalSessionRegistry \<Rightarrow> SessionID list \<Rightarrow> bool" where
  "reg_List r xs \<longleftrightarrow> distinct xs \<and> set xs = r"

definition reg_Contains :: "SessionID \<Rightarrow> LocalSessionRegistry \<Rightarrow> bool" where
  "reg_Contains i r \<longleftrightarrow> i \<in> r"

subsection \<open>Base64 round trip\<close>

lemma index_of_nth: "distinct xs \<Longrightarrow> n < length xs \<Longrightarrow> index_of (xs ! n) xs = Some n"
  by (induction xs arbitrary: n) (auto simp: nth_Cons split: nat.splits)

lemma distinct_alphabet: "distinct b64_alphabet" and length_alphabet: "length b64_alphabet = 64"
  by (simp_all add: b64_alphabet_def)

lemma b64_value_char: "n < 64 \<Longrightarrow> b64_value (b64_char n) = Some n"
  by (simp add: b64_value_def b64_char_def index_of_nth distinct_alphabet length_alphabet)

lemma b64_char_plain: "n < 64 \<Longrightarrow> b64_char n \<noteq> CHR 0x0A \<and> b64_char n \<noteq> CHR 0x0D"
proof -
  assume "n < 64"
  then have "b64_char n \<in> set b64_alphabet" by (simp add: b64_char_def length_alphabet)
  moreover have "CHR 0x0A \<notin> set b64_alphabet" "CHR 0x0D \<notin> set b64_alphabet"
    by (simp_all add: b64_alphabet_def)
  ultimately show ?thesis by metis
qed

lemma six_bits:
  fixes v :: nat
  assumes "v < 16777216"
  shows "v div 262144 mod 64 * 262144 + v div 4096 mod 64 * 4096 + v div 64 mod 64 * 64 + v mod 64 = v"
proof -
  have "v div 64 * 64 + v mod 64 = v" "v div 4096 * 64 + v div 64 mod 64 = v div 64"
    "v div 262144 * 64 + v div 4096 mod 64 = v div 4096"
    using div_mult_mod_eq [of v 64] div_mult_mod_eq [of "v div 64" 64] div_mult_mod_eq [of "v div 4096" 64]
    by (simp_all add: div_mult2_eq [symmetric])
  moreover have "v div 262144 mod 64 = v div 262144" using assms by (intro mod_less) (simp add: div_less_iff_less_mult)
  ultimately show ?thesis by linarith
qed

lemma of_nat_byte: "n mod 256 = unat a \<Longrightarrow> of_nat n = a" for a :: byte
  by (simp add: word_unat_eq_iff unat_of_nat take_bit_eq_mod)

lemma unat_byte: "unat a < 256" for a :: byte
  using unsigned_less [of a, where ?'a = nat] by simp

lemma bytes_of_24:
  fixes a b c :: nat
  assumes "a < 256" "b < 256" "c < 256"
  defines "v \<equiv> a * 65536 + b * 256 + c"
  shows "v < 16777216" "v div 65536 = a" "v div 256 mod 256 = b" "v mod 256 = c"
proof -
  have v: "v = (a * 256 + b) * 256 + c" by (simp add: v_def)
  have d: "v div 256 = a * 256 + b" unfolding v using assms(3) by simp
  show "v < 16777216" using assms by (simp add: v_def)
  show "v div 256 mod 256 = b" unfolding d using assms(2) by simp
  show "v mod 256 = c" unfolding v using assms(3) mod_mult_self3 [of "a * 256 + b" 256 c] by simp
  have "v div 65536 = v div 256 div 256" by (simp flip: div_mult2_eq)
  then show "v div 65536 = a" unfolding d using assms(2) by simp
qed

lemma decode_encode: "decode_groups (map b64_value (base64_Encode bs)) = bs"
proof (induction bs rule: base64_Encode.induct)
  case (2 a)
  define v where "v = unat a * 65536"
  have e: "base64_Encode [a] = [b64_char (v div 262144 mod 64), b64_char (v div 4096 mod 64)]"
    unfolding base64_Encode.simps Let_def v_def ..
  have "v div 64 mod 64 = 0" "v mod 64 = 0" by (simp_all add: v_def)
  moreover have "v < 16777216" "v div 65536 = unat a"
    using bytes_of_24 [of "unat a" 0 0] unat_byte [of a] by (simp_all add: v_def)
  ultimately show ?case using six_bits [of v] unfolding e by (simp add: b64_value_char)
next
  case (3 a b)
  define v where "v = unat a * 65536 + unat b * 256"
  have e: "base64_Encode [a, b]
      = [b64_char (v div 262144 mod 64), b64_char (v div 4096 mod 64), b64_char (v div 64 mod 64)]"
    unfolding base64_Encode.simps Let_def v_def ..
  have "v mod 64 = 0" by (simp add: v_def mod_add_eq [symmetric])
  moreover have "v < 16777216" and parts: "v div 65536 = unat a" "v div 256 mod 256 = unat b"
    using bytes_of_24 [of "unat a" "unat b" 0] unat_byte [of a] unat_byte [of b] unfolding v_def by simp_all
  ultimately show ?case using six_bits [of v] unfolding e by (simp add: b64_value_char Let_def of_nat_byte [OF parts(2)])
next
  case (4 a b c src)
  define v where "v = unat a * 65536 + unat b * 256 + unat c"
  have e: "base64_Encode (a # b # c # src)
      = [b64_char (v div 262144 mod 64), b64_char (v div 4096 mod 64), b64_char (v div 64 mod 64),
         b64_char (v mod 64)] @ base64_Encode src"
    unfolding base64_Encode.simps Let_def v_def ..
  have "v < 16777216" and parts: "v div 65536 = unat a" "v div 256 mod 256 = unat b" "v mod 256 = unat c"
    using bytes_of_24 [OF unat_byte unat_byte unat_byte, of a b c] unfolding v_def by simp_all
  with six_bits [of v] 4 show ?case unfolding e by (simp add: b64_value_char Let_def of_nat_byte [OF parts(2)] of_nat_byte [OF parts(3)])
qed simp_all

lemma base64_Encode_plain: "filter (\<lambda>c. c \<noteq> CHR 0x0A \<and> c \<noteq> CHR 0x0D) (base64_Encode bs) = base64_Encode bs"
  by (induction bs rule: base64_Encode.induct) (simp_all add: Let_def b64_char_plain)

lemma Decode_Encode [wire]: "base64_Decode (base64_Encode bs) = bs"
  unfolding base64_Decode_def base64_Encode_plain by (rule decode_encode)

text \<open>
  The 16 bytes of a session identifier are read back from its text, so the client is told
  (\<open>EncodeAssign\<close>) the very bytes the identifier was made of, different bytes give different
  identifiers, and an identifier made from bytes never is the empty string that stands for \<open>no
  session\<close> in a published message.
\<close>

theorem session_id_roundtrip:
  assumes "length b = 16" and "length b' = 16"
  shows "SessionID_Bytes (SessionIDFromBytes b) = b \<and> SessionID_Bytes (NewSessionID b) = b
    \<and> (NewSessionID b = NewSessionID b' \<longleftrightarrow> b = b') \<and> NewSessionID b \<noteq> []"
proof (intro conjI)
  show "SessionID_Bytes (SessionIDFromBytes b) = b" "SessionID_Bytes (NewSessionID b) = b"
    using assms by (simp_all add: SessionID_Bytes_def SessionIDFromBytes_def NewSessionID_def wire)
  show "NewSessionID b = NewSessionID b' \<longleftrightarrow> b = b'"
    unfolding NewSessionID_def by (metis Decode_Encode)
  show "NewSessionID b \<noteq> []"
    using Decode_Encode [of b] assms(1) by (auto simp: NewSessionID_def base64_Decode_def)
qed

theorem session_id_roundtrip_witness:
  "SessionID_Bytes (NewSessionID (replicate 16 7)) = replicate 16 7
   \<and> NewSessionID (replicate 16 7) \<noteq> NewSessionID (replicate 16 255)"
  using session_id_roundtrip [of "replicate 16 7" "replicate 16 255"] by simp

subsection \<open>Idle sessions\<close>

text \<open>
  \<open>IsIdle\<close> reports a session as idle exactly when one of its three activities is longer ago
  than the timeout, with one bit per such activity; a timeout that is not positive disables the
  check. The text of the reason names the idle activities and never the fallback
  \<open>unknown(...)\<close>.
\<close>

theorem idle_reason_exact:
  assumes "0 < timeout" and "IsIdle (n1, n2, n3) s timeout = (idle, r)"
  shows "(Has r IdleRead \<longleftrightarrow> IsReadIdle n1 s timeout) \<and> (Has r IdleWrite \<longleftrightarrow> IsWriteIdle n2 s timeout)
    \<and> (Has r IdlePong \<longleftrightarrow> IsPongIdle n3 s timeout)
    \<and> (idle \<longleftrightarrow> IsReadIdle n1 s timeout \<or> IsWriteIdle n2 s timeout \<or> IsPongIdle n3 s timeout)
    \<and> IdleReason_String r =
       (let parts = (if IsReadIdle n1 s timeout then [''read''] else [])
          @ (if IsWriteIdle n2 s timeout then [''write''] else [])
          @ (if IsPongIdle n3 s timeout then [''pong''] else [])
        in if parts = [] then ''none'' else hd parts @ concat (map (\<lambda>p. ''|'' @ p) (tl parts)))"
  using assms
  by (auto simp: IsIdle_def Let_def Has_def idle_reasons IdleReason_String_def idle_add_def
      split: if_splits)

theorem idle_reason_exact_witness:
  "IsIdle (40, 40, 40) \<lparr>se_id = ''s'', se_lastRead = 5, se_lastWrite = 39, se_lastPong = 1, se_closed = False\<rparr> 30
     = (True, IdleRead OR IdlePong)
   \<and> IdleReason_String (IdleRead OR IdlePong) = ''read|pong''"
proof -
  let ?s = "\<lparr>se_id = ''s'', se_lastRead = 5, se_lastWrite = 39, se_lastPong = 1, se_closed = False\<rparr>"
  have i: "IsIdle (40, 40, 40) ?s 30 = (True, IdleRead OR IdlePong)"
    by (simp add: IsIdle_def IsReadIdle_def IsWriteIdle_def IsPongIdle_def isIdleSince_def Since_def idle_reasons)
  show ?thesis
    using i idle_reason_exact [OF _ i]
    by (simp add: IsReadIdle_def IsWriteIdle_def IsPongIdle_def isIdleSince_def Since_def)
qed

end
