(* ===== verification/World.thy ===== *)
theory World
  imports App_Protocol Session
begin

unbundle bit_operations_syntax

text \<open>
  The state of the shooting game of \<open>withered\<close>: the tile map (\<open>map.go\<close>), the field (\<open>field.go\<close>),
  the queue of inputs (\<open>buffer.go\<close>), the constants of \<open>bullet.go\<close> and the world with its
  operations (\<open>world.go\<close>).

  \<^item> The components are Go maps from entities to values; reading a missing key gives the zero
    value (\<open>at\<close>). \<open>EntityID\<close> is a 16-bit word, so \<open>NextEntityID\<close> wraps around.
  \<^item> \<open>w_orders\<close> and \<open>w_rands\<close> stand for what the runtime chooses: the order in which each
    \<open>range\<close> over a map visits the keys, and the numbers \<open>rand.Float32\<close> returns. Every use takes
    the first and moves on to the next.
  \<^item> \<open>range_keys S xs\<close> is the order in which a \<open>range\<close> that starts with the keys \<open>S\<close> visits
    them when the runtime prefers \<open>xs\<close>: every key once; keys outside \<open>S\<close> may occur, and a loop
    visits a key only while it is in the map, which is what Go guarantees when a loop adds or
    deletes keys.
\<close>

definition "at" :: "('k \<rightharpoonup> 'v) \<Rightarrow> 'v \<Rightarrow> 'k \<Rightarrow> 'v" where
  "at m z k = (case m k of None \<Rightarrow> z | Some v \<Rightarrow> v)"

subsection \<open>Tiles and the field\<close>

type_synonym TileID = byte

definition TileEmpty :: TileID where "TileEmpty = 0"
definition TileWall :: TileID where "TileWall = 1"
definition TileWater :: TileID where "TileWater = 2"

datatype TileOutOfRangeError = TileOutOfRangeError (te_X: int) (te_Y: int) (te_Width: int) (te_Height: int)

definition int_digits :: "int \<Rightarrow> string" where
  "int_digits n = (if n < 0 then ''-'' else '''') @ digits (nat \<bar>n\<bar>)"

definition TileError_Error :: "TileOutOfRangeError \<Rightarrow> string" where
  "TileError_Error e =
     ''tile coordinates ('' @ int_digits (te_X e) @ '', '' @ int_digits (te_Y e) @ '') out of range [0-''
       @ int_digits (te_Width e - 1) @ '', 0-'' @ int_digits (te_Height e - 1) @ '']''"

record Map =
  mp_Width :: int
  mp_Height :: int
  mp_TileSize :: float32
  mp_Tiles :: "TileID list"

text \<open>\<open>make\<close> panics on a negative length.\<close>

definition NewMap :: "int \<Rightarrow> int \<Rightarrow> float32 \<Rightarrow> Map option" where
  "NewMap width height tileSize =
     (if width * height < 0 then None
      else Some \<lparr>mp_Width = width, mp_Height = height, mp_TileSize = tileSize,
        mp_Tiles = replicate (nat (width * height)) TileEmpty\<rparr>)"

definition out_of_map :: "Map \<Rightarrow> int \<Rightarrow> int \<Rightarrow> bool" where
  "out_of_map m x y \<longleftrightarrow> x < 0 \<or> mp_Width m \<le> x \<or> y < 0 \<or> mp_Height m \<le> y"

definition GetTile :: "Map \<Rightarrow> int \<Rightarrow> int \<Rightarrow> TileID option" where
  "GetTile m x y =
     (if out_of_map m x y then Some TileWall
      else let i = nat (y * mp_Width m + x)
           in if i < length (mp_Tiles m) then Some (mp_Tiles m ! i) else None)"

definition SetTile :: "int \<Rightarrow> int \<Rightarrow> TileID \<Rightarrow> Map \<Rightarrow> (Map \<times> TileOutOfRangeError option) option" where
  "SetTile x y tile m =
     (if out_of_map m x y then Some (m, Some (TileOutOfRangeError x y (mp_Width m) (mp_Height m)))
      else let i = nat (y * mp_Width m + x)
           in if i < length (mp_Tiles m) then Some (m\<lparr>mp_Tiles := (mp_Tiles m)[i := tile]\<rparr>, None) else None)"

definition WorldWidth :: "Map \<Rightarrow> float32" where
  "WorldWidth m = f32_mul (f32_of_int (mp_Width m)) (mp_TileSize m)"

definition WorldHeight :: "Map \<Rightarrow> float32" where
  "WorldHeight m = f32_mul (f32_of_int (mp_Height m)) (mp_TileSize m)"

record Static = st_Map :: Map

definition NewField :: "Map \<Rightarrow> Static" where
  "NewField m = \<lparr>st_Map = m\<rparr>"

definition clamp :: "float32 \<Rightarrow> float32 \<Rightarrow> float32 \<Rightarrow> float32" where
  "clamp v lo hi = (if f32_lt v lo then lo else if f32_lt hi v then hi else v)"

subsection \<open>Constants\<close>

definition BulletSpeed :: float32 where "BulletSpeed = f32_ratio 15 10"
definition BulletTTL :: u16 where "BulletTTL = 120"
definition BulletRadius :: float32 where "BulletRadius = f32_ratio 3 10"
definition ActorRadius :: float32 where "ActorRadius = f32_ratio 5 10"
definition ShootCooldown :: int where "ShootCooldown = 30"
definition BulletDamage :: byte where "BulletDamage = 20"
definition RespawnTicks :: int where "RespawnTicks = 180"

definition spawnMargin :: float32 where "spawnMargin = f32_ratio 50 10"

type_synonym EntityID = u16
type_synonym Tag = byte
type_synonym ActorState = byte

definition TagPlayer :: Tag where "TagPlayer = 1"
definition TagBot :: Tag where "TagBot = 2"
definition TagBullet :: Tag where "TagBullet = 3"

definition StateAlive :: ActorState where "StateAlive = 0x01"
definition StateRespawning :: ActorState where "StateRespawning = 0x02"
definition KindPlayer :: ActorState where "KindPlayer = 0x00"
definition KindBot :: ActorState where "KindBot = 0x10"

subsection \<open>The world\<close>

record WorldPosition = pos_X :: float32  pos_Y :: float32
record Health = HP :: byte
record LifeState = ls_State :: ActorState
record Velocity = vel_X :: float32  vel_Y :: float32

record InputEntry = in_EntityID :: EntityID  in_KeyMask :: u32

type_synonym PendingInput = "InputEntry list"

definition Push :: "InputEntry \<Rightarrow> PendingInput \<Rightarrow> PendingInput" where
  "Push entry q = q @ [entry]"

definition Drain :: "PendingInput \<Rightarrow> InputEntry list \<times> PendingInput" where
  "Drain q = (q, [])"

record ShootingWorld =
  w_Entities :: "EntityID set"
  w_Position :: "EntityID \<rightharpoonup> WorldPosition"
  w_Health :: "EntityID \<rightharpoonup> Health"
  w_LifeState :: "EntityID \<rightharpoonup> LifeState"
  w_Velocity :: "EntityID \<rightharpoonup> Velocity"
  w_TTL :: "EntityID \<rightharpoonup> u16"
  w_Owner :: "EntityID \<rightharpoonup> EntityID"
  w_Tag :: "EntityID \<rightharpoonup> Tag"
  w_ShootCooldown :: "EntityID \<rightharpoonup> int"
  w_RespawnTimer :: "EntityID \<rightharpoonup> int"
  w_SessionToEntity :: "SessionID \<rightharpoonup> EntityID"
  w_EntityToSession :: "EntityID \<rightharpoonup> SessionID"
  w_PendingInputs :: PendingInput
  w_Static :: Static
  w_NextEntityID :: EntityID
  w_orders :: "nat \<Rightarrow> EntityID list"
  w_rands :: "nat \<Rightarrow> float32"

definition NewShootingWorld :: "Static \<Rightarrow> (nat \<Rightarrow> EntityID list) \<Rightarrow> (nat \<Rightarrow> float32) \<Rightarrow> ShootingWorld" where
  "NewShootingWorld static orders rands =
     \<lparr>w_Entities = {}, w_Position = Map.empty, w_Health = Map.empty, w_LifeState = Map.empty,
      w_Velocity = Map.empty, w_TTL = Map.empty, w_Owner = Map.empty, w_Tag = Map.empty,
      w_ShootCooldown = Map.empty, w_RespawnTimer = Map.empty, w_SessionToEntity = Map.empty,
      w_EntityToSession = Map.empty, w_PendingInputs = [], w_Static = static, w_NextEntityID = 0,
      w_orders = orders, w_rands = rands\<rparr>"

definition range_keys :: "EntityID set \<Rightarrow> EntityID list \<Rightarrow> EntityID list" where
  "range_keys S xs = remdups xs @ sorted_list_of_set (S - set xs)"

definition next_order :: "ShootingWorld \<Rightarrow> EntityID list \<times> ShootingWorld" where
  "next_order w = (range_keys (w_Entities w) (w_orders w 0), w\<lparr>w_orders := \<lambda>n. w_orders w (Suc n)\<rparr>)"

definition rand_Float32 :: "ShootingWorld \<Rightarrow> float32 \<times> ShootingWorld" where
  "rand_Float32 w = (w_rands w 0, w\<lparr>w_rands := \<lambda>n. w_rands w (Suc n)\<rparr>)"

definition randomPosition :: "ShootingWorld \<Rightarrow> WorldPosition \<times> ShootingWorld" where
  "randomPosition w =
     (let m = st_Map (w_Static w);
          margin = f32_mul spawnMargin (f32_ratio 2 1);
          ww = f32_sub (WorldWidth m) margin;
          wh = f32_sub (WorldHeight m) margin;
          (rx, w) = rand_Float32 w;
          (ry, w) = rand_Float32 w
      in (\<lparr>pos_X = f32_add spawnMargin (f32_mul rx ww), pos_Y = f32_add spawnMargin (f32_mul ry wh)\<rparr>, w))"

definition AllocEntity :: "ShootingWorld \<Rightarrow> EntityID \<times> ShootingWorld" where
  "AllocEntity w =
     (let i = w_NextEntityID w + 1
      in (i, w\<lparr>w_NextEntityID := i, w_Entities := insert i (w_Entities w)\<rparr>))"

definition SpawnActor :: "SessionID \<Rightarrow> Tag \<Rightarrow> ShootingWorld \<Rightarrow> EntityID \<times> ShootingWorld" where
  "SpawnActor sessionID tag w =
     (let (i, w) = AllocEntity w;
          (pos, w) = randomPosition w
      in (i, w\<lparr>w_Position := (w_Position w)(i \<mapsto> pos),
           w_Health := (w_Health w)(i \<mapsto> \<lparr>HP = 100\<rparr>),
           w_LifeState := (w_LifeState w)(i \<mapsto> \<lparr>ls_State = StateAlive\<rparr>),
           w_Tag := (w_Tag w)(i \<mapsto> tag),
           w_ShootCooldown := (w_ShootCooldown w)(i \<mapsto> 0),
           w_SessionToEntity := (w_SessionToEntity w)(sessionID \<mapsto> i),
           w_EntityToSession := (w_EntityToSession w)(i \<mapsto> sessionID)\<rparr>))"

definition SpawnBullet :: "EntityID \<Rightarrow> WorldPosition \<Rightarrow> Velocity \<Rightarrow> ShootingWorld \<Rightarrow> EntityID \<times> ShootingWorld" where
  "SpawnBullet ownerID pos vel w =
     (let (i, w) = AllocEntity w
      in (i, w\<lparr>w_Position := (w_Position w)(i \<mapsto> pos),
           w_Velocity := (w_Velocity w)(i \<mapsto> vel),
           w_TTL := (w_TTL w)(i \<mapsto> BulletTTL),
           w_Owner := (w_Owner w)(i \<mapsto> ownerID),
           w_Tag := (w_Tag w)(i \<mapsto> TagBullet)\<rparr>))"

definition RemoveEntity :: "EntityID \<Rightarrow> ShootingWorld \<Rightarrow> ShootingWorld" where
  "RemoveEntity i w =
     (let w = w\<lparr>w_Entities := w_Entities w - {i},
           w_Position := (w_Position w)(i := None),
           w_Health := (w_Health w)(i := None),
           w_LifeState := (w_LifeState w)(i := None),
           w_Velocity := (w_Velocity w)(i := None),
           w_TTL := (w_TTL w)(i := None),
           w_Owner := (w_Owner w)(i := None),
           w_Tag := (w_Tag w)(i := None),
           w_ShootCooldown := (w_ShootCooldown w)(i := None),
           w_RespawnTimer := (w_RespawnTimer w)(i := None)\<rparr>
      in case w_EntityToSession w i of
           None \<Rightarrow> w
         | Some sid \<Rightarrow> w\<lparr>w_SessionToEntity := (w_SessionToEntity w)(sid := None),
             w_EntityToSession := (w_EntityToSession w)(i := None)\<rparr>)"

end
