(* ===== verification/Scheduler.thy ===== *)
theory Scheduler
  imports Prelude "HOL-Library.Multiset"
begin

text \<open>
  The scheduler of \<open>withered\<close>, \<open>server/application/schedular.go\<close>: systems are grouped by phase
  and, within a phase, ordered by their declared dependencies with Kahn's algorithm. A \<open>System\<close>
  value is a record of its methods; \<open>sys_Run\<close> is its effect on the world. Errors are those of
  \<open>utils/error/error.go\<close>; the fields attached for logging are kept as association lists.
\<close>

subsection \<open>Errors\<close>

datatype go_error =
    TanzErr (te_Message: string) (te_Code: string) (te_Fields: "(string \<times> string) list") (te_Cause: "go_error option")
  | OtherErr string "go_error option"

definition TanzError_Error :: "go_error \<Rightarrow> string" where
  "TanzError_Error e =
     (case e of
        TanzErr message code fields cause \<Rightarrow>
          if message \<noteq> '''' then message else if code \<noteq> '''' then code else ''error''
      | OtherErr text cause \<Rightarrow> text)"

definition TanzError_Unwrap :: "go_error \<Rightarrow> go_error option" where
  "TanzError_Unwrap e = (case e of TanzErr _ _ _ cause \<Rightarrow> cause | OtherErr _ cause \<Rightarrow> cause)"

definition TanzError_New :: "string \<Rightarrow> string \<Rightarrow> (string \<times> string) list \<Rightarrow> go_error" where
  "TanzError_New message code fields = TanzErr message code fields None"

definition TanzError_Wrap :: "go_error \<Rightarrow> string \<Rightarrow> string \<Rightarrow> (string \<times> string) list \<Rightarrow> go_error" where
  "TanzError_Wrap err message code fields = TanzErr message code fields (Some err)"

text \<open>The fields are a Go map, visited in the order \<open>keys\<close>.\<close>

definition AttrsFromFields :: "string list \<Rightarrow> (string \<times> string) list \<Rightarrow> (string \<times> string) list" where
  "AttrsFromFields keys f = List.map_filter (\<lambda>k. map_option (Pair k) (map_of f k)) keys"

lemma AttrsFromFields_set:
  "distinct (map fst f) \<Longrightarrow> set keys = fst ` set f \<Longrightarrow> set (AttrsFromFields keys f) = set f"
  by (force simp: AttrsFromFields_def List.map_filter_def split: option.splits dest: map_of_SomeD)

subsection \<open>Systems\<close>

type_synonym Phase = byte

definition PhaseSimulation :: Phase where "PhaseSimulation = 0"
definition PhaseNetwork :: Phase where "PhaseNetwork = 1"

record 'w System =
  sys_ID :: string
  sys_Phase :: Phase
  sys_After :: "string list"
  sys_Run :: "'w \<Rightarrow> 'w"

definition CodeEmptySystemID :: string where "CodeEmptySystemID = ''invalid_argument.empty_system_id''"
definition CodeDuplicateSystemID :: string where "CodeDuplicateSystemID = ''invalid_state.duplicate_system_id''"

text \<open>The first loop of \<open>NewScheduler\<close>; a Go map of slices read at a missing key is empty.\<close>

fun register_systems ::
  "'w System list \<Rightarrow> (Phase \<Rightarrow> 'w System list) \<Rightarrow> (string \<rightharpoonup> 'w System)
     \<Rightarrow> go_error + (Phase \<Rightarrow> 'w System list) \<times> (string \<rightharpoonup> 'w System)" where
  "register_systems [] byPhase idToSystem = Inr (byPhase, idToSystem)"
| "register_systems (sys # systems) byPhase idToSystem =
     (if sys_ID sys = '''' then Inl (TanzError_New ''System ID cannot be empty'' CodeEmptySystemID [])
      else if idToSystem (sys_ID sys) \<noteq> None
      then Inl (TanzError_New ''Duplicate System ID detected'' CodeDuplicateSystemID [(''system_id'', sys_ID sys)])
      else register_systems systems (byPhase(sys_Phase sys := byPhase (sys_Phase sys) @ [sys]))
             (idToSystem(sys_ID sys \<mapsto> sys)))"

subsection \<open>Topological sort\<close>

definition in_phase :: "'w System list \<Rightarrow> string \<rightharpoonup> 'w System" where
  "in_phase systems = foldl (\<lambda>m sys. m(sys_ID sys \<mapsto> sys)) Map.empty systems"

text \<open>The dependencies of one system: the inner loop over \<open>After()\<close>.\<close>

fun add_deps ::
  "Phase \<Rightarrow> (string \<rightharpoonup> 'w System) \<Rightarrow> string \<Rightarrow> string list \<Rightarrow> (string \<Rightarrow> string list) \<times> (string \<Rightarrow> int)
     \<Rightarrow> go_error + (string \<Rightarrow> string list) \<times> (string \<Rightarrow> int)" where
  "add_deps phase inPhase sysID [] g = Inr g"
| "add_deps phase inPhase sysID (depID # deps) (dependents, inDegree) =
     (case inPhase depID of
        None \<Rightarrow> Inl (TanzError_New ''System dependency not found in the same phase'' ''invalid_state.missing_dependency''
                       [(''system_id'', sysID), (''dependency_id'', depID)])
      | Some depSys \<Rightarrow>
          if sys_Phase depSys \<noteq> phase
          then Inl (TanzError_New ''System dependency cannot be in a different phase'' ''invalid_state.cross_phase_dependency''
                      [(''system_id'', sysID), (''dependency_id'', depID)])
          else add_deps phase inPhase sysID deps
                 (dependents(depID := dependents depID @ [sysID]), inDegree(sysID := inDegree sysID + 1)))"

fun build_graph ::
  "Phase \<Rightarrow> (string \<rightharpoonup> 'w System) \<Rightarrow> 'w System list \<Rightarrow> (string \<Rightarrow> string list) \<times> (string \<Rightarrow> int)
     \<Rightarrow> go_error + (string \<Rightarrow> string list) \<times> (string \<Rightarrow> int)" where
  "build_graph phase inPhase [] g = Inr g"
| "build_graph phase inPhase (sys # systems) g =
     (case add_deps phase inPhase (sys_ID sys) (sys_After sys) g of
        Inl e \<Rightarrow> Inl e
      | Inr g' \<Rightarrow> build_graph phase inPhase systems g')"

text \<open>The loop over the dependents of the system that was taken from the queue.\<close>

fun relax :: "string list \<Rightarrow> (string \<Rightarrow> int) \<Rightarrow> string list \<Rightarrow> (string \<Rightarrow> int) \<times> string list" where
  "relax [] inDegree queue = (inDegree, queue)"
| "relax (depID # deps) inDegree queue =
     (let inDegree = inDegree(depID := inDegree depID - 1)
      in relax deps inDegree (if inDegree depID = 0 then queue @ [depID] else queue))"

text \<open>The main loop; \<open>None\<close> if it never ended. \<open>out\<close> collects the identifiers.\<close>

partial_function (option) topo_loop ::
  "(string \<Rightarrow> string list) \<Rightarrow> string list \<Rightarrow> (string \<Rightarrow> int) \<Rightarrow> string list \<Rightarrow> string list option" where
  "topo_loop dependents queue inDegree out =
     (case queue of
        [] \<Rightarrow> Some out
      | currentID # queue \<Rightarrow>
          (let (inDegree, queue) = relax (dependents currentID) inDegree queue
           in topo_loop dependents queue inDegree (out @ [currentID])))"

definition cyclic_error :: go_error where
  "cyclic_error = TanzError_New ''Cyclic dependency detected among systems'' ''invalid_state.cyclic_dependency'' []"

definition topologicalSort :: "Phase \<Rightarrow> 'w System list \<Rightarrow> (go_error + 'w System list) option" where
  "topologicalSort phase systems =
     (let inPhase = in_phase systems
      in case build_graph phase inPhase systems (\<lambda>_. [], \<lambda>_. 0) of
           Inl e \<Rightarrow> Some (Inl e)
         | Inr (dependents, inDegree) \<Rightarrow>
             (let queue = filter (\<lambda>i. inDegree i = 0) (map sys_ID systems)
              in case topo_loop dependents queue inDegree [] of
                   None \<Rightarrow> None
                 | Some out \<Rightarrow>
                     if length out \<noteq> length systems then Some (Inl cyclic_error)
                     else Some (Inr (map (\<lambda>i. the (inPhase i)) out))))"

subsection \<open>The scheduler\<close>

record 'w Scheduler =
  sch_order :: "Phase \<Rightarrow> 'w System list"
  sch_phases :: "Phase list"

fun order_phases ::
  "Phase list \<Rightarrow> (Phase \<Rightarrow> 'w System list) \<Rightarrow> (Phase \<Rightarrow> 'w System list) \<Rightarrow> (go_error + (Phase \<Rightarrow> 'w System list)) option" where
  "order_phases [] byPhase ordered = Some (Inr ordered)"
| "order_phases (phase # phases) byPhase ordered =
     (case topologicalSort phase (byPhase phase) of
        None \<Rightarrow> None
      | Some (Inl e) \<Rightarrow> Some (Inl e)
      | Some (Inr out) \<Rightarrow> order_phases phases byPhase (ordered(phase := out)))"

definition NewScheduler :: "Phase list \<Rightarrow> 'w System list \<Rightarrow> (go_error + 'w Scheduler) option" where
  "NewScheduler phases systems =
     (case register_systems systems (\<lambda>_. []) Map.empty of
        Inl e \<Rightarrow> Some (Inl e)
      | Inr (byPhase, idToSystem) \<Rightarrow>
          (case order_phases phases byPhase (\<lambda>_. []) of
             None \<Rightarrow> None
           | Some (Inl e) \<Rightarrow> Some (Inl e)
           | Some (Inr ordered) \<Rightarrow> Some (Inr \<lparr>sch_order = ordered, sch_phases = phases\<rparr>)))"

definition RunTick :: "'w Scheduler \<Rightarrow> 'w \<Rightarrow> 'w" where
  "RunTick s world =
     foldl (\<lambda>w phase. foldl (\<lambda>w sys. sys_Run sys w) w (sch_order s phase)) world (sch_phases s)"

subsection \<open>The graph\<close>

definition after_of :: "'w System list \<Rightarrow> string \<Rightarrow> string list" where
  "after_of systems i = concat (map sys_After (filter (\<lambda>s. sys_ID s = i) systems))"

lemma in_phase_Some:
  "in_phase systems i = Some s \<Longrightarrow> s \<in> set systems \<and> sys_ID s = i"
proof (induction systems rule: rev_induct)
  case (snoc x xs)
  then show ?case by (auto simp: in_phase_def split: if_splits)
qed (simp add: in_phase_def)

lemma in_phase_None: "in_phase systems i = None \<longleftrightarrow> i \<notin> sys_ID ` set systems"
  by (induction systems rule: rev_induct) (auto simp: in_phase_def)

lemma in_phase_distinct:
  "distinct (map sys_ID systems) \<Longrightarrow> s \<in> set systems \<Longrightarrow> in_phase systems (sys_ID s) = Some s"
  by (induction systems rule: rev_induct) (auto simp: in_phase_def image_iff)

lemma add_deps_ok:
  assumes "\<forall>d \<in> set deps. \<exists>s. inPhase d = Some s \<and> sys_Phase s = phase"
  shows "\<exists>dependents' inDegree'. add_deps phase inPhase i deps (dependents, inDegree) = Inr (dependents', inDegree')
    \<and> inDegree' = inDegree(i := inDegree i + int (length deps))
    \<and> (\<forall>x. dependents' x = dependents x @ replicate (count (mset deps) x) i)"
  using assms
proof (induction deps arbitrary: dependents inDegree)
  case (Cons d deps)
  then obtain s where s: "inPhase d = Some s" "sys_Phase s = phase" by auto
  let ?D = "dependents(d := dependents d @ [i])" and ?I = "inDegree(i := inDegree i + 1)"
  have "\<forall>d \<in> set deps. \<exists>s. inPhase d = Some s \<and> sys_Phase s = phase" using Cons.prems by simp
  from Cons.IH [OF this, of ?D ?I] obtain D I where "add_deps phase inPhase i deps (?D, ?I) = Inr (D, I)"
    "I = ?I(i := ?I i + int (length deps))" "\<forall>x. D x = ?D x @ replicate (count (mset deps) x) i" by blast
  with s show ?case by (auto simp: add.commute replicate_app_Cons_same)
qed simp

lemma add_deps_missing:
  assumes "d \<in> set deps" "inPhase d = None" "\<forall>x s. inPhase x = Some s \<longrightarrow> sys_Phase s = phase"
  shows "\<exists>dep \<in> set deps. inPhase dep = None \<and> add_deps phase inPhase i deps g =
    Inl (TanzError_New ''System dependency not found in the same phase'' ''invalid_state.missing_dependency''
          [(''system_id'', i), (''dependency_id'', dep)])"
  using assms(1,2)
proof (induction deps arbitrary: g)
  case (Cons x deps)
  obtain D I where g: "g = (D, I)" by (cases g)
  show ?case
  proof (cases "inPhase x")
    case (Some s)
    then have "d \<in> set deps" using Cons.prems by auto
    from Cons.IH [OF this Cons.prems(2)] show ?thesis using Some assms(3) by (auto simp: g)
  qed (simp add: g)
qed simp

lemma build_graph_ok:
  assumes "\<forall>s \<in> set systems. \<forall>d \<in> set (sys_After s). \<exists>s. inPhase d = Some s \<and> sys_Phase s = phase"
  shows "\<exists>dependents' inDegree'. build_graph phase inPhase systems (dependents, inDegree) = Inr (dependents', inDegree')
    \<and> (\<forall>y. inDegree' y = inDegree y + int (length (after_of systems y)))
    \<and> (\<forall>x y. count (mset (dependents' x)) y = count (mset (dependents x)) y + count (mset (after_of systems y)) x)"
  using assms
proof (induction systems arbitrary: dependents inDegree)
  case Nil
  then show ?case by (simp add: after_of_def)
next
  case (Cons s systems)
  obtain D I where a: "add_deps phase inPhase (sys_ID s) (sys_After s) (dependents, inDegree) = Inr (D, I)"
    "I = inDegree(sys_ID s := inDegree (sys_ID s) + int (length (sys_After s)))"
    "\<forall>x. D x = dependents x @ replicate (count (mset (sys_After s)) x) (sys_ID s)"
    using add_deps_ok [of "sys_After s" inPhase phase "sys_ID s" dependents inDegree] Cons.prems by force
  obtain D' I' where b: "build_graph phase inPhase systems (D, I) = Inr (D', I')"
    "\<forall>y. I' y = I y + int (length (after_of systems y))"
    "\<forall>x y. count (mset (D' x)) y = count (mset (D x)) y + count (mset (after_of systems y)) x"
    using Cons.IH [of D I] Cons.prems by auto
  show ?case using a b by (auto simp: after_of_def)
qed

lemma build_graph_missing:
  assumes "s \<in> set systems" "d \<in> set (sys_After s)" "inPhase d = None" "\<forall>x s. inPhase x = Some s \<longrightarrow> sys_Phase s = phase"
  shows "\<exists>s \<in> set systems. \<exists>dep \<in> set (sys_After s). inPhase dep = None \<and> build_graph phase inPhase systems g =
    Inl (TanzError_New ''System dependency not found in the same phase'' ''invalid_state.missing_dependency''
          [(''system_id'', sys_ID s), (''dependency_id'', dep)])"
  using assms(1,2)
proof (induction systems arbitrary: g)
  case (Cons x systems)
  show ?case
  proof (cases "\<exists>dep \<in> set (sys_After x). inPhase dep = None")
    case True
    then obtain dep where "dep \<in> set (sys_After x)" "inPhase dep = None" by blast
    from add_deps_missing [OF this assms(4), of "sys_ID x" g] show ?thesis by auto
  next
    case False
    then have "\<forall>dep \<in> set (sys_After x). \<exists>s. inPhase dep = Some s \<and> sys_Phase s = phase"
      using assms(4) by auto
    then obtain g' where "add_deps phase inPhase (sys_ID x) (sys_After x) g = Inr g'"
      using add_deps_ok [of "sys_After x" inPhase phase "sys_ID x" "fst g" "snd g"] by auto
    moreover have "s \<in> set systems" using Cons.prems False assms(3) by auto
    ultimately show ?thesis using Cons.IH [of g'] Cons.prems(2) by auto
  qed
qed simp

subsection \<open>The loop\<close>

lemma relax_spec:
  assumes "\<forall>y. int (count (mset L) y) \<le> d y"
  shows "\<exists>new. relax L d q = (\<lambda>y. d y - int (count (mset L) y), q @ new) \<and> distinct new
    \<and> set new = {y \<in> set L. d y = int (count (mset L) y)}"
  using assms
proof (induction L arbitrary: d q)
  case (Cons x L)
  let ?d = "d(x := d x - 1)"
  have le: "\<forall>y. int (count (mset L) y) \<le> ?d y"
    using Cons.prems by (auto split: if_splits)
  obtain new where new: "relax L ?d (if d x - 1 = 0 then q @ [x] else q)
      = (\<lambda>y. ?d y - int (count (mset L) y), (if d x - 1 = 0 then q @ [x] else q) @ new)"
    "distinct new" "set new = {y \<in> set L. ?d y = int (count (mset L) y)}"
    using Cons.IH [OF le, of "if d x - 1 = 0 then q @ [x] else q"] by blast
  have fn: "(\<lambda>y. ?d y - int (count (mset L) y)) = (\<lambda>y. d y - int (count (mset (x # L)) y))" by auto
  have "relax (x # L) d q = relax L ?d (if d x - 1 = 0 then q @ [x] else q)" by (simp add: Let_def)
  note run = this [unfolded new(1) fn]
  show ?case
  proof (cases "d x - 1 = 0")
    case True
    then have x: "x \<notin> set L" using le [rule_format, of x] by (simp add: count_eq_zero_iff)
    have "y \<in> set (x # new) \<longleftrightarrow> y \<in> set (x # L) \<and> d y = int (count (mset (x # L)) y)" for y
      using new(3) True x by (cases "y = x") (simp_all add: count_eq_zero_iff)
    then have "set (x # new) = {y \<in> set (x # L). d y = int (count (mset (x # L)) y)}" by blast
    moreover have "distinct (x # new)" using new(2,3) x by auto
    moreover have "relax (x # L) d q = (\<lambda>y. d y - int (count (mset (x # L)) y), q @ x # new)"
      unfolding run using True by simp
    ultimately show ?thesis by blast
  next
    case False
    have "y \<in> set new \<longleftrightarrow> y \<in> set (x # L) \<and> d y = int (count (mset (x # L)) y)" for y
    proof (cases "y = x")
      case True
      have "d x \<noteq> int (count (mset (x # L)) x)" if "x \<notin> set L"
      proof -
        have "count (mset L) x = 0" using that by (simp add: count_eq_zero_iff)
        then show ?thesis using False by (metis count_add_mset mset.simps(2) of_nat_1 One_nat_def diff_self)
      qed
      moreover have "x \<in> set new \<longleftrightarrow> x \<in> set L \<and> d x - 1 = int (count (mset L) x)" using new(3) by simp
      moreover have "int (count (mset (x # L)) x) = int (count (mset L) x) + 1" by simp
      ultimately show ?thesis unfolding True by (cases "x \<in> set L") (simp_all add: algebra_simps)
    qed (use new(3) in simp)
    then have "set new = {y \<in> set (x # L). d y = int (count (mset (x # L)) y)}" by blast
    moreover have "relax (x # L) d q = (\<lambda>y. d y - int (count (mset (x # L)) y), q @ new)"
      unfolding run using False by simp
    ultimately show ?thesis using new(2) by blast
  qed
qed simp

definition kahn_inv :: "string list \<Rightarrow> (string \<Rightarrow> string list) \<Rightarrow> string list \<Rightarrow> (string \<Rightarrow> int) \<Rightarrow> string list \<Rightarrow> bool" where
  "kahn_inv V A q d s \<longleftrightarrow> distinct (s @ q) \<and> set (s @ q) \<subseteq> set V
     \<and> (\<forall>y. d y = int (length (filter (\<lambda>x. x \<notin> set s) (A y))))
     \<and> (\<forall>y \<in> set V. y \<in> set (s @ q) \<longleftrightarrow> d y = 0)
     \<and> (\<forall>i < length s. set (A (s ! i)) \<subseteq> set (take i s))"

lemma filter_split:
  "c \<notin> set s \<Longrightarrow> length (filter (\<lambda>x. x \<notin> set s) L) = length (filter (\<lambda>x. x \<notin> set (s @ [c])) L) + count (mset L) c"
  by (induction L) auto

lemma kahn_step:
  assumes inv: "kahn_inv V A (c # q) d s" and D: "\<forall>y. count (mset (D c)) y = count (mset (A y)) c"
    and A: "\<forall>y. y \<notin> set V \<longrightarrow> A y = []"
  obtains d' q' where "relax (D c) d q = (d', q')" "kahn_inv V A q' d' (s @ [c])"
proof -
  have dist: "distinct (s @ c # q)" and sub: "set (s @ c # q) \<subseteq> set V"
    and d: "d y = int (length (filter (\<lambda>x. x \<notin> set s) (A y)))"
    and zero: "y \<in> set V \<Longrightarrow> y \<in> set (s @ c # q) \<longleftrightarrow> d y = 0"
    and topo: "i < length s \<Longrightarrow> set (A (s ! i)) \<subseteq> set (take i s)" for y i
    using inv unfolding kahn_inv_def by blast+
  have c: "c \<notin> set s" "c \<in> set V" using dist sub by auto
  note split = filter_split [OF c(1)]
  have le: "\<forall>y. int (count (mset (D c)) y) \<le> d y" using D d split by simp
  obtain new where new: "relax (D c) d q = (\<lambda>y. d y - int (count (mset (D c)) y), q @ new)" "distinct new"
    "set new = {y \<in> set (D c). d y = int (count (mset (D c)) y)}"
    using relax_spec [OF le] by blast
  define d' where "d' = (\<lambda>y. d y - int (count (mset (D c)) y))"
  have d': "d' y = int (length (filter (\<lambda>x. x \<notin> set (s @ [c])) (A y)))" for y
    using D d [of y] split [of "A y"] by (simp add: d'_def)
  have inD: "y \<in> set (D c) \<longleftrightarrow> 0 < count (mset (D c)) y" for y by simp
  have new': "y \<in> set new \<longleftrightarrow> d y \<noteq> 0 \<and> d' y = 0" for y
  proof -
    have "y \<in> set new \<longleftrightarrow> 0 < count (mset (D c)) y \<and> d' y = 0" using new(3) by (auto simp: d'_def)
    moreover have "d y = d' y + int (count (mset (D c)) y)" by (simp add: d'_def)
    ultimately show ?thesis by auto
  qed
  have inV: "y \<in> set V" if "y \<in> set new" for y using that new' [of y] d [of y] A by auto
  have old: "d' y = 0" if "d y = 0" for y using that d' [of y] le [rule_format, of y] unfolding d'_def by linarith
  have "kahn_inv V A (q @ new) d' (s @ [c])"
    unfolding kahn_inv_def
  proof (intro conjI ballI allI impI)
    have "set (s @ c # q) \<inter> set new = {}" using zero inV new' by blast
    then show "distinct ((s @ [c]) @ q @ new)" using dist new(2) by auto
    show "set ((s @ [c]) @ q @ new) \<subseteq> set V" using sub inV by auto
    show "d' y = int (length (filter (\<lambda>x. x \<notin> set (s @ [c])) (A y)))" for y by (rule d')
    show "y \<in> set ((s @ [c]) @ q @ new) \<longleftrightarrow> d' y = 0" if "y \<in> set V" for y
      using zero [OF that] new' [of y] old [of y] by auto
    fix i assume "i < length (s @ [c])"
    then consider "i < length s" | "i = length s" by fastforce
    then show "set (A ((s @ [c]) ! i)) \<subseteq> set (take i (s @ [c]))"
    proof cases
      case 2
      have "d c = 0" using zero [OF c(2)] by simp
      with d [of c] have "set (A c) \<subseteq> set s" by (auto simp: filter_empty_conv)
      then show ?thesis using 2 by (simp add: nth_append)
    qed (use topo in \<open>auto simp: nth_append\<close>)
  qed
  with new(1) that show thesis unfolding d'_def by blast
qed

lemma topo_loop_ok:
  assumes "kahn_inv V A q d s" and "\<forall>x y. count (mset (D x)) y = count (mset (A y)) x"
    and "\<forall>y. y \<notin> set V \<longrightarrow> A y = []"
  shows "\<exists>s' d'. topo_loop D q d s = Some s' \<and> kahn_inv V A [] d' s'"
  using assms(1)
proof (induction "card (set V) - length s" arbitrary: q d s rule: less_induct)
  case less
  show ?case
  proof (cases q)
    case Nil
    then show ?thesis using less.prems by (subst topo_loop.simps) auto
  next
    case (Cons c q1)
    obtain d' q' where r: "relax (D c) d q1 = (d', q')" and inv: "kahn_inv V A q' d' (s @ [c])"
      using kahn_step [OF less.prems [unfolded Cons], of D] assms(2,3) by blast
    have "distinct (s @ c # q1)" "set (s @ c # q1) \<subseteq> set V"
      using less.prems unfolding Cons kahn_inv_def by blast+
    then have "length (s @ c # q1) \<le> card (set V)" by (metis card_mono distinct_card finite_set)
    then have "card (set V) - length (s @ [c]) < card (set V) - length s" by simp
    from less.hyps [OF this inv] show ?thesis using r by (subst topo_loop.simps) (simp add: Cons)
  qed
qed

subsection \<open>Correctness of the sort\<close>

definition topo_order :: "'w System list \<Rightarrow> 'w System list \<Rightarrow> bool" where
  "topo_order systems order \<longleftrightarrow> mset order = mset systems
     \<and> (\<forall>i < length order. \<forall>d \<in> set (sys_After (order ! i)). \<exists>j < i. sys_ID (order ! j) = d)"

lemma after_of_ID:
  assumes "distinct (map sys_ID systems)" "s \<in> set systems"
  shows "after_of systems (sys_ID s) = sys_After s"
  using assms
proof (induction systems)
  case (Cons x systems)
  have "after_of systems (sys_ID x) = []"
    using Cons.prems(1) by (auto simp: after_of_def filter_empty_conv image_iff)
  then show ?case using Cons by (auto simp: after_of_def image_iff)
qed simp

lemma after_of_other: "y \<notin> sys_ID ` set systems \<Longrightarrow> after_of systems y = []"
  by (auto simp: after_of_def filter_empty_conv)

lemma kahn_complete:
  assumes dist: "distinct (map sys_ID systems)" and inv: "kahn_inv (map sys_ID systems) (after_of systems) [] d s"
    and order: "topo_order systems order"
  shows "set s = set (map sys_ID systems)"
proof (rule ccontr)
  assume "set s \<noteq> set (map sys_ID systems)"
  moreover have sub: "set s \<subseteq> set (map sys_ID systems)"
    and zero: "\<And>y. y \<in> set (map sys_ID systems) \<Longrightarrow> y \<in> set s \<longleftrightarrow> d y = 0"
    and d: "\<And>y. d y = int (length (filter (\<lambda>x. x \<notin> set s) (after_of systems y)))"
    using inv unfolding kahn_inv_def by auto
  moreover have so: "set order = set systems" using order unfolding topo_order_def by (metis set_mset_mset)
  ultimately obtain x where "x \<in> set order" "sys_ID x \<notin> set s" by auto
  then have "\<exists>i < length order. sys_ID (order ! i) \<notin> set s" by (metis in_set_conv_nth)
  then obtain i where i: "i < length order" "sys_ID (order ! i) \<notin> set s"
    and least: "\<And>j. j < i \<Longrightarrow> sys_ID (order ! j) \<in> set s"
  proof -
    let ?P = "\<lambda>i. i < length order \<and> sys_ID (order ! i) \<notin> set s"
    assume ex: "\<exists>i < length order. sys_ID (order ! i) \<notin> set s"
    let ?i = "LEAST i. ?P i"
    have i: "?P ?i" using ex by (rule LeastI_ex)
    have "sys_ID (order ! j) \<in> set s" if "j < ?i" for j
    proof -
      have "\<not> ?P j" using that by (rule not_less_Least)
      moreover have "j < length order" using that conjunct1 [OF i] by (rule less_trans)
      ultimately show ?thesis by blast
    qed
    then show thesis by (rule that [OF conjunct1 [OF i] conjunct2 [OF i]])
  qed
  have mem: "order ! i \<in> set systems" using nth_mem [OF i(1)] unfolding so .
  have "set (sys_After (order ! i)) \<subseteq> set s"
  proof
    fix dep assume "dep \<in> set (sys_After (order ! i))"
    then obtain j where "j < i" "sys_ID (order ! j) = dep" using order i(1) unfolding topo_order_def by blast
    with least show "dep \<in> set s" by blast
  qed
  then have "d (sys_ID (order ! i)) = 0" using d after_of_ID [OF dist mem] by (auto simp: filter_empty_conv)
  moreover have "sys_ID (order ! i) \<in> set (map sys_ID systems)" using mem by simp
  ultimately show False using zero i(2) by blast
qed

lemma kahn_sorted:
  assumes dist: "distinct (map sys_ID systems)" and inv: "kahn_inv (map sys_ID systems) (after_of systems) [] d s"
    and len: "length s = length systems"
  shows "topo_order systems (map (\<lambda>i. the (in_phase systems i)) s)"
proof -
  have ds: "distinct s" "set s \<subseteq> set (map sys_ID systems)"
    and topo: "\<And>i. i < length s \<Longrightarrow> set (after_of systems (s ! i)) \<subseteq> set (take i s)"
    using inv unfolding kahn_inv_def by auto
  have "card (set (map sys_ID systems)) \<le> card (set s)"
    using distinct_card [OF ds(1)] distinct_card [OF dist] len by simp
  then have "set s = set (map sys_ID systems)" by (intro card_seteq [OF _ ds(2)]) simp
  then have ms: "mset s = mset (map sys_ID systems)" using ds(1) dist set_eq_iff_mset_eq_distinct by blast
  have same: "map (\<lambda>i. the (in_phase systems i)) (map sys_ID systems) = systems"
    using in_phase_distinct [OF dist] by (simp add: map_idI comp_def)
  have "mset (map (\<lambda>i. the (in_phase systems i)) s) = mset (map (\<lambda>i. the (in_phase systems i)) (map sys_ID systems))"
    using ms by (simp only: mset_map)
  then have perm: "mset (map (\<lambda>i. the (in_phase systems i)) s) = mset systems" unfolding same .
  have "\<exists>j < i. sys_ID (the (in_phase systems (s ! j))) = dep"
    if i: "i < length s" and dep: "dep \<in> set (sys_After (the (in_phase systems (s ! i))))" for i dep
  proof -
    have look: "\<exists>x \<in> set systems. in_phase systems (s ! k) = Some x \<and> sys_ID x = s ! k" if "k < length s" for k
    proof -
      have "s ! k \<in> sys_ID ` set systems" using ds(2) that by (metis list.set_map nth_mem subsetD)
      then show ?thesis using in_phase_distinct [OF dist] by auto
    qed
    obtain x where x: "x \<in> set systems" "in_phase systems (s ! i) = Some x" "sys_ID x = s ! i" using look [OF i] by blast
    have "dep \<in> set (take i s)" using topo [OF i] dep x after_of_ID [OF dist x(1)] by auto
    then obtain j where "j < i" "s ! j = dep" using i by (auto simp: in_set_conv_nth)
    with look [of j] i show ?thesis by auto
  qed
  moreover have "map (\<lambda>i. the (in_phase systems i)) s ! j = the (in_phase systems (s ! j))" if "j < i" "i < length s" for i j
    using that by simp
  ultimately show ?thesis unfolding topo_order_def using perm by (metis length_map less_trans nth_map)
qed

lemma topologicalSort_cases:
  assumes dist: "distinct (map sys_ID systems)" and ph: "\<forall>s \<in> set systems. sys_Phase s = phase"
    and deps: "\<forall>s \<in> set systems. set (sys_After s) \<subseteq> sys_ID ` set systems"
  obtains d s where "kahn_inv (map sys_ID systems) (after_of systems) [] d s"
    "topologicalSort phase systems = Some (if length s \<noteq> length systems then Inl cyclic_error
       else Inr (map (\<lambda>i. the (in_phase systems i)) s))"
proof -
  let ?V = "map sys_ID systems" and ?A = "after_of systems"
  have "\<exists>s'. in_phase systems dep = Some s' \<and> sys_Phase s' = phase" if "s \<in> set systems" "dep \<in> set (sys_After s)" for s dep
    using that deps ph in_phase_None [of systems dep] in_phase_Some [of systems dep]
    by (cases "in_phase systems dep") auto
  then obtain D I where g: "build_graph phase (in_phase systems) systems (\<lambda>_. [], \<lambda>_. 0) = Inr (D, I)"
    "\<forall>y. I y = int (length (?A y))" "\<forall>x y. count (mset (D x)) y = count (mset (?A y)) x"
    using build_graph_ok [of systems "in_phase systems" phase "\<lambda>_. []" "\<lambda>_. 0"] by auto
  have "kahn_inv ?V ?A (filter (\<lambda>i. I i = 0) ?V) I []"
    using dist g(2) unfolding kahn_inv_def by simp
  from topo_loop_ok [OF this g(3)] after_of_other [of _ systems] obtain s' d' where
    "topo_loop D (filter (\<lambda>i. I i = 0) ?V) I [] = Some s'" "kahn_inv ?V ?A [] d' s'" by auto
  with g(1) that show thesis by (simp add: topologicalSort_def Let_def)
qed

lemma topologicalSort_decides:
  assumes dist: "distinct (map sys_ID systems)" and ph: "\<forall>s \<in> set systems. sys_Phase s = phase"
  shows "\<exists>res. topologicalSort phase systems = Some res \<and>
    (if \<exists>s \<in> set systems. \<not> set (sys_After s) \<subseteq> sys_ID ` set systems
     then \<exists>s dep. s \<in> set systems \<and> dep \<in> set (sys_After s) \<and> dep \<notin> sys_ID ` set systems
       \<and> res = Inl (TanzErr ''System dependency not found in the same phase'' ''invalid_state.missing_dependency''
                  [(''system_id'', sys_ID s), (''dependency_id'', dep)] None)
     else if \<exists>order. topo_order systems order then \<exists>out. res = Inr out \<and> topo_order systems out
     else res = Inl cyclic_error)"
proof (cases "\<exists>s \<in> set systems. \<not> set (sys_After s) \<subseteq> sys_ID ` set systems")
  case True
  then obtain s d where "s \<in> set systems" "d \<in> set (sys_After s)" "in_phase systems d = None"
    using in_phase_None by blast
  moreover have "\<forall>x s. in_phase systems x = Some s \<longrightarrow> sys_Phase s = phase" using in_phase_Some ph by blast
  ultimately obtain s dep where "s \<in> set systems" "dep \<in> set (sys_After s)" "in_phase systems dep = None"
    "build_graph phase (in_phase systems) systems (\<lambda>_. [], \<lambda>_. 0) =
      Inl (TanzError_New ''System dependency not found in the same phase'' ''invalid_state.missing_dependency''
          [(''system_id'', sys_ID s), (''dependency_id'', dep)])"
    using build_graph_missing [of s systems d "in_phase systems" phase "(\<lambda>_. [], \<lambda>_. 0)"] by blast
  then show ?thesis using True in_phase_None [of systems dep] by (auto simp: topologicalSort_def TanzError_New_def)
next
  case False
  then have deps: "\<forall>s \<in> set systems. set (sys_After s) \<subseteq> sys_ID ` set systems" by blast
  obtain d s where inv: "kahn_inv (map sys_ID systems) (after_of systems) [] d s"
    and res: "topologicalSort phase systems = Some (if length s \<noteq> length systems then Inl cyclic_error
       else Inr (map (\<lambda>i. the (in_phase systems i)) s))"
    by (rule topologicalSort_cases [OF dist ph deps])
  have ds: "distinct s" using inv unfolding kahn_inv_def by simp
  show ?thesis
  proof (cases "\<exists>order. topo_order systems order")
    case True
    then have "set s = set (map sys_ID systems)" using kahn_complete [OF dist inv] by blast
    then have "length s = length systems" using distinct_card [OF ds] distinct_card [OF dist] by simp
    then show ?thesis using kahn_sorted [OF dist inv] True False res by auto
  next
    case none: False
    then have "length s \<noteq> length systems" using kahn_sorted [OF dist inv] by blast
    then show ?thesis using none False res by auto
  qed
qed

text \<open>
  C39: \<open>topologicalSort\<close> always returns and decides the question: it reports a missing dependency
  exactly when a system names a predecessor that is not in its phase; otherwise it returns a
  permutation of the systems in which every system comes after all its predecessors whenever
  such an order exists, and the cycle error when none does.
\<close>

theorem topologicalSort_correct:
  assumes dist: "distinct (map sys_ID systems)" and ph: "\<forall>s \<in> set systems. sys_Phase s = phase"
  shows "\<exists>res. topologicalSort phase systems = Some res \<and>
    (if \<exists>s \<in> set systems. \<not> set (sys_After s) \<subseteq> sys_ID ` set systems
     then \<exists>s dep. s \<in> set systems \<and> dep \<in> set (sys_After s) \<and> dep \<notin> sys_ID ` set systems
       \<and> res = Inl (TanzErr ''System dependency not found in the same phase'' ''invalid_state.missing_dependency''
                  [(''system_id'', sys_ID s), (''dependency_id'', dep)] None)
     else if \<exists>order. topo_order systems order then \<exists>out. res = Inr out \<and> topo_order systems out
     else res = Inl cyclic_error)"
  by (rule topologicalSort_decides [OF assms])

theorem topologicalSort_correct_witness:
  "\<exists>out. topologicalSort 0 [\<lparr>sys_ID = ''b'', sys_Phase = 0, sys_After = [''a''], sys_Run = (id :: unit \<Rightarrow> unit)\<rparr>,
      \<lparr>sys_ID = ''a'', sys_Phase = 0, sys_After = [], sys_Run = id\<rparr>] = Some (Inr out)
    \<and> map sys_ID out = [''a'', ''b'']"
proof -
  let ?a = "\<lparr>sys_ID = ''a'', sys_Phase = 0, sys_After = [], sys_Run = id\<rparr> :: unit System"
  let ?b = "\<lparr>sys_ID = ''b'', sys_Phase = 0, sys_After = [''a''], sys_Run = id\<rparr> :: unit System"
  have o: "topo_order [?b, ?a] [?a, ?b]" by (auto simp: topo_order_def less_Suc_eq)
  have "\<exists>out. topologicalSort 0 [?b, ?a] = Some (Inr out) \<and> topo_order [?b, ?a] out"
  proof -
    have ex: "\<exists>order. topo_order [?b, ?a] order" using o by blast
    have no: "\<not> (\<exists>s \<in> set [?b, ?a]. \<not> set (sys_After s) \<subseteq> sys_ID ` set [?b, ?a])" by simp
    from topologicalSort_correct [of "[?b, ?a]" 0] show ?thesis unfolding if_not_P [OF no] if_P [OF ex] by auto
  qed
  then obtain out where out: "topologicalSort 0 [?b, ?a] = Some (Inr out)" "topo_order [?b, ?a] out" by blast
  have len: "length out = 2" using out(2) mset_eq_length [of out "[?b, ?a]"] by (simp add: topo_order_def)
  then obtain x y where xy: "out = [x, y]" by (auto simp: length_Suc_conv numeral_2_eq_2)
  have "sys_After x = []" using out(2) unfolding topo_order_def xy by (auto simp: neq_Nil_conv)
  moreover have "set out = {?b, ?a}" using out(2) unfolding topo_order_def by (metis list.set(1,2) set_mset_mset)
  moreover have "x \<noteq> ?b"
  proof
    assume "x = ?b"
    then have "sys_After x = [''a'']" by simp
    with \<open>sys_After x = []\<close> show False by simp
  qed
  moreover have "?b \<noteq> ?a" by simp
  moreover have "set [x, y] = {b, a} \<Longrightarrow> x \<noteq> b \<Longrightarrow> b \<noteq> a \<Longrightarrow> x = a \<and> y = b" for a b :: "unit System" by auto
  ultimately have "x = ?a \<and> y = ?b" unfolding xy by blast
  with out(1) xy show ?thesis by simp
qed

subsection \<open>Correctness of the scheduler\<close>

lemma register_systems_ok:
  assumes "distinct (map sys_ID systems)" "'''' \<notin> sys_ID ` set systems" "\<forall>s \<in> set systems. ids (sys_ID s) = None"
  shows "\<exists>ids'. register_systems systems bp ids = Inr (\<lambda>ph. bp ph @ filter (\<lambda>s. sys_Phase s = ph) systems, ids')"
  using assms
proof (induction systems arbitrary: bp ids)
  case (Cons s systems)
  let ?bp = "bp(sys_Phase s := bp (sys_Phase s) @ [s])"
  obtain ids' where "register_systems systems ?bp (ids(sys_ID s \<mapsto> s))
      = Inr (\<lambda>ph. ?bp ph @ filter (\<lambda>s. sys_Phase s = ph) systems, ids')"
  proof -
    have "distinct (map sys_ID systems)" "'''' \<notin> sys_ID ` set systems"
      "\<forall>x \<in> set systems. (ids(sys_ID s \<mapsto> s)) (sys_ID x) = None" using Cons.prems by (auto simp: image_iff)
    from Cons.IH [OF this, of ?bp] that show thesis by blast
  qed
  moreover have "(\<lambda>ph. ?bp ph @ filter (\<lambda>s. sys_Phase s = ph) systems)
      = (\<lambda>ph. bp ph @ filter (\<lambda>s. sys_Phase s = ph) (s # systems))" by auto
  moreover have "sys_ID s \<noteq> ''''" "ids (sys_ID s) = None" using Cons.prems(2,3) by auto
  ultimately show ?case by auto
qed auto

lemma register_systems_bad:
  "\<not> (distinct (map sys_ID systems) \<and> '''' \<notin> sys_ID ` set systems \<and> (\<forall>s \<in> set systems. ids (sys_ID s) = None))
     \<Longrightarrow> \<exists>e. register_systems systems bp ids = Inl e"
proof (induction systems arbitrary: bp ids)
  case (Cons s systems)
  show ?case
  proof (cases "sys_ID s = '''' \<or> ids (sys_ID s) \<noteq> None")
    case False
    then have "\<not> (distinct (map sys_ID systems) \<and> '''' \<notin> sys_ID ` set systems
        \<and> (\<forall>x \<in> set systems. (ids(sys_ID s \<mapsto> s)) (sys_ID x) = None))"
      using Cons.prems by (auto split: if_splits)
    from Cons.IH [OF this] obtain e where
      "register_systems systems (bp(sys_Phase s := bp (sys_Phase s) @ [s])) (ids(sys_ID s \<mapsto> s)) = Inl e" by blast
    with False show ?thesis by simp
  qed auto
qed simp

lemma topo_order_deps:
  assumes "topo_order systems order" "s \<in> set systems"
  shows "set (sys_After s) \<subseteq> sys_ID ` set systems"
proof
  fix dep assume "dep \<in> set (sys_After s)"
  moreover have so: "set order = set systems" using assms(1) unfolding topo_order_def by (metis set_mset_mset)
  then obtain i where "i < length order" "order ! i = s" using assms(2) by (metis in_set_conv_nth)
  ultimately obtain j where "j < length order" "sys_ID (order ! j) = dep"
    using assms(1) unfolding topo_order_def by (meson less_trans)
  then show "dep \<in> sys_ID ` set systems" using so nth_mem by blast
qed

lemma topologicalSort_iff:
  assumes "distinct (map sys_ID systems)" "\<forall>s \<in> set systems. sys_Phase s = phase"
  shows "if \<exists>order. topo_order systems order
    then \<exists>out. topologicalSort phase systems = Some (Inr out) \<and> topo_order systems out
    else \<exists>e. topologicalSort phase systems = Some (Inl e)"
proof (cases "\<exists>s \<in> set systems. \<not> set (sys_After s) \<subseteq> sys_ID ` set systems")
  case True
  then have "\<nexists>order. topo_order systems order" using topo_order_deps by blast
  with True topologicalSort_decides [OF assms] show ?thesis by auto
next
  case False
  with topologicalSort_decides [OF assms] show ?thesis by (auto split: if_splits)
qed

abbreviation of_phase :: "Phase \<Rightarrow> 'w System list \<Rightarrow> 'w System list" where
  "of_phase ph systems \<equiv> filter (\<lambda>s. sys_Phase s = ph) systems"

lemma order_phases_spec:
  assumes "distinct (map sys_ID systems)"
  shows "if \<forall>ph \<in> set phases. \<exists>order. topo_order (of_phase ph systems) order
    then \<exists>out. order_phases phases (\<lambda>ph. of_phase ph systems) ord = Some (Inr out)
      \<and> (\<forall>ph. if ph \<in> set phases then topo_order (of_phase ph systems) (out ph) else out ph = ord ph)
    else \<exists>e. order_phases phases (\<lambda>ph. of_phase ph systems) ord = Some (Inl e)"
proof (induction phases arbitrary: ord)
  case (Cons ph phases)
  have "distinct (map sys_ID (of_phase ph systems))" using assms by (rule distinct_map_filter)
  note sort = topologicalSort_iff [OF this, of ph]
  show ?case
  proof (cases "\<exists>order. topo_order (of_phase ph systems) order")
    case True
    then obtain out where out: "topologicalSort ph (of_phase ph systems) = Some (Inr out)" "topo_order (of_phase ph systems) out"
      using sort by (auto split: if_splits)
    show ?thesis
    proof (cases "\<forall>ph \<in> set phases. \<exists>order. topo_order (of_phase ph systems) order")
      case rest: True
      with Cons.IH [of "ord(ph := out)"] obtain out' where out':
        "order_phases phases (\<lambda>ph. of_phase ph systems) (ord(ph := out)) = Some (Inr out')"
        "\<forall>x. if x \<in> set phases then topo_order (of_phase x systems) (out' x) else out' x = (ord(ph := out)) x" by auto
      have "if x \<in> set (ph # phases) then topo_order (of_phase x systems) (out' x) else out' x = ord x" for x
        using out'(2) [rule_format, of x] out(2) by (cases "x = ph") (auto split: if_splits)
      with True rest out(1) out'(1) show ?thesis by auto
    next
      case rest: False
      with Cons.IH [of "ord(ph := out)"] out(1) show ?thesis by auto
    qed
  next
    case False
    then obtain e where "topologicalSort ph (of_phase ph systems) = Some (Inl e)" using sort by auto
    with False show ?thesis by auto
  qed
qed simp

lemma RunTick_fold:
  "RunTick \<lparr>sch_order = out, sch_phases = phases\<rparr> w = fold sys_Run (concat (map out phases)) w"
  by (induction phases arbitrary: w) (auto simp: RunTick_def foldl_conv_fold)

text \<open>
  \<open>NewScheduler\<close> always returns. It accepts the systems exactly when their identifiers are
  not empty and pairwise different and every listed phase can be ordered, and then \<open>RunTick\<close>
  runs, phase by phase in the listed order, each system of the phase exactly once and after the
  systems it names as its predecessors. Systems of a phase that is not listed never run.
\<close>

theorem new_scheduler_correct:
  "\<exists>res. NewScheduler phases systems = Some res \<and>
    (if distinct (map sys_ID systems) \<and> '''' \<notin> sys_ID ` set systems
        \<and> (\<forall>ph \<in> set phases. \<exists>order. topo_order (filter (\<lambda>s. sys_Phase s = ph) systems) order)
     then \<exists>sch. res = Inr sch \<and> sch_phases sch = phases
       \<and> (\<forall>ph \<in> set phases. topo_order (filter (\<lambda>s. sys_Phase s = ph) systems) (sch_order sch ph))
       \<and> (\<forall>w. RunTick sch w = fold sys_Run (concat (map (sch_order sch) phases)) w)
     else \<exists>e. res = Inl e)"
proof (cases "distinct (map sys_ID systems) \<and> '''' \<notin> sys_ID ` set systems")
  case True
  obtain ids where reg: "register_systems systems (\<lambda>_. []) Map.empty = Inr (\<lambda>ph. of_phase ph systems, ids)"
    using register_systems_ok [of systems Map.empty "\<lambda>_. []"] True by auto
  show ?thesis
  proof (cases "\<forall>ph \<in> set phases. \<exists>order. topo_order (of_phase ph systems) order")
    case ok: True
    then obtain out where "order_phases phases (\<lambda>ph. of_phase ph systems) (\<lambda>_. []) = Some (Inr out)"
      "\<forall>ph \<in> set phases. topo_order (of_phase ph systems) (out ph)"
      using order_phases_spec [OF conjunct1 [OF True], of phases "\<lambda>_. []"] by auto
    with reg True ok show ?thesis by (simp add: NewScheduler_def RunTick_fold)
  next
    case bad: False
    obtain e where "order_phases phases (\<lambda>ph. of_phase ph systems) (\<lambda>_. []) = Some (Inl e)"
      using order_phases_spec [OF conjunct1 [OF True], of phases "\<lambda>_. []"] unfolding if_not_P [OF bad] by blast
    with reg True bad show ?thesis by (auto simp: NewScheduler_def)
  qed
next
  case False
  then obtain e where "register_systems systems (\<lambda>_. []) Map.empty = Inl e"
    using register_systems_bad [of systems Map.empty "\<lambda>_. []"] by auto
  with False show ?thesis by (auto simp: NewScheduler_def)
qed

theorem new_scheduler_correct_witness:
  "\<exists>sch. NewScheduler [0, 1] [\<lparr>sys_ID = ''a'', sys_Phase = 0, sys_After = [], sys_Run = Suc\<rparr>] = Some (Inr sch)
     \<and> RunTick sch 4 = 5"
proof -
  let ?a = "\<lparr>sys_ID = ''a'', sys_Phase = 0, sys_After = [], sys_Run = Suc\<rparr> :: nat System"
  have o: "topo_order [?a] [?a]" "topo_order [] ([] :: nat System list)" by (auto simp: topo_order_def)
  then have ok: "distinct (map sys_ID [?a]) \<and> '''' \<notin> sys_ID ` set [?a]
      \<and> (\<forall>ph \<in> set [0, 1]. \<exists>order. topo_order (of_phase ph [?a]) order)" by auto
  obtain sch where sch: "NewScheduler [0, 1] [?a] = Some (Inr sch)" "sch_phases sch = [0, 1]"
    "topo_order [?a] (sch_order sch 0)" "topo_order [] (sch_order sch 1)"
    "\<forall>w. RunTick sch w = fold sys_Run (concat (map (sch_order sch) [0, 1])) w"
    using new_scheduler_correct [of "[0, 1]" "[?a]"] unfolding if_P [OF ok] by auto
  have "sch_order sch 0 = [?a]" "sch_order sch 1 = []"
    using sch(3,4) unfolding topo_order_def by auto
  with sch(1,5) show ?thesis by simp
qed

end
