(* ===== verification/Systems.thy ===== *)
theory Systems
  imports World Scheduler
begin

unbundle bit_operations_syntax

text \<open>
  The systems of the game, \<open>phase.go\<close>, and the directions of \<open>keyMaskToDirection\<close>. A \<open>range\<close> over
  the entities is \<open>for_keys\<close> over an order the runtime chooses; the inner loops take an order
  of their own each time they start. \<open>continue\<close> is the unchanged state, \<open>break\<close> the end of a
  recursion.
\<close>

fun for_keys :: "(EntityID \<Rightarrow> ShootingWorld \<Rightarrow> ShootingWorld) \<Rightarrow> EntityID list \<Rightarrow> ShootingWorld \<Rightarrow> ShootingWorld" where
  "for_keys body [] w = w"
| "for_keys body (i # is) w = for_keys body is (if i \<in> w_Entities w then body i w else w)"

definition for_entities :: "(EntityID \<Rightarrow> ShootingWorld \<Rightarrow> ShootingWorld) \<Rightarrow> ShootingWorld \<Rightarrow> ShootingWorld" where
  "for_entities body w = (let (ids, w) = next_order w in for_keys body ids w)"

abbreviation tag_of :: "ShootingWorld \<Rightarrow> EntityID \<Rightarrow> Tag" where
  "tag_of w i \<equiv> at (w_Tag w) 0 i"

abbreviation pos_of :: "ShootingWorld \<Rightarrow> EntityID \<Rightarrow> WorldPosition" where
  "pos_of w i \<equiv> at (w_Position w) \<lparr>pos_X = 0, pos_Y = 0\<rparr> i"

definition has_state :: "ActorState \<Rightarrow> ShootingWorld \<Rightarrow> EntityID \<Rightarrow> bool" where
  "has_state st w i \<longleftrightarrow> (case w_LifeState w i of None \<Rightarrow> False | Some ls \<Rightarrow> ls_State ls AND st \<noteq> 0)"

definition is_actor_tag :: "Tag \<Rightarrow> bool" where
  "is_actor_tag t \<longleftrightarrow> t = TagPlayer \<or> t = TagBot"

subsection \<open>Respawn\<close>

definition respawn_entity :: "EntityID \<Rightarrow> ShootingWorld \<Rightarrow> ShootingWorld" where
  "respawn_entity i w =
     (case w_LifeState w i of
        None \<Rightarrow> w
      | Some ls \<Rightarrow>
          if ls_State ls AND StateRespawning = 0 then w
          else
            let t = at (w_RespawnTimer w) 0 i - 1;
                w = w\<lparr>w_RespawnTimer := (w_RespawnTimer w)(i \<mapsto> t)\<rparr>
            in if t \<le> 0 then
                 let w = w\<lparr>w_Health := (w_Health w)(i \<mapsto> \<lparr>HP = 100\<rparr>),
                          w_LifeState := (w_LifeState w)(i \<mapsto> \<lparr>ls_State = (ls_State ls AND NOT 0x0F) OR StateAlive\<rparr>)\<rparr>;
                     (pos, w) = randomPosition w
                 in w\<lparr>w_Position := (w_Position w)(i \<mapsto> pos), w_RespawnTimer := (w_RespawnTimer w)(i := None)\<rparr>
               else w)"

definition respawn_Run :: "ShootingWorld \<Rightarrow> ShootingWorld" where
  "respawn_Run = for_entities respawn_entity"

definition RespawnSystem :: "ShootingWorld System" where
  "RespawnSystem = \<lparr>sys_ID = ''respawn'', sys_Phase = PhaseSimulation, sys_After = [], sys_Run = respawn_Run\<rparr>"

subsection \<open>Input\<close>

definition KeyW :: u32 where "KeyW = 0x01"
definition KeyA :: u32 where "KeyA = 0x02"
definition KeyS :: u32 where "KeyS = 0x04"
definition KeyD :: u32 where "KeyD = 0x08"

definition PlayerSpeed :: float32 where "PlayerSpeed = f32_ratio 10 10"

definition keyMaskToDirection :: "u32 \<Rightarrow> float32 \<times> float32" where
  "keyMaskToDirection keyMask =
     (let one = f32_ratio 1 1;
          dx = 0; dy = 0;
          dy = (if keyMask AND KeyW \<noteq> 0 then f32_sub dy one else dy);
          dy = (if keyMask AND KeyS \<noteq> 0 then f32_add dy one else dy);
          dx = (if keyMask AND KeyA \<noteq> 0 then f32_sub dx one else dx);
          dx = (if keyMask AND KeyD \<noteq> 0 then f32_add dx one else dx)
      in (dx, dy))"

definition move_entity :: "float32 \<Rightarrow> float32 \<Rightarrow> InputEntry \<Rightarrow> ShootingWorld \<Rightarrow> ShootingWorld" where
  "move_entity mapW mapH entry w =
     (let i = in_EntityID entry
      in if i \<notin> w_Entities w then w
         else if \<not> has_state StateAlive w i then w
         else
           let (dx, dy) = keyMaskToDirection (in_KeyMask entry)
           in if f32_eq dx 0 \<and> f32_eq dy 0 then w
              else
                let pos = pos_of w i;
                    pos = pos\<lparr>pos_X := clamp (f32_add (pos_X pos) (f32_mul dx PlayerSpeed)) 0 mapW\<rparr>;
                    pos = pos\<lparr>pos_Y := clamp (f32_add (pos_Y pos) (f32_mul dy PlayerSpeed)) 0 mapH\<rparr>
                in w\<lparr>w_Position := (w_Position w)(i \<mapsto> pos)\<rparr>)"

definition input_Run :: "ShootingWorld \<Rightarrow> ShootingWorld" where
  "input_Run w =
     (let mapW = WorldWidth (st_Map (w_Static w));
          mapH = WorldHeight (st_Map (w_Static w));
          (entries, q) = Drain (w_PendingInputs w)
      in fold (move_entity mapW mapH) entries (w\<lparr>w_PendingInputs := q\<rparr>))"

definition InputMoveSystem :: "ShootingWorld System" where
  "InputMoveSystem = \<lparr>sys_ID = ''input_move'', sys_Phase = PhaseSimulation, sys_After = [''respawn''], sys_Run = input_Run\<rparr>"

subsection \<open>Shooting\<close>

definition MaxFloat32 :: float32 where "MaxFloat32 = 0x7F7FFFFF"

definition dist_sq :: "float32 \<Rightarrow> float32 \<Rightarrow> float32" where
  "dist_sq dx dy = f32_add (f32_mul dx dx) (f32_mul dy dy)"

text \<open>The search for the nearest living enemy: \<open>nearestID\<close>, \<open>nearestDistSq\<close> and \<open>found\<close>.\<close>

fun nearest :: "ShootingWorld \<Rightarrow> EntityID \<Rightarrow> WorldPosition \<Rightarrow> EntityID list
    \<Rightarrow> EntityID \<times> float32 \<times> bool \<Rightarrow> EntityID \<times> float32 \<times> bool" where
  "nearest w i pos [] acc = acc"
| "nearest w i pos (other # others) (nearestID, nearestDistSq, found) =
     nearest w i pos others
       (if other \<notin> w_Entities w \<or> other = i \<or> \<not> is_actor_tag (tag_of w other) \<or> \<not> has_state StateAlive w other
        then (nearestID, nearestDistSq, found)
        else
          let otherPos = pos_of w other;
              distSq = dist_sq (f32_sub (pos_X otherPos) (pos_X pos)) (f32_sub (pos_Y otherPos) (pos_Y pos))
          in if f32_lt distSq nearestDistSq then (other, distSq, True)
             else (nearestID, nearestDistSq, found))"

definition shoot_entity :: "EntityID \<Rightarrow> ShootingWorld \<Rightarrow> ShootingWorld" where
  "shoot_entity i w =
     (if \<not> is_actor_tag (tag_of w i) \<or> \<not> has_state StateAlive w i then w
      else
        let c = at (w_ShootCooldown w) 0 i - 1;
            w = w\<lparr>w_ShootCooldown := (w_ShootCooldown w)(i \<mapsto> c)\<rparr>
        in if 0 < c then w
           else
             let pos = pos_of w i;
                 (ids, w) = next_order w;
                 (nearestID, _, found) = nearest w i pos ids (0, MaxFloat32, False)
             in if \<not> found then w
                else
                  let nearestPos = pos_of w nearestID;
                      dx = f32_sub (pos_X nearestPos) (pos_X pos);
                      dy = f32_sub (pos_Y nearestPos) (pos_Y pos);
                      dist = f32_sqrt (dist_sq dx dy)
                  in if f32_lt dist (f32_ratio 1 1000) then w
                     else
                       let vel = \<lparr>vel_X = f32_mul (f32_div dx dist) BulletSpeed, vel_Y = f32_mul (f32_div dy dist) BulletSpeed\<rparr>;
                           (_, w) = SpawnBullet i pos vel w
                       in w\<lparr>w_ShootCooldown := (w_ShootCooldown w)(i \<mapsto> ShootCooldown)\<rparr>)"

definition shoot_Run :: "ShootingWorld \<Rightarrow> ShootingWorld" where
  "shoot_Run = for_entities shoot_entity"

definition AutoShootSystem :: "ShootingWorld System" where
  "AutoShootSystem = \<lparr>sys_ID = ''auto_shoot'', sys_Phase = PhaseSimulation, sys_After = [''input_move''], sys_Run = shoot_Run\<rparr>"

subsection \<open>Bullets\<close>

definition bullet_entity :: "EntityID \<Rightarrow> ShootingWorld \<Rightarrow> ShootingWorld" where
  "bullet_entity i w =
     (if tag_of w i \<noteq> TagBullet then w
      else
        let pos = pos_of w i;
            vel = at (w_Velocity w) \<lparr>vel_X = 0, vel_Y = 0\<rparr> i;
            pos = pos\<lparr>pos_X := f32_add (pos_X pos) (vel_X vel)\<rparr>;
            pos = pos\<lparr>pos_Y := f32_add (pos_Y pos) (vel_Y vel)\<rparr>
        in w\<lparr>w_Position := (w_Position w)(i \<mapsto> pos), w_TTL := (w_TTL w)(i \<mapsto> at (w_TTL w) 0 i - 1)\<rparr>)"

definition bullet_Run :: "ShootingWorld \<Rightarrow> ShootingWorld" where
  "bullet_Run = for_entities bullet_entity"

definition BulletMoveSystem :: "ShootingWorld System" where
  "BulletMoveSystem = \<lparr>sys_ID = ''bullet_move'', sys_Phase = PhaseSimulation, sys_After = [''auto_shoot''], sys_Run = bullet_Run\<rparr>"

subsection \<open>Collisions\<close>

definition damage :: "EntityID \<Rightarrow> ShootingWorld \<Rightarrow> ShootingWorld" where
  "damage actorID w =
     (let hp = HP (at (w_Health w) \<lparr>HP = 0\<rparr> actorID);
          st = ls_State (at (w_LifeState w) \<lparr>ls_State = 0\<rparr> actorID)
      in if hp \<le> BulletDamage then
           w\<lparr>w_Health := (w_Health w)(actorID \<mapsto> \<lparr>HP = 0\<rparr>),
             w_LifeState := (w_LifeState w)(actorID \<mapsto> \<lparr>ls_State = (st AND NOT 0x0F) OR StateRespawning\<rparr>),
             w_RespawnTimer := (w_RespawnTimer w)(actorID \<mapsto> RespawnTicks)\<rparr>
         else w\<lparr>w_Health := (w_Health w)(actorID \<mapsto> \<lparr>HP = hp - BulletDamage\<rparr>)\<rparr>)"

definition hits :: "float32 \<Rightarrow> WorldPosition \<Rightarrow> WorldPosition \<Rightarrow> bool" where
  "hits hitRadiusSq bulletPos actorPos \<longleftrightarrow>
     f32_le (dist_sq (f32_sub (pos_X bulletPos) (pos_X actorPos)) (f32_sub (pos_Y bulletPos) (pos_Y actorPos))) hitRadiusSq"

text \<open>The inner loop over the actors; the result says whether the bullet is to be removed.\<close>

fun hit_loop :: "float32 \<Rightarrow> WorldPosition \<Rightarrow> EntityID \<Rightarrow> EntityID list \<Rightarrow> ShootingWorld \<Rightarrow> ShootingWorld \<times> bool" where
  "hit_loop r2 bulletPos ownerID [] w = (w, False)"
| "hit_loop r2 bulletPos ownerID (a # as) w =
     (if a \<notin> w_Entities w \<or> \<not> is_actor_tag (tag_of w a) \<or> a = ownerID \<or> \<not> has_state StateAlive w a
      then hit_loop r2 bulletPos ownerID as w
      else if hits r2 bulletPos (pos_of w a) then (damage a w, True)
      else hit_loop r2 bulletPos ownerID as w)"

fun collision_loop :: "float32 \<Rightarrow> EntityID list \<Rightarrow> ShootingWorld \<times> EntityID list \<Rightarrow> ShootingWorld \<times> EntityID list" where
  "collision_loop r2 [] (w, bulletsToRemove) = (w, bulletsToRemove)"
| "collision_loop r2 (b # bs) (w, bulletsToRemove) =
     (if b \<notin> w_Entities w \<or> tag_of w b \<noteq> TagBullet then collision_loop r2 bs (w, bulletsToRemove)
      else
        let (ids, w) = next_order w;
            (w, hit) = hit_loop r2 (pos_of w b) (at (w_Owner w) 0 b) ids w
        in collision_loop r2 bs (w, if hit then bulletsToRemove @ [b] else bulletsToRemove))"

definition collision_Run :: "ShootingWorld \<Rightarrow> ShootingWorld" where
  "collision_Run w =
     (let hitRadius = f32_add BulletRadius ActorRadius;
          hitRadiusSq = f32_mul hitRadius hitRadius;
          (ids, w) = next_order w;
          (w, bulletsToRemove) = collision_loop hitRadiusSq ids (w, [])
      in fold RemoveEntity bulletsToRemove w)"

definition CollisionDamageSystem :: "ShootingWorld System" where
  "CollisionDamageSystem = \<lparr>sys_ID = ''collision_damage'', sys_Phase = PhaseSimulation, sys_After = [''bullet_move''], sys_Run = collision_Run\<rparr>"

definition cleanup_Run :: "ShootingWorld \<Rightarrow> ShootingWorld" where
  "cleanup_Run w =
     (let (ids, w) = next_order w;
          toRemove = filter (\<lambda>i. i \<in> w_Entities w \<and> tag_of w i = TagBullet \<and> at (w_TTL w) 0 i = 0) ids
      in fold RemoveEntity toRemove w)"

definition BulletCleanupSystem :: "ShootingWorld System" where
  "BulletCleanupSystem = \<lparr>sys_ID = ''bullet_cleanup'', sys_Phase = PhaseSimulation, sys_After = [''collision_damage''], sys_Run = cleanup_Run\<rparr>"

definition EncodeBroadcastSystem :: "ShootingWorld System" where
  "EncodeBroadcastSystem = \<lparr>sys_ID = ''encode_broadcast'', sys_Phase = PhaseNetwork, sys_After = [], sys_Run = (\<lambda>w. w)\<rparr>"

end
