(* ===== verification/World_View.thy ===== *)
theory World_View
  imports Systems
begin

unbundle bit_operations_syntax

text \<open>
  The world seen entity by entity: \<open>view w i\<close> collects the components of \<open>i\<close>, and every operation
  of \<open>world.go\<close> and every step of a system changes the view of the entity it is about. The
  locale \<open>entity_loop\<close> is the contract of a loop body that keeps to its own entity; its lemmas say
  what a whole \<open>range\<close> over the entities does, whatever the order.
\<close>

record entity =
  en_Position :: "WorldPosition option"
  en_Health :: "Health option"
  en_LifeState :: "LifeState option"
  en_Velocity :: "Velocity option"
  en_TTL :: "u16 option"
  en_Owner :: "EntityID option"
  en_Tag :: "Tag option"
  en_Cooldown :: "int option"
  en_Respawn :: "int option"
  en_Session :: "SessionID option"

definition view :: "ShootingWorld \<Rightarrow> EntityID \<Rightarrow> entity" where
  "view w i = \<lparr>en_Position = w_Position w i, en_Health = w_Health w i, en_LifeState = w_LifeState w i,
     en_Velocity = w_Velocity w i, en_TTL = w_TTL w i, en_Owner = w_Owner w i, en_Tag = w_Tag w i,
     en_Cooldown = w_ShootCooldown w i, en_Respawn = w_RespawnTimer w i, en_Session = w_EntityToSession w i\<rparr>"

definition no_entity :: entity where
  "no_entity = \<lparr>en_Position = None, en_Health = None, en_LifeState = None, en_Velocity = None, en_TTL = None,
     en_Owner = None, en_Tag = None, en_Cooldown = None, en_Respawn = None, en_Session = None\<rparr>"

lemma view_sel [simp]:
  "en_Position (view w i) = w_Position w i" "en_Health (view w i) = w_Health w i"
  "en_LifeState (view w i) = w_LifeState w i" "en_Velocity (view w i) = w_Velocity w i"
  "en_TTL (view w i) = w_TTL w i" "en_Owner (view w i) = w_Owner w i" "en_Tag (view w i) = w_Tag w i"
  "en_Cooldown (view w i) = w_ShootCooldown w i" "en_Respawn (view w i) = w_RespawnTimer w i"
  "en_Session (view w i) = w_EntityToSession w i"
  by (simp_all add: view_def)

lemma no_entity_sel [simp]:
  "en_Position no_entity = None" "en_Health no_entity = None" "en_LifeState no_entity = None"
  "en_Velocity no_entity = None" "en_TTL no_entity = None" "en_Owner no_entity = None" "en_Tag no_entity = None"
  "en_Cooldown no_entity = None" "en_Respawn no_entity = None" "en_Session no_entity = None"
  by (simp_all add: no_entity_def)

subsection \<open>Orders\<close>

lemma range_keys: "distinct (range_keys S xs)" "S \<subseteq> set (range_keys S xs)"
  by (auto simp: range_keys_def)

lemma next_order_parts [simp]:
  "fst (next_order w) = range_keys (w_Entities w) (w_orders w 0)"
  "snd (next_order w) = w\<lparr>w_orders := \<lambda>n. w_orders w (Suc n)\<rparr>"
  by (simp_all add: next_order_def)

lemma view_orders [simp]: "view (w\<lparr>w_orders := f\<rparr>) = view w" "view (w\<lparr>w_rands := g\<rparr>) = view w"
    "view (w\<lparr>w_PendingInputs := q\<rparr>) = view w"
  by (simp_all add: view_def fun_eq_iff)

subsection \<open>Operations of the world\<close>

lemma randomPosition_frame:
  "snd (randomPosition w) = w\<lparr>w_rands := \<lambda>n. w_rands w (Suc (Suc n))\<rparr>"
  by (simp add: randomPosition_def rand_Float32_def Let_def)

lemma view_RemoveEntity [step_simps]: "view (RemoveEntity i w) = (view w)(i := no_entity)"
  by (auto simp: RemoveEntity_def view_def no_entity_def Let_def fun_eq_iff split: option.splits)

lemma RemoveEntity_frame [step_simps]:
  "w_Entities (RemoveEntity i w) = w_Entities w - {i}" "w_NextEntityID (RemoveEntity i w) = w_NextEntityID w"
  "w_Static (RemoveEntity i w) = w_Static w" "w_rands (RemoveEntity i w) = w_rands w"
  "w_PendingInputs (RemoveEntity i w) = w_PendingInputs w" "w_orders (RemoveEntity i w) = w_orders w"
  "w_SessionToEntity (RemoveEntity i w) = (case w_EntityToSession w i of None \<Rightarrow> w_SessionToEntity w
     | Some sid \<Rightarrow> (w_SessionToEntity w)(sid := None))"
  by (auto simp: RemoveEntity_def Let_def split: option.splits)

lemma view_SpawnBullet [step_simps]:
  "view (snd (SpawnBullet ownerID pos vel w)) =
     (view w)(w_NextEntityID w + 1 := (view w (w_NextEntityID w + 1))\<lparr>en_Position := Some pos, en_Velocity := Some vel,
        en_TTL := Some BulletTTL, en_Owner := Some ownerID, en_Tag := Some TagBullet\<rparr>)"
  by (simp add: SpawnBullet_def AllocEntity_def view_def Let_def fun_eq_iff)

lemma SpawnBullet_frame [step_simps]:
  "w_Entities (snd (SpawnBullet ownerID pos vel w)) = insert (w_NextEntityID w + 1) (w_Entities w)"
  "w_NextEntityID (snd (SpawnBullet ownerID pos vel w)) = w_NextEntityID w + 1"
  "w_Static (snd (SpawnBullet ownerID pos vel w)) = w_Static w"
  "w_rands (snd (SpawnBullet ownerID pos vel w)) = w_rands w"
  "w_SessionToEntity (snd (SpawnBullet ownerID pos vel w)) = w_SessionToEntity w"
  "w_PendingInputs (snd (SpawnBullet ownerID pos vel w)) = w_PendingInputs w"
  by (simp_all add: SpawnBullet_def AllocEntity_def Let_def)

lemma view_SpawnActor [step_simps]:
  "view (snd (SpawnActor sessionID tag w)) =
     (view w)(w_NextEntityID w + 1 := (view w (w_NextEntityID w + 1))\<lparr>en_Position := Some (fst (randomPosition w)),
        en_Health := Some \<lparr>HP = 100\<rparr>, en_LifeState := Some \<lparr>ls_State = StateAlive\<rparr>, en_Tag := Some tag,
        en_Cooldown := Some 0, en_Session := Some sessionID\<rparr>)"
  by (simp add: SpawnActor_def AllocEntity_def view_def randomPosition_def rand_Float32_def Let_def fun_eq_iff)

lemma SpawnActor_frame [step_simps]:
  "w_Entities (snd (SpawnActor sessionID tag w)) = insert (w_NextEntityID w + 1) (w_Entities w)"
  "w_NextEntityID (snd (SpawnActor sessionID tag w)) = w_NextEntityID w + 1"
  "w_Static (snd (SpawnActor sessionID tag w)) = w_Static w"
  "w_rands (snd (SpawnActor sessionID tag w)) = (\<lambda>n. w_rands w (Suc (Suc n)))"
  "w_SessionToEntity (snd (SpawnActor sessionID tag w)) = (w_SessionToEntity w)(sessionID \<mapsto> w_NextEntityID w + 1)"
  "w_PendingInputs (snd (SpawnActor sessionID tag w)) = w_PendingInputs w"
  by (simp_all add: SpawnActor_def AllocEntity_def randomPosition_def rand_Float32_def Let_def)

subsection \<open>Loops over the entities\<close>

text \<open>
  \<open>keeps\<close> is what the body needs and preserves beside the entities; \<open>R\<close> relates the view of the
  visited entity before and after.
\<close>

locale entity_loop =
  fixes body :: "EntityID \<Rightarrow> ShootingWorld \<Rightarrow> ShootingWorld"
    and keeps :: "ShootingWorld \<Rightarrow> bool"
    and R :: "entity \<Rightarrow> entity \<Rightarrow> bool"
  assumes body_own: "keeps w \<Longrightarrow> i \<in> w_Entities w \<Longrightarrow> R (view w i) (view (body i w) i)"
    and body_other: "keeps w \<Longrightarrow> i \<in> w_Entities w \<Longrightarrow> j \<noteq> i \<Longrightarrow> view (body i w) j = view w j"
    and body_entities: "keeps w \<Longrightarrow> i \<in> w_Entities w \<Longrightarrow> w_Entities (body i w) = w_Entities w"
    and body_keeps: "keeps w \<Longrightarrow> i \<in> w_Entities w \<Longrightarrow> keeps (body i w)"
    and keeps_orders: "keeps w \<Longrightarrow> keeps (w\<lparr>w_orders := f\<rparr>)"
begin

lemma for_keys_spec:
  assumes "keeps w" "distinct ids"
  shows "keeps (for_keys body ids w) \<and> w_Entities (for_keys body ids w) = w_Entities w
    \<and> (\<forall>j. if j \<in> set ids \<and> j \<in> w_Entities w then R (view w j) (view (for_keys body ids w) j)
        else view (for_keys body ids w) j = view w j)"
  using assms
proof (induction ids arbitrary: w)
  case (Cons i ids)
  show ?case
  proof (cases "i \<in> w_Entities w")
    case True
    have IH: "keeps (for_keys body ids (body i w)) \<and> w_Entities (for_keys body ids (body i w)) = w_Entities (body i w)
      \<and> (\<forall>j. if j \<in> set ids \<and> j \<in> w_Entities (body i w) then R (view (body i w) j) (view (for_keys body ids (body i w)) j)
        else view (for_keys body ids (body i w)) j = view (body i w) j)"
      using Cons True body_keeps by simp
    have "if j \<in> set (i # ids) \<and> j \<in> w_Entities w then R (view w j) (view (for_keys body ids (body i w)) j)
        else view (for_keys body ids (body i w)) j = view w j" for j
      using IH Cons.prems True body_own [of w i] body_other [of w i j] body_entities [of w i]
      by (cases "j = i") (auto dest: spec [of _ j])
    with IH True show ?thesis using body_entities [OF Cons.prems(1) True] by simp
  next
    case False
    with Cons show ?thesis by auto
  qed
qed simp

lemma for_entities_spec:
  assumes "keeps w"
  shows "keeps (for_entities body w)" "w_Entities (for_entities body w) = w_Entities w"
    "j \<in> w_Entities w \<Longrightarrow> R (view w j) (view (for_entities body w) j)"
    "j \<notin> w_Entities w \<Longrightarrow> view (for_entities body w) j = view w j"
proof -
  have e: "for_entities body w = for_keys body (range_keys (w_Entities w) (w_orders w 0)) (w\<lparr>w_orders := \<lambda>n. w_orders w (Suc n)\<rparr>)"
    by (simp add: for_entities_def next_order_def)
  note s = for_keys_spec [OF keeps_orders [OF assms] range_keys(1) [of "w_Entities w" "w_orders w 0"], of "\<lambda>n. w_orders w (Suc n)"]
  have m: "j \<in> w_Entities w \<Longrightarrow> j \<in> set (range_keys (w_Entities w) (w_orders w 0))" for j
    using range_keys(2) by blast
  show "keeps (for_entities body w)" "w_Entities (for_entities body w) = w_Entities w"
    "j \<in> w_Entities w \<Longrightarrow> R (view w j) (view (for_entities body w) j)"
    "j \<notin> w_Entities w \<Longrightarrow> view (for_entities body w) j = view w j"
    using s m [of j] unfolding e by (auto dest: spec [of _ j])
qed

end

end
