(* ===== verification/Codec.thy ===== *)
theory Codec
  imports Systems
begin

unbundle bit_operations_syntax

text \<open>
  The snapshot of the game, \<open>codec.go\<close>: the number of entities and, in the order of their
  identifiers, each entity with a mask of the components it has and their values, little endian.
  \<open>EncodeDelta\<close> and \<open>decodeEntity\<close> of the source panic with ``not implemented'' and are called
  by nobody. \<open>Snapshot\<close> specifies the format by a decoder.
\<close>

definition MPos :: byte where "MPos = push_bit 0 1"
definition MVel :: byte where "MVel = push_bit 1 1"
definition MHP :: byte where "MHP = push_bit 2 1"
definition MLife :: byte where "MLife = push_bit 3 1"
definition MTTL :: byte where "MTTL = push_bit 4 1"
definition MOwn :: byte where "MOwn = push_bit 5 1"
definition MTag :: byte where "MTag = push_bit 6 1"

lemmas masks = MPos_def MVel_def MHP_def MLife_def MTTL_def MOwn_def MTag_def

definition entity_mask :: "ShootingWorld \<Rightarrow> EntityID \<Rightarrow> byte" where
  "entity_mask w i =
     (let mask = 0;
          mask = (if w_Position w i \<noteq> None then mask OR MPos else mask);
          mask = (if w_Velocity w i \<noteq> None then mask OR MVel else mask);
          mask = (if w_Health w i \<noteq> None then mask OR MHP else mask);
          mask = (if w_LifeState w i \<noteq> None then mask OR MLife else mask);
          mask = (if w_TTL w i \<noteq> None then mask OR MTTL else mask);
          mask = (if w_Owner w i \<noteq> None then mask OR MOwn else mask)
      in if w_Tag w i \<noteq> None then mask OR MTag else mask)"

definition encodeEntity :: "ShootingWorld \<Rightarrow> EntityID \<Rightarrow> byte list \<Rightarrow> byte list" where
  "encodeEntity w i buf =
     (let mask = entity_mask w i;
          buf = buf @ PutUint16 i;
          buf = buf @ [mask];
          p = pos_of w i;
          buf = (if mask AND MPos \<noteq> 0 then (buf @ PutUint32 (pos_X p)) @ PutUint32 (pos_Y p) else buf);
          v = at (w_Velocity w) \<lparr>vel_X = 0, vel_Y = 0\<rparr> i;
          buf = (if mask AND MVel \<noteq> 0 then (buf @ PutUint32 (vel_X v)) @ PutUint32 (vel_Y v) else buf);
          buf = (if mask AND MHP \<noteq> 0 then buf @ [HP (at (w_Health w) \<lparr>HP = 0\<rparr> i)] else buf);
          buf = (if mask AND MLife \<noteq> 0 then buf @ [ls_State (at (w_LifeState w) \<lparr>ls_State = 0\<rparr> i)] else buf);
          buf = (if mask AND MTTL \<noteq> 0 then buf @ PutUint16 (at (w_TTL w) 0 i) else buf);
          buf = (if mask AND MOwn \<noteq> 0 then buf @ PutUint16 (at (w_Owner w) 0 i) else buf)
      in if mask AND MTag \<noteq> 0 then buf @ [tag_of w i] else buf)"

definition encodeWitheredSnapshot :: "ShootingWorld \<Rightarrow> byte list \<times> ShootingWorld" where
  "encodeWitheredSnapshot w =
     (let (keys, w) = next_order w;
          ids = sort (filter (\<lambda>i. i \<in> w_Entities w) keys);
          buf = PutUint16 (of_nat (length ids))
      in (fold (encodeEntity w) ids buf, w))"

definition EncodeSnapshot :: "ShootingWorld \<Rightarrow> byte list \<times> ShootingWorld" where
  "EncodeSnapshot w =
     (let (body, w) = encodeWitheredSnapshot w
      in (PayloadHeader_Encode \<lparr>DataType = DataTypeSnapshot, SubType = 0\<rparr> @ body, w))"

end
