(* ===== verification/Pubsub.thy ===== *)
theory Pubsub
  imports Session Slices
begin

text \<open>
  The in-memory publish/subscribe service, \<open>server/domain/simple_pubsub.go\<close>, with the channels
  it hands out: a channel is a number, \<open>ps_chans\<close> has its buffer and whether it is closed. The
  subscribers are a map of slices (theory \<open>Slices\<close>), because \<open>Publish\<close> reads the slice after
  releasing the lock. An operation that panics (a send on or a close of a closed channel) is
  \<open>None\<close>.
\<close>

type_synonym Topic = string

record Message =
  msg_SessionID :: SessionID
  msg_Data :: "byte list"

record chan =
  ch_buf :: "Message list"
  ch_closed :: bool

record SimplePubSub =
  ps_subs :: "Topic slice_map"
  ps_chans :: "nat \<rightharpoonup> chan"
  ps_next :: nat

definition DefaultChannelBuffer :: nat where "DefaultChannelBuffer = 1024"

definition NewSimplePubSub :: SimplePubSub where
  "NewSimplePubSub = \<lparr>ps_subs = no_slices, ps_chans = Map.empty, ps_next = 0\<rparr>"

definition ps_Subscribe :: "nat \<Rightarrow> Topic \<Rightarrow> SimplePubSub \<Rightarrow> SimplePubSub \<times> nat" where
  "ps_Subscribe grow topic p =
     (let ch = ps_next p;
          p = p\<lparr>ps_chans := (ps_chans p)(ch \<mapsto> \<lparr>ch_buf = [], ch_closed = False\<rparr>), ps_next := Suc ch\<rparr>
      in (p\<lparr>ps_subs := map_append grow (ps_subs p) topic ch\<rparr>, ch))"

definition close_chan :: "nat \<Rightarrow> SimplePubSub \<Rightarrow> SimplePubSub option" where
  "close_chan ch p =
     (case ps_chans p ch of
        None \<Rightarrow> None
      | Some c \<Rightarrow> if ch_closed c then None
                  else Some (p\<lparr>ps_chans := (ps_chans p)(ch \<mapsto> c\<lparr>ch_closed := True\<rparr>)\<rparr>))"

definition slice_elems :: "Topic slice_map \<Rightarrow> Topic \<Rightarrow> subscriber option list" where
  "slice_elems s k = (case sl_map s k of None \<Rightarrow> []
     | Some (a, n) \<Rightarrow> take n (case sl_arrays s a of None \<Rightarrow> [] | Some xs \<Rightarrow> xs))"

definition ps_Unsubscribe :: "Topic \<Rightarrow> nat \<Rightarrow> SimplePubSub \<Rightarrow> SimplePubSub option" where
  "ps_Unsubscribe topic ch p =
     do {
       p \<leftarrow> (case find_sub (slice_elems (ps_subs p) topic) ch of
                None \<Rightarrow> Some p
              | Some i \<Rightarrow>
                  do {
                    p \<leftarrow> close_chan ch p;
                    Some (p\<lparr>ps_subs := map_remove (ps_subs p) topic ch\<rparr>)
                  });
       if slice_elems (ps_subs p) topic = []
       then Some (p\<lparr>ps_subs := (ps_subs p)\<lparr>sl_map := (sl_map (ps_subs p))(topic := None)\<rparr>\<rparr>)
       else Some p
     }"

text \<open>A send in a \<open>select\<close> with a default case: a full or nil channel drops the message.\<close>

definition try_send :: "Message \<Rightarrow> nat \<Rightarrow> SimplePubSub \<Rightarrow> SimplePubSub option" where
  "try_send msg ch p =
     (case ps_chans p ch of
        None \<Rightarrow> Some p
      | Some c \<Rightarrow>
          if ch_closed c then None
          else if length (ch_buf c) < DefaultChannelBuffer
          then Some (p\<lparr>ps_chans := (ps_chans p)(ch \<mapsto> c\<lparr>ch_buf := ch_buf c @ [msg]\<rparr>)\<rparr>)
          else Some p)"

text \<open>
  One iteration of the loop of \<open>Publish\<close>. \<open>stop\<close> says that the select took its \<open>ctx.Done()\<close>
  case, which it may do once the context is cancelled: the loop ends.
\<close>

definition pub_step :: "Message \<Rightarrow> bool \<Rightarrow> SimplePubSub \<Rightarrow> range_loop \<Rightarrow> (SimplePubSub \<times> range_loop) option" where
  "pub_step msg stop p b =
     do {
       b' \<leftarrow> range_step (ps_subs p) b;
       if stop then Some (p, b\<lparr>rl_pos := snd (rl_slice b)\<rparr>)
       else do { p' \<leftarrow> try_send msg (last (rl_seen b')) p; Some (p', b') }
     }"

function pub_run :: "Message \<Rightarrow> (nat \<Rightarrow> bool) \<Rightarrow> SimplePubSub \<Rightarrow> range_loop \<Rightarrow> SimplePubSub option" where
  "pub_run msg stop p b =
     (if range_done b then Some p
      else (case pub_step msg (stop (rl_pos b)) p b of
              None \<Rightarrow> None
            | Some (p', b') \<Rightarrow> pub_run msg stop p' b'))"
  by pat_completeness auto
termination
  by (relation "measure (\<lambda>(msg, stop, p, b). snd (rl_slice b) - rl_pos b)")
    (auto simp: range_done_def pub_step_def range_step_def split: option.splits if_splits bind_splits)

declare pub_run.simps [simp del]

definition Publish :: "(nat \<Rightarrow> bool) \<Rightarrow> Topic \<Rightarrow> Message \<Rightarrow> SimplePubSub \<Rightarrow> SimplePubSub option" where
  "Publish stop topic msg p = pub_run msg stop p (range_begin (ps_subs p) topic)"

text \<open>
  A receive in a \<open>select\<close>: \<open>None\<close> when it would block; from a closed and drained channel the zero
  message with \<open>ok = false\<close>.
\<close>

definition try_recv :: "nat \<Rightarrow> SimplePubSub \<Rightarrow> (SimplePubSub \<times> Message \<times> bool) option" where
  "try_recv ch p =
     (case ps_chans p ch of
        None \<Rightarrow> None
      | Some c \<Rightarrow>
          (case ch_buf c of
             m # ms \<Rightarrow> Some (p\<lparr>ps_chans := (ps_chans p)(ch \<mapsto> c\<lparr>ch_buf := ms\<rparr>)\<rparr>, m, True)
           | [] \<Rightarrow> if ch_closed c then Some (p, \<lparr>msg_SessionID = '''', msg_Data = []\<rparr>, False) else None))"

subsection \<open>Well-formed services\<close>

text \<open>
  Every subscribed channel exists and is open, under one topic only and there only once, and no
  buffer is over its capacity.
\<close>

definition ps_wf :: "SimplePubSub \<Rightarrow> bool" where
  "ps_wf p \<longleftrightarrow> subs_wf (ps_subs p)
     \<and> (\<forall>k. distinct (subs_of (ps_subs p) k))
     \<and> (\<forall>k k' ch. ch \<in> set (subs_of (ps_subs p) k) \<longrightarrow> ch \<in> set (subs_of (ps_subs p) k') \<longrightarrow> k = k')
     \<and> (\<forall>k ch. ch \<in> set (subs_of (ps_subs p) k) \<longrightarrow> (\<exists>c. ps_chans p ch = Some c \<and> \<not> ch_closed c))
     \<and> (\<forall>ch c. ps_chans p ch = Some c \<longrightarrow> ch < ps_next p \<and> length (ch_buf c) \<le> DefaultChannelBuffer)"

abbreviation subscribers :: "SimplePubSub \<Rightarrow> Topic \<Rightarrow> nat list" where
  "subscribers p \<equiv> subs_of (ps_subs p)"

lemma ps_wfD:
  assumes "ps_wf p"
  shows "subs_wf (ps_subs p)" "distinct (subscribers p k)"
    "ch \<in> set (subscribers p k) \<Longrightarrow> ch \<in> set (subscribers p k') \<Longrightarrow> k = k'"
    "ch \<in> set (subscribers p k) \<Longrightarrow> \<exists>c. ps_chans p ch = Some c \<and> \<not> ch_closed c"
    "ps_chans p ch = Some c \<Longrightarrow> ch < ps_next p" "ps_chans p ch = Some c \<Longrightarrow> length (ch_buf c) \<le> DefaultChannelBuffer"
  using assms unfolding ps_wf_def by blast+

lemma ps_wf_New: "ps_wf NewSimplePubSub"
  using subs_wf_no_slices by (simp add: ps_wf_def NewSimplePubSub_def subs_of_def no_slices_def)

lemma slice_elems_subs:
  assumes "subs_wf s"
  shows "slice_elems s k = map Some (subs_of s k)"
proof (cases "sl_map s k")
  case None
  then show ?thesis by (simp add: slice_elems_def subs_of_def)
next
  case (Some h)
  obtain a n where h: "h = (a, n)" by (cases h)
  obtain xs where "sl_arrays s a = Some xs" "None \<notin> set (take n xs)" "subs_of s k = map the (take n xs)"
    by (rule subs_wf_slice [OF assms Some [unfolded h]]) (rule that)
  with Some h map_Some_the [of "take n xs"] show ?thesis by (simp add: slice_elems_def)
qed

lemma ps_wfI:
  assumes "subs_wf (ps_subs p)" "\<And>k. distinct (subscribers p k)"
    "\<And>k k' ch. ch \<in> set (subscribers p k) \<Longrightarrow> ch \<in> set (subscribers p k') \<Longrightarrow> k = k'"
    "\<And>k ch. ch \<in> set (subscribers p k) \<Longrightarrow> \<exists>c. ps_chans p ch = Some c \<and> \<not> ch_closed c"
    "\<And>ch c. ps_chans p ch = Some c \<Longrightarrow> ch < ps_next p \<and> length (ch_buf c) \<le> DefaultChannelBuffer"
  shows "ps_wf p"
  unfolding ps_wf_def by (intro conjI allI impI) (use assms in blast)+

text \<open>Changing the buffer of a channel keeps the service well-formed.\<close>

lemma ps_wf_buf:
  assumes wf: "ps_wf p" and c: "ps_chans p ch = Some c" and len: "length buf \<le> DefaultChannelBuffer"
  shows "ps_wf (p\<lparr>ps_chans := (ps_chans p)(ch \<mapsto> c\<lparr>ch_buf := buf\<rparr>)\<rparr>)"
proof (rule ps_wfI)
  fix k x assume "x \<in> set (subscribers (p\<lparr>ps_chans := (ps_chans p)(ch \<mapsto> c\<lparr>ch_buf := buf\<rparr>)\<rparr>) k)"
  then obtain c' where "ps_chans p x = Some c'" "\<not> ch_closed c'" using ps_wfD(4) [OF wf, of x k] by auto
  then show "\<exists>c'. ps_chans (p\<lparr>ps_chans := (ps_chans p)(ch \<mapsto> c\<lparr>ch_buf := buf\<rparr>)\<rparr>) x = Some c' \<and> \<not> ch_closed c'"
    using c by (cases "x = ch") auto
next
  fix x c' assume "ps_chans (p\<lparr>ps_chans := (ps_chans p)(ch \<mapsto> c\<lparr>ch_buf := buf\<rparr>)\<rparr>) x = Some c'"
  then show "x < ps_next (p\<lparr>ps_chans := (ps_chans p)(ch \<mapsto> c\<lparr>ch_buf := buf\<rparr>)\<rparr>) \<and> length (ch_buf c') \<le> DefaultChannelBuffer"
    using ps_wfD(5,6) [OF wf] c len by (auto split: if_splits)
qed (use ps_wfD [OF wf] in simp_all)

subsection \<open>Subscribing and unsubscribing\<close>

lemma ps_Subscribe_wf:
  assumes wf: "ps_wf p" and sub: "ps_Subscribe grow topic p = (p', ch)"
  shows "ps_wf p' \<and> subscribers p' = (subscribers p)(topic := subscribers p topic @ [ch])
    \<and> ch \<notin> set (subscribers p k) \<and> ps_chans p' = (ps_chans p)(ch \<mapsto> \<lparr>ch_buf = [], ch_closed = False\<rparr>)
    \<and> ps_chans p ch = None"
proof -
  have ch: "ch = ps_next p" and p': "p' = p\<lparr>ps_chans := (ps_chans p)(ch \<mapsto> \<lparr>ch_buf = [], ch_closed = False\<rparr>),
      ps_next := Suc ch, ps_subs := map_append grow (ps_subs p) topic ch\<rparr>"
    using sub by (auto simp: ps_Subscribe_def Let_def)
  have new: "ps_chans p ch = None" using ps_wfD(5) [OF wf, of ch] ch by (cases "ps_chans p ch") auto
  then have fresh: "ch \<notin> set (subscribers p k)" for k using ps_wfD(4) [OF wf, of ch k] by auto
  have subs: "subscribers p' = (subscribers p)(topic := subscribers p topic @ [ch])" and "subs_wf (ps_subs p')"
    using map_append_refines [OF ps_wfD(1) [OF wf], of grow topic ch] by (simp_all add: p')
  have "ps_wf p'"
  proof (rule ps_wfI)
    show "subs_wf (ps_subs p')" by fact
    show "distinct (subscribers p' k)" for k using ps_wfD(2) [OF wf] fresh by (simp add: subs)
    show "k = k'" if "x \<in> set (subscribers p' k)" "x \<in> set (subscribers p' k')" for k k' x
      using that fresh ps_wfD(3) [OF wf, of x k k'] by (cases "x = ch") (auto simp: subs split: if_splits)
    show "\<exists>c. ps_chans p' x = Some c \<and> \<not> ch_closed c" if "x \<in> set (subscribers p' k)" for k x
    proof (cases "x = ch")
      case False
      then have "x \<in> set (subscribers p k)" using that unfolding subs by (auto split: if_splits)
      with False ps_wfD(4) [OF wf, of x k] show ?thesis by (simp add: p')
    qed (simp add: p')
    show "x < ps_next p' \<and> length (ch_buf c) \<le> DefaultChannelBuffer" if "ps_chans p' x = Some c" for x c
      using that ps_wfD(5,6) [OF wf, of x c] ch by (cases "x = ch") (auto simp: p')
  qed
  with subs fresh new show ?thesis by (simp add: p')
qed

definition unsub_finish :: "Topic \<Rightarrow> SimplePubSub \<Rightarrow> SimplePubSub option" where
  "unsub_finish topic p =
     (if slice_elems (ps_subs p) topic = []
      then Some (p\<lparr>ps_subs := (ps_subs p)\<lparr>sl_map := (sl_map (ps_subs p))(topic := None)\<rparr>\<rparr>)
      else Some p)"

text \<open>Deleting a topic without subscribers loses nothing.\<close>

lemma unsub_finish:
  assumes wf: "ps_wf p"
  shows "\<exists>p'. unsub_finish topic p = Some p' \<and> ps_wf p' \<and> subscribers p' = subscribers p \<and> ps_chans p' = ps_chans p"
proof (cases "subscribers p topic = []")
  case True
  let ?p = "p\<lparr>ps_subs := (ps_subs p)\<lparr>sl_map := (sl_map (ps_subs p))(topic := None)\<rparr>\<rparr>"
  have "subs_wf (ps_subs ?p)" "subscribers ?p = subscribers p"
    using map_delete_refines [OF ps_wfD(1) [OF wf], of topic] True by auto
  moreover from this have "ps_wf ?p" using wf unfolding ps_wf_def by simp
  ultimately show ?thesis using True slice_elems_subs [OF ps_wfD(1) [OF wf]] by (simp add: unsub_finish_def)
qed (use wf slice_elems_subs [OF ps_wfD(1) [OF wf]] in \<open>simp add: unsub_finish_def\<close>)

lemma ps_Unsubscribe_wf:
  assumes wf: "ps_wf p"
  shows "\<exists>p'. ps_Unsubscribe topic ch p = Some p' \<and> ps_wf p'
    \<and> subscribers p' = (subscribers p)(topic := remove1 ch (subscribers p topic))
    \<and> (\<forall>x. ps_chans p' x = (if x = ch \<and> ch \<in> set (subscribers p topic)
          then map_option (ch_closed_update (\<lambda>_. True)) (ps_chans p x) else ps_chans p x))"
proof (cases "ch \<in> set (subscribers p topic)")
  case False
  then have "find_sub (slice_elems (ps_subs p) topic) ch = None"
    using slice_elems_subs [OF ps_wfD(1) [OF wf]] by (auto simp: find_sub_None)
  moreover have "remove1 ch (subscribers p topic) = subscribers p topic" using False by (rule remove1_idem)
  ultimately show ?thesis
    using unsub_finish [OF wf, of topic] False by (auto simp: ps_Unsubscribe_def unsub_finish_def)
next
  case True
  then obtain c where c: "ps_chans p ch = Some c" "\<not> ch_closed c" using ps_wfD(4) [OF wf] by blast
  define q where "q = p\<lparr>ps_chans := (ps_chans p)(ch \<mapsto> c\<lparr>ch_closed := True\<rparr>),
      ps_subs := map_remove (ps_subs p) topic ch\<rparr>"
  obtain i where "find_sub (slice_elems (ps_subs p) topic) ch = Some i"
    using True slice_elems_subs [OF ps_wfD(1) [OF wf]] find_sub_None
    by (cases "find_sub (slice_elems (ps_subs p) topic) ch") auto
  then have eq: "ps_Unsubscribe topic ch p = unsub_finish topic q"
    using c by (simp add: ps_Unsubscribe_def close_chan_def q_def unsub_finish_def)
  have subs: "subscribers q = (subscribers p)(topic := remove1 ch (subscribers p topic))" and "subs_wf (ps_subs q)"
    using map_remove_refines [OF ps_wfD(1) [OF wf], of topic ch] by (simp_all add: q_def)
  have gone: "ch \<notin> set (subscribers q k)" for k
    using ps_wfD(2) [OF wf, of topic] ps_wfD(3) [OF wf True, of k] by (auto simp: subs)
  have sub: "x \<in> set (subscribers q k) \<Longrightarrow> x \<in> set (subscribers p k)" for x k
    using set_remove1_subset [of ch "subscribers p topic"] by (auto simp: subs split: if_splits)
  have "ps_wf q"
  proof (rule ps_wfI)
    show "subs_wf (ps_subs q)" by fact
    show "distinct (subscribers q k)" for k using ps_wfD(2) [OF wf] by (simp add: subs)
    show "k = k'" if "x \<in> set (subscribers q k)" "x \<in> set (subscribers q k')" for k k' x
      using ps_wfD(3) [OF wf] sub that by blast
    show "\<exists>c. ps_chans q x = Some c \<and> \<not> ch_closed c" if "x \<in> set (subscribers q k)" for k x
      using that gone [of k] ps_wfD(4) [OF wf sub [OF that]] by (cases "x = ch") (auto simp: q_def)
    show "x < ps_next q \<and> length (ch_buf c) \<le> DefaultChannelBuffer" if "ps_chans q x = Some c" for x c
      using that ps_wfD(5,6) [OF wf] \<open>ps_chans p ch = Some _\<close> by (cases "x = ch") (auto simp: q_def)
  qed
  from unsub_finish [OF this, of topic] obtain p' where "unsub_finish topic q = Some p'" "ps_wf p'"
    "subscribers p' = subscribers q" "ps_chans p' = ps_chans q" by blast
  moreover have "ps_chans q x = (if x = ch then map_option (ch_closed_update (\<lambda>_. True)) (ps_chans p x) else ps_chans p x)" for x
    using c by (simp add: q_def)
  ultimately show ?thesis unfolding eq using True subs by simp
qed

subsection \<open>Publishing\<close>

text \<open>What a delivery to the channels \<open>L\<close> leaves in the channels.\<close>

definition delivered :: "Message \<Rightarrow> nat list \<Rightarrow> (nat \<rightharpoonup> chan) \<Rightarrow> (nat \<rightharpoonup> chan)" where
  "delivered msg L chans = (\<lambda>ch. map_option (\<lambda>c.
     if ch \<in> set L \<and> length (ch_buf c) < DefaultChannelBuffer then c\<lparr>ch_buf := ch_buf c @ [msg]\<rparr> else c) (chans ch))"

lemma delivered_Nil: "delivered msg [] chans = chans"
  by (simp add: delivered_def option.map_ident)

lemma try_send_open:
  assumes wf: "ps_wf p" and ch: "ch \<in> set (subscribers p k)"
  shows "\<exists>p'. try_send msg ch p = Some p' \<and> ps_wf p' \<and> ps_subs p' = ps_subs p \<and> ps_next p' = ps_next p
    \<and> ps_chans p' = delivered msg [ch] (ps_chans p)"
proof -
  obtain c where c: "ps_chans p ch = Some c" "\<not> ch_closed c" using ps_wfD(4) [OF wf ch] by blast
  show ?thesis
  proof (cases "length (ch_buf c) < DefaultChannelBuffer")
    case True
    with ps_wf_buf [OF wf c(1), of "ch_buf c @ [msg]"] c show ?thesis
      by (auto simp: try_send_def delivered_def fun_eq_iff option.map_ident)
  next
    case False
    then have "delivered msg [ch] (ps_chans p) x = ps_chans p x" for x
      using c by (cases "x = ch"; cases "ps_chans p x") (auto simp: delivered_def)
    with False wf c show ?thesis by (auto simp: try_send_def fun_eq_iff)
  qed
qed

lemma delivered_append:
  "set L \<inter> set M = {} \<Longrightarrow> delivered msg M (delivered msg L chans) = delivered msg (L @ M) chans"
  by (auto simp: delivered_def fun_eq_iff option.map_comp comp_def intro!: option.map_cong0)

text \<open>
  A loop under way, whatever its context does: it delivers to a first part of what is left, and
  to all of it when the context stays alive.
\<close>

lemma pub_run_any:
  assumes "ps_wf p" "range_view (ps_subs p) b L" "L = subscribers p k"
  shows "\<exists>p' n. pub_run msg stop p b = Some p' \<and> ps_wf p' \<and> ps_subs p' = ps_subs p
    \<and> ps_chans p' = delivered msg (take n (drop (rl_pos b) L)) (ps_chans p)
    \<and> ((\<forall>i. \<not> stop i) \<longrightarrow> length L \<le> rl_pos b + n)"
  using assms
proof (induction "length L - rl_pos b" arbitrary: p b)
  case 0
  then have "range_done b" "length L \<le> rl_pos b + 0" by (auto simp: range_done_def range_view_def)
  then show ?case using 0(2) by (intro exI [of _ p] exI [of _ 0]) (simp add: pub_run.simps delivered_Nil)
next
  case (Suc m)
  then have pos: "rl_pos b < length L" and nd: "\<not> range_done b" by (auto simp: range_done_def range_view_def)
  from range_view_step [OF Suc.prems(2) nd] obtain b' where b': "range_step (ps_subs p) b = Some b'"
    and view: "range_view (ps_subs p) b' L" and pos': "rl_pos b' = Suc (rl_pos b)" by blast
  show ?case
  proof (cases "stop (rl_pos b)")
    case True
    have "pub_run msg stop p b = Some p"
      using nd b' True by (subst pub_run.simps) (simp add: pub_step_def pub_run.simps range_done_def)
    with True Suc.prems(1) show ?thesis by (intro exI [of _ p] exI [of _ 0]) (auto simp: delivered_Nil)
  next
    case False
    have "rl_seen b' = take (Suc (rl_pos b)) L" using view pos' by (simp add: range_view_def)
    then have elem: "last (rl_seen b') = L ! rl_pos b" using pos by (simp add: take_Suc_conv_app_nth)
    have "L ! rl_pos b \<in> set (subscribers p k)" using pos Suc.prems(3) by simp
    from try_send_open [OF Suc.prems(1) this, of msg] obtain p1 where p1: "try_send msg (L ! rl_pos b) p = Some p1"
      "ps_wf p1" "ps_subs p1 = ps_subs p" "ps_chans p1 = delivered msg [L ! rl_pos b] (ps_chans p)" by blast
    have run: "pub_run msg stop p b = pub_run msg stop p1 b'"
      using nd b' p1(1) elem False by (subst pub_run.simps) (simp add: pub_step_def)
    obtain p' n where p': "pub_run msg stop p1 b' = Some p'" "ps_wf p'" "ps_subs p' = ps_subs p1"
      "ps_chans p' = delivered msg (take n (drop (rl_pos b') L)) (ps_chans p1)"
      "(\<forall>i. \<not> stop i) \<longrightarrow> length L \<le> rl_pos b' + n"
    proof -
      have "m = length L - rl_pos b'" using Suc.hyps(2) pos' by linarith
      then show ?thesis using Suc.hyps(1) [of b' p1] p1(2,3) view Suc.prems(3) that by auto
    qed
    have "distinct L" using ps_wfD(2) [OF Suc.prems(1)] Suc.prems(3) by simp
    moreover have d: "drop (rl_pos b) L = L ! rl_pos b # drop (rl_pos b') L" using pos pos' by (simp add: Cons_nth_drop_Suc)
    ultimately have "L ! rl_pos b \<notin> set (drop (rl_pos b') L)" using distinct_drop [of L "rl_pos b"] by simp
    then have "L ! rl_pos b \<notin> set (take n (drop (rl_pos b') L))" by (meson in_set_takeD)
    then have "delivered msg (take n (drop (rl_pos b') L)) (delivered msg [L ! rl_pos b] (ps_chans p))
        = delivered msg (take (Suc n) (drop (rl_pos b) L)) (ps_chans p)"
      unfolding d by (simp add: delivered_append)
    with run p1 p' pos' show ?thesis by (intro exI [of _ p'] exI [of _ "Suc n"]) auto
  qed
qed

lemma Publish_any:
  assumes wf: "ps_wf p"
  shows "\<exists>p' L. Publish stop topic msg p = Some p' \<and> ps_wf p' \<and> ps_subs p' = ps_subs p
    \<and> ps_chans p' = delivered msg L (ps_chans p) \<and> set L \<subseteq> set (subscribers p topic)
    \<and> ((\<forall>i. \<not> stop i) \<longrightarrow> L = subscribers p topic)"
proof -
  have "range_view (ps_subs p) (range_begin (ps_subs p) topic) (subscribers p topic)"
    by (rule range_view_begin [OF ps_wfD(1) [OF wf]])
  from pub_run_any [OF wf this refl, of msg stop] obtain p' n where
    "Publish stop topic msg p = Some p'" "ps_wf p'" "ps_subs p' = ps_subs p"
    "ps_chans p' = delivered msg (take n (subscribers p topic)) (ps_chans p)"
    "(\<forall>i. \<not> stop i) \<longrightarrow> length (subscribers p topic) \<le> n"
    unfolding Publish_def by (auto simp: range_begin_def)
  then show ?thesis
    by (intro exI [of _ p'] exI [of _ "take n (subscribers p topic)"]) (auto dest: in_set_takeD)
qed

lemma Publish_ok:
  assumes wf: "ps_wf p"
  shows "\<exists>p'. Publish (\<lambda>_. False) topic msg p = Some p' \<and> ps_wf p' \<and> ps_subs p' = ps_subs p
    \<and> ps_chans p' = delivered msg (subscribers p topic) (ps_chans p)"
  using Publish_any [OF wf, of "\<lambda>_. False" topic msg] by auto

text \<open>
  C38: \<open>Publish\<close> with a live context always returns, keeps the service well-formed and puts the
  message at the end of the channel of every subscriber of the topic that is not full, each
  once; the other channels and the subscriptions stay as they are. \<open>Subscribe\<close> adds a new, empty
  channel to its topic; \<open>Unsubscribe\<close> removes and closes exactly the given one and never
  closes a channel twice.
\<close>

theorem pubsub_delivery:
  assumes wf: "ps_wf p"
  shows "(\<exists>p'. Publish (\<lambda>_. False) topic msg p = Some p' \<and> ps_wf p' \<and> ps_subs p' = ps_subs p
      \<and> ps_chans p' = delivered msg (subs_of (ps_subs p) topic) (ps_chans p))
    \<and> (ps_Subscribe grow topic p = (p1, ch) \<longrightarrow> ps_wf p1 \<and> ps_chans p ch = None
      \<and> subs_of (ps_subs p1) = (subs_of (ps_subs p))(topic := subs_of (ps_subs p) topic @ [ch]))
    \<and> (\<exists>p2. ps_Unsubscribe topic ch p = Some p2 \<and> ps_wf p2
      \<and> subs_of (ps_subs p2) = (subs_of (ps_subs p))(topic := remove1 ch (subs_of (ps_subs p) topic))
      \<and> (ch \<in> set (subs_of (ps_subs p) topic)
          \<longrightarrow> (\<exists>c. ps_chans p2 ch = Some c \<and> ch_closed c)))"
proof (intro conjI)
  show "\<exists>p'. Publish (\<lambda>_. False) topic msg p = Some p' \<and> ps_wf p' \<and> ps_subs p' = ps_subs p
      \<and> ps_chans p' = delivered msg (subscribers p topic) (ps_chans p)"
    by (rule Publish_ok [OF wf])
  show "ps_Subscribe grow topic p = (p1, ch) \<longrightarrow> ps_wf p1 \<and> ps_chans p ch = None
      \<and> subs_of (ps_subs p1) = (subs_of (ps_subs p))(topic := subs_of (ps_subs p) topic @ [ch])"
    using ps_Subscribe_wf [OF wf] by blast
  obtain p2 where "ps_Unsubscribe topic ch p = Some p2" "ps_wf p2"
    "subscribers p2 = (subscribers p)(topic := remove1 ch (subscribers p topic))"
    "\<forall>x. ps_chans p2 x = (if x = ch \<and> ch \<in> set (subscribers p topic)
          then map_option (ch_closed_update (\<lambda>_. True)) (ps_chans p x) else ps_chans p x)"
    using ps_Unsubscribe_wf [OF wf, of topic ch] by blast
  with ps_wfD(4) [OF wf, of ch topic] show "\<exists>p2. ps_Unsubscribe topic ch p = Some p2 \<and> ps_wf p2
      \<and> subs_of (ps_subs p2) = (subs_of (ps_subs p))(topic := remove1 ch (subs_of (ps_subs p) topic))
      \<and> (ch \<in> set (subs_of (ps_subs p) topic) \<longrightarrow> (\<exists>c. ps_chans p2 ch = Some c \<and> ch_closed c))"
    by (intro exI [of _ p2]) auto
qed

theorem pubsub_delivery_witness:
  "\<exists>p'. Publish (\<lambda>_. False) ''t'' \<lparr>msg_SessionID = ''s'', msg_Data = [1]\<rparr> (fst (ps_Subscribe 1 ''t'' NewSimplePubSub)) = Some p'
     \<and> ps_chans p' 0 = Some \<lparr>ch_buf = [\<lparr>msg_SessionID = ''s'', msg_Data = [1]\<rparr>], ch_closed = False\<rparr>"
proof -
  let ?p = "fst (ps_Subscribe 1 ''t'' NewSimplePubSub)"
  have sub: "ps_Subscribe 1 ''t'' NewSimplePubSub = (?p, 0)"
    by (simp add: ps_Subscribe_def NewSimplePubSub_def)
  have wf: "ps_wf ?p" using pubsub_delivery [OF ps_wf_New] sub by blast
  have "subs_of (ps_subs ?p) ''t'' = [0]" "ps_chans ?p 0 = Some \<lparr>ch_buf = [], ch_closed = False\<rparr>"
    by (simp_all add: ps_Subscribe_def NewSimplePubSub_def map_append_def go_append_def no_slices_def subs_of_def)
  with pubsub_delivery [OF wf, THEN conjunct1, of "''t''" "\<lparr>msg_SessionID = ''s'', msg_Data = [1]\<rparr>"] show ?thesis
    by (auto simp: delivered_def DefaultChannelBuffer_def)
qed

text \<open>
  C40: A subscriber that leaves while a message is being published to it brings the server down:
  once \<open>Publish\<close> has read the slice of a topic with one subscriber (the session topics have
  one each), an \<open>Unsubscribe\<close> of this subscriber closes the channel, and the send that
  follows panics.
\<close>

theorem publish_panics_after_unsubscribe:
  assumes wf: "ps_wf p" and one: "subs_of (ps_subs p) topic = [ch]"
  shows "\<exists>p'. ps_Unsubscribe topic ch p = Some p'
    \<and> pub_step msg False p' (range_begin (ps_subs p) topic) = None"
proof -
  obtain a n where h: "sl_map (ps_subs p) topic = Some (a, n)"
    using one by (cases "sl_map (ps_subs p) topic") (auto simp: subs_of_def)
  obtain xs where xs: "sl_arrays (ps_subs p) a = Some xs" "n \<le> length xs" "None \<notin> set (take n xs)"
    "subscribers p topic = map the (take n xs)"
    by (rule subs_wf_slice [OF ps_wfD(1) [OF wf] h]) (rule that)
  have "length (map the (take n xs)) = length [ch]" using one xs(4) by simp
  then have n: "n = 1" using xs(2) by simp
  then obtain y ys where y: "xs = y # ys" using xs(2) by (cases xs) auto
  have "y = Some ch" using one xs(3,4) n y by (cases y) auto
  obtain c where c: "ps_chans p ch = Some c" "\<not> ch_closed c" using ps_wfD(4) [OF wf, of ch topic] one by auto
  show ?thesis
    using h xs(1) n y c \<open>y = Some ch\<close>
    by (auto simp: ps_Unsubscribe_def slice_elems_def close_chan_def map_remove_def pub_step_def range_step_def
        range_begin_def try_send_def)
qed

theorem publish_panics_after_unsubscribe_witness:
  "\<exists>p'. ps_Unsubscribe ''t'' 0 (fst (ps_Subscribe 0 ''t'' NewSimplePubSub)) = Some p'
     \<and> pub_step \<lparr>msg_SessionID = ''s'', msg_Data = [1]\<rparr> False p'
         (range_begin (ps_subs (fst (ps_Subscribe 0 ''t'' NewSimplePubSub))) ''t'') = None"
proof (rule publish_panics_after_unsubscribe)
  show "ps_wf (fst (ps_Subscribe 0 ''t'' NewSimplePubSub))"
    using ps_Subscribe_wf [OF ps_wf_New] by (cases "ps_Subscribe 0 ''t'' NewSimplePubSub") auto
  show "subs_of (ps_subs (fst (ps_Subscribe 0 ''t'' NewSimplePubSub))) ''t'' = [0]"
    by (simp add: ps_Subscribe_def NewSimplePubSub_def map_append_def go_append_def no_slices_def subs_of_def)
qed

end
