(* ===== verification/Varint.thy ===== *)
theory Varint
  imports Prelude
begin

unbundle bit_operations_syntax

text \<open>
  Variable-length integers of \<open>withered\<close>, \<open>server/domain/protocol/varint.go\<close> (the encoding of
  RFC 9000). Bytes and values are words of the width the code uses, and the shifts and masks
  are the code's own.
\<close>

datatype VarintError = ErrVarintTooShort | ErrVarintOverflow

definition maxVarint :: u64 where
  "maxVarint = push_bit 62 1 - 1"

definition low6 :: "byte \<Rightarrow> u64" where
  "low6 b = ucast (b AND 0x3f)"

definition ReadVarint :: "byte list \<Rightarrow> VarintError + u64 \<times> nat" where
  "ReadVarint buf =
     (if buf = [] then Inl ErrVarintTooShort
      else
        (let prefix = unat (drop_bit 6 (buf ! 0));
             len = 2 ^ prefix
         in if length buf < len then Inl ErrVarintTooShort
            else Inr
              (if len = 1 then low6 (buf ! 0)
               else if len = 2 then push_bit 8 (low6 (buf ! 0)) OR ucast (buf ! 1)
               else if len = 4 then
                 push_bit 24 (low6 (buf ! 0)) OR push_bit 16 (ucast (buf ! 1))
                 OR push_bit 8 (ucast (buf ! 2)) OR ucast (buf ! 3)
               else if len = 8 then
                 push_bit 56 (low6 (buf ! 0)) OR push_bit 48 (ucast (buf ! 1))
                 OR push_bit 40 (ucast (buf ! 2)) OR push_bit 32 (ucast (buf ! 3))
                 OR push_bit 24 (ucast (buf ! 4)) OR push_bit 16 (ucast (buf ! 5))
                 OR push_bit 8 (ucast (buf ! 6)) OR ucast (buf ! 7)
               else 0, len)))"

definition AppendVarint :: "byte list \<Rightarrow> u64 \<Rightarrow> byte list" where
  "AppendVarint buf v =
     (if v \<le> 63 then buf @ [ucast v]
      else if v \<le> 16383 then buf @ [ucast (0x40 OR drop_bit 8 v), ucast v]
      else if v \<le> 1073741823 then
        buf @ [ucast (0x80 OR drop_bit 24 v), ucast (drop_bit 16 v), ucast (drop_bit 8 v), ucast v]
      else
        buf @ [ucast (0xc0 OR drop_bit 56 v), ucast (drop_bit 48 v), ucast (drop_bit 40 v),
               ucast (drop_bit 32 v), ucast (drop_bit 24 v), ucast (drop_bit 16 v),
               ucast (drop_bit 8 v), ucast v])"

definition VarintLen :: "u64 \<Rightarrow> nat" where
  "VarintLen v =
     (if v \<le> 63 then 1 else if v \<le> 16383 then 2 else if v \<le> 1073741823 then 4 else 8)"

subsection \<open>Reading back\<close>

lemma bit_low6: "bit (low6 b) n \<longleftrightarrow> n < 6 \<and> bit b n"
proof -
  have eq: "(0x3f :: byte) = mask 6" by (simp add: mask_eq_exp_minus_1)
  show ?thesis
    unfolding low6_def eq by (auto simp only: bit_unsigned_iff bit_and_iff bit_mask_iff) auto
qed

lemma bit_of_small: "unat v < 2 ^ k \<Longrightarrow> bit v n \<Longrightarrow> n < k" for v :: "'a::len word"
  using bit_take_bit_iff [of k v n] take_bit_self [of v k] by simp

lemma no_bit: "unat v < 2 ^ k \<Longrightarrow> k \<le> n \<Longrightarrow> \<not> bit v n" for v :: "'a::len word"
  using bit_of_small [of v k n] by auto

text \<open>The bits of the length marks.\<close>

lemma mark_bits:
  "bit (0x40 :: u64) n \<longleftrightarrow> n = 6" "bit (0x80 :: u64) n \<longleftrightarrow> n = 7"
  "bit (0xc0 :: u64) n \<longleftrightarrow> n = 6 \<or> n = 7"
proof -
  have e: "(0x40 :: u64) = push_bit 6 1" "(0x80 :: u64) = push_bit 7 1"
    "(0xc0 :: u64) = push_bit 6 1 OR push_bit 7 1" by simp_all
  show "bit (0x40 :: u64) n \<longleftrightarrow> n = 6" "bit (0x80 :: u64) n \<longleftrightarrow> n = 7"
    "bit (0xc0 :: u64) n \<longleftrightarrow> n = 6 \<or> n = 7"
    unfolding e by (auto simp only: bit_push_bit_iff bit_1_iff bit_or_iff) auto
qed

text \<open>The length the first byte announces.\<close>

lemma prefix_of:
  fixes v :: u64
  shows "unat v < 2 ^ 6 \<Longrightarrow> drop_bit 6 (ucast v :: byte) = 0"
    and "unat v < 2 ^ 14 \<Longrightarrow> drop_bit 6 (ucast (0x40 OR drop_bit 8 v) :: byte) = 1"
    and "unat v < 2 ^ 30 \<Longrightarrow> drop_bit 6 (ucast (0x80 OR drop_bit 24 v) :: byte) = 2"
    and "drop_bit 6 (ucast (0xc0 OR drop_bit 56 v) :: byte) = 3"
proof -
  have b2: "bit (2 :: byte) n \<longleftrightarrow> n = 1" and b3: "bit (3 :: byte) n \<longleftrightarrow> n = 0 \<or> n = 1" for n
  proof -
    have e: "(2 :: byte) = push_bit 1 1" "(3 :: byte) = 1 OR push_bit 1 1" by simp_all
    show "bit (2 :: byte) n \<longleftrightarrow> n = 1" "bit (3 :: byte) n \<longleftrightarrow> n = 0 \<or> n = 1"
      unfolding e by (auto simp only: bit_push_bit_iff bit_1_iff bit_or_iff) auto
  qed
  show "drop_bit 6 (ucast v :: byte) = 0" if "unat v < 2 ^ 6"
    by (rule bit_eqI) (use no_bit [OF that] in \<open>simp add: bit_drop_bit_eq bit_unsigned_iff\<close>)
  show "drop_bit 6 (ucast (0x40 OR drop_bit 8 v) :: byte) = 1" if "unat v < 2 ^ 14"
    by (rule bit_eqI) (use no_bit [OF that] in \<open>auto simp only: bit_drop_bit_eq bit_unsigned_iff bit_or_iff
        mark_bits bit_1_iff comp_apply\<close>, auto)
  show "drop_bit 6 (ucast (0x80 OR drop_bit 24 v) :: byte) = 2" if "unat v < 2 ^ 30"
    by (rule bit_eqI) (use no_bit [OF that] in \<open>auto simp only: bit_drop_bit_eq bit_unsigned_iff bit_or_iff
        mark_bits b2 comp_apply\<close>, auto)
  show "drop_bit 6 (ucast (0xc0 OR drop_bit 56 v) :: byte) = 3"
    by (rule bit_eqI) (auto simp only: bit_drop_bit_eq bit_unsigned_iff bit_or_iff mark_bits b3 comp_apply,
        auto dest: bit_imp_le_length)
qed

text \<open>
  The value the bytes carry: a byte of the encoding is a slice of eight bits, the first one a slice
  of six, and two neighbouring slices join.
\<close>

lemma first_slice:
  fixes x :: u64
  shows "low6 (ucast x) = take_bit 6 x" "low6 (ucast (0x40 OR x)) = take_bit 6 x"
    "low6 (ucast (0x80 OR x)) = take_bit 6 x" "low6 (ucast (0xc0 OR x)) = take_bit 6 x"
  by (rule bit_eqI, auto simp only: bit_low6 bit_unsigned_iff bit_or_iff mark_bits bit_take_bit_iff, auto)+

lemma AppendVarint_buf: "AppendVarint buf v = buf @ AppendVarint [] v"
  by (simp add: AppendVarint_def)

lemma length_AppendVarint [simp]: "length (AppendVarint [] v) = VarintLen v"
  by (simp add: AppendVarint_def VarintLen_def)

lemma ReadVarint_too_short: "length buf < 2 ^ unat (drop_bit 6 (buf ! 0)) \<Longrightarrow> ReadVarint buf = Inl ErrVarintTooShort"
  by (simp add: ReadVarint_def Let_def)

lemma Read_AppendVarint: "ReadVarint (AppendVarint [] v @ rest) = Inr (take_bit 62 v, VarintLen v)"
proof -
  have small: "v \<le> 63 \<Longrightarrow> unat v < 2 ^ 6" "v \<le> 16383 \<Longrightarrow> unat v < 2 ^ 14" "v \<le> 1073741823 \<Longrightarrow> unat v < 2 ^ 30"
    by (simp_all add: word_le_nat_alt)
  consider (a) "v \<le> 63" | (b) "\<not> v \<le> 63" "v \<le> 16383"
    | (c) "\<not> v \<le> 63" "\<not> v \<le> 16383" "v \<le> 1073741823" | (d) "\<not> v \<le> 63" "\<not> v \<le> 16383" "\<not> v \<le> 1073741823"
    by blast
  then show ?thesis
  proof cases
    case a
    then have "take_bit 62 v = v" "take_bit 6 v = v" using small(1) by (auto intro!: take_bit_self)
    with a prefix_of(1) [OF small(1)] show ?thesis
      by (simp add: ReadVarint_def AppendVarint_def VarintLen_def Let_def first_slice)
  next
    case b
    then have "take_bit 62 v = v" "take_bit 14 v = v" using small(2) by (auto intro!: take_bit_self)
    with b prefix_of(2) [OF small(2)] show ?thesis
      by (simp add: ReadVarint_def AppendVarint_def VarintLen_def Let_def prefix_of(4) first_slice byte_slice join_bytes)
  next
    case c
    then have "take_bit 62 v = v" "take_bit 30 v = v" using small(3) by (auto intro!: take_bit_self)
    with c prefix_of(3) [OF small(3)] show ?thesis
      by (simp add: ReadVarint_def AppendVarint_def VarintLen_def Let_def prefix_of(4) first_slice byte_slice join_bytes)
  next
    case d
    then show ?thesis
      by (simp add: ReadVarint_def AppendVarint_def VarintLen_def Let_def prefix_of(4) first_slice byte_slice join_bytes)
  qed
qed

end
