(* ===== verification/Transport_Protocol.thy ===== *)
theory Transport_Protocol
  imports Varint
begin

unbundle bit_operations_syntax

text \<open>
  The framing of \<open>withered\<close>, \<open>server/domain/protocol/protocol.go\<close>: a transport header (message
  type and payload length), the room identifier as a length-prefixed string, and the room
  header. \<open>buf[n:]\<close> is \<open>drop n buf\<close>, which stays in range because
  \<open>ReadVarint\<close> never reports more bytes than the buffer has (\<open>ReadVarint_fits\<close>).
\<close>

type_synonym MsgType = u64
type_synonym RoomMsgType = u64

definition MsgTypeRoomMessage :: MsgType where "MsgTypeRoomMessage = 0"
definition MsgTypePing :: MsgType where "MsgTypePing = 1"
definition MsgTypePong :: MsgType where "MsgTypePong = 2"
definition MsgTypeAssign :: MsgType where "MsgTypeAssign = 3"

definition RoomMsgTypeJoin :: RoomMsgType where "RoomMsgTypeJoin = 0"
definition RoomMsgTypeLeave :: RoomMsgType where "RoomMsgTypeLeave = 1"
definition RoomMsgTypeAppData :: RoomMsgType where "RoomMsgTypeAppData = 2"

lemmas msg_types = MsgTypeRoomMessage_def MsgTypePing_def MsgTypePong_def MsgTypeAssign_def
  RoomMsgTypeJoin_def RoomMsgTypeLeave_def RoomMsgTypeAppData_def

datatype ProtocolError = VarintErr VarintError | ErrTooShort | ErrInvalidRoomID

subsection \<open>Parsers\<close>

definition ParseTransportHeader :: "byte list \<Rightarrow> ProtocolError + MsgType \<times> u64 \<times> nat" where
  "ParseTransportHeader buf =
     (case ReadVarint buf of
        Inl e \<Rightarrow> Inl (VarintErr e)
      | Inr (mt, n1) \<Rightarrow>
          (case ReadVarint (drop n1 buf) of
             Inl e \<Rightarrow> Inl (VarintErr e)
           | Inr (totalLen, n2) \<Rightarrow> Inr (mt, totalLen, n1 + n2)))"

definition ParseRoomID :: "byte list \<Rightarrow> ProtocolError + string \<times> nat" where
  "ParseRoomID buf =
     (case ReadVarint buf of
        Inl e \<Rightarrow> Inl (VarintErr e)
      | Inr (len, n1) \<Rightarrow>
          (let end' = n1 + unat len
           in if length buf < end' then Inl ErrInvalidRoomID
              else Inr (string_of_bytes (drop n1 (take end' buf)), end')))"

definition ParseRoomHeader :: "byte list \<Rightarrow> ProtocolError + RoomMsgType \<times> nat" where
  "ParseRoomHeader buf =
     (case ReadVarint buf of Inl e \<Rightarrow> Inl (VarintErr e) | Inr (v, n1) \<Rightarrow> Inr (v, n1))"

subsection \<open>Encoders\<close>

definition EncodePing :: "byte list" where
  "EncodePing = AppendVarint (AppendVarint [] MsgTypePing) 0"

definition EncodePong :: "byte list" where
  "EncodePong = AppendVarint (AppendVarint [] MsgTypePong) 0"

definition EncodeAssign :: "byte list \<Rightarrow> byte list" where
  "EncodeAssign sessionID = AppendVarint (AppendVarint [] MsgTypeAssign) 16 @ sessionID"

definition EncodeRoomMessage :: "string \<Rightarrow> RoomMsgType \<Rightarrow> byte list \<Rightarrow> byte list" where
  "EncodeRoomMessage roomID roomMsgType appPayload =
     (let payload = AppendVarint [] (of_nat (length roomID));
          payload = payload @ bytes_of_string roomID;
          payload = AppendVarint payload roomMsgType;
          payload = payload @ appPayload;
          buf = AppendVarint [] MsgTypeRoomMessage;
          buf = AppendVarint buf (of_nat (length payload))
      in buf @ payload)"

subsection \<open>Lengths\<close>

lemma ReadVarint_fits: "ReadVarint buf = Inr (v, n) \<Longrightarrow> 0 < n \<and> n \<le> length buf"
  by (auto simp: ReadVarint_def Let_def split: if_splits)

lemma ReadVarint_width: "ReadVarint buf = Inr (v, n) \<Longrightarrow> n \<in> {1, 2, 4, 8} \<and> unat v < 2 ^ (8 * n - 2)"
proof -
  assume r: "ReadVarint buf = Inr (v, n)"
  have hi: "\<not> bit (low6 b) k" if "6 \<le> k" for b k using that by (simp add: bit_low6)
  have b8: "\<not> bit (ucast (b :: byte) :: u64) k" if "8 \<le> k" for b k
    using that bit_imp_le_length [of b k] by (auto simp: bit_unsigned_iff)
  have prefix: "unat (drop_bit 6 b) < 4" for b :: byte
    using unsigned_less [of b, where ?'a = nat] by (simp add: drop_bit_eq_div unat_div_distrib)
  from r have "n = 2 ^ unat (drop_bit 6 (buf ! 0))"
    by (auto simp: ReadVarint_def Let_def split: if_splits)
  with prefix [of "buf ! 0"] have n: "n \<in> {1, 2, 4, 8}"
    by (auto simp: less_Suc_eq numeral_eq_Suc)
  have "take_bit (8 * n - 2) v = v"
    using r n by (intro bit_eqI) (auto simp: ReadVarint_def Let_def bit_take_bit_iff bit_or_iff bit_push_bit_iff hi b8
        split: if_splits intro: ccontr)
  then have "unat v < 2 ^ (8 * n - 2)" by (metis take_bit_nat_less_exp unsigned_take_bit_eq)
  with n show ?thesis by simp
qed

lemma ReadVarint_bound: "ReadVarint buf = Inr (v, n) \<Longrightarrow> unat v < 2 ^ 62"
proof -
  assume r: "ReadVarint buf = Inr (v, n)"
  then have "(2 :: nat) ^ (8 * n - 2) \<le> 2 ^ 62"
    using ReadVarint_width [OF r] by (intro power_increasing) auto
  with ReadVarint_width [OF r] show ?thesis by linarith
qed

lemma unat_maxVarint: "unat maxVarint = 2 ^ 62 - 1"
  by (simp add: maxVarint_def)

lemma and_maxVarint: "v AND maxVarint = take_bit 62 v"
proof -
  have "maxVarint = mask 62" by (simp add: maxVarint_def mask_eq_exp_minus_1)
  then show ?thesis by (simp add: take_bit_eq_mask)
qed

text \<open>
  \<open>AppendVarint\<close> appends exactly \<open>VarintLen\<close> bytes and \<open>ReadVarint\<close> reads them back, whatever
  follows, as the low 62 bits of the value. Values up to \<open>maxVarint\<close> survive; larger ones are cut
  off silently, although \<open>ErrVarintOverflow\<close> is declared for them.
\<close>

theorem varint_roundtrip:
  "take (length buf) (AppendVarint buf v) = buf
   \<and> length (AppendVarint buf v) = length buf + VarintLen v
   \<and> ReadVarint (drop (length buf) (AppendVarint buf v) @ rest) = Inr (v AND maxVarint, VarintLen v)
   \<and> (v AND maxVarint = v \<longleftrightarrow> v \<le> maxVarint)"
proof (intro conjI)
  show "take (length buf) (AppendVarint buf v) = buf" "length (AppendVarint buf v) = length buf + VarintLen v"
    "ReadVarint (drop (length buf) (AppendVarint buf v) @ rest) = Inr (v AND maxVarint, VarintLen v)"
    by (simp_all add: AppendVarint_buf [of buf] Read_AppendVarint and_maxVarint)
  have "take_bit 62 v = v \<longleftrightarrow> unat v < 2 ^ 62"
    using take_bit_self [of v 62] by (metis take_bit_nat_less_exp unsigned_take_bit_eq)
  then show "v AND maxVarint = v \<longleftrightarrow> v \<le> maxVarint"
    unfolding and_maxVarint word_le_nat_alt unat_maxVarint by auto
qed

text \<open>
  What \<open>ReadVarint\<close> returns is in range: the value fits in the 62 bits of the format, the
  number of consumed bytes is one of the four lengths and within the buffer, and the shortest
  encoding of the value is no longer than the one that was read.
\<close>

theorem read_varint_bounds:
  assumes "ReadVarint buf = Inr (v, n)"
  shows "v \<le> maxVarint \<and> n \<in> {1, 2, 4, 8} \<and> n \<le> length buf \<and> VarintLen v \<le> n"
proof (intro conjI)
  show "v \<le> maxVarint" using ReadVarint_bound [OF assms] by (simp add: word_le_nat_alt unat_maxVarint)
  show "n \<in> {1, 2, 4, 8}" "n \<le> length buf" using ReadVarint_width [OF assms] ReadVarint_fits [OF assms] by auto
  show "VarintLen v \<le> n"
    using ReadVarint_width [OF assms] by (auto simp: VarintLen_def word_le_nat_alt)
qed

theorem read_varint_bounds_witness:
  "ReadVarint [0x40, 0x05, 0xFF] = Inr (5, 2) \<and> (2 :: nat) \<le> length [0x40, 0x05, 0xFF :: byte] \<and> VarintLen 5 \<le> 2"
proof -
  have r: "ReadVarint [0x40, 0x05, 0xFF] = Inr (5, 2)"
    by (simp add: ReadVarint_def low6_def Let_def)
  with read_varint_bounds [OF r] show ?thesis by blast
qed

lemma ParseTransportHeader_fits:
  "ParseTransportHeader buf = Inr (mt, totalLen, n) \<Longrightarrow> n \<le> length buf"
  by (auto simp: ParseTransportHeader_def split: sum.splits dest!: ReadVarint_fits)

lemma ParseRoomID_fits: "ParseRoomID buf = Inr (r, n) \<Longrightarrow> n \<le> length buf"
  by (auto simp: ParseRoomID_def Let_def split: sum.splits if_splits)

subsection \<open>Round trips\<close>

lemma unat_length: "n < 2 ^ 62 \<Longrightarrow> unat (of_nat n :: u64) = n"
  by (simp add: unat_of_nat take_bit_nat_eq_self)

lemma take_bit_length: "n < 2 ^ 62 \<Longrightarrow> take_bit 62 (of_nat n :: u64) = of_nat n"
  by (rule take_bit_self) (simp add: unat_length)

lemma Read_small [wire]: "unat v < 2 ^ 62 \<Longrightarrow> ReadVarint (AppendVarint [] v @ rest) = Inr (v, VarintLen v)"
  by (simp add: Read_AppendVarint take_bit_self)

lemma Parse_TransportHeader [wire]:
  assumes "unat mt < 2 ^ 62" "unat totalLen < 2 ^ 62"
  shows "ParseTransportHeader (AppendVarint (AppendVarint [] mt) totalLen @ rest) = Inr (mt, totalLen, VarintLen mt + VarintLen totalLen)"
  using assms
  by (simp add: ParseTransportHeader_def Read_small AppendVarint_buf [of "AppendVarint [] mt"])

lemma Parse_RoomID [wire]:
  assumes "length roomID < 2 ^ 62"
  shows "ParseRoomID (AppendVarint [] (of_nat (length roomID)) @ bytes_of_string roomID @ rest)
    = Inr (roomID, VarintLen (of_nat (length roomID)) + length roomID)"
  using assms
  by (simp add: ParseRoomID_def Read_small unat_length)

lemma Parse_RoomHeader [wire]:
  "unat t < 2 ^ 62 \<Longrightarrow> ParseRoomHeader (AppendVarint [] t @ rest) = Inr (t, VarintLen t)"
  by (simp add: ParseRoomHeader_def Read_small)

definition room_payload :: "string \<Rightarrow> RoomMsgType \<Rightarrow> byte list \<Rightarrow> byte list" where
  "room_payload roomID t app =
     AppendVarint [] (of_nat (length roomID)) @ bytes_of_string roomID @ AppendVarint [] t @ app"

lemma EncodeRoomMessage_payload:
  "EncodeRoomMessage roomID t app =
     AppendVarint (AppendVarint [] MsgTypeRoomMessage) (of_nat (length (room_payload roomID t app)))
     @ room_payload roomID t app"
  by (simp add: EncodeRoomMessage_def room_payload_def Let_def AppendVarint_buf [of "_ @ _"] add.assoc)

lemma Parse_room_payload:
  assumes "length roomID < 2 ^ 62" "unat t < 2 ^ 62"
  shows "ParseRoomID (room_payload roomID t app) = Inr (roomID, VarintLen (of_nat (length roomID)) + length roomID)"
    and "ParseRoomHeader (drop (VarintLen (of_nat (length roomID)) + length roomID) (room_payload roomID t app))
      = Inr (t, VarintLen t)"
    and "drop (VarintLen (of_nat (length roomID)) + length roomID + VarintLen t) (room_payload roomID t app) = app"
  using assms
  by (simp_all add: room_payload_def Parse_RoomID  Parse_RoomHeader add.assoc)

end
