(* ===== verification/Room.thy ===== *)
theory Room
  imports Pubsub Transport_Protocol App_Protocol
begin

text \<open>
  Rooms of \<open>withered\<close>: \<open>server/domain/room.go\<close>, \<open>broadcaster.go\<close>, \<open>simple_room_manager.go\<close> and the
  interface of applications, \<open>application.go\<close>. An \<open>Application\<close> value is a record of its methods
  over a state \<open>'a\<close>. The registry is a Go map, and every \<open>Broadcast\<close> visits it in an order of
  Go's choice: the orders are arguments. Logging is left out.
\<close>

record 'a Application =
  app_HandleMessage :: "'a \<Rightarrow> SessionID \<Rightarrow> byte list \<Rightarrow> 'a \<times> AppProtocolError option"
  app_Tick :: "'a \<Rightarrow> 'a \<times> (AppProtocolError + byte list option)"
  app_OnJoin :: "'a \<Rightarrow> SessionID \<Rightarrow> 'a"
  app_OnLeave :: "'a \<Rightarrow> SessionID \<Rightarrow> 'a"

subsection \<open>Room identifiers and the room manager\<close>

type_synonym RoomID = "byte list"

definition RoomID_IsEmpty :: "RoomID \<Rightarrow> bool" where
  "RoomID_IsEmpty i \<longleftrightarrow> i = replicate 16 0"

definition RoomID_String :: "RoomID \<Rightarrow> string" where
  "RoomID_String i = concat (map (\<lambda>b. hex_byte (unat b)) i)"

record SimpleRoomManager = srm_default :: RoomID

definition NewSimpleRoomManager :: "RoomID \<Rightarrow> SimpleRoomManager" where
  "NewSimpleRoomManager i = \<lparr>srm_default = i\<rparr>"

definition GetRoom :: "SimpleRoomManager \<Rightarrow> SessionID \<Rightarrow> RoomID" where
  "GetRoom m sid = srm_default m"

subsection \<open>Broadcasting\<close>

fun br_Broadcast :: "(nat \<Rightarrow> bool) \<Rightarrow> SessionID list \<Rightarrow> byte list \<Rightarrow> SimplePubSub \<Rightarrow> SimplePubSub option" where
  "br_Broadcast stop [] data p = Some p"
| "br_Broadcast stop (sid # order) data p =
     do {
       p \<leftarrow> Publish stop (''session:'' @ sid) \<lparr>msg_SessionID = '''', msg_Data = data\<rparr> p;
       br_Broadcast stop order data p
     }"

definition br_SendTo :: "(nat \<Rightarrow> bool) \<Rightarrow> SessionID \<Rightarrow> byte list \<Rightarrow> SimplePubSub \<Rightarrow> SimplePubSub option" where
  "br_SendTo stop sid data p = Publish stop (''session:'' @ sid) \<lparr>msg_SessionID = '''', msg_Data = data\<rparr> p"

subsection \<open>Rooms\<close>

datatype roomSendKind = roomSendUnknown | roomSendBroadcast | roomSendTo

record roomSend =
  rs_kind :: roomSendKind
  rs_sessionID :: SessionID
  rs_data :: "byte list"

record 'a Room =
  rm_ID :: RoomID
  rm_registry :: LocalSessionRegistry
  rm_app :: 'a
  rm_sendCh :: "roomSend list"

datatype RoomError = ErrRoomBusy

definition NewRoom :: "RoomID \<Rightarrow> LocalSessionRegistry \<Rightarrow> 'a \<Rightarrow> 'a Room" where
  "NewRoom i registry app = \<lparr>rm_ID = i, rm_registry = registry, rm_app = app, rm_sendCh = []\<rparr>"

text \<open>\<open>stop\<close>: the select took the case of a cancelled context.\<close>

definition enqueueSend :: "bool \<Rightarrow> roomSend \<Rightarrow> 'a Room \<Rightarrow> 'a Room \<times> RoomError option" where
  "enqueueSend stop msg r =
     (if stop then (r, None)
      else if length (rm_sendCh r) < 1024 then (r\<lparr>rm_sendCh := rm_sendCh r @ [msg]\<rparr>, None)
      else (r, Some ErrRoomBusy))"

definition EnqueueBroadcast :: "bool \<Rightarrow> byte list \<Rightarrow> 'a Room \<Rightarrow> 'a Room \<times> RoomError option" where
  "EnqueueBroadcast stop data r =
     enqueueSend stop \<lparr>rs_kind = roomSendBroadcast, rs_sessionID = '''', rs_data = data\<rparr> r"

definition EnqueueSendTo :: "bool \<Rightarrow> SessionID \<Rightarrow> byte list \<Rightarrow> 'a Room \<Rightarrow> 'a Room \<times> RoomError option" where
  "EnqueueSendTo stop sid data r =
     enqueueSend stop \<lparr>rs_kind = roomSendTo, rs_sessionID = sid, rs_data = data\<rparr> r"

definition room_HandleMessage :: "'a Application \<Rightarrow> Message \<Rightarrow> 'a Room \<Rightarrow> 'a Room" where
  "room_HandleMessage app msg r =
     (case ParseRoomID (msg_Data msg) of
        Inl _ \<Rightarrow> r
      | Inr (_, n1) \<Rightarrow>
          (case ParseRoomHeader (drop n1 (msg_Data msg)) of
             Inl _ \<Rightarrow> r
           | Inr (roomMsgType, n2) \<Rightarrow>
               if roomMsgType = RoomMsgTypeJoin then
                 r\<lparr>rm_registry := reg_Add (msg_SessionID msg) (rm_registry r),
                   rm_app := app_OnJoin app (rm_app r) (msg_SessionID msg)\<rparr>
               else if roomMsgType = RoomMsgTypeLeave then
                 r\<lparr>rm_registry := reg_Remove (msg_SessionID msg) (rm_registry r),
                   rm_app := app_OnLeave app (rm_app r) (msg_SessionID msg)\<rparr>
               else if roomMsgType = RoomMsgTypeAppData then
                 (let appPayload = drop (n1 + n2) (msg_Data msg)
                  in r\<lparr>rm_app := fst (app_HandleMessage app (rm_app r) (msg_SessionID msg) appPayload)\<rparr>)
               else r))"

definition handleSendMessage ::
  "(nat \<Rightarrow> bool) \<Rightarrow> SessionID list \<Rightarrow> roomSend \<Rightarrow> SimplePubSub \<Rightarrow> SimplePubSub option" where
  "handleSendMessage stop order msg p =
     (case rs_kind msg of
        roomSendBroadcast \<Rightarrow> br_Broadcast stop order (rs_data msg) p
      | roomSendTo \<Rightarrow> br_SendTo stop (rs_sessionID msg) (rs_data msg) p
      | roomSendUnknown \<Rightarrow> Some p)"

text \<open>
  The receive loop of a tick. On a closed channel it would receive zero messages for ever:
  \<open>None\<close>.
\<close>

partial_function (option) receive_loop ::
  "'a Application \<Rightarrow> nat \<Rightarrow> SimplePubSub \<Rightarrow> 'a Room \<Rightarrow> (SimplePubSub \<times> 'a Room) option" where
  "receive_loop app msgCh p r =
     (case try_recv msgCh p of
        None \<Rightarrow> Some (p, r)
      | Some (p', msg, _) \<Rightarrow> receive_loop app msgCh p' (room_HandleMessage app msg r))"

text \<open>The send loop; \<open>orders n\<close> is the order in which the \<open>n\<close>-th broadcast of the tick visits the registry.\<close>

fun send_loop ::
  "(nat \<Rightarrow> bool) \<Rightarrow> (nat \<Rightarrow> SessionID list) \<Rightarrow> nat \<Rightarrow> roomSend list \<Rightarrow> SimplePubSub \<Rightarrow> (SimplePubSub \<times> nat) option" where
  "send_loop stop orders n [] p = Some (p, n)"
| "send_loop stop orders n (msg # msgs) p =
     do { p \<leftarrow> handleSendMessage stop (orders n) msg p; send_loop stop orders (Suc n) msgs p }"

definition room_tick ::
  "'a Application \<Rightarrow> (nat \<Rightarrow> bool) \<Rightarrow> (nat \<Rightarrow> SessionID list) \<Rightarrow> nat \<Rightarrow> SimplePubSub \<Rightarrow> 'a Room
     \<Rightarrow> (SimplePubSub \<times> 'a Room) option" where
  "room_tick app stop orders msgCh p r =
     do {
       (p, r) \<leftarrow> receive_loop app msgCh p r;
       (p, n) \<leftarrow> send_loop stop orders 0 (rm_sendCh r) p;
       let r = r\<lparr>rm_sendCh := []\<rparr>;
       let (a, res) = app_Tick app (rm_app r);
       let r = r\<lparr>rm_app := a\<rparr>;
       case res of
         Inl _ \<Rightarrow> Some (p, r)
       | Inr None \<Rightarrow> Some (p, r)
       | Inr (Some data) \<Rightarrow> do { p \<leftarrow> br_Broadcast stop (orders n) data p; Some (p, r) }
     }"

definition room_start :: "nat \<Rightarrow> 'a Room \<Rightarrow> SimplePubSub \<Rightarrow> SimplePubSub \<times> nat" where
  "room_start grow r p = ps_Subscribe grow (''room:'' @ RoomID_String (rm_ID r)) p"

definition room_stop :: "'a Room \<Rightarrow> nat \<Rightarrow> SimplePubSub \<Rightarrow> SimplePubSub option" where
  "room_stop r msgCh p = ps_Unsubscribe (''room:'' @ RoomID_String (rm_ID r)) msgCh p"

subsection \<open>The echo application\<close>

text \<open>
  \<open>echo_application.go\<close>: the data received last is sent back at the next tick. The type has
  no \<open>OnJoin\<close> and no \<open>OnLeave\<close>, so it does not implement the interface; \<open>echo_app\<close> adds
  methods that do nothing.
\<close>

type_synonym EchoApplication = "byte list option"

definition echo_HandleMessage :: "EchoApplication \<Rightarrow> SessionID \<Rightarrow> byte list \<Rightarrow> EchoApplication \<times> AppProtocolError option" where
  "echo_HandleMessage e sid data = (Some data, None)"

definition echo_Tick :: "EchoApplication \<Rightarrow> EchoApplication \<times> (AppProtocolError + byte list option)" where
  "echo_Tick e = (case e of None \<Rightarrow> (e, Inr None) | Some data \<Rightarrow> (None, Inr (Some data)))"

definition echo_app :: "EchoApplication Application" where
  "echo_app = \<lparr>app_HandleMessage = echo_HandleMessage, app_Tick = echo_Tick, app_OnJoin = (\<lambda>e _. e), app_OnLeave = (\<lambda>e _. e)\<rparr>"

subsection \<open>Broadcasts\<close>

abbreviation session_topic :: "SessionID \<Rightarrow> Topic" where
  "session_topic sid \<equiv> ''session:'' @ sid"

definition session_channels :: "SimplePubSub \<Rightarrow> SessionID list \<Rightarrow> nat list" where
  "session_channels p order = concat (map (\<lambda>sid. subscribers p (session_topic sid)) order)"

lemma br_Broadcast_ok:
  assumes "ps_wf p" "distinct order"
  shows "\<exists>p'. br_Broadcast (\<lambda>_. False) order data p = Some p' \<and> ps_wf p' \<and> ps_subs p' = ps_subs p
    \<and> ps_chans p' = delivered \<lparr>msg_SessionID = '''', msg_Data = data\<rparr> (session_channels p order) (ps_chans p)"
  using assms
proof (induction order arbitrary: p)
  case Nil
  then show ?case by (simp add: session_channels_def delivered_Nil)
next
  case (Cons sid order)
  let ?m = "\<lparr>msg_SessionID = '''', msg_Data = data\<rparr>"
  obtain p1 where p1: "Publish (\<lambda>_. False) (session_topic sid) ?m p = Some p1" "ps_wf p1" "ps_subs p1 = ps_subs p"
    "ps_chans p1 = delivered ?m (subscribers p (session_topic sid)) (ps_chans p)"
    using Publish_ok [OF Cons.prems(1)] by blast
  obtain p2 where p2: "br_Broadcast (\<lambda>_. False) order data p1 = Some p2" "ps_wf p2" "ps_subs p2 = ps_subs p1"
    "ps_chans p2 = delivered ?m (session_channels p1 order) (ps_chans p1)"
    using Cons.IH [OF p1(2)] Cons.prems(2) by auto
  have "set (subscribers p (session_topic sid)) \<inter> set (session_channels p order) = {}"
    using Cons.prems ps_wfD(3) [OF Cons.prems(1)] by (fastforce simp: session_channels_def)
  moreover have "session_channels p1 order = session_channels p order" by (simp add: session_channels_def p1(3))
  ultimately show ?case using p1 p2 by (simp add: session_channels_def delivered_append)
qed

lemma handleSendMessage_ok:
  assumes "ps_wf p" "distinct order"
  shows "\<exists>p'. handleSendMessage (\<lambda>_. False) order msg p = Some p' \<and> ps_wf p' \<and> ps_subs p' = ps_subs p"
  using br_Broadcast_ok [OF assms, of "rs_data msg"] assms(1)
    Publish_ok [OF assms(1), of "session_topic (rs_sessionID msg)" "\<lparr>msg_SessionID = '''', msg_Data = rs_data msg\<rparr>"]
  by (cases "rs_kind msg") (auto simp: handleSendMessage_def br_SendTo_def)

lemma send_loop_ok:
  assumes "ps_wf p" "\<And>n. distinct (orders n)"
  shows "\<exists>p'. send_loop (\<lambda>_. False) orders n msgs p = Some (p', n + length msgs) \<and> ps_wf p' \<and> ps_subs p' = ps_subs p"
  using assms
proof (induction msgs arbitrary: n p)
  case (Cons msg msgs)
  obtain p1 where p1: "handleSendMessage (\<lambda>_. False) (orders n) msg p = Some p1" "ps_wf p1" "ps_subs p1 = ps_subs p"
    using handleSendMessage_ok [OF Cons.prems] by blast
  with Cons.IH [OF p1(2) Cons.prems(2), of "Suc n"] show ?case by auto
qed simp

subsection \<open>Messages and the contract of an application\<close>

text \<open>The cases of a message in a room.\<close>

lemma room_message_cases:
  obtains (ignored) "room_HandleMessage A msg r = r"
    | (joined) "room_HandleMessage A msg r = r\<lparr>rm_registry := insert (msg_SessionID msg) (rm_registry r),
        rm_app := app_OnJoin A (rm_app r) (msg_SessionID msg)\<rparr>"
    | (left) "room_HandleMessage A msg r = r\<lparr>rm_registry := rm_registry r - {msg_SessionID msg},
        rm_app := app_OnLeave A (rm_app r) (msg_SessionID msg)\<rparr>"
    | (data) d where "room_HandleMessage A msg r = r\<lparr>rm_app := fst (app_HandleMessage A (rm_app r) (msg_SessionID msg) d)\<rparr>"
proof (cases "ParseRoomID (msg_Data msg)")
  case Inl
  then show thesis by (intro ignored) (simp add: room_HandleMessage_def)
next
  case (Inr id)
  note parts = room_HandleMessage_def reg_Add_def reg_Remove_def Let_def
  show thesis
  proof (cases "ParseRoomHeader (drop (snd id) (msg_Data msg))")
    case Inl
    with \<open>ParseRoomID (msg_Data msg) = Inr id\<close> show thesis
      by (intro ignored) (simp add: room_HandleMessage_def split_def)
  next
    case (Inr hdr)
    note eq = \<open>ParseRoomID (msg_Data msg) = Inr id\<close> Inr
    consider "fst hdr = RoomMsgTypeJoin" | "fst hdr \<noteq> RoomMsgTypeJoin" "fst hdr = RoomMsgTypeLeave"
      | "fst hdr \<noteq> RoomMsgTypeJoin" "fst hdr \<noteq> RoomMsgTypeLeave" "fst hdr = RoomMsgTypeAppData"
      | "fst hdr \<noteq> RoomMsgTypeJoin" "fst hdr \<noteq> RoomMsgTypeLeave" "fst hdr \<noteq> RoomMsgTypeAppData" by blast
    then show thesis
    proof cases
      case 1
      with eq show thesis by (intro joined) (simp add: parts split_def)
    next
      case 2
      with eq show thesis by (intro left) (simp add: parts split_def)
    next
      case 3
      with eq show thesis by (intro data) (simp add: parts split_def)
    next
      case 4
      with eq show thesis by (intro ignored) (simp add: parts split_def)
    qed
  qed
qed

lemma messages_sendCh: "rm_sendCh (fold (room_HandleMessage A) msgs r) = rm_sendCh r"
proof (induction msgs arbitrary: r)
  case (Cons m msgs)
  have "rm_sendCh (room_HandleMessage A m r) = rm_sendCh r" by (cases rule: room_message_cases [of A m r]) simp_all
  with Cons show ?case by simp
qed simp

text \<open>
  What a room may rely on: \<open>ok k a\<close> says that the application is in a good state and can take
  \<open>k\<close> more messages; the application keeps the set \<open>sessions a\<close> of those that joined and have not
  left. The registry of the room is then always this set.
\<close>

locale application =
  fixes A :: "'a Application" and ok :: "nat \<Rightarrow> 'a \<Rightarrow> bool" and sessions :: "'a \<Rightarrow> SessionID set"
  assumes join_ok: "ok (Suc k) a \<Longrightarrow> ok k (app_OnJoin A a s) \<and> sessions (app_OnJoin A a s) = insert s (sessions a)"
    and leave_ok: "ok (Suc k) a \<Longrightarrow> ok k (app_OnLeave A a s) \<and> sessions (app_OnLeave A a s) = sessions a - {s}"
    and message_ok: "ok (Suc k) a \<Longrightarrow> ok k (fst (app_HandleMessage A a s d))
      \<and> sessions (fst (app_HandleMessage A a s d)) = sessions a"
    and fewer_ok: "ok (Suc k) a \<Longrightarrow> ok k a"
begin

definition in_step :: "nat \<Rightarrow> 'a Room \<Rightarrow> bool" where
  "in_step k r \<longleftrightarrow> ok k (rm_app r) \<and> rm_registry r = sessions (rm_app r)"

lemma message_keeps:
  assumes "in_step (Suc k) r"
  shows "in_step k (room_HandleMessage A m r)"
proof -
  let ?s = "msg_SessionID m"
  have ok: "ok (Suc k) (rm_app r)" and reg: "rm_registry r = sessions (rm_app r)"
    using assms by (simp_all add: in_step_def)
  note laws = join_ok [OF ok, of ?s] leave_ok [OF ok, of ?s] message_ok [OF ok, of ?s] fewer_ok [OF ok]
  show ?thesis by (cases rule: room_message_cases [of A m r]) (simp_all add: in_step_def reg laws)
qed

lemma messages_keep: "in_step (length msgs) r \<Longrightarrow> in_step 0 (fold (room_HandleMessage A) msgs r)"
proof (induction msgs arbitrary: r)
  case (Cons m msgs)
  then show ?case using message_keeps [of "length msgs" r m] by simp
qed simp

end

subsection \<open>The receive loop\<close>

lemma receive_loop_ok:
  assumes "ps_chans p ch = Some c" "\<not> ch_closed c"
  shows "receive_loop app ch p r
    = Some (p\<lparr>ps_chans := (ps_chans p)(ch \<mapsto> c\<lparr>ch_buf := []\<rparr>)\<rparr>, fold (room_HandleMessage app) (ch_buf c) r)"
  using assms
proof (induction "ch_buf c" arbitrary: p c r)
  case Nil
  then have "p\<lparr>ps_chans := (ps_chans p)(ch \<mapsto> c\<lparr>ch_buf := []\<rparr>)\<rparr> = p" by (auto simp: fun_upd_idem)
  then show ?case using Nil by (subst receive_loop.simps) (simp add: try_recv_def)
next
  case (Cons m ms)
  let ?c = "c\<lparr>ch_buf := ms\<rparr>"
  let ?p = "p\<lparr>ps_chans := (ps_chans p)(ch \<mapsto> ?c)\<rparr>"
  have "receive_loop app ch p r = receive_loop app ch ?p (room_HandleMessage app m r)"
    using Cons.prems Cons.hyps(2) [symmetric] by (subst receive_loop.simps) (simp add: try_recv_def)
  then show ?case using Cons.hyps(1) [of ?c ?p] Cons.hyps(2) [symmetric] Cons.prems by simp
qed

lemma room_tick_ok:
  assumes wf: "ps_wf p" and ch: "ps_chans p msgCh = Some c" "\<not> ch_closed c"
    and order: "\<And>n. reg_List (rm_registry (fold (room_HandleMessage app) (ch_buf c) r)) (orders n)"
    and tick: "app_Tick app (rm_app (fold (room_HandleMessage app) (ch_buf c) r)) = (a, res)"
  shows "\<exists>p' r'. room_tick app (\<lambda>_. False) orders msgCh p r = Some (p', r')
    \<and> ps_wf p' \<and> ps_subs p' = ps_subs p
    \<and> r' = (fold (room_HandleMessage app) (ch_buf c) r)\<lparr>rm_sendCh := [], rm_app := a\<rparr>
    \<and> (rm_sendCh (fold (room_HandleMessage app) (ch_buf c) r) = [] \<longrightarrow>
         ps_chans p' = (case res of
             Inr (Some data) \<Rightarrow> delivered \<lparr>msg_SessionID = '''', msg_Data = data\<rparr> (session_channels p (orders 0))
                                  ((ps_chans p)(msgCh \<mapsto> c\<lparr>ch_buf := []\<rparr>))
           | _ \<Rightarrow> (ps_chans p)(msgCh \<mapsto> c\<lparr>ch_buf := []\<rparr>)))"
proof -
  define r1 where "r1 = fold (room_HandleMessage app) (ch_buf c) r"
  define p1 where "p1 = p\<lparr>ps_chans := (ps_chans p)(msgCh \<mapsto> c\<lparr>ch_buf := []\<rparr>)\<rparr>"
  have p1: "ps_wf p1" "ps_subs p1 = ps_subs p" using ps_wf_buf [OF wf ch(1)] by (simp_all add: p1_def)
  have d: "distinct (orders n)" for n using order by (simp add: reg_List_def)
  obtain p2 where p2: "send_loop (\<lambda>_. False) orders 0 (rm_sendCh r1) p1 = Some (p2, length (rm_sendCh r1))" "ps_wf p2"
    "ps_subs p2 = ps_subs p1" using send_loop_ok [where orders = orders, OF p1(1) d, where n = 0 and msgs = "rm_sendCh r1"] by auto
  obtain p3 where p3: "br_Broadcast (\<lambda>_. False) (orders (length (rm_sendCh r1))) data p2 = Some (p3 data)" "ps_wf (p3 data)"
    "ps_subs (p3 data) = ps_subs p2"
    "ps_chans (p3 data) = delivered \<lparr>msg_SessionID = '''', msg_Data = data\<rparr>
       (session_channels p2 (orders (length (rm_sendCh r1)))) (ps_chans p2)" for data
    using br_Broadcast_ok [OF p2(2) d] by metis
  have idle: "rm_sendCh r1 = [] \<Longrightarrow> p2 = p1" using p2(1) by simp
  have chans: "session_channels p2 = session_channels p" by (simp add: fun_eq_iff session_channels_def p2(3) p1(2))
  have loop: "receive_loop app msgCh p r = Some (p1, r1)" using receive_loop_ok [OF ch] by (simp add: p1_def r1_def)
  show ?thesis
    using loop p1 p2 p3 chans idle tick
    by (cases res) (auto simp: room_tick_def r1_def [symmetric] p1_def split: option.splits)
qed

text \<open>
  A tick of a room always comes to an end while its channel is open and nobody leaves in
  between. It handles the messages that were waiting, in their order, runs the application
  once, and delivers the data the application returns to the channels of exactly the sessions
  that are registered then; the subscriptions stay as they are.
\<close>

theorem room_tick_delivers:
  assumes wf: "ps_wf p" and ch: "ps_chans p msgCh = Some c" "\<not> ch_closed c"
    and order: "\<And>n. reg_List (rm_registry (fold (room_HandleMessage app) (ch_buf c) r)) (orders n)"
    and tick: "app_Tick app (rm_app (fold (room_HandleMessage app) (ch_buf c) r)) = (a, res)"
  shows "\<exists>p' r'. room_tick app (\<lambda>_. False) orders msgCh p r = Some (p', r')
    \<and> ps_wf p' \<and> ps_subs p' = ps_subs p
    \<and> r' = (fold (room_HandleMessage app) (ch_buf c) r)\<lparr>rm_sendCh := [], rm_app := a\<rparr>
    \<and> (rm_sendCh (fold (room_HandleMessage app) (ch_buf c) r) = [] \<longrightarrow>
         ps_chans p' = (case res of
             Inr (Some data) \<Rightarrow> delivered \<lparr>msg_SessionID = '''', msg_Data = data\<rparr> (session_channels p (orders 0))
                                  ((ps_chans p)(msgCh \<mapsto> c\<lparr>ch_buf := []\<rparr>))
           | _ \<Rightarrow> (ps_chans p)(msgCh \<mapsto> c\<lparr>ch_buf := []\<rparr>)))"
  by (rule room_tick_ok [OF assms])

lemma room_HandleMessage_payload:
  assumes "length roomID < 2 ^ 62"
  shows "room_HandleMessage app \<lparr>msg_SessionID = sid, msg_Data = room_payload roomID RoomMsgTypeJoin d\<rparr> r
      = r\<lparr>rm_registry := insert sid (rm_registry r), rm_app := app_OnJoin app (rm_app r) sid\<rparr>"
    "room_HandleMessage app \<lparr>msg_SessionID = sid, msg_Data = room_payload roomID RoomMsgTypeLeave d\<rparr> r
      = r\<lparr>rm_registry := rm_registry r - {sid}, rm_app := app_OnLeave app (rm_app r) sid\<rparr>"
    "room_HandleMessage app \<lparr>msg_SessionID = sid, msg_Data = room_payload roomID RoomMsgTypeAppData d\<rparr> r
      = r\<lparr>rm_app := fst (app_HandleMessage app (rm_app r) sid d)\<rparr>"
  using assms
  by (simp_all add: room_HandleMessage_def Parse_room_payload msg_types reg_Add_def reg_Remove_def)

text \<open>A room with one waiting message, and a client that has subscribed.\<close>

lemma ex_channels:
  obtains p where "ps_wf p" "ps_chans p 0 = Some \<lparr>ch_buf = [m], ch_closed = False\<rparr>"
    "ps_chans p 1 = Some \<lparr>ch_buf = [], ch_closed = False\<rparr>" "subscribers p ''session:s'' = [1]"
proof -
  obtain q where q: "ps_Subscribe 0 ''room:r'' NewSimplePubSub = (q, 0)"
    by (simp add: ps_Subscribe_def NewSimplePubSub_def)
  have wq: "ps_wf q" "ps_chans q 0 = Some \<lparr>ch_buf = [], ch_closed = False\<rparr>" "subscribers q ''session:s'' = []"
    "ps_chans q 1 = None"
    using ps_Subscribe_wf [OF ps_wf_New q] by (auto simp: NewSimplePubSub_def subs_of_def no_slices_def)
  obtain p0 where p0: "ps_Subscribe 0 ''session:s'' q = (p0, 1)"
    using q by (auto simp: ps_Subscribe_def NewSimplePubSub_def)
  let ?c = "\<lparr>ch_buf = [m], ch_closed = False\<rparr>"
  let ?p = "p0\<lparr>ps_chans := (ps_chans p0)(0 \<mapsto> ?c)\<rparr>"
  have w0: "ps_wf p0" "ps_chans p0 0 = Some \<lparr>ch_buf = [], ch_closed = False\<rparr>"
    "ps_chans p0 1 = Some \<lparr>ch_buf = [], ch_closed = False\<rparr>" "subscribers p0 ''session:s'' = [1]"
    using ps_Subscribe_wf [OF wq(1) p0] wq by auto
  have "ps_wf ?p" using ps_wf_buf [OF w0(1,2), of "[m]"] by (simp add: DefaultChannelBuffer_def)
  then show thesis using w0 by (intro that [of ?p]) simp_all
qed

theorem room_tick_delivers_witness:
  "\<exists>p. ps_wf p \<and> (\<exists>p' r'. room_tick echo_app (\<lambda>_. False) (\<lambda>_. [''s'']) 0 p
        (NewRoom (replicate 16 0) {''s''} None) = Some (p', r') \<and> rm_registry r' = {''s''}
      \<and> ps_chans p' 1 = Some \<lparr>ch_buf = [\<lparr>msg_SessionID = '''', msg_Data = [7, 8]\<rparr>], ch_closed = False\<rparr>)"
proof -
  let ?m = "\<lparr>msg_SessionID = ''s'', msg_Data = room_payload ''r'' RoomMsgTypeAppData [7, 8]\<rparr>"
  let ?c = "\<lparr>ch_buf = [?m], ch_closed = False\<rparr>"
  obtain p where p: "ps_wf p" "ps_chans p 0 = Some ?c" "ps_chans p 1 = Some \<lparr>ch_buf = [], ch_closed = False\<rparr>"
    "subscribers p ''session:s'' = [1]" by (rule ex_channels)
  let ?r = "NewRoom (replicate 16 0) {''s''} None :: EchoApplication Room"
  have f: "fold (room_HandleMessage echo_app) (ch_buf ?c) ?r = ?r\<lparr>rm_app := Some [7, 8]\<rparr>"
    by (simp add: room_HandleMessage_payload echo_app_def echo_HandleMessage_def)
  have "\<exists>p' r'. room_tick echo_app (\<lambda>_. False) (\<lambda>_. [''s'']) 0 p ?r = Some (p', r')
      \<and> r' = (?r\<lparr>rm_app := Some [7, 8]\<rparr>)\<lparr>rm_sendCh := [], rm_app := None\<rparr>
      \<and> ps_chans p' = delivered \<lparr>msg_SessionID = '''', msg_Data = [7, 8]\<rparr> (session_channels p [''s''])
          ((ps_chans p)(0 \<mapsto> ?c\<lparr>ch_buf := []\<rparr>))"
    using room_tick_delivers [OF p(1), of 0 ?c echo_app ?r "\<lambda>_. [''s'']" None "Inr (Some [7, 8])", unfolded f]
    by (auto simp: p(2) reg_List_def NewRoom_def echo_app_def echo_Tick_def)
  moreover have "session_channels p [''s''] = [1]" using p(4) by (simp add: session_channels_def)
  ultimately show ?thesis
    using p(1,3) by (intro exI [of _ p]) (auto simp: delivered_def DefaultChannelBuffer_def NewRoom_def)
qed

end
