(* ===== verification/Game.thy ===== *)
theory Game
  imports Codec Room
begin

unbundle bit_operations_syntax

text \<open>
  The application of \<open>withered\<close>, \<open>withered_application.go\<close>: the scheduler with the systems of the
  game, players that join and leave, the messages of the clients and the tick that a room calls.
  \<open>withered_app\<close> is the application as the interface the rooms use.
\<close>

record WitheredApplication =
  wa_world :: ShootingWorld
  wa_scheduler :: "ShootingWorld Scheduler"

text \<open>The result is \<open>None\<close> where the code panics.\<close>

definition NewWitheredApplication :: "(nat \<Rightarrow> EntityID list) \<Rightarrow> (nat \<Rightarrow> float32) \<Rightarrow> WitheredApplication option" where
  "NewWitheredApplication orders rands =
     do {
       gameMap \<leftarrow> NewMap 100 100 (f32_ratio 10 10);
       let static = NewField gameMap;
       let phases = [PhaseSimulation, PhaseNetwork];
       res \<leftarrow> NewScheduler phases
         [RespawnSystem, InputMoveSystem, AutoShootSystem, BulletMoveSystem, CollisionDamageSystem,
          BulletCleanupSystem, EncodeBroadcastSystem];
       case res of
         Inl _ \<Rightarrow> None
       | Inr scheduler \<Rightarrow> Some \<lparr>wa_world = NewShootingWorld static orders rands, wa_scheduler = scheduler\<rparr>
     }"

definition OnJoin :: "WitheredApplication \<Rightarrow> SessionID \<Rightarrow> WitheredApplication" where
  "OnJoin app sessionID = app\<lparr>wa_world := snd (SpawnActor sessionID TagPlayer (wa_world app))\<rparr>"

definition OnLeave :: "WitheredApplication \<Rightarrow> SessionID \<Rightarrow> WitheredApplication" where
  "OnLeave app sessionID =
     (case w_SessionToEntity (wa_world app) sessionID of
        None \<Rightarrow> app
      | Some entityID \<Rightarrow> app\<lparr>wa_world := RemoveEntity entityID (wa_world app)\<rparr>)"

definition game_Tick :: "WitheredApplication \<Rightarrow> WitheredApplication \<times> (AppProtocolError + byte list option)" where
  "game_Tick app =
     (let w = RunTick (wa_scheduler app) (wa_world app)
      in if card (w_Entities w) = 0 then (app\<lparr>wa_world := w\<rparr>, Inr None)
         else let (b, w) = EncodeSnapshot w in (app\<lparr>wa_world := w\<rparr>, Inr (Some b)))"

definition handleInput :: "WitheredApplication \<Rightarrow> SessionID \<Rightarrow> byte list \<Rightarrow> WitheredApplication \<times> AppProtocolError option" where
  "handleInput app sessionID data =
     (case ParseInputPayload data of
        Inl err \<Rightarrow> (app, Some err)
      | Inr input \<Rightarrow>
          (case w_SessionToEntity (wa_world app) sessionID of
            None \<Rightarrow> (app, None)
          | Some entityID \<Rightarrow>
              (app\<lparr>wa_world := (wa_world app)
                 \<lparr>w_PendingInputs := Push \<lparr>in_EntityID = entityID, in_KeyMask = KeyMask input\<rparr> (w_PendingInputs (wa_world app))\<rparr>\<rparr>,
               None)))"

definition handleActor2D :: "WitheredApplication \<Rightarrow> byte \<Rightarrow> byte list \<Rightarrow> WitheredApplication \<times> AppProtocolError option" where
  "handleActor2D app subType data =
     (if subType = ActorSubTypeSpawn then
        (case ParseActor2DSpawn data of Inl err \<Rightarrow> (app, Some err) | Inr _ \<Rightarrow> (app, None))
      else if subType = ActorSubTypeUpdate then
        (case ParseActor2DUpdate data of Inl err \<Rightarrow> (app, Some err) | Inr _ \<Rightarrow> (app, None))
      else (app, None))"

definition game_HandleMessage :: "WitheredApplication \<Rightarrow> SessionID \<Rightarrow> byte list \<Rightarrow> WitheredApplication \<times> AppProtocolError option" where
  "game_HandleMessage app sessionID data =
     (case ParsePayloadHeader data of
        Inl err \<Rightarrow> (app, Some err)
      | Inr h \<Rightarrow>
          let payload = drop PayloadHeaderSize data
          in if DataType h = DataTypeInput then handleInput app sessionID payload
             else if DataType h = DataTypeActor2D then handleActor2D app (SubType h) payload
             else (app, None))"

definition withered_app :: "WitheredApplication Application" where
  "withered_app = \<lparr>app_HandleMessage = game_HandleMessage, app_Tick = game_Tick, app_OnJoin = OnJoin, app_OnLeave = OnLeave\<rparr>"

subsection \<open>The order of the systems\<close>

lemmas systems = RespawnSystem_def InputMoveSystem_def AutoShootSystem_def BulletMoveSystem_def
  CollisionDamageSystem_def BulletCleanupSystem_def EncodeBroadcastSystem_def PhaseSimulation_def PhaseNetwork_def

abbreviation simulation_systems :: "ShootingWorld System list" where
  "simulation_systems \<equiv> [RespawnSystem, InputMoveSystem, AutoShootSystem, BulletMoveSystem,
     CollisionDamageSystem, BulletCleanupSystem]"

abbreviation initial_world :: "(nat \<Rightarrow> EntityID list) \<Rightarrow> (nat \<Rightarrow> float32) \<Rightarrow> ShootingWorld" where
  "initial_world \<equiv> NewShootingWorld \<lparr>st_Map = \<lparr>mp_Width = 100, mp_Height = 100, mp_TileSize = f32_ratio 10 10,
     mp_Tiles = replicate 10000 TileEmpty\<rparr>\<rparr>"

lemma topo_loop_eqs:
  "topo_loop dependents [] inDegree out = Some out"
  "topo_loop dependents (i # queue) inDegree out =
     (let (inDegree, queue) = relax (dependents i) inDegree queue in topo_loop dependents queue inDegree (out @ [i]))"
  by (subst topo_loop.simps; simp)+

lemma sort_simulation: "topologicalSort PhaseSimulation simulation_systems = Some (Inr simulation_systems)"
  by (simp add: topologicalSort_def systems in_phase_def topo_loop_eqs Let_def)

lemma sort_network: "topologicalSort PhaseNetwork [EncodeBroadcastSystem] = Some (Inr [EncodeBroadcastSystem])"
  by (simp add: topologicalSort_def systems in_phase_def topo_loop_eqs Let_def)

lemma register_game: "\<exists>ids. register_systems (simulation_systems @ [EncodeBroadcastSystem]) (\<lambda>_. []) Map.empty
   = Inr ((\<lambda>_. [])(PhaseSimulation := simulation_systems, PhaseNetwork := [EncodeBroadcastSystem]), ids)"
  by (simp add: systems fun_upd_twist)

lemma NewWitheredApplication_eq:
  "NewWitheredApplication orders rands = Some
     \<lparr>wa_world = initial_world orders rands,
      wa_scheduler = \<lparr>sch_order = (\<lambda>_. [])(PhaseSimulation := simulation_systems, PhaseNetwork := [EncodeBroadcastSystem]),
        sch_phases = [PhaseSimulation, PhaseNetwork]\<rparr>\<rparr>"
proof -
  have ne: "PhaseSimulation \<noteq> PhaseNetwork" by (simp add: PhaseSimulation_def PhaseNetwork_def)
  obtain ids where reg: "register_systems (simulation_systems @ [EncodeBroadcastSystem]) (\<lambda>_. []) Map.empty
   = Inr ((\<lambda>_. [])(PhaseSimulation := simulation_systems, PhaseNetwork := [EncodeBroadcastSystem]), ids)"
    using register_game by blast
  have "NewScheduler [PhaseSimulation, PhaseNetwork] (simulation_systems @ [EncodeBroadcastSystem])
    = Some (Inr \<lparr>sch_order = (\<lambda>_. [])(PhaseSimulation := simulation_systems, PhaseNetwork := [EncodeBroadcastSystem]),
        sch_phases = [PhaseSimulation, PhaseNetwork]\<rparr>)"
    unfolding NewScheduler_def reg using ne by (simp add: sort_simulation sort_network)
  then show ?thesis by (simp add: NewWitheredApplication_def NewMap_def NewField_def)
qed

text \<open>What one tick does with the world.\<close>

definition world_tick :: "ShootingWorld \<Rightarrow> ShootingWorld" where
  "world_tick w = cleanup_Run (collision_Run (bullet_Run (shoot_Run (input_Run (respawn_Run w)))))"

text \<open>
  The application is always constructed (the panic on a scheduler error cannot happen): the
  world starts empty on a field of 100 by 100, and every tick of the scheduler revives players,
  applies the inputs, shoots, moves the bullets, applies the damage and removes the bullets
  that have expired, in this order.
\<close>

theorem game_tick_order:
  "\<exists>app. NewWitheredApplication orders rands = Some app \<and> wa_world app = initial_world orders rands
     \<and> (\<forall>w. RunTick (wa_scheduler app) w = world_tick w)"
  unfolding NewWitheredApplication_eq by (simp add: RunTick_def world_tick_def systems)

end
