(* ===== verification/Game_Inv.thy ===== *)
theory Game_Inv
  imports World_View Game
begin

unbundle bit_operations_syntax

text \<open>
  The invariant of the game and its preservation by every system. \<open>player_ok\<close> and \<open>bullet_ok\<close>
  say which components an entity has and in which ranges their values are; \<open>world_inv lo\<close> adds
  the field, the identifiers and the sessions, with \<open>lo\<close> the least time to live of a bullet,
  which is 1 between ticks and 0 between the movement of the bullets and the clean-up.
\<close>

subsection \<open>Constants\<close>

lemma f32_consts:
  "f32_ratio 1 1 = 0x3F800000" "f32_ratio 10 10 = 0x3F800000" "f32_ratio 2 1 = 0x40000000" "f32_ratio 15 10 = 0x3FC00000"
  "f32_ratio 50 10 = 0x40A00000" "f32_of_int 100 = 0x42C80000" "f32_ratio 1 1000 = 0x3A83126F"
  by (simp_all add: f32_eval)

definition game_static :: Static where
  "game_static = \<lparr>st_Map = \<lparr>mp_Width = 100, mp_Height = 100, mp_TileSize = f32_ratio 10 10,
     mp_Tiles = replicate 10000 TileEmpty\<rparr>\<rparr>"

definition field_max :: float32 where "field_max = f32_of_int 100"

lemma game_size [simp]:
  "WorldWidth (st_Map game_static) = field_max" "WorldHeight (st_Map game_static) = field_max"
  unfolding WorldWidth_def WorldHeight_def game_static_def field_max_def f32_consts
  by (simp_all add: f32_consts) (simp_all add: f32_eval)

subsection \<open>Random positions\<close>

text \<open>\<open>rand.Float32\<close> returns a number of the half-open interval from 0 to 1.\<close>

definition rands_ok :: "(nat \<Rightarrow> float32) \<Rightarrow> bool" where
  "rands_ok r \<longleftrightarrow> (\<forall>n. f32_le 0 (r n) \<and> f32_lt (r n) (f32_ratio 1 1))"

lemma rands_ok_tl [simp]: "rands_ok r \<Longrightarrow> rands_ok (\<lambda>n. r (Suc n))" "rands_ok r \<Longrightarrow> rands_ok (\<lambda>n. r (Suc (Suc n)))"
  by (simp_all add: rands_ok_def)

lemma f32_zero [simp]: "f32_mag 0 = 0" "\<not> f32_sign 0" "f32_key 0 = 0" "\<not> is_nan 0" "is_finite 0"
  by (simp_all add: f32_eval)

lemma f32_le_0: "f32_le 0 x \<longleftrightarrow> \<not> is_nan x \<and> (f32_sign x \<longrightarrow> f32_mag x = 0)"
  by (auto simp: f32_le_def f32_key_def)

lemma f32_le_numeral: "f32_mag 0x3F800000 = 0x3F800000" "f32_mag 0x42B40000 = 0x42B40000" "f32_mag 0x40A00000 = 0x40A00000"
    "\<not> f32_sign 0x3F800000" "\<not> f32_sign 0x42B40000" "\<not> f32_sign 0x40A00000"
    "mag_val 0x3F800000 = 2 ^ 149" "mag_val 0x42B40000 + mag_val 0x40A00000 = mag_val 0x42BE0000" "is_finite 0x42B40000" "is_finite 0x40A00000"
  by (simp_all add: f32_mag_def f32_sign_def mag_val_def is_finite_def inf_mag_def)

text \<open>A random number times 90, and 5 more.\<close>

lemma random_scaled:
  assumes "f32_le 0 r" "f32_lt r (f32_ratio 1 1)"
  defines "m \<equiv> f32_mul r 0x42B40000"
  shows "is_finite m" "f32_mag m \<le> 0x42B40000" "f32_int m = int (mag_val (f32_mag m))"
proof -
  have r: "f32_sign r \<Longrightarrow> f32_mag r = 0" using assms(1) by (simp add: f32_le_0)
  have "f32_mag r \<le> 0x3F800000"
    using assms(2) r unfolding f32_lt_def f32_consts(1) f32_key_def
    by (cases "f32_sign r") (auto simp: f32_le_numeral)
  then have "mag_val (f32_mag r) \<le> 2 ^ 149" using mag_val_mono f32_le_numeral(7) by metis
  have fin: "is_finite r" using \<open>f32_mag r \<le> 0x3F800000\<close> by (simp add: is_finite_def inf_mag_def)
  have mag: "f32_mag m = round_mag (mag_val (f32_mag r) * mag_val 0x42B40000) (2 ^ 149)"
    unfolding m_def f32_mul_mag(1) [OF fin f32_le_numeral(9)] f32_le_numeral ..
  show le: "f32_mag m \<le> 0x42B40000"
    unfolding mag using \<open>mag_val (f32_mag r) \<le> 2 ^ 149\<close>
    by (intro round_mag_upper) (simp_all add: inf_mag_def mult.commute mult_le_mono)
  then show "is_finite m" by (simp add: is_finite_def inf_mag_def)
  have "round_mag 0 (2 ^ 149) \<le> 0" by (intro round_mag_upper) (simp_all add: inf_mag_def)
  then have "f32_sign m \<Longrightarrow> f32_mag m = 0"
    using r f32_mul_mag(2) [OF fin f32_le_numeral(9)] f32_le_numeral(5) mag by (auto simp: m_def)
  then show "f32_int m = int (mag_val (f32_mag m))" by (auto simp: f32_int_def)
qed

lemma random_coordinate:
  assumes "f32_le 0 r" "f32_lt r (f32_ratio 1 1)"
  shows "f32_le (f32_ratio 5 1) (f32_add (f32_ratio 5 1) (f32_mul r (f32_ratio 90 1)))"
    "f32_le (f32_add (f32_ratio 5 1) (f32_mul r (f32_ratio 90 1))) (f32_ratio 95 1)"
proof -
  define m where "m = f32_mul r 0x42B40000"
  note m = random_scaled [OF assms, folded m_def]
  have c: "f32_ratio 5 1 = 0x40A00000" "f32_ratio 90 1 = 0x42B40000" "f32_ratio 95 1 = 0x42BE0000"
    by (simp_all add: f32_eval)
  have int5: "f32_int 0x40A00000 = int (mag_val 0x40A00000)" by (simp add: f32_int_def f32_le_numeral)
  define s where "s = mag_val 0x40A00000 + mag_val (f32_mag m)"
  have "mag_val (f32_mag m) \<le> mag_val 0x42B40000" using m(2) by (rule mag_val_mono)
  then have s: "mag_val 0x40A00000 \<le> s" "s \<le> mag_val 0x42BE0000" using f32_le_numeral(8) by (simp_all add: s_def)
  have res: "f32_mag (f32_add 0x40A00000 m) = round_mag s 1"
    using f32_add_mag [OF f32_le_numeral(10) m(1)] unfolding m(3) int5 s_def by (simp add: nat_add_distrib flip: of_nat_add)
  have "0 < mag_val 0x40A00000" by (simp add: mag_val_def)
  then have sg: "\<not> f32_sign (f32_add 0x40A00000 m)"
    using f32_le_numeral(10) m(1,3) int5 by (simp add: f32_add_def finite_cases Let_def flip: of_nat_add)
  have b: "0x40A00000 \<le> round_mag s 1" "round_mag s 1 \<le> 0x42BE0000"
    using s by (auto intro!: round_mag_lower round_mag_upper simp: inf_mag_def)
  show "f32_le (f32_ratio 5 1) (f32_add (f32_ratio 5 1) (f32_mul r (f32_ratio 90 1)))"
    unfolding c m_def [symmetric] using b res sg
    by (intro f32_le_nonneg) (simp_all add: f32_le_numeral inf_mag_def)
  show "f32_le (f32_add (f32_ratio 5 1) (f32_mul r (f32_ratio 90 1))) (f32_ratio 95 1)"
    unfolding c m_def [symmetric] using b res sg
    by (intro f32_le_nonneg) (simp_all add: f32_mag_def f32_sign_def inf_mag_def)
qed

definition in_box :: "float32 \<Rightarrow> float32 \<Rightarrow> WorldPosition \<Rightarrow> bool" where
  "in_box lo hi p \<longleftrightarrow> f32_le lo (pos_X p) \<and> f32_le (pos_X p) hi \<and> f32_le lo (pos_Y p) \<and> f32_le (pos_Y p) hi"

lemma random_position_box:
  assumes "w_Static w = game_static" "rands_ok (w_rands w)"
  shows "in_box (f32_ratio 5 1) (f32_ratio 95 1) (fst (randomPosition w))"
proof -
  have "f32_sub field_max (f32_mul spawnMargin (f32_ratio 2 1)) = f32_ratio 90 1" "spawnMargin = f32_ratio 5 1"
    by (simp_all add: field_max_def f32_consts spawnMargin_def) (simp_all add: f32_eval)
  then have "fst (randomPosition w) = \<lparr>pos_X = f32_add (f32_ratio 5 1) (f32_mul (w_rands w 0) (f32_ratio 90 1)),
      pos_Y = f32_add (f32_ratio 5 1) (f32_mul (w_rands w 1) (f32_ratio 90 1))\<rparr>"
    using assms(1) by (simp add: randomPosition_def rand_Float32_def Let_def)
  with assms(2) show ?thesis by (simp add: in_box_def random_coordinate rands_ok_def del: One_nat_def)
qed

text \<open>
  C36: Players appear inside the field with a margin of 5 on every side: whatever numbers of the
  interval from 0 (included) to 1 (excluded) the generator returns, and with the rounding of every
  floating-point operation taken into account, both coordinates of \<open>randomPosition\<close> lie between 5
  and 95 on the field of 100 by 100 of the game.
\<close>

theorem spawn_in_field:
  assumes "\<forall>n. f32_le 0 (w_rands w n) \<and> f32_lt (w_rands w n) (f32_ratio 1 1)"
    and "w_Static w = NewField m" and "NewMap 100 100 (f32_ratio 10 10) = Some m"
    and "randomPosition w = (p, w')"
  shows "f32_le (f32_ratio 5 1) (pos_X p) \<and> f32_le (pos_X p) (f32_ratio 95 1)
    \<and> f32_le (f32_ratio 5 1) (pos_Y p) \<and> f32_le (pos_Y p) (f32_ratio 95 1)"
proof -
  have "w_Static w = game_static" using assms(2,3) by (auto simp: NewMap_def NewField_def game_static_def)
  from random_position_box [OF this] assms(1,4) show ?thesis by (simp add: rands_ok_def in_box_def)
qed

theorem spawn_in_field_witness:
  "f32_le (f32_ratio 5 1) (pos_X (fst (randomPosition (initial_world (\<lambda>_. []) (\<lambda>_. 0x3F7FFFFF)))))
   \<and> f32_le (pos_X (fst (randomPosition (initial_world (\<lambda>_. []) (\<lambda>_. 0x3F7FFFFF))))) (f32_ratio 95 1)"
proof -
  let ?w = "initial_world (\<lambda>_. []) (\<lambda>_. 0x3F7FFFFF)"
  have "\<forall>n. f32_le 0 (w_rands ?w n) \<and> f32_lt (w_rands ?w n) (f32_ratio 1 1)"
    unfolding f32_consts by (simp add: NewShootingWorld_def f32_le_def f32_lt_def f32_key_def is_nan_def f32_mag_def f32_sign_def inf_mag_def)
  moreover have "NewMap 100 100 (f32_ratio 10 10) = Some (st_Map game_static)"
    by (simp add: NewMap_def game_static_def)
  moreover have "w_Static ?w = NewField (st_Map game_static)" by (simp add: NewShootingWorld_def NewField_def game_static_def)
  moreover have "randomPosition ?w = (fst (randomPosition ?w), snd (randomPosition ?w))" by simp
  ultimately show ?thesis using spawn_in_field by blast
qed

subsection \<open>The invariant\<close>

definition player_alive :: "entity \<Rightarrow> bool" where
  "player_alive e \<longleftrightarrow> en_LifeState e = Some \<lparr>ls_State = StateAlive\<rparr>
     \<and> (\<exists>hp \<in> {20, 40, 60, 80, 100}. en_Health e = Some \<lparr>HP = hp\<rparr>) \<and> en_Respawn e = None"

definition player_dead :: "entity \<Rightarrow> bool" where
  "player_dead e \<longleftrightarrow> en_LifeState e = Some \<lparr>ls_State = StateRespawning\<rparr> \<and> en_Health e = Some \<lparr>HP = 0\<rparr>
     \<and> (\<exists>t. en_Respawn e = Some t \<and> 1 \<le> t \<and> t \<le> RespawnTicks)"

definition player_ok :: "entity \<Rightarrow> bool" where
  "player_ok e \<longleftrightarrow> en_Tag e = Some TagPlayer \<and> (\<exists>p. en_Position e = Some p \<and> in_box 0 field_max p)
     \<and> en_Velocity e = None \<and> en_TTL e = None \<and> en_Owner e = None \<and> en_Session e \<noteq> None
     \<and> (\<exists>c. en_Cooldown e = Some c \<and> c \<le> ShootCooldown) \<and> (player_alive e \<or> player_dead e)"

definition bullet_ok :: "u16 \<Rightarrow> entity \<Rightarrow> bool" where
  "bullet_ok lo e \<longleftrightarrow> en_Tag e = Some TagBullet
     \<and> (\<exists>p. en_Position e = Some p \<and> \<not> is_nan (pos_X p) \<and> \<not> is_nan (pos_Y p))
     \<and> (\<exists>v. en_Velocity e = Some v \<and> is_finite (vel_X v) \<and> is_finite (vel_Y v))
     \<and> (\<exists>t. en_TTL e = Some t \<and> lo \<le> t \<and> t \<le> BulletTTL) \<and> en_Owner e \<noteq> None
     \<and> en_Health e = None \<and> en_LifeState e = None \<and> en_Cooldown e = None \<and> en_Respawn e = None \<and> en_Session e = None"

definition sessions_ok :: "ShootingWorld \<Rightarrow> bool" where
  "sessions_ok w \<longleftrightarrow> (\<forall>s i. w_SessionToEntity w s = Some i \<longrightarrow> w_EntityToSession w i = Some s)"

definition ids_ok :: "ShootingWorld \<Rightarrow> bool" where
  "ids_ok w \<longleftrightarrow> (\<forall>i \<in> w_Entities w. 0 < i \<and> i \<le> w_NextEntityID w)"

definition entities_ok :: "u16 \<Rightarrow> ShootingWorld \<Rightarrow> bool" where
  "entities_ok lo w \<longleftrightarrow> (\<forall>i. if i \<in> w_Entities w then player_ok (view w i) \<or> bullet_ok lo (view w i)
     else view w i = no_entity)"

definition world_inv :: "u16 \<Rightarrow> ShootingWorld \<Rightarrow> bool" where
  "world_inv lo w \<longleftrightarrow> w_Static w = game_static \<and> rands_ok (w_rands w) \<and> sessions_ok w \<and> ids_ok w \<and> entities_ok lo w"

definition players :: "ShootingWorld \<Rightarrow> EntityID set" where
  "players w = {i \<in> w_Entities w. w_Tag w i = Some TagPlayer}"

lemma tags_neq [simp]: "TagPlayer \<noteq> TagBullet" "TagBullet \<noteq> TagPlayer" "TagBullet \<noteq> TagBot" "TagPlayer \<noteq> 0" "TagBullet \<noteq> 0"
    "TagBot \<noteq> 0" "TagPlayer \<noteq> TagBot" "\<not> is_actor_tag TagBullet" "\<not> is_actor_tag 0" "is_actor_tag TagPlayer"
  by (simp_all add: TagPlayer_def TagBullet_def TagBot_def is_actor_tag_def)

lemma states [simp]: "StateAlive \<noteq> 0" "StateRespawning \<noteq> 0"
    "StateAlive AND StateRespawning = 0" "StateRespawning AND StateAlive = 0" "StateAlive \<noteq> StateRespawning"
    "StateRespawning \<noteq> StateAlive"
    "(StateRespawning AND - 16) OR StateAlive = StateAlive" "(StateAlive AND - 16) OR StateRespawning = StateRespawning"
  by (simp_all add: StateAlive_def StateRespawning_def)

lemma tag_of_bullet: "tag_of w i = TagBullet \<longleftrightarrow> w_Tag w i = Some TagBullet"
  by (auto simp: at_def split: option.splits)

lemma entity_cases:
  assumes "entities_ok lo w"
  obtains (absent) "i \<notin> w_Entities w" "view w i = no_entity"
    | (player) "i \<in> w_Entities w" "player_ok (view w i)"
    | (bullet) "i \<in> w_Entities w" "bullet_ok lo (view w i)"
  using assms unfolding entities_ok_def by metis

lemma actor_tag_player:
  assumes "entities_ok lo w"
  shows "is_actor_tag (tag_of w i) \<longleftrightarrow> i \<in> players w"
  using assms
  by (cases rule: entity_cases [of _ _ i])
     (auto simp: players_def at_def player_ok_def bullet_ok_def no_entity_def view_def)

lemma alive_player:
  assumes "entities_ok lo w" "has_state StateAlive w i"
  shows "i \<in> w_Entities w" "player_ok (view w i)" "player_alive (view w i)" "w_LifeState w i = Some \<lparr>ls_State = StateAlive\<rparr>"
  using assms
  by (cases rule: entity_cases [of _ _ i];
      auto simp: has_state_def player_ok_def bullet_ok_def no_entity_def view_def player_alive_def player_dead_def split: option.splits)+

end
