(* ===== verification/Game_Steps.thy ===== *)
theory Game_Steps
  imports Game_Inv
begin

unbundle bit_operations_syntax

text \<open>
  What each system of the game does to every entity, and that it keeps the invariant.
  \<open>respawn_rel\<close> and \<open>bullet_rel\<close> are the effects of the two systems that visit each entity on
  its own; they instantiate the contract \<open>entity_loop\<close>.
\<close>

definition frame :: "ShootingWorld \<Rightarrow> Static \<times> EntityID \<times> (SessionID \<rightharpoonup> EntityID) \<times> PendingInput" where
  "frame w = (w_Static w, w_NextEntityID w, w_SessionToEntity w, w_PendingInputs w)"

lemma frameD: "frame w' = frame w \<Longrightarrow> w_Static w' = w_Static w \<and> w_NextEntityID w' = w_NextEntityID w
    \<and> w_SessionToEntity w' = w_SessionToEntity w \<and> w_PendingInputs w' = w_PendingInputs w"
  by (simp add: frame_def)

text \<open>The invariant after a step that keeps the frame, the entities and their sessions.\<close>

lemma world_inv_frame:
  assumes inv: "world_inv lo w" and fr: "frame w' = frame w" "w_Entities w' = w_Entities w" "rands_ok (w_rands w')"
    and own: "\<And>i. i \<in> w_Entities w \<Longrightarrow> player_ok (view w i) \<or> bullet_ok lo (view w i) \<Longrightarrow>
        (player_ok (view w' i) \<or> bullet_ok lo' (view w' i)) \<and> en_Session (view w' i) = en_Session (view w i)"
    and other: "\<And>i. i \<notin> w_Entities w \<Longrightarrow> view w' i = view w i"
  shows "world_inv lo' w'"
proof -
  have e: "entities_ok lo w" using inv by (simp add: world_inv_def)
  then have ok: "i \<in> w_Entities w \<Longrightarrow> player_ok (view w i) \<or> bullet_ok lo (view w i)"
    "i \<notin> w_Entities w \<Longrightarrow> view w i = no_entity" for i by (auto simp: entities_ok_def dest: spec [of _ i])
  have ses: "w_EntityToSession w' i = w_EntityToSession w i" for i
  proof (cases "i \<in> w_Entities w")
    case True
    show ?thesis using own [OF True ok(1) [OF True]] by simp
  next
    case False
    show ?thesis using other [OF False] view_sel(10) by metis
  qed
  have "entities_ok lo' w'" using own ok other unfolding entities_ok_def fr(2) by auto
  moreover have "sessions_ok w'" using inv frameD [OF fr(1)] ses by (simp add: world_inv_def sessions_ok_def)
  moreover have "ids_ok w'" using inv frameD [OF fr(1)] fr(2) by (simp add: world_inv_def ids_ok_def)
  ultimately show ?thesis using inv frameD [OF fr(1)] fr(3) by (simp add: world_inv_def)
qed

subsection \<open>Respawn\<close>

definition respawn_rel :: "entity \<Rightarrow> entity \<Rightarrow> bool" where
  "respawn_rel e e' \<longleftrightarrow>
     (case en_LifeState e of
        None \<Rightarrow> e' = e
      | Some ls \<Rightarrow>
          if ls_State ls AND StateRespawning = 0 then e' = e
          else let t = (case en_Respawn e of None \<Rightarrow> 0 | Some t \<Rightarrow> t) - 1
               in if t \<le> 0 then \<exists>p. in_box (f32_ratio 5 1) (f32_ratio 95 1) p
                    \<and> e' = e\<lparr>en_Position := Some p, en_Health := Some \<lparr>HP = 100\<rparr>,
                        en_LifeState := Some \<lparr>ls_State = (ls_State ls AND NOT 0x0F) OR StateAlive\<rparr>, en_Respawn := None\<rparr>
                  else e' = e\<lparr>en_Respawn := Some t\<rparr>)"

definition respawn_keeps :: "Static \<times> EntityID \<times> (SessionID \<rightharpoonup> EntityID) \<times> PendingInput \<Rightarrow> ShootingWorld \<Rightarrow> bool" where
  "respawn_keeps F w \<longleftrightarrow> frame w = F \<and> fst F = game_static \<and> rands_ok (w_rands w)"

lemma respawn_entity_eq:
  "respawn_entity i w =
     (case w_LifeState w i of
        None \<Rightarrow> w
      | Some ls \<Rightarrow>
          if ls_State ls AND StateRespawning = 0 then w
          else let t = at (w_RespawnTimer w) 0 i - 1
               in if t \<le> 0 then
                    w\<lparr>w_Health := (w_Health w)(i \<mapsto> \<lparr>HP = 100\<rparr>),
                      w_LifeState := (w_LifeState w)(i \<mapsto> \<lparr>ls_State = (ls_State ls AND NOT 0x0F) OR StateAlive\<rparr>),
                      w_rands := \<lambda>n. w_rands w (Suc (Suc n)),
                      w_Position := (w_Position w)(i \<mapsto> fst (randomPosition w)),
                      w_RespawnTimer := (w_RespawnTimer w)(i := None)\<rparr>
                  else w\<lparr>w_RespawnTimer := (w_RespawnTimer w)(i \<mapsto> t)\<rparr>)"
  by (auto simp: respawn_entity_def randomPosition_def rand_Float32_def Let_def split: option.splits)

interpretation respawn: entity_loop respawn_entity "respawn_keeps F" respawn_rel for F
proof
  fix w :: ShootingWorld and i assume keeps: "respawn_keeps F w"
  have box: "in_box (f32_ratio 5 1) (f32_ratio 95 1) (fst (randomPosition w))"
    using keeps by (intro random_position_box) (auto simp: respawn_keeps_def frame_def)
  show "respawn_rel (view w i) (view (respawn_entity i w) i)"
  proof (cases "w_LifeState w i")
    case (Some ls)
    have t: "at (w_RespawnTimer w) 0 i = (case w_RespawnTimer w i of None \<Rightarrow> 0 | Some t \<Rightarrow> t)" by (simp add: at_def)
    show ?thesis
      unfolding respawn_rel_def respawn_entity_eq Some view_sel option.case Let_def t
      using box by (simp add: view_def)
  qed (simp add: respawn_rel_def respawn_entity_eq)
  show "j \<noteq> i \<Longrightarrow> view (respawn_entity i w) j = view w j" for j
    by (simp add: respawn_entity_eq view_def Let_def split: option.splits)
  show "w_Entities (respawn_entity i w) = w_Entities w"
    by (simp add: respawn_entity_eq Let_def split: option.splits)
  show "respawn_keeps F (respawn_entity i w)"
    using keeps by (simp add: respawn_keeps_def respawn_entity_eq frame_def Let_def split: option.splits)
  show "respawn_keeps F (w\<lparr>w_orders := f\<rparr>)" for f using keeps by (simp add: respawn_keeps_def frame_def)
qed

lemma box_mono: "in_box lo hi p \<Longrightarrow> f32_le lo' lo \<Longrightarrow> f32_le hi hi' \<Longrightarrow> in_box lo' hi' p"
  unfolding in_box_def using f32_le_trans by blast

lemma spawn_box: "in_box (f32_ratio 5 1) (f32_ratio 95 1) p \<Longrightarrow> in_box 0 field_max p"
  by (erule box_mono) (simp_all add: field_max_def f32_eval)

lemma respawn_player:
  assumes "player_ok e" "respawn_rel e e'"
  shows "player_ok e' \<and> en_Session e' = en_Session e"
proof -
  consider (alive) "player_alive e" | (dead) "player_dead e" using assms(1) by (auto simp: player_ok_def)
  then show ?thesis
  proof cases
    case alive
    then have "e' = e" using assms(2) by (simp add: player_alive_def respawn_rel_def)
    with assms(1) show ?thesis by simp
  next
    case dead
    then obtain t where t: "en_Respawn e = Some t" "1 \<le> t" "t \<le> RespawnTicks"
      and ls: "en_LifeState e = Some \<lparr>ls_State = StateRespawning\<rparr>"
      by (auto simp: player_dead_def)
    show ?thesis
    proof (cases "t \<le> 1")
      case True
      then obtain p where "in_box (f32_ratio 5 1) (f32_ratio 95 1) p"
        "e' = e\<lparr>en_Position := Some p, en_Health := Some \<lparr>HP = 100\<rparr>, en_LifeState := Some \<lparr>ls_State = StateAlive\<rparr>, en_Respawn := None\<rparr>"
        using assms(2) t(1) ls by (auto simp: respawn_rel_def Let_def)
      with assms(1) spawn_box show ?thesis by (simp add: player_ok_def player_alive_def del: One_nat_def)
    next
      case False
      then have "e' = e\<lparr>en_Respawn := Some (t - 1)\<rparr>" using assms(2) t(1) ls by (simp add: respawn_rel_def)
      with assms(1) t False dead show ?thesis by (simp add: player_ok_def player_dead_def)
    qed
  qed
qed

lemma respawn_bullet: "bullet_ok lo e \<Longrightarrow> respawn_rel e e' \<Longrightarrow> e' = e"
  by (simp add: bullet_ok_def respawn_rel_def)

lemma respawn_Run_spec:
  assumes "world_inv lo w"
  shows "frame (respawn_Run w) = frame w" "w_Entities (respawn_Run w) = w_Entities w"
    "i \<in> w_Entities w \<Longrightarrow> respawn_rel (view w i) (view (respawn_Run w) i)"
    "world_inv lo (respawn_Run w)"
proof -
  have k: "respawn_keeps (frame w) w" using assms by (simp add: respawn_keeps_def world_inv_def frame_def)
  note s = respawn.for_entities_spec [OF k, folded respawn_Run_def]
  show fr: "frame (respawn_Run w) = frame w" "w_Entities (respawn_Run w) = w_Entities w"
    "i \<in> w_Entities w \<Longrightarrow> respawn_rel (view w i) (view (respawn_Run w) i)"
    using s by (auto simp: respawn_keeps_def)
  show "world_inv lo (respawn_Run w)"
  proof (rule world_inv_frame [OF assms fr(1,2)])
    show "rands_ok (w_rands (respawn_Run w))" using s(1) by (simp add: respawn_keeps_def)
    show "(player_ok (view (respawn_Run w) j) \<or> bullet_ok lo (view (respawn_Run w) j))
        \<and> en_Session (view (respawn_Run w) j) = en_Session (view w j)"
      if "j \<in> w_Entities w" "player_ok (view w j) \<or> bullet_ok lo (view w j)" for j
      using respawn_player [OF _ s(3) [OF that(1)]] respawn_bullet [OF _ s(3) [OF that(1)], of lo] that(2) by (auto simp del: view_sel)
  qed (rule s(4))
qed

subsection \<open>Movement of the bullets\<close>

definition bullet_rel :: "entity \<Rightarrow> entity \<Rightarrow> bool" where
  "bullet_rel e e' \<longleftrightarrow>
     e' = (if en_Tag e \<noteq> Some TagBullet then e
           else let p = (case en_Position e of None \<Rightarrow> \<lparr>pos_X = 0, pos_Y = 0\<rparr> | Some p \<Rightarrow> p);
                    v = (case en_Velocity e of None \<Rightarrow> \<lparr>vel_X = 0, vel_Y = 0\<rparr> | Some v \<Rightarrow> v)
                in e\<lparr>en_Position := Some \<lparr>pos_X = f32_add (pos_X p) (vel_X v), pos_Y = f32_add (pos_Y p) (vel_Y v)\<rparr>,
                     en_TTL := Some ((case en_TTL e of None \<Rightarrow> 0 | Some t \<Rightarrow> t) - 1)\<rparr>)"

lemma pos_update: "p\<lparr>pos_X := x, pos_Y := y\<rparr> = \<lparr>pos_X = x, pos_Y = y\<rparr>" for p :: WorldPosition
  by (cases p) simp

lemma bullet_entity_eq:
  "bullet_entity i w =
     (if w_Tag w i \<noteq> Some TagBullet then w
      else w\<lparr>w_Position := (w_Position w)(i \<mapsto> \<lparr>pos_X = f32_add (pos_X (pos_of w i)) (vel_X (at (w_Velocity w) \<lparr>vel_X = 0, vel_Y = 0\<rparr> i)),
               pos_Y = f32_add (pos_Y (pos_of w i)) (vel_Y (at (w_Velocity w) \<lparr>vel_X = 0, vel_Y = 0\<rparr> i))\<rparr>),
             w_TTL := (w_TTL w)(i \<mapsto> at (w_TTL w) 0 i - 1)\<rparr>)"
  unfolding bullet_entity_def tag_of_bullet by (simp add: Let_def pos_update)

interpretation bullets: entity_loop bullet_entity "\<lambda>w. frame w = F \<and> w_rands w = r" bullet_rel for F r
proof
  fix w :: ShootingWorld and i assume keeps: "frame w = F \<and> w_rands w = r"
  show "bullet_rel (view w i) (view (bullet_entity i w) i)"
    unfolding bullet_rel_def view_sel at_def [symmetric] bullet_entity_eq by (simp add: view_def Let_def at_def)
  show "j \<noteq> i \<Longrightarrow> view (bullet_entity i w) j = view w j" for j by (simp add: bullet_entity_eq view_def)
  show "w_Entities (bullet_entity i w) = w_Entities w" by (simp add: bullet_entity_eq)
  show "frame (bullet_entity i w) = F \<and> w_rands (bullet_entity i w) = r"
    using keeps by (simp add: bullet_entity_eq frame_def)
  show "frame (w\<lparr>w_orders := f\<rparr>) = F \<and> w_rands (w\<lparr>w_orders := f\<rparr>) = r" for f using keeps by (simp add: frame_def)
qed

lemma bullet_player: "player_ok e \<Longrightarrow> bullet_rel e e' \<Longrightarrow> e' = e"
  by (simp add: player_ok_def bullet_rel_def)

lemma bullet_moved:
  assumes "bullet_ok 1 e" "bullet_rel e e'"
  shows "bullet_ok 0 e' \<and> en_Session e' = en_Session e"
proof -
  obtain t where t: "en_TTL e = Some t" "1 \<le> t" "t \<le> BulletTTL" using assms(1) by (auto simp: bullet_ok_def)
  then have "t - 1 \<le> BulletTTL" by (simp add: word_le_nat_alt unat_sub BulletTTL_def)
  with assms t(1) show ?thesis by (auto simp: bullet_ok_def bullet_rel_def Let_def f32_add_not_nan)
qed

lemma bullet_Run_spec:
  assumes "world_inv 1 w"
  shows "frame (bullet_Run w) = frame w" "w_Entities (bullet_Run w) = w_Entities w"
    "i \<in> w_Entities w \<Longrightarrow> bullet_rel (view w i) (view (bullet_Run w) i)"
    "world_inv 0 (bullet_Run w)"
proof -
  note s = bullets.for_entities_spec [of w "frame w" "w_rands w", folded bullet_Run_def]
  show fr: "frame (bullet_Run w) = frame w" "w_Entities (bullet_Run w) = w_Entities w"
    "i \<in> w_Entities w \<Longrightarrow> bullet_rel (view w i) (view (bullet_Run w) i)"
    using s by auto
  show "world_inv 0 (bullet_Run w)"
  proof (rule world_inv_frame [OF assms fr(1,2)])
    show "rands_ok (w_rands (bullet_Run w))" using s(1) assms by (simp add: world_inv_def)
    show "(player_ok (view (bullet_Run w) j) \<or> bullet_ok 0 (view (bullet_Run w) j))
        \<and> en_Session (view (bullet_Run w) j) = en_Session (view w j)"
      if "j \<in> w_Entities w" "player_ok (view w j) \<or> bullet_ok 1 (view w j)" for j
      using bullet_player [of "view w j" "view (bullet_Run w) j"] bullet_moved [of "view w j" "view (bullet_Run w) j"] s(3) that by (auto simp del: view_sel)
  qed (use s(4) in auto)
qed

subsection \<open>Input\<close>

lemma directions:
  assumes "keyMaskToDirection k = (dx, dy)"
  shows "is_finite (f32_mul dx PlayerSpeed) \<and> is_finite (f32_mul dy PlayerSpeed)"
proof -
  have a: "f32_sub 0 0x3F800000 = 0xBF800000" "f32_add 0xBF800000 0x3F800000 = 0" "f32_add 0 0x3F800000 = 0x3F800000"
    "PlayerSpeed = 0x3F800000"
    by (simp_all add: PlayerSpeed_def f32_consts) (simp_all add: f32_eval)
  have b: "is_finite (f32_mul 0 0x3F800000)" "is_finite (f32_mul 0xBF800000 0x3F800000)" "is_finite (f32_mul 0x3F800000 0x3F800000)"
    by (simp_all add: f32_eval)
  show ?thesis
    using assms unfolding keyMaskToDirection_def f32_consts Let_def a by (auto simp: a b split: if_splits)
qed

lemma clamp_box:
  assumes "\<not> is_nan v" "f32_le lo hi"
  shows "f32_le lo (clamp v lo hi) \<and> f32_le (clamp v lo hi) hi"
proof -
  have n: "\<not> is_nan lo" "\<not> is_nan hi" using assms(2) by (simp_all add: f32_le_def)
  show ?thesis
    using assms f32_not_lt [OF assms(1) n(1)] f32_not_lt [OF n(2) assms(1)] f32_le_refl [OF n(1)] f32_le_refl [OF n(2)]
    by (simp add: clamp_def)
qed

lemma field_max_facts [simp]: "f32_le 0 field_max" "is_finite field_max"
  by (simp_all add: field_max_def f32_eval)

text \<open>The effect of one input entry on the view of its entity.\<close>

definition moved :: "u32 \<Rightarrow> WorldPosition \<Rightarrow> WorldPosition" where
  "moved k p = (let (dx, dy) = keyMaskToDirection k
     in if f32_eq dx 0 \<and> f32_eq dy 0 then p
        else \<lparr>pos_X = clamp (f32_add (pos_X p) (f32_mul dx PlayerSpeed)) 0 field_max,
              pos_Y = clamp (f32_add (pos_Y p) (f32_mul dy PlayerSpeed)) 0 field_max\<rparr>)"

lemma moved_box:
  assumes "in_box 0 field_max p"
  shows "in_box 0 field_max (moved k p)"
proof (cases "keyMaskToDirection k")
  case (Pair dx dy)
  have nan: "\<not> is_nan (pos_X p)" "\<not> is_nan (pos_Y p)" using assms by (simp_all add: in_box_def f32_le_def)
  note d = directions [OF Pair]
  have "\<not> is_nan (f32_add (pos_X p) (f32_mul dx PlayerSpeed))" "\<not> is_nan (f32_add (pos_Y p) (f32_mul dy PlayerSpeed))"
    using d nan by (simp_all add: f32_add_not_nan)
  then have "in_box 0 field_max \<lparr>pos_X = clamp (f32_add (pos_X p) (f32_mul dx PlayerSpeed)) 0 field_max,
              pos_Y = clamp (f32_add (pos_Y p) (f32_mul dy PlayerSpeed)) 0 field_max\<rparr>"
    using clamp_box [OF _ field_max_facts(1)] by (simp add: in_box_def)
  with assms show ?thesis by (simp add: moved_def Pair)
qed

lemma move_entity_eq:
  assumes "entities_ok lo w"
  shows "move_entity field_max field_max entry w =
    (if has_state StateAlive w (in_EntityID entry)
        \<and> moved (in_KeyMask entry) (pos_of w (in_EntityID entry)) \<noteq> pos_of w (in_EntityID entry)
     then w\<lparr>w_Position := (w_Position w)(in_EntityID entry \<mapsto> moved (in_KeyMask entry) (pos_of w (in_EntityID entry)))\<rparr>
     else w)"
proof -
  have same: "w\<lparr>w_Position := (w_Position w)(i \<mapsto> pos_of w i)\<rparr> = w" if h: "has_state StateAlive w i" for i
  proof -
    obtain p where "w_Position w i = Some p" using alive_player(2) [OF assms h] by (auto simp: player_ok_def)
    then have "(w_Position w)(i \<mapsto> pos_of w i) = w_Position w" by (auto simp: at_def)
    then show ?thesis by simp
  qed
  show ?thesis
    using same [of "in_EntityID entry"] alive_player(1) [OF assms, of "in_EntityID entry"]
    by (cases "keyMaskToDirection (in_KeyMask entry)") (auto simp: move_entity_def moved_def Let_def pos_update)
qed

lemma move_entity_inv:
  assumes "world_inv lo w"
  shows "world_inv lo (move_entity field_max field_max entry w)"
    "frame (move_entity field_max field_max entry w) = frame w"
    "w_Entities (move_entity field_max field_max entry w) = w_Entities w"
    "w_Tag (move_entity field_max field_max entry w) = w_Tag w"
proof -
  have e: "entities_ok lo w" using assms by (simp add: world_inv_def)
  show fr: "frame (move_entity field_max field_max entry w) = frame w"
    "w_Entities (move_entity field_max field_max entry w) = w_Entities w"
    "w_Tag (move_entity field_max field_max entry w) = w_Tag w"
    by (simp_all add: move_entity_eq [OF e] frame_def)
  let ?i = "in_EntityID entry"
  show "world_inv lo (move_entity field_max field_max entry w)"
  proof (cases "has_state StateAlive w ?i")
    case True
    note p = alive_player [OF e True]
    obtain q where q: "w_Position w ?i = Some q" "in_box 0 field_max q" using p(2) by (auto simp: player_ok_def)
    show ?thesis
    proof (rule world_inv_frame [OF assms fr(1,2)])
      show "rands_ok (w_rands (move_entity field_max field_max entry w))"
        using assms by (simp add: move_entity_eq [OF e] world_inv_def)
      show "(player_ok (view (move_entity field_max field_max entry w) j) \<or> bullet_ok lo (view (move_entity field_max field_max entry w) j))
        \<and> en_Session (view (move_entity field_max field_max entry w) j) = en_Session (view w j)"
        if "j \<in> w_Entities w" "player_ok (view w j) \<or> bullet_ok lo (view w j)" for j
      proof (cases "j = ?i")
        case True
        have "in_box 0 field_max (moved (in_KeyMask entry) q)" by (rule moved_box [OF q(2)])
        with p(2) True q(1) show ?thesis
          by (simp add: move_entity_eq [OF e] view_def player_ok_def player_alive_def player_dead_def at_def)
      next
        case False
        then have "view (move_entity field_max field_max entry w) j = view w j" by (simp add: move_entity_eq [OF e] view_def)
        with that show ?thesis by (simp del: view_sel)
      qed
      show "view (move_entity field_max field_max entry w) j = view w j" if "j \<notin> w_Entities w" for j
        using that p(1) by (auto simp: move_entity_eq [OF e] view_def)
    qed
  qed (simp add: move_entity_eq [OF e] assms)
qed

lemma world_inv_inputs: "world_inv lo w \<Longrightarrow> world_inv lo (w\<lparr>w_PendingInputs := q\<rparr>)"
  by (simp add: world_inv_def sessions_ok_def ids_ok_def entities_ok_def)

lemma input_fold_spec:
  assumes "world_inv lo w"
  shows "world_inv lo (fold (move_entity field_max field_max) es w)
    \<and> frame (fold (move_entity field_max field_max) es w) = frame w
    \<and> w_Entities (fold (move_entity field_max field_max) es w) = w_Entities w
    \<and> w_Tag (fold (move_entity field_max field_max) es w) = w_Tag w"
  using assms
proof (induction es arbitrary: w)
  case (Cons e es)
  from Cons.IH [OF move_entity_inv(1) [OF Cons.prems]] move_entity_inv(2-4) [OF Cons.prems, of e]
  show ?case by simp
qed simp

lemma input_Run_eq:
  "w_Static w = game_static \<Longrightarrow>
   input_Run w = fold (move_entity field_max field_max) (w_PendingInputs w) (w\<lparr>w_PendingInputs := []\<rparr>)"
  by (simp add: input_Run_def Drain_def)

lemma input_Run_spec:
  assumes "world_inv lo w"
  shows "world_inv lo (input_Run w)" "w_Entities (input_Run w) = w_Entities w" "w_Tag (input_Run w) = w_Tag w"
    "w_NextEntityID (input_Run w) = w_NextEntityID w" "w_PendingInputs (input_Run w) = []"
    "w_SessionToEntity (input_Run w) = w_SessionToEntity w"
proof -
  have s: "w_Static w = game_static" using assms by (simp add: world_inv_def)
  note f = input_fold_spec [OF world_inv_inputs [OF assms], of "w_PendingInputs w" "[]"]
  show "world_inv lo (input_Run w)" "w_Entities (input_Run w) = w_Entities w" "w_Tag (input_Run w) = w_Tag w"
    "w_NextEntityID (input_Run w) = w_NextEntityID w" "w_PendingInputs (input_Run w) = []"
    "w_SessionToEntity (input_Run w) = w_SessionToEntity w"
    using f unfolding input_Run_eq [OF s] by (auto dest: frameD)
qed

end
