(* ===== verification/Game_Fight.thy ===== *)
theory Game_Fight
  imports Game_Steps
begin

unbundle bit_operations_syntax

text \<open>
  Shooting, collisions and the clean-up keep the invariant. For the shots this needs that the
  velocity of a bullet is finite, which rests on the bounds of the rounded operations, and that
  the identifiers of the new bullets are not in use.
\<close>

subsection \<open>The velocity of a bullet\<close>

lemma box_coordinate:
  assumes "f32_le 0 x" "f32_le x field_max"
  shows "is_finite x" "0 \<le> f32_int x" "f32_int x \<le> int (mag_val 0x42C80000)"
proof -
  have fm: "field_max = 0x42C80000" by (simp add: field_max_def f32_consts)
  have m: "f32_mag field_max = 0x42C80000" "\<not> f32_sign field_max" unfolding fm by (simp_all add: f32_mag_def f32_sign_def)
  have z: "f32_sign x \<Longrightarrow> f32_mag x = 0" using assms(1) by (simp add: f32_le_0)
  have le: "f32_mag x \<le> 0x42C80000"
    using assms(2) z m by (cases "f32_sign x") (simp_all add: f32_le_def f32_key_def)
  then show "is_finite x" by (simp add: is_finite_def inf_mag_def)
  from le have "mag_val (f32_mag x) \<le> mag_val 0x42C80000" by (rule mag_val_mono)
  with z show "0 \<le> f32_int x" "f32_int x \<le> int (mag_val 0x42C80000)" by (auto simp: f32_int_def)
qed

lemma f32_int_neg [simp]: "f32_int (f32_neg x) = - f32_int x"
  by (simp add: f32_int_def)

text \<open>The difference of two coordinates is at most 100 in magnitude.\<close>

lemma coordinate_difference:
  assumes "f32_le 0 x" "f32_le x field_max" "f32_le 0 y" "f32_le y field_max"
  shows "f32_mag (f32_sub x y) \<le> 0x42C80000"
proof -
  note x = box_coordinate [OF assms(1,2)] and y = box_coordinate [OF assms(3,4)]
  have "f32_mag (f32_sub x y) = round_mag (nat \<bar>f32_int x - f32_int y\<bar>) 1"
    unfolding f32_sub_def using f32_add_mag [of x "f32_neg y"] x(1) y(1) by simp
  also have "\<dots> \<le> 0x42C80000"
    using x y by (intro round_mag_upper) (auto simp: inf_mag_def)
  finally show ?thesis .
qed

text \<open>The distance is a number: the sum of two squares is not negative and finite.\<close>

lemma square_facts:
  assumes "f32_mag d \<le> 0x42C80000"
  shows "is_finite (f32_mul d d)" "\<not> f32_sign (f32_mul d d)"
proof -
  have fin: "is_finite d" using assms by (simp add: is_finite_def inf_mag_def)
  have "mag_val (f32_mag d) \<le> mag_val 0x42C80000" using assms by (rule mag_val_mono)
  then have "mag_val (f32_mag d) * mag_val (f32_mag d) \<le> mag_val 0x42C80000 * mag_val 0x42C80000" by (intro mult_le_mono)
  also have "\<dots> \<le> mag_val 0x461C4000 * 2 ^ 149" by (simp add: mag_val_def)
  finally have "f32_mag (f32_mul d d) \<le> 0x461C4000"
    unfolding f32_mul_mag(1) [OF fin fin] by (intro round_mag_upper) (simp_all add: inf_mag_def)
  then show "is_finite (f32_mul d d)" by (simp add: is_finite_def inf_mag_def)
  show "\<not> f32_sign (f32_mul d d)" using f32_mul_mag(2) [OF fin fin] by simp
qed

lemma distance_number:
  assumes "f32_mag dx \<le> 0x42C80000" "f32_mag dy \<le> 0x42C80000"
  shows "\<not> is_nan (f32_sqrt (dist_sq dx dy))" "\<not> f32_sign (f32_sqrt (dist_sq dx dy))"
proof -
  note x = square_facts [OF assms(1)] and y = square_facts [OF assms(2)]
  have nan: "\<not> is_nan (dist_sq dx dy)"
    unfolding dist_sq_def using x(1) y(1) by (intro f32_add_not_nan) (auto simp: finite_cases)
  have sg: "\<not> f32_sign (dist_sq dx dy)" unfolding dist_sq_def by (intro f32_add_nonneg_sign x y)
  show "\<not> is_nan (f32_sqrt (dist_sq dx dy))" "\<not> f32_sign (f32_sqrt (dist_sq dx dy))"
    using nan sg by (auto simp: f32_sqrt_def sqrt_mag_def Let_def)
qed

lemma velocity_finite:
  assumes d: "f32_mag d \<le> 0x42C80000" and dist: "\<not> is_nan dist" "\<not> f32_sign dist" "\<not> f32_lt dist (f32_ratio 1 1000)"
  shows "is_finite (f32_mul (f32_div d dist) BulletSpeed)"
proof -
  have sp: "BulletSpeed = 0x3FC00000" by (simp add: BulletSpeed_def f32_consts)
  have sp': "is_finite BulletSpeed" "f32_mag BulletSpeed = 0x3FC00000"
    unfolding sp by (simp_all add: is_finite_def f32_mag_def inf_mag_def)
  have fd: "is_finite d" using d by (simp add: is_finite_def inf_mag_def)
  have "f32_mag (f32_div d dist) \<le> 0x48000000"
  proof (cases "is_inf dist")
    case True
    then show ?thesis using fd dist(1) by (auto simp: f32_div_def Let_def finite_cases is_inf_def inf_mag_def is_nan_def)
  next
    case False
    then have fin: "is_finite dist" using dist(1) by (simp add: finite_cases)
    have "\<not> is_nan (f32_ratio 1 1000)" unfolding f32_consts by (simp add: is_nan_def f32_mag_def inf_mag_def)
    with f32_not_lt [OF dist(1)] dist(3) have "f32_le (f32_ratio 1 1000) dist" by blast
    moreover have k: "f32_mag 0x3A83126F = 0x3A83126F" "\<not> f32_sign 0x3A83126F" by (simp_all add: f32_mag_def f32_sign_def)
    ultimately have ge: "0x3A83126F \<le> f32_mag dist"
      using dist(2) k unfolding f32_consts by (simp add: f32_le_def f32_key_def)
    then have "mag_val 0x3A83126F \<le> mag_val (f32_mag dist)" by (rule mag_val_mono)
    then have v: "mag_val 0x48000000 * mag_val 0x3A83126F \<le> mag_val 0x48000000 * mag_val (f32_mag dist)" by (rule mult_le_mono2)
    have "mag_val (f32_mag d) * 2 ^ 149 \<le> mag_val 0x42C80000 * 2 ^ 149" using mag_val_mono [OF d] by simp
    also have "\<dots> \<le> mag_val 0x48000000 * mag_val 0x3A83126F" by (simp add: mag_val_def)
    also note v
    finally have "round_mag (mag_val (f32_mag d) * 2 ^ 149) (mag_val (f32_mag dist)) \<le> 0x48000000"
      using ge by (intro round_mag_upper) (auto simp: inf_mag_def intro: gr0I)
    then show ?thesis using f32_div_mag [OF fd fin] ge by simp
  qed
  then have b: "f32_mag (f32_div d dist) \<le> 0x48000000" "is_finite (f32_div d dist)"
    by (simp_all add: is_finite_def inf_mag_def)
  have "mag_val (f32_mag (f32_div d dist)) * mag_val 0x3FC00000 \<le> mag_val 0x48000000 * mag_val 0x3FC00000"
    using mag_val_mono [OF b(1)] by (rule mult_le_mono1)
  also have "\<dots> \<le> mag_val 0x48800000 * 2 ^ 149" by (simp add: mag_val_def)
  finally have "f32_mag (f32_mul (f32_div d dist) BulletSpeed) \<le> 0x48800000"
    unfolding f32_mul_mag(1) [OF b(2) sp'(1)] sp'(2) by (intro round_mag_upper) (simp_all add: inf_mag_def)
  then show ?thesis by (simp add: is_finite_def inf_mag_def)
qed

subsection \<open>Shooting\<close>

lemma no_entity_not_ok [simp]: "\<not> player_ok no_entity" "\<not> bullet_ok lo no_entity"
  by (simp_all add: player_ok_def bullet_ok_def)

lemma nearest_found:
  assumes "entities_ok lo w" "nearest w i pos ids (n, d, f) = (n', d', f')" "f'"
  shows "f \<and> n' = n \<or> n' \<noteq> i \<and> player_ok (view w n')"
  using assms(2,3)
proof (induction ids arbitrary: n d f)
  case (Cons other ids)
  show ?case
  proof (cases "other \<notin> w_Entities w \<or> other = i \<or> \<not> is_actor_tag (tag_of w other) \<or> \<not> has_state StateAlive w other")
    case True
    then show ?thesis using Cons.IH [of n d f] Cons.prems by simp
  next
    case False
    then have "other \<noteq> i" "player_ok (view w other)" using alive_player(2) [OF assms(1)] by auto
    moreover define s where "s = dist_sq (f32_sub (pos_X (pos_of w other)) (pos_X pos)) (f32_sub (pos_Y (pos_of w other)) (pos_Y pos))"
    ultimately show ?thesis
      using Cons.IH [of other s True] Cons.IH [of n d f] Cons.prems False by (auto simp: Let_def s_def split: if_splits)
  qed
qed auto

text \<open>What a visit does: nothing, a new cooldown, or a new cooldown and a bullet.\<close>

definition set_cooldown :: "EntityID \<Rightarrow> int \<Rightarrow> ShootingWorld \<Rightarrow> ShootingWorld" where
  "set_cooldown i c w = w\<lparr>w_ShootCooldown := (w_ShootCooldown w)(i \<mapsto> c)\<rparr>"

lemma view_set_cooldown: "view (set_cooldown i c w) = (view w)(i := (view w i)\<lparr>en_Cooldown := Some c\<rparr>)"
  by (simp add: set_cooldown_def view_def fun_eq_iff)

lemma set_cooldown_frame [simp]:
  "frame (set_cooldown i c w) = frame w" "w_Entities (set_cooldown i c w) = w_Entities w"
  "w_rands (set_cooldown i c w) = w_rands w" "w_Tag (set_cooldown i c w) = w_Tag w"
  "w_NextEntityID (set_cooldown i c w) = w_NextEntityID w" "w_LifeState (set_cooldown i c w) = w_LifeState w"
  "w_Position (set_cooldown i c w) = w_Position w" "w_SessionToEntity (set_cooldown i c w) = w_SessionToEntity w"
  "w_PendingInputs (set_cooldown i c w) = w_PendingInputs w"
  by (simp_all add: set_cooldown_def frame_def)

definition skip_order :: "ShootingWorld \<Rightarrow> ShootingWorld" where
  "skip_order w = w\<lparr>w_orders := \<lambda>n. w_orders w (Suc n)\<rparr>"

lemma skip_order_parts [simp]:
  "view (skip_order w) = view w" "frame (skip_order w) = frame w" "w_Entities (skip_order w) = w_Entities w"
  "w_rands (skip_order w) = w_rands w" "w_Tag (skip_order w) = w_Tag w" "w_LifeState (skip_order w) = w_LifeState w"
  "w_SessionToEntity (skip_order w) = w_SessionToEntity w" "w_PendingInputs (skip_order w) = w_PendingInputs w"
  "w_Position (skip_order w) = w_Position w" "w_NextEntityID (skip_order w) = w_NextEntityID w"
  "world_inv lo (skip_order w) = world_inv lo w"
  by (simp_all add: skip_order_def frame_def world_inv_def sessions_ok_def ids_ok_def entities_ok_def)

lemma set_cooldown_inv:
  assumes "world_inv lo w" "player_ok (view w i)" "c \<le> ShootCooldown"
  shows "world_inv lo (set_cooldown i c w)"
proof (rule world_inv_frame [OF assms(1)])
  show "(player_ok (view (set_cooldown i c w) j) \<or> bullet_ok lo (view (set_cooldown i c w) j))
      \<and> en_Session (view (set_cooldown i c w) j) = en_Session (view w j)"
    if "j \<in> w_Entities w" "player_ok (view w j) \<or> bullet_ok lo (view w j)" for j
    using that assms(2,3)
    by (cases "j = i") (auto simp: view_set_cooldown player_ok_def player_alive_def player_dead_def simp del: view_sel)
  show "view (set_cooldown i c w) j = view w j" if "j \<notin> w_Entities w" for j
  proof -
    have "view w j = no_entity" using that assms(1) by (auto simp: world_inv_def entities_ok_def)
    then have "j \<noteq> i" using assms(2) by (auto simp del: view_sel)
    then show ?thesis by (simp add: view_set_cooldown)
  qed
qed (use assms(1) in \<open>simp_all add: world_inv_def\<close>)

lemma fresh_id:
  assumes "ids_ok w" "unat (w_NextEntityID w) + 1 < 2 ^ 16"
  shows "w_NextEntityID w + 1 \<notin> w_Entities w" "unat (w_NextEntityID w + 1) = unat (w_NextEntityID w) + 1"
    "i \<in> w_Entities w \<Longrightarrow> i < w_NextEntityID w + 1"
proof -
  show u: "unat (w_NextEntityID w + 1) = unat (w_NextEntityID w) + 1"
    using assms(2) by (simp add: unat_word_ariths)
  show "w_NextEntityID w + 1 \<notin> w_Entities w" "i \<in> w_Entities w \<Longrightarrow> i < w_NextEntityID w + 1"
    using assms(1) u by (force simp: ids_ok_def word_le_nat_alt word_less_nat_alt)+
qed

text \<open>A new entity under a fresh identifier.\<close>

lemma spawn_inv:
  assumes inv: "world_inv lo w" and left: "unat (w_NextEntityID w) + 1 < 2 ^ 16"
    and ent: "w_Entities w' = insert (w_NextEntityID w + 1) (w_Entities w)" "w_NextEntityID w' = w_NextEntityID w + 1"
      "w_Static w' = w_Static w" "rands_ok (w_rands w')"
    and view: "view w' = (view w)(w_NextEntityID w + 1 := e)" and e: "player_ok e \<or> bullet_ok lo e"
    and ses: "w_SessionToEntity w' = w_SessionToEntity w
      \<or> (\<exists>s. en_Session e = Some s \<and> w_SessionToEntity w' = (w_SessionToEntity w)(s \<mapsto> w_NextEntityID w + 1))"
  shows "world_inv lo w'"
proof -
  let ?n = "w_NextEntityID w + 1"
  have ids: "ids_ok w" using inv by (simp add: world_inv_def)
  note fresh = fresh_id [OF ids left]
  have old: "w_EntityToSession w' j = (if j = ?n then en_Session e else w_EntityToSession w j)" for j
    using fun_cong [OF view, of j] view_sel(10) [of w' j] view_sel(10) [of w j] by (simp split: if_splits)
  have n: "w_EntityToSession w ?n = None"
    using inv fresh(1) view_sel(10) [of w ?n] by (auto simp: world_inv_def entities_ok_def simp del: view_sel dest!: spec [of _ ?n])
  have "sessions_ok w'"
    using inv n ses by (auto simp: world_inv_def sessions_ok_def old split: if_splits)
  moreover have "ids_ok w'"
    using ids fresh unfolding ids_ok_def ent(1,2) by (auto simp: word_less_nat_alt intro: less_imp_le)
  moreover have "entities_ok lo w'"
    using inv e unfolding world_inv_def entities_ok_def ent(1) view by auto
  ultimately show ?thesis using inv ent by (simp add: world_inv_def)
qed

definition shot :: "EntityID \<Rightarrow> ShootingWorld \<Rightarrow> Velocity option" where
  "shot i w =
     (let pos = pos_of w i;
          (nearestID, _, found) = nearest w i pos (range_keys (w_Entities w) (w_orders w 0)) (0, MaxFloat32, False);
          dx = f32_sub (pos_X (pos_of w nearestID)) (pos_X pos);
          dy = f32_sub (pos_Y (pos_of w nearestID)) (pos_Y pos);
          dist = f32_sqrt (dist_sq dx dy)
      in if \<not> found \<or> f32_lt dist (f32_ratio 1 1000) then None
         else Some \<lparr>vel_X = f32_mul (f32_div dx dist) BulletSpeed, vel_Y = f32_mul (f32_div dy dist) BulletSpeed\<rparr>)"

lemma nearest_cong:
  assumes "w_Entities w' = w_Entities w" "w_Tag w' = w_Tag w" "w_LifeState w' = w_LifeState w" "w_Position w' = w_Position w"
  shows "nearest w' i pos ids acc = nearest w i pos ids acc"
proof (induction ids arbitrary: acc)
  case (Cons other ids)
  obtain n d f where acc: "acc = (n, d, f)" by (cases acc)
  have "has_state StateAlive w' other = has_state StateAlive w other" by (simp add: has_state_def assms(3))
  with Cons show ?case unfolding acc by (simp add: assms(1,2,4))
qed simp

lemma shoot_entity_eq:
  "shoot_entity i w =
     (if \<not> is_actor_tag (tag_of w i) \<or> \<not> has_state StateAlive w i then w
      else let c = at (w_ShootCooldown w) 0 i - 1
           in if 0 < c then set_cooldown i c w
              else case shot i w of
                  None \<Rightarrow> skip_order (set_cooldown i c w)
                | Some vel \<Rightarrow> set_cooldown i ShootCooldown (snd (SpawnBullet i (pos_of w i) vel (skip_order (set_cooldown i c w)))))"
proof -
  define c where "c = at (w_ShootCooldown w) 0 i - 1"
  define w1 where "w1 = set_cooldown i c w"
  define w2 where "w2 = skip_order w1"
  obtain n d f where n: "nearest w i (pos_of w i) (range_keys (w_Entities w) (w_orders w 0)) (0, MaxFloat32, False) = (n, d, f)"
    using prod_cases3 by blast
  have n': "nearest w2 i (pos_of w i) (range_keys (w_Entities w) (w_orders w 0)) (0, MaxFloat32, False) = (n, d, f)"
    unfolding n [symmetric] by (rule nearest_cong) (simp_all add: w2_def w1_def)
  have nxt: "next_order w1 = (range_keys (w_Entities w) (w_orders w 0), w2)"
    by (simp add: next_order_def w2_def w1_def skip_order_def) (simp add: set_cooldown_def)
  have pos: "w_Position w1 = w_Position w" "w_Position w2 = w_Position w" by (simp_all add: w2_def w1_def)
  show ?thesis
    unfolding shoot_entity_def shot_def c_def [symmetric] Let_def n set_cooldown_def [of i _ w, symmetric]
      w1_def [symmetric] w2_def [symmetric] nxt pos prod.case n'
    by (simp add: set_cooldown_def split: prod.splits)
qed

lemma shot_finite:
  assumes "entities_ok lo w" "player_ok (view w i)" "shot i w = Some vel"
  shows "is_finite (vel_X vel) \<and> is_finite (vel_Y vel)"
proof -
  obtain n d f where n: "nearest w i (pos_of w i) (range_keys (w_Entities w) (w_orders w 0)) (0, MaxFloat32, False) = (n, d, f)"
    using prod_cases3 by blast
  define dx dy where "dx = f32_sub (pos_X (pos_of w n)) (pos_X (pos_of w i))" and "dy = f32_sub (pos_Y (pos_of w n)) (pos_Y (pos_of w i))"
  have f: "f" "\<not> f32_lt (f32_sqrt (dist_sq dx dy)) (f32_ratio 1 1000)"
    and vel: "vel = \<lparr>vel_X = f32_mul (f32_div dx (f32_sqrt (dist_sq dx dy))) BulletSpeed,
        vel_Y = f32_mul (f32_div dy (f32_sqrt (dist_sq dx dy))) BulletSpeed\<rparr>"
    using assms(3) unfolding shot_def Let_def n by (auto simp: dx_def dy_def split: if_splits)
  have "player_ok (view w n)" using nearest_found [OF assms(1) n f(1)] by simp
  with assms(2) have box: "in_box 0 field_max (pos_of w i)" "in_box 0 field_max (pos_of w n)" by (auto simp: player_ok_def at_def)
  have m: "f32_mag dx \<le> 0x42C80000" "f32_mag dy \<le> 0x42C80000"
    unfolding dx_def dy_def using box by (auto simp: in_box_def intro: coordinate_difference)
  show ?thesis
    unfolding vel using velocity_finite [OF m(1) distance_number [OF m] f(2)] velocity_finite [OF m(2) distance_number [OF m] f(2)] by simp
qed

lemma new_bullet_ok:
  assumes "in_box 0 field_max p" "is_finite (vel_X v)" "is_finite (vel_Y v)"
  shows "bullet_ok 1 (no_entity\<lparr>en_Position := Some p, en_Velocity := Some v, en_TTL := Some BulletTTL,
     en_Owner := Some i, en_Tag := Some TagBullet\<rparr>)"
  using assms by (simp add: bullet_ok_def in_box_def f32_le_def BulletTTL_def)

lemma players_view: "players w = {i \<in> w_Entities w. en_Tag (view w i) = Some TagPlayer}"
  by (simp add: players_def)

text \<open>
  \<open>grows n w w'\<close>: from \<open>w\<close> to \<open>w'\<close> at most \<open>n\<close> bullets were added, and the invariant, the players
  and the sessions were kept.
\<close>

definition grows :: "nat \<Rightarrow> ShootingWorld \<Rightarrow> ShootingWorld \<Rightarrow> bool" where
  "grows n w w' \<longleftrightarrow> world_inv 1 w' \<and> players w' = players w
     \<and> unat (w_NextEntityID w') \<le> unat (w_NextEntityID w) + n
     \<and> w_SessionToEntity w' = w_SessionToEntity w \<and> w_PendingInputs w' = w_PendingInputs w
     \<and> w_Entities w \<subseteq> w_Entities w' \<and> w_NextEntityID w \<le> w_NextEntityID w'
     \<and> w_Entities w' \<subseteq> w_Entities w \<union> {i. w_NextEntityID w < i}"

lemma grows_refl: "world_inv 1 w \<Longrightarrow> grows n w w"
  by (simp add: grows_def)

lemma grows_trans: "grows n w w' \<Longrightarrow> grows m w' w'' \<Longrightarrow> grows (n + m) w w''"
  unfolding grows_def by (auto intro: order.trans le_less_trans)

lemma grows_skip: "world_inv 1 w \<Longrightarrow> grows 0 w (skip_order w)"
  by (simp add: grows_def players_def)

lemma grows_cooldown: "world_inv 1 w \<Longrightarrow> player_ok (view w i) \<Longrightarrow> c \<le> ShootCooldown \<Longrightarrow> grows 0 w (set_cooldown i c w)"
  using set_cooldown_inv [of 1 w i c] by (simp add: grows_def players_def)

lemma grows_spawn:
  assumes inv: "world_inv 1 w" and left: "unat (w_NextEntityID w) + 1 < 2 ^ 16"
    and p: "in_box 0 field_max p" and v: "is_finite (vel_X v)" "is_finite (vel_Y v)"
  shows "grows 1 w (snd (SpawnBullet i p v w))"
proof -
  let ?n = "w_NextEntityID w + 1"
  have "ids_ok w" using inv by (simp add: world_inv_def)
  note fresh = fresh_id [OF this left]
  have n: "view w ?n = no_entity" using inv fresh(1) by (auto simp: world_inv_def entities_ok_def)
  have "world_inv 1 (snd (SpawnBullet i p v w))"
  proof (rule spawn_inv [OF inv left])
    show "view (snd (SpawnBullet i p v w)) = (view w)(?n := no_entity\<lparr>en_Position := Some p, en_Velocity := Some v,
      en_TTL := Some BulletTTL, en_Owner := Some i, en_Tag := Some TagBullet\<rparr>)"
      by (simp add: view_SpawnBullet n)
  qed (use inv new_bullet_ok [OF p v] in \<open>simp_all add: SpawnBullet_frame world_inv_def\<close>)
  moreover have tags: "en_Tag (view (snd (SpawnBullet i p v w)) j) = (if j = ?n then Some TagBullet else en_Tag (view w j))" for j
    unfolding view_SpawnBullet by simp
  have "players (snd (SpawnBullet i p v w)) = players w"
    unfolding players_view tags SpawnBullet_frame using fresh(1) by (auto split: if_splits)
  moreover have "w_NextEntityID w < ?n" using fresh(2) by (simp add: word_less_nat_alt)
  ultimately show ?thesis using fresh(2) by (auto simp: grows_def SpawnBullet_frame)
qed

lemma shoot_entity_grows:
  assumes inv: "world_inv 1 w" and left: "i \<in> players w \<Longrightarrow> unat (w_NextEntityID w) + 1 < 2 ^ 16"
  shows "grows (if i \<in> players w then 1 else 0) w (shoot_entity i w)"
proof (cases "i \<in> players w \<and> has_state StateAlive w i")
  case False
  have "entities_ok 1 w" using inv by (simp add: world_inv_def)
  with False have "shoot_entity i w = w" using actor_tag_player by (auto simp: shoot_entity_eq)
  with inv show ?thesis by (simp add: grows_refl)
next
  case True
  have e: "entities_ok 1 w" using inv by (simp add: world_inv_def)
  have pl: "player_ok (view w i)" using True alive_player(2) [OF e] by blast
  have act: "is_actor_tag (tag_of w i)" using True actor_tag_player [OF e] by blast
  define c where "c = at (w_ShootCooldown w) 0 i - 1"
  define w1 where "w1 = skip_order (set_cooldown i c w)"
  have c: "c \<le> ShootCooldown" and box: "in_box 0 field_max (pos_of w i)" using pl by (auto simp: c_def player_ok_def at_def)
  have g0: "grows 0 w (set_cooldown i c w)" by (rule grows_cooldown [OF inv pl c])
  then have inv0: "world_inv 1 (set_cooldown i c w)" by (simp add: grows_def)
  have g1: "grows 0 w w1" using grows_trans [OF g0 grows_skip [OF inv0]] by (simp add: w1_def)
  then have inv1: "world_inv 1 w1" by (simp add: grows_def)
  have le: "grows 0 w w' \<Longrightarrow> grows 1 w w'" for w' by (auto simp: grows_def)
  show ?thesis
  proof (cases "shot i w")
    case None
    then show ?thesis using g0 g1 le True act by (simp add: shoot_entity_eq Let_def w1_def c_def)
  next
    case (Some vel)
    define w2 where "w2 = snd (SpawnBullet i (pos_of w i) vel w1)"
    have fin: "is_finite (vel_X vel)" "is_finite (vel_Y vel)" using shot_finite [OF e pl Some] by auto
    have next1: "w_NextEntityID w1 = w_NextEntityID w" by (simp add: w1_def)
    have left1: "unat (w_NextEntityID w1) + 1 < 2 ^ 16" using left True next1 by simp
    have g2: "grows 1 w w2"
      using grows_trans [OF g1 grows_spawn [OF inv1 left1 box fin, of i]] by (simp add: w2_def)
    have "ids_ok w" using inv by (simp add: world_inv_def)
    then have ne: "i \<noteq> w_NextEntityID w + 1" using True fresh_id(1) [of w] left by (auto simp: players_def)
    have "view w2 i = (view w i)\<lparr>en_Cooldown := Some c\<rparr>"
      unfolding w2_def view_SpawnBullet next1 using ne by (simp add: w1_def view_set_cooldown)
    then have pl2: "player_ok (view w2 i)" using pl c by (simp add: player_ok_def player_alive_def player_dead_def)
    have inv2: "world_inv 1 w2" using g2 by (simp add: grows_def)
    have "grows 1 w (set_cooldown i ShootCooldown w2)"
      using grows_trans [OF g2 grows_cooldown [OF inv2 pl2 order.refl]] by simp
    then show ?thesis using le [OF g0] True act by (simp add: shoot_entity_eq Let_def w1_def c_def w2_def Some)
  qed
qed

lemma shoot_loop_grows:
  assumes "world_inv 1 w" "distinct ids" "unat (w_NextEntityID w) + card (players w \<inter> set ids) < 2 ^ 16"
  shows "grows (card (players w \<inter> set ids)) w (for_keys shoot_entity ids w)"
  using assms
proof (induction ids arbitrary: w)
  case (Cons i ids)
  define w1 where "w1 = (if i \<in> w_Entities w then shoot_entity i w else w)"
  define k where "k = (if i \<in> players w then 1 else 0 :: nat)"
  have "i \<notin> set ids" using Cons.prems(2) by simp
  then have card: "card (players w \<inter> set (i # ids)) = k + card (players w \<inter> set ids)"
    by (simp add: k_def Int_insert_right)
  have left: "i \<in> players w \<Longrightarrow> unat (w_NextEntityID w) + 1 < 2 ^ 16"
    using Cons.prems(3) unfolding card by (simp add: k_def)
  have g1: "grows k w w1"
    using shoot_entity_grows [OF Cons.prems(1) left] grows_refl [OF Cons.prems(1)]
    by (auto simp: w1_def k_def)
  then have p1: "players w1 = players w" "unat (w_NextEntityID w1) \<le> unat (w_NextEntityID w) + k" "world_inv 1 w1"
    by (simp_all add: grows_def)
  have "grows (card (players w1 \<inter> set ids)) w1 (for_keys shoot_entity ids w1)"
    using Cons.prems p1 card by (intro Cons.IH) auto
  from grows_trans [OF g1 this] show ?case unfolding card p1(1) by (simp add: w1_def)
qed (simp add: grows_refl)

lemma shoot_Run_grows:
  assumes inv: "world_inv 1 w" and left: "unat (w_NextEntityID w) + card (players w) < 2 ^ 16"
  shows "grows (card (players w)) w (shoot_Run w)"
proof -
  have "players w \<subseteq> set (range_keys (w_Entities w) (w_orders w 0))"
    using range_keys(2) [of "w_Entities w"] by (auto simp: players_def)
  then have p: "players w \<inter> set (range_keys (w_Entities w) (w_orders w 0)) = players w" by blast
  have e: "shoot_Run w = for_keys shoot_entity (range_keys (w_Entities w) (w_orders w 0)) (skip_order w)"
    by (simp add: shoot_Run_def for_entities_def next_order_def skip_order_def)
  have "players (skip_order w) = players w" by (simp add: players_def)
  with p left shoot_loop_grows [of "skip_order w" "range_keys (w_Entities w) (w_orders w 0)"] inv range_keys(1)
  have "grows (card (players w)) (skip_order w) (shoot_Run w)" unfolding e by simp
  from grows_trans [OF grows_skip [OF inv] this] show ?thesis by simp
qed

end
