(* ===== verification/Game_Collide.thy ===== *)
theory Game_Collide
  imports Game_Fight
begin

unbundle bit_operations_syntax

text \<open>
  The collisions, as a list of hits. \<open>struck w b a\<close> says that the bullet \<open>b\<close> is within the hit
  radius of the player \<open>a\<close>, which did not shoot it; \<open>hurt\<close> is what one hit does to a player. The
  loop of the system is shown to produce, in whatever order it visits the entities, a list of
  hits in which every bullet occurs at most once, and every entity is hurt once per hit on it.
\<close>

definition hit_radius_sq :: float32 where
  "hit_radius_sq = (let r = f32_add BulletRadius ActorRadius in f32_mul r r)"

definition struck :: "ShootingWorld \<Rightarrow> EntityID \<Rightarrow> EntityID \<Rightarrow> bool" where
  "struck w b a \<longleftrightarrow> b \<in> w_Entities w \<and> w_Tag w b = Some TagBullet \<and> a \<in> players w \<and> w_Owner w b \<noteq> Some a
     \<and> hits hit_radius_sq (pos_of w b) (pos_of w a)"

definition hurt :: "entity \<Rightarrow> entity" where
  "hurt e = (case en_Health e of
       None \<Rightarrow> e
     | Some h \<Rightarrow> if HP h \<le> BulletDamage
         then e\<lparr>en_Health := Some \<lparr>HP = 0\<rparr>, en_LifeState := Some \<lparr>ls_State = StateRespawning\<rparr>, en_Respawn := Some RespawnTicks\<rparr>
         else e\<lparr>en_Health := Some \<lparr>HP = HP h - BulletDamage\<rparr>\<rparr>)"

definition hp_of :: "entity \<Rightarrow> nat" where
  "hp_of e = (case en_Health e of None \<Rightarrow> 0 | Some h \<Rightarrow> unat (HP h))"

lemma hurt_frame [simp]: "en_Tag (hurt e) = en_Tag e" "en_Position (hurt e) = en_Position e" "en_Owner (hurt e) = en_Owner e"
    "en_Session (hurt e) = en_Session e" "en_TTL (hurt e) = en_TTL e" "en_Velocity (hurt e) = en_Velocity e"
    "en_Cooldown (hurt e) = en_Cooldown e"
  by (simp_all add: hurt_def split: option.splits)

lemma hurt_player:
  assumes "player_ok e" "player_alive e"
  shows "player_ok (hurt e)" "hp_of (hurt e) + 20 = hp_of e" "player_alive (hurt e) \<longleftrightarrow> 0 < hp_of (hurt e)"
proof -
  obtain hp where hp: "en_Health e = Some \<lparr>HP = hp\<rparr>" "hp \<in> {20, 40, 60, 80, 100}"
    using assms(2) by (auto simp: player_alive_def)
  have "player_ok (hurt e) \<and> hp_of (hurt e) + 20 = hp_of e \<and> (player_alive (hurt e) \<longleftrightarrow> 0 < hp_of (hurt e))"
    using hp(2)
  proof (elim insertE emptyE)
    assume "hp = 20"
    then show ?thesis
      using assms hp(1) by (simp add: player_ok_def player_dead_def player_alive_def hurt_def hp_of_def BulletDamage_def RespawnTicks_def)
  qed (use assms hp(1) in \<open>simp_all add: player_ok_def player_alive_def hurt_def hp_of_def BulletDamage_def\<close>)
  then show "player_ok (hurt e)" "hp_of (hurt e) + 20 = hp_of e" "player_alive (hurt e) \<longleftrightarrow> 0 < hp_of (hurt e)"
    by blast+
qed

subsection \<open>One hit\<close>

lemma damage_frame [simp]:
  "frame (damage a w) = frame w" "w_Entities (damage a w) = w_Entities w" "w_Tag (damage a w) = w_Tag w"
  "w_rands (damage a w) = w_rands w" "w_orders (damage a w) = w_orders w" "w_Owner (damage a w) = w_Owner w"
  "w_Position (damage a w) = w_Position w" "players (damage a w) = players w" "struck (damage a w) = struck w"
  by (simp_all add: damage_def frame_def Let_def players_def struck_def fun_eq_iff)

lemma view_damage:
  assumes "player_ok (view w a)" "player_alive (view w a)"
  shows "view (damage a w) = (view w)(a := hurt (view w a))"
proof -
  have "w_LifeState w a = Some \<lparr>ls_State = StateAlive\<rparr>" using assms(2) by (simp add: player_alive_def)
  moreover obtain hp where "w_Health w a = Some \<lparr>HP = hp\<rparr>" using assms(2) by (auto simp: player_alive_def)
  ultimately show ?thesis by (simp add: damage_def hurt_def view_def Let_def at_def fun_eq_iff)
qed

lemma damage_inv:
  assumes inv: "world_inv lo w" and a: "has_state StateAlive w a"
  shows "world_inv lo (damage a w)" "view (damage a w) = (view w)(a := hurt (view w a))"
proof -
  have e: "entities_ok lo w" using inv by (simp add: world_inv_def)
  note p = alive_player [OF e a]
  show v: "view (damage a w) = (view w)(a := hurt (view w a))" by (rule view_damage [OF p(2,3)])
  show "world_inv lo (damage a w)"
  proof (rule world_inv_frame [OF inv])
    show "(player_ok (view (damage a w) j) \<or> bullet_ok lo (view (damage a w) j))
        \<and> en_Session (view (damage a w) j) = en_Session (view w j)"
      if "j \<in> w_Entities w" "player_ok (view w j) \<or> bullet_ok lo (view w j)" for j
      using that hurt_player(1) [OF p(2,3)] unfolding v by (auto simp del: view_sel)
    show "view (damage a w) j = view w j" if "j \<notin> w_Entities w" for j
      using that p(1) unfolding v by auto
  qed (use inv in \<open>simp_all add: world_inv_def\<close>)
qed

lemma hit_loop_spec:
  assumes "hit_loop r2 p ownr ids w = (w', h)"
  defines "target \<equiv> \<lambda>a. a \<in> w_Entities w \<and> is_actor_tag (tag_of w a) \<and> a \<noteq> ownr \<and> has_state StateAlive w a \<and> hits r2 p (pos_of w a)"
  shows "if h then \<exists>a \<in> set ids. target a \<and> w' = damage a w else w' = w \<and> (\<forall>a \<in> set ids. \<not> target a)"
  using assms(1)
proof (induction ids)
  case (Cons a ids)
  then show ?case unfolding target_def by (auto split: if_splits)
qed auto

subsection \<open>All hits\<close>

definition hits_on :: "(EntityID \<times> EntityID) list \<Rightarrow> EntityID \<Rightarrow> nat" where
  "hits_on hs i = length (filter (\<lambda>(b, a). a = i) hs)"

lemma hits_on_Cons [simp]: "hits_on ((b, a) # hs) i = (if a = i then Suc (hits_on hs i) else hits_on hs i)"
    "hits_on [] i = 0"
  by (simp_all add: hits_on_def)

text \<open>
  \<open>hurt_by\<close>: every entity is hurt once per hit on it, and no hit is wasted. \<open>spared\<close>: a bullet
  without a hit is near no player that is still alive.
\<close>

definition hurt_by :: "(EntityID \<times> EntityID) list \<Rightarrow> ShootingWorld \<Rightarrow> ShootingWorld \<Rightarrow> bool" where
  "hurt_by hs w w' \<longleftrightarrow> (\<forall>i. view w' i = (hurt ^^ hits_on hs i) (view w i)
     \<and> hp_of (view w' i) + 20 * hits_on hs i = hp_of (view w i))"

definition spared :: "EntityID list \<Rightarrow> (EntityID \<times> EntityID) list \<Rightarrow> ShootingWorld \<Rightarrow> ShootingWorld \<Rightarrow> bool" where
  "spared ids hs w w' \<longleftrightarrow>
     (\<forall>b a. b \<in> set ids \<longrightarrow> b \<notin> set (map fst hs) \<longrightarrow> struck w b a \<longrightarrow> hp_of (view w' a) = 0)"

text \<open>\<open>hit_list ids w hs w'\<close>: visiting the bullets \<open>ids\<close> makes the hits \<open>hs\<close> and turns \<open>w\<close> into \<open>w'\<close>.\<close>

definition hit_list :: "EntityID list \<Rightarrow> ShootingWorld \<Rightarrow> (EntityID \<times> EntityID) list \<Rightarrow> ShootingWorld \<Rightarrow> bool" where
  "hit_list ids w hs w' \<longleftrightarrow> world_inv 0 w' \<and> frame w' = frame w \<and> w_Entities w' = w_Entities w \<and> struck w' = struck w
     \<and> players w' = players w
     \<and> distinct (map fst hs) \<and> set (map fst hs) \<subseteq> set ids \<and> (\<forall>(b, a) \<in> set hs. struck w b a)
     \<and> hurt_by hs w w' \<and> spared ids hs w w'"

lemma hit_list_refl: "world_inv 0 w \<Longrightarrow> hit_list [] w [] w"
  by (simp add: hit_list_def hurt_by_def spared_def)

lemma skip_struck [simp]: "struck (skip_order w) = struck w" "players (skip_order w) = players w"
    "has_state st (skip_order w) i = has_state st w i"
proof -
  have "w_Owner (skip_order w) = w_Owner w" by (simp add: skip_order_def)
  then show "struck (skip_order w) = struck w" by (simp add: struck_def players_def fun_eq_iff)
qed (simp_all add: players_def has_state_def)

lemma hit_list_skip [simp]: "hit_list ids (skip_order w) hs w' = hit_list ids w hs w'"
  by (simp add: hit_list_def hurt_by_def spared_def)

text \<open>A bullet in front of the list: it hits nobody, or one living player.\<close>

lemma alive_iff_hp:
  assumes "player_ok e"
  shows "player_alive e \<longleftrightarrow> 0 < hp_of e"
  using assms by (auto simp: player_ok_def player_alive_def player_dead_def hp_of_def)

lemma alive_has_state:
  assumes "world_inv lo w" "a \<in> players w"
  shows "has_state StateAlive w a \<longleftrightarrow> 0 < hp_of (view w a)"
proof -
  have e: "entities_ok lo w" using assms(1) by (simp add: world_inv_def)
  have pl: "player_ok (view w a)"
    using e assms(2) by (cases rule: entity_cases [of _ _ a]) (auto simp: players_def bullet_ok_def)
  have "has_state StateAlive w a \<longleftrightarrow> player_alive (view w a)"
    using alive_player(3) [OF e, of a] by (auto simp: has_state_def player_alive_def)
  then show ?thesis by (simp only: alive_iff_hp [OF pl])
qed

lemma hit_list_miss:
  assumes "hit_list ids w hs w'" "b \<notin> set ids" "\<And>a. struck w b a \<Longrightarrow> hp_of (view w a) = 0"
  shows "hit_list (b # ids) w hs w'"
proof -
  have "spared (b # ids) hs w w'"
    unfolding spared_def
  proof (intro allI impI)
    fix c a assume c: "c \<in> set (b # ids)" "c \<notin> set (map fst hs)" "struck w c a"
    show "hp_of (view w' a) = 0"
    proof (cases "c = b")
      case True
      have "hp_of (view w' a) + 20 * hits_on hs a = hp_of (view w a)"
        using assms(1) unfolding hit_list_def hurt_by_def by blast
      with assms(3) [of a] c(3) True show ?thesis by simp
    next
      case False
      then have "c \<in> set ids" using c(1) by simp
      with assms(1) c(2,3) show ?thesis unfolding hit_list_def spared_def by blast
    qed
  qed
  with assms(1) show ?thesis unfolding hit_list_def by auto
qed

lemma hit_list_hit:
  assumes inv: "world_inv 0 w" and rest: "hit_list ids (damage a w) hs w'" and b: "b \<notin> set ids"
    and hit: "struck w b a" "has_state StateAlive w a"
  shows "hit_list (b # ids) w ((b, a) # hs) w'"
proof -
  note d = damage_inv [OF inv hit(2)]
  have e: "entities_ok 0 w" using inv by (simp add: world_inv_def)
  note p = alive_player [OF e hit(2)]
  have v: "view (damage a w) i = (if i = a then hurt (view w a) else view w i)" for i by (simp add: d(2))
  have "hurt_by ((b, a) # hs) w w'"
    unfolding hurt_by_def
  proof
    fix i
    have "view w' i = (hurt ^^ hits_on hs i) (view (damage a w) i)"
      "hp_of (view w' i) + 20 * hits_on hs i = hp_of (view (damage a w) i)"
      using rest unfolding hit_list_def hurt_by_def by blast+
    then show "view w' i = (hurt ^^ hits_on ((b, a) # hs) i) (view w i)
      \<and> hp_of (view w' i) + 20 * hits_on ((b, a) # hs) i = hp_of (view w i)"
      using hurt_player(2) [OF p(2,3)] unfolding v by (auto simp: funpow_swap1)
  qed
  moreover have "spared (b # ids) ((b, a) # hs) w w'"
    using rest unfolding hit_list_def spared_def by auto
  moreover have "b \<notin> set (map fst hs)" using rest b unfolding hit_list_def by blast
  ultimately show ?thesis using rest hit(1) unfolding hit_list_def by auto
qed

text \<open>The loop makes a list of hits, whatever the orders.\<close>

lemma bullet_visit:
  assumes inv: "world_inv 0 w" and b: "b \<in> w_Entities w" "w_Tag w b = Some TagBullet"
    and loop: "hit_loop hit_radius_sq (pos_of w b) (at (w_Owner w) 0 b) (range_keys (w_Entities w) (w_orders w 0)) (skip_order w) = (w', h)"
  shows "if h then \<exists>a. struck w b a \<and> has_state StateAlive w a \<and> w' = damage a (skip_order w)
    else w' = skip_order w \<and> (\<forall>a. struck w b a \<longrightarrow> hp_of (view w a) = 0)"
proof -
  have e: "entities_ok 0 w" using inv by (simp add: world_inv_def)
  obtain ownr where ownr: "w_Owner w b = Some ownr"
    using e b by (cases rule: entity_cases [of _ _ b]) (auto simp: bullet_ok_def player_ok_def)
  then have o: "at (w_Owner w) 0 b = ownr" by (simp add: at_def)
  let ?target = "\<lambda>a. a \<in> w_Entities w \<and> is_actor_tag (tag_of w a) \<and> a \<noteq> ownr \<and> has_state StateAlive w a
    \<and> hits hit_radius_sq (pos_of w b) (pos_of w a)"
  have spec: "if h then \<exists>a \<in> set (range_keys (w_Entities w) (w_orders w 0)). ?target a \<and> w' = damage a (skip_order w)
      else w' = skip_order w \<and> (\<forall>a \<in> set (range_keys (w_Entities w) (w_orders w 0)). \<not> ?target a)"
    using hit_loop_spec [OF loop] unfolding o by (simp only: skip_order_parts skip_struck)
  have st: "?target a \<longleftrightarrow> struck w b a \<and> has_state StateAlive w a" for a
    using b ownr actor_tag_player [OF e, of a] by (auto simp: struck_def players_def)
  show ?thesis
  proof (cases h)
    case True
    with spec st show ?thesis by auto
  next
    case False
    have "hp_of (view w a) = 0" if "struck w b a" for a
    proof -
      have a: "a \<in> players w" "a \<in> set (range_keys (w_Entities w) (w_orders w 0))"
        using that range_keys(2) [of "w_Entities w"] by (auto simp: struck_def players_def)
      then have "\<not> has_state StateAlive w a" using spec False st that by auto
      with alive_has_state [OF inv a(1)] show ?thesis by simp
    qed
    with spec False show ?thesis by simp
  qed
qed

lemma collision_loop_hits:
  assumes "world_inv 0 w" "distinct ids"
  shows "\<exists>hs w'. collision_loop hit_radius_sq ids (w, rs) = (w', rs @ map fst hs) \<and> hit_list ids w hs w'"
  using assms
proof (induction ids arbitrary: w rs)
  case Nil
  then show ?case using hit_list_refl by (intro exI [of _ "[]"]) simp
next
  case (Cons b ids)
  then have b: "b \<notin> set ids" by simp
  show ?case
  proof (cases "b \<in> w_Entities w \<and> w_Tag w b = Some TagBullet")
    case False
    obtain hs w' where "collision_loop hit_radius_sq ids (w, rs) = (w', rs @ map fst hs)" "hit_list ids w hs w'"
      using Cons.IH [OF Cons.prems(1), of rs] Cons.prems(2) by auto
    moreover have "hit_list (b # ids) w hs w'"
      using False by (intro hit_list_miss [OF \<open>hit_list ids w hs w'\<close> b]) (auto simp: struck_def)
    moreover have "collision_loop hit_radius_sq (b # ids) (w, rs) = collision_loop hit_radius_sq ids (w, rs)"
      using False tag_of_bullet [of w b] by auto
    ultimately show ?thesis by auto
  next
    case True
    define ks where "ks = range_keys (w_Entities w) (w_orders w 0)"
    obtain w1 h where loop: "hit_loop hit_radius_sq (pos_of w b) (at (w_Owner w) 0 b) ks (skip_order w) = (w1, h)"
      by fastforce
    have nxt: "next_order w = (ks, skip_order w)" by (simp add: next_order_def ks_def skip_order_def)
    have step: "collision_loop hit_radius_sq (b # ids) (w, rs) = collision_loop hit_radius_sq ids (w1, if h then rs @ [b] else rs)"
      using True tag_of_bullet [of w b] loop skip_order_parts(7) [of w]
      by (simp add: nxt) (simp add: skip_order_def)
    note visit = bullet_visit [OF Cons.prems(1) conjunct1 [OF True] conjunct2 [OF True] loop [unfolded ks_def]]
    have sk: "world_inv 0 (skip_order w)" using Cons.prems(1) by simp
    show ?thesis
    proof (cases h)
      case h: True
      then obtain a where a: "struck w b a" "has_state StateAlive w a" "w1 = damage a (skip_order w)" using visit by auto
      have "world_inv 0 w1" unfolding a(3) using a(2) by (intro damage_inv(1) [OF sk]) simp
      then obtain hs w' where IH: "collision_loop hit_radius_sq ids (w1, rs @ [b]) = (w', (rs @ [b]) @ map fst hs)" "hit_list ids w1 hs w'"
        using Cons.IH [of w1 "rs @ [b]"] Cons.prems(2) by auto
      have "hit_list (b # ids) (skip_order w) ((b, a) # hs) w'"
        using hit_list_hit [OF sk IH(2) [unfolded a(3)] b] a(1,2) by simp
      with IH(1) h step show ?thesis by (intro exI [of _ "(b, a) # hs"]) auto
    next
      case h: False
      with visit have w1: "w1 = skip_order w" "\<And>a. struck w b a \<Longrightarrow> hp_of (view w a) = 0" by auto
      obtain hs w' where IH: "collision_loop hit_radius_sq ids (w1, rs) = (w', rs @ map fst hs)" "hit_list ids w1 hs w'"
        using Cons.IH [of w1 rs] Cons.prems(2) sk w1(1) by auto
      have "hit_list (b # ids) w hs w'" using IH(2) b w1 by (intro hit_list_miss) auto
      with IH(1) h step show ?thesis by auto
    qed
  qed
qed

subsection \<open>Removal\<close>

lemma RemoveEntity_inv:
  assumes "world_inv lo w"
  shows "world_inv lo (RemoveEntity i w)"
proof -
  have "sessions_ok (RemoveEntity i w)"
    unfolding sessions_ok_def
  proof (intro allI impI)
    fix s j assume s: "w_SessionToEntity (RemoveEntity i w) s = Some j"
    then have j: "w_SessionToEntity w s = Some j" by (auto simp: RemoveEntity_frame split: option.splits if_splits)
    then have e: "w_EntityToSession w j = Some s" using assms by (simp add: world_inv_def sessions_ok_def)
    have "j \<noteq> i" using s e by (auto simp: RemoveEntity_frame)
    then have "view (RemoveEntity i w) j = view w j" by (simp add: view_RemoveEntity)
    with e show "w_EntityToSession (RemoveEntity i w) j = Some s" by (metis view_sel(10))
  qed
  moreover have "entities_ok lo (RemoveEntity i w)"
    using assms by (simp add: world_inv_def entities_ok_def view_RemoveEntity RemoveEntity_frame)
  ultimately show ?thesis
    using assms by (simp add: world_inv_def ids_ok_def RemoveEntity_frame)
qed

lemma fold_Remove:
  "view (fold RemoveEntity ids w) = (\<lambda>i. if i \<in> set ids then no_entity else view w i)"
  "w_Entities (fold RemoveEntity ids w) = w_Entities w - set ids"
  "w_NextEntityID (fold RemoveEntity ids w) = w_NextEntityID w"
  "w_PendingInputs (fold RemoveEntity ids w) = w_PendingInputs w"
  "world_inv lo w \<Longrightarrow> world_inv lo (fold RemoveEntity ids w)"
  by (induction ids arbitrary: w) (auto simp: view_RemoveEntity RemoveEntity_frame RemoveEntity_inv fun_eq_iff)

text \<open>Removing entities without a session keeps the sessions.\<close>

lemma fold_Remove_sessions:
  "(\<And>i. i \<in> set ids \<Longrightarrow> w_EntityToSession w i = None) \<Longrightarrow> w_SessionToEntity (fold RemoveEntity ids w) = w_SessionToEntity w"
proof (induction ids arbitrary: w)
  case (Cons i ids)
  have "en_Session (view (RemoveEntity i w) j) = None" if "j \<in> set ids" for j
    using Cons.prems [of j] that by (simp add: view_RemoveEntity del: view_sel) simp
  then have "w_SessionToEntity (fold RemoveEntity ids (RemoveEntity i w)) = w_SessionToEntity (RemoveEntity i w)"
    by (intro Cons.IH) simp
  then show ?case using Cons.prems [of i] by (simp add: RemoveEntity_frame)
qed simp

end
