(* ===== verification/Game_Tick.thy ===== *)
theory Game_Tick
  imports Game_Collide
begin

unbundle bit_operations_syntax

text \<open>
  A whole tick: the invariant of the reachable games, and the fate of a single entity through
  the systems (\<open>tick_player\<close>, \<open>tick_dead\<close>, \<open>tick_bullet\<close>).
\<close>

subsection \<open>Collisions and clean-up\<close>

lemma collision_Run_hits:
  assumes "world_inv 0 w"
  shows "\<exists>hs w'. hit_list (range_keys (w_Entities w) (w_orders w 0)) w hs w' \<and> collision_Run w = fold RemoveEntity (map fst hs) w'"
proof -
  have nxt: "next_order w = (range_keys (w_Entities w) (w_orders w 0), skip_order w)"
    by (simp add: next_order_def skip_order_def)
  obtain hs w' where "collision_loop hit_radius_sq (range_keys (w_Entities w) (w_orders w 0)) (skip_order w, []) = (w', [] @ map fst hs)"
    "hit_list (range_keys (w_Entities w) (w_orders w 0)) (skip_order w) hs w'"
    using collision_loop_hits [of "skip_order w" "range_keys (w_Entities w) (w_orders w 0)" "[]"] assms range_keys(1) by auto
  then show ?thesis
    by (intro exI [of _ hs] exI [of _ w']) (simp add: collision_Run_def nxt hit_radius_sq_def Let_def)
qed

text \<open>
  C31: The damage of a tick is a list of hits, whatever order the entities are visited in: every
  bullet hits at most once, and only a player that did not shoot it and is within the hit
  radius; a bullet that hit is removed; every player loses 20 points per hit and never more hits
  than it has points left, and dies with the hit that takes the last point; and a
  bullet that was removed by no hit is within the radius of no other player that is still alive.
\<close>

theorem collision_exact:
  assumes "world_inv 0 w"
  shows "\<exists>hs. distinct (map fst hs) \<and> (\<forall>(b, a) \<in> set hs. struck w b a)
    \<and> w_Entities (collision_Run w) = w_Entities w - set (map fst hs)
    \<and> (\<forall>i \<in> w_Entities (collision_Run w). view (collision_Run w) i = (hurt ^^ hits_on hs i) (view w i)
         \<and> hp_of (view (collision_Run w) i) + 20 * hits_on hs i = hp_of (view w i))
    \<and> (\<forall>b a. b \<in> w_Entities (collision_Run w) \<longrightarrow> struck w b a \<longrightarrow> hp_of (view (collision_Run w) a) = 0)"
proof -
  obtain hs w' where h: "hit_list (range_keys (w_Entities w) (w_orders w 0)) w hs w'"
    "collision_Run w = fold RemoveEntity (map fst hs) w'" using collision_Run_hits [OF assms] by blast
  have ent: "w_Entities (collision_Run w) = w_Entities w - set (map fst hs)"
    using h(1) unfolding h(2) fold_Remove hit_list_def by simp
  have vw: "view (collision_Run w) i = (if i \<in> set (map fst hs) then no_entity else view w' i)" for i
    unfolding h(2) fold_Remove ..
  have own: "view (collision_Run w) i = (hurt ^^ hits_on hs i) (view w i)
         \<and> hp_of (view (collision_Run w) i) + 20 * hits_on hs i = hp_of (view w i)" if "i \<in> w_Entities (collision_Run w)" for i
  proof -
    have "view (collision_Run w) i = view w' i" unfolding vw using that ent by simp
    with h(1) show ?thesis unfolding hit_list_def hurt_by_def by metis
  qed
  have free: "hp_of (view (collision_Run w) a) = 0" if b: "b \<in> w_Entities (collision_Run w)" "struck w b a" for b a
  proof -
    have "b \<in> set (range_keys (w_Entities w) (w_orders w 0))" "b \<notin> set (map fst hs)"
      using b(1) ent range_keys(2) [of "w_Entities w"] by auto
    with h(1) b(2) have "hp_of (view w' a) = 0" unfolding hit_list_def spared_def by blast
    then show ?thesis unfolding vw by (simp add: hp_of_def)
  qed
  have d: "distinct (map fst hs) \<and> (\<forall>(b, a) \<in> set hs. struck w b a)" using h(1) unfolding hit_list_def by blast
  show ?thesis using d ent own free by (intro exI [of _ hs]) blast
qed

lemma hurt_funpow_frame: "en_Tag ((hurt ^^ n) e) = en_Tag e" "en_Session ((hurt ^^ n) e) = en_Session e"
  "en_TTL ((hurt ^^ n) e) = en_TTL e"
  by (induction n) simp_all

lemma player_bullet: "player_ok e \<Longrightarrow> \<not> bullet_ok lo e"
  by (auto simp: player_ok_def bullet_ok_def)

lemma bullet_no_session: "world_inv lo w \<Longrightarrow> w_Tag w b = Some TagBullet \<Longrightarrow> w_EntityToSession w b = None"
  unfolding world_inv_def
  by (elim conjE, erule entity_cases [of lo w b]) (auto simp: player_ok_def bullet_ok_def no_entity_def view_def)

lemma collision_Run_inv:
  assumes "world_inv 0 w"
  shows "world_inv 0 (collision_Run w)" "players (collision_Run w) = players w"
    "w_NextEntityID (collision_Run w) = w_NextEntityID w" "w_SessionToEntity (collision_Run w) = w_SessionToEntity w"
    "w_PendingInputs (collision_Run w) = w_PendingInputs w" "w_Entities (collision_Run w) \<subseteq> w_Entities w"
proof -
  obtain hs w' where h: "hit_list (range_keys (w_Entities w) (w_orders w 0)) w hs w'"
    "collision_Run w = fold RemoveEntity (map fst hs) w'" using collision_Run_hits [OF assms] by blast
  have inv: "world_inv 0 w'" and fr: "frame w' = frame w" "w_Entities w' = w_Entities w" "players w' = players w"
    using h(1) unfolding hit_list_def by blast+
  have tag: "w_Tag w' i = w_Tag w i" "w_EntityToSession w' i = w_EntityToSession w i" for i
  proof -
    have "view w' i = (hurt ^^ hits_on hs i) (view w i)" using h(1) unfolding hit_list_def hurt_by_def by blast
    then show "w_Tag w' i = w_Tag w i" "w_EntityToSession w' i = w_EntityToSession w i"
      using hurt_funpow_frame [of "hits_on hs i" "view w i"] view_sel by metis+
  qed
  have bs: "w_Tag w b = Some TagBullet" if "b \<in> set (map fst hs)" for b
    using that h(1) unfolding hit_list_def struck_def by auto
  show "world_inv 0 (collision_Run w)" unfolding h(2) by (rule fold_Remove(5) [OF inv])
  show "w_NextEntityID (collision_Run w) = w_NextEntityID w" "w_PendingInputs (collision_Run w) = w_PendingInputs w"
    "w_Entities (collision_Run w) \<subseteq> w_Entities w"
    unfolding h(2) fold_Remove using frameD [OF fr(1)] fr(2) by auto
  show "w_SessionToEntity (collision_Run w) = w_SessionToEntity w"
    unfolding h(2) using frameD [OF fr(1)] bullet_no_session [OF assms bs] tag(2)
    by (subst fold_Remove_sessions) auto
  have "en_Tag (view (collision_Run w) i) = (if i \<in> set (map fst hs) then None else w_Tag w i)" for i
    unfolding h(2) fold_Remove by (simp add: tag)
  then show "players (collision_Run w) = players w"
    unfolding players_view [of "collision_Run w"] unfolding h(2) fold_Remove(2) using bs fr(2) by (auto simp: players_def simp del: set_map)
qed

lemma cleanup_Run_eq:
  "\<exists>ids. cleanup_Run w = fold RemoveEntity ids (skip_order w)
     \<and> set ids = {i \<in> w_Entities w. w_Tag w i = Some TagBullet \<and> at (w_TTL w) 0 i = 0}"
proof -
  define ids where "ids = filter (\<lambda>i. i \<in> w_Entities w \<and> tag_of w i = TagBullet \<and> at (w_TTL w) 0 i = 0) (range_keys (w_Entities w) (w_orders w 0))"
  have "cleanup_Run w = fold RemoveEntity ids (skip_order w)"
    by (simp add: cleanup_Run_def next_order_def skip_order_def ids_def Let_def)
  moreover have "set ids = {i \<in> w_Entities w. w_Tag w i = Some TagBullet \<and> at (w_TTL w) 0 i = 0}"
    using range_keys(2) [of "w_Entities w" "w_orders w 0"] tag_of_bullet [of w] by (auto simp: ids_def)
  ultimately show ?thesis by blast
qed

lemma cleanup_Run_inv:
  assumes "world_inv 0 w"
  defines "gone \<equiv> {i \<in> w_Entities w. w_Tag w i = Some TagBullet \<and> w_TTL w i = Some 0}"
  shows "world_inv 1 (cleanup_Run w)" "players (cleanup_Run w) = players w"
    "w_NextEntityID (cleanup_Run w) = w_NextEntityID w" "w_SessionToEntity (cleanup_Run w) = w_SessionToEntity w"
    "w_PendingInputs (cleanup_Run w) = w_PendingInputs w" "w_Entities (cleanup_Run w) = w_Entities w - gone"
    "view (cleanup_Run w) i = (if i \<in> gone then no_entity else view w i)"
proof -
  obtain ids where ids: "cleanup_Run w = fold RemoveEntity ids (skip_order w)"
    "set ids = {i \<in> w_Entities w. w_Tag w i = Some TagBullet \<and> at (w_TTL w) 0 i = 0}" using cleanup_Run_eq by blast
  have e: "entities_ok 0 w" using assms(1) by (simp add: world_inv_def)
  have "w_TTL w i \<noteq> None" if "i \<in> w_Entities w" "w_Tag w i = Some TagBullet" for i
    using e that by (cases rule: entity_cases [of _ _ i]) (auto simp: player_ok_def bullet_ok_def)
  then have gone: "set ids = gone" unfolding ids(2) gone_def by (auto simp: at_def split: option.splits)
  show fr: "w_NextEntityID (cleanup_Run w) = w_NextEntityID w" "w_PendingInputs (cleanup_Run w) = w_PendingInputs w"
    "w_Entities (cleanup_Run w) = w_Entities w - gone"
    "view (cleanup_Run w) i = (if i \<in> gone then no_entity else view w i)" for i
    unfolding ids(1) fold_Remove gone by simp_all
  show "w_SessionToEntity (cleanup_Run w) = w_SessionToEntity w"
  proof -
    have "w_EntityToSession (skip_order w) i = None" if "i \<in> set ids" for i
      using bullet_no_session [OF assms(1), of i] that gone by (simp add: gone_def skip_order_def)
    then show ?thesis unfolding ids(1) by (subst fold_Remove_sessions) simp_all
  qed
  show "players (cleanup_Run w) = players w"
    unfolding players_view fr by (auto simp: gone_def)
  have "world_inv 0 (cleanup_Run w)" unfolding ids(1) using assms(1) by (intro fold_Remove(5)) simp
  moreover have "entities_ok 1 (cleanup_Run w)"
    unfolding entities_ok_def
  proof
    fix i
    show "if i \<in> w_Entities (cleanup_Run w) then player_ok (view (cleanup_Run w) i) \<or> bullet_ok 1 (view (cleanup_Run w) i)
      else view (cleanup_Run w) i = no_entity"
      using e
    proof (cases rule: entity_cases [of _ _ i])
      case bullet
      then obtain t where t: "w_TTL w i = Some t" by (auto simp: bullet_ok_def)
      have "t \<noteq> 0 \<Longrightarrow> 1 \<le> t" by (simp add: word_le_nat_alt unat_gt_0 Suc_le_eq)
      with bullet t show ?thesis unfolding fr by (auto simp: gone_def bullet_ok_def)
    qed (auto simp: fr gone_def player_ok_def)
  qed
  ultimately show "world_inv 1 (cleanup_Run w)" by (simp add: world_inv_def)
qed

subsection \<open>The invariant of reachable games\<close>

lemma rel_tags: "respawn_rel e e' \<Longrightarrow> en_Tag e' = en_Tag e" "bullet_rel e e' \<Longrightarrow> en_Tag e' = en_Tag e"
  by (auto simp: respawn_rel_def bullet_rel_def Let_def split: option.splits if_splits)

lemma players_respawn:
  assumes "world_inv lo w"
  shows "players (respawn_Run w) = players w"
proof -
  have "en_Tag (view (respawn_Run w) i) = en_Tag (view w i)" if "i \<in> w_Entities w" for i
    by (rule rel_tags(1) [OF respawn_Run_spec(3) [OF assms that]])
  then show ?thesis unfolding players_view respawn_Run_spec(2) [OF assms] by auto
qed

lemma players_bullets:
  assumes "world_inv 1 w"
  shows "players (bullet_Run w) = players w"
proof -
  have "en_Tag (view (bullet_Run w) i) = en_Tag (view w i)" if "i \<in> w_Entities w" for i
    by (rule rel_tags(2) [OF bullet_Run_spec(3) [OF assms that]])
  then show ?thesis unfolding players_view bullet_Run_spec(2) [OF assms] by auto
qed

text \<open>The six systems in a row, with what holds between them.\<close>

lemma tick_stages:
  assumes inv: "world_inv 1 w" and left: "unat (w_NextEntityID w) + card (players w) < 2 ^ 16"
  obtains w1 w2 w3 w4 w5 where
    "w1 = respawn_Run w" "w2 = input_Run w1" "w3 = shoot_Run w2" "w4 = bullet_Run w3" "w5 = collision_Run w4"
    "world_tick w = cleanup_Run w5"
    "world_inv 1 w1" "world_inv 1 w2" "world_inv 1 w3" "world_inv 0 w4" "world_inv 0 w5"
    "w_Entities w1 = w_Entities w" "w_Entities w2 = w_Entities w" "w_Entities w4 = w_Entities w3"
    "players w2 = players w" "players w5 = players w" "frame w1 = frame w" "frame w4 = frame w3"
    "unat (w_NextEntityID w2) + card (players w2) < 2 ^ 16" "grows (card (players w)) w2 w3"
    "w_SessionToEntity w2 = w_SessionToEntity w" "w_NextEntityID w2 = w_NextEntityID w"
proof -
  define w1 where "w1 = respawn_Run w"
  define w2 where "w2 = input_Run w1"
  define w3 where "w3 = shoot_Run w2"
  define w4 where "w4 = bullet_Run w3"
  define w5 where "w5 = collision_Run w4"
  note r = respawn_Run_spec [OF inv, folded w1_def]
  note i = input_Run_spec [OF r(4), folded w2_def]
  have p2: "players w2 = players w" using players_respawn [OF inv] i(2,3) by (simp add: players_def w1_def)
  have n2: "w_NextEntityID w2 = w_NextEntityID w" "w_SessionToEntity w2 = w_SessionToEntity w" "w_Entities w2 = w_Entities w"
    using i frameD [OF r(1)] r(2) by simp_all
  have left2: "unat (w_NextEntityID w2) + card (players w2) < 2 ^ 16" using left p2 n2 by simp
  have g: "grows (card (players w)) w2 w3" using shoot_Run_grows [OF i(1) left2] unfolding p2 w3_def .
  then have inv3: "world_inv 1 w3" by (simp add: grows_def)
  note b = bullet_Run_spec [OF inv3, folded w4_def]
  note c = collision_Run_inv [OF b(4), folded w5_def]
  have p5: "players w5 = players w" using c(2) players_bullets [OF inv3] g p2 by (simp add: grows_def w4_def)
  show thesis
    by (rule that [of w1 w2 w3 w4 w5])
      (use r i p2 n2 left2 g inv3 b c p5 in \<open>simp_all add: w1_def w2_def w3_def w4_def w5_def world_tick_def\<close>)
qed

lemma world_tick_grows:
  assumes inv: "world_inv 1 w" and left: "unat (w_NextEntityID w) + card (players w) < 2 ^ 16"
  shows "world_inv 1 (world_tick w) \<and> players (world_tick w) = players w
    \<and> unat (w_NextEntityID (world_tick w)) \<le> unat (w_NextEntityID w) + card (players w)
    \<and> w_SessionToEntity (world_tick w) = w_SessionToEntity w \<and> w_PendingInputs (world_tick w) = []
    \<and> w_NextEntityID w \<le> w_NextEntityID (world_tick w)
    \<and> w_Entities (world_tick w) \<subseteq> w_Entities w \<union> {i. w_NextEntityID w < i}"
proof -
  obtain w1 w2 w3 w4 w5 where s:
    "w1 = respawn_Run w" "w2 = input_Run w1" "w3 = shoot_Run w2" "w4 = bullet_Run w3" "w5 = collision_Run w4"
    "world_tick w = cleanup_Run w5"
    "world_inv 1 w1" "world_inv 1 w2" "world_inv 1 w3" "world_inv 0 w4" "world_inv 0 w5"
    "w_Entities w1 = w_Entities w" "w_Entities w2 = w_Entities w" "w_Entities w4 = w_Entities w3"
    "players w2 = players w" "players w5 = players w" "frame w1 = frame w" "frame w4 = frame w3"
    "unat (w_NextEntityID w2) + card (players w2) < 2 ^ 16" "grows (card (players w)) w2 w3"
    "w_SessionToEntity w2 = w_SessionToEntity w" "w_NextEntityID w2 = w_NextEntityID w"
    by (rule tick_stages [OF assms])
  note c = collision_Run_inv [OF s(10), folded s(5)] and k = cleanup_Run_inv [OF s(11)]
  have "w_PendingInputs w2 = []" using input_Run_spec(5) [OF s(7)] s(2) by simp
  then show ?thesis
    unfolding s(6) using s(13-16,20-22) k(1-6) c frameD [OF s(18)] by (auto simp: grows_def)
qed

lemma in_field_players: "in_box (f32_ratio 5 1) (f32_ratio 95 1) p \<Longrightarrow>
  player_ok (no_entity\<lparr>en_Position := Some p, en_Health := Some \<lparr>HP = 100\<rparr>, en_LifeState := Some \<lparr>ls_State = StateAlive\<rparr>,
     en_Tag := Some TagPlayer, en_Cooldown := Some 0, en_Session := Some s\<rparr>)"
  using spawn_box by (simp add: player_ok_def player_alive_def ShootCooldown_def)

lemma join_inv:
  assumes inv: "world_inv lo w" and left: "unat (w_NextEntityID w) + 1 < 2 ^ 16"
  shows "world_inv lo (snd (SpawnActor s TagPlayer w))"
proof (rule spawn_inv [OF inv left])
  have "ids_ok w" using inv by (simp add: world_inv_def)
  then have n: "view w (w_NextEntityID w + 1) = no_entity"
    using inv fresh_id(1) [OF _ left] by (auto simp: world_inv_def entities_ok_def)
  let ?e = "no_entity\<lparr>en_Position := Some (fst (randomPosition w)), en_Health := Some \<lparr>HP = 100\<rparr>,
     en_LifeState := Some \<lparr>ls_State = StateAlive\<rparr>, en_Tag := Some TagPlayer, en_Cooldown := Some 0, en_Session := Some s\<rparr>"
  show "view (snd (SpawnActor s TagPlayer w)) = (view w)(w_NextEntityID w + 1 := ?e)" by (simp add: view_SpawnActor n)
  show "player_ok ?e \<or> bullet_ok lo ?e"
    using in_field_players [OF random_position_box] inv by (simp add: world_inv_def)
qed (use inv in \<open>auto simp: SpawnActor_frame world_inv_def\<close>)

text \<open>
  \<open>game_run app0 n app\<close>: from \<open>app0\<close>, joins, leaves and messages of any clients in any order, and
  \<open>n\<close> ticks, lead to \<open>app\<close>, while there are identifiers left: \<open>EntityID\<close> has 16 bits, and a tick
  uses at most one per player.
\<close>

inductive game_run :: "WitheredApplication \<Rightarrow> nat \<Rightarrow> WitheredApplication \<Rightarrow> bool" for app0 where
  start: "game_run app0 0 app0"
| join: "game_run app0 n app \<Longrightarrow> unat (w_NextEntityID (wa_world app)) + 1 < 2 ^ 16 \<Longrightarrow> game_run app0 n (OnJoin app s)"
| leave: "game_run app0 n app \<Longrightarrow> game_run app0 n (OnLeave app s)"
| message: "game_run app0 n app \<Longrightarrow> game_run app0 n (fst (game_HandleMessage app s data))"
| tick: "game_run app0 n app \<Longrightarrow> unat (w_NextEntityID (wa_world app)) + card (players (wa_world app)) < 2 ^ 16
    \<Longrightarrow> game_run app0 (Suc n) (fst (game_Tick app))"

inductive_cases game_run_elim: "game_run app0 n app"

lemma EncodeSnapshot_skip: "snd (EncodeSnapshot w) = skip_order w"
  by (simp add: EncodeSnapshot_def encodeWitheredSnapshot_def next_order_def skip_order_def Let_def)

lemma game_Tick_eq:
  assumes "\<And>w. RunTick (wa_scheduler app) w = world_tick w"
  shows "game_Tick app =
    (let w = world_tick (wa_world app)
     in if w_Entities w = {} then (app\<lparr>wa_world := w\<rparr>, Inr None)
        else (app\<lparr>wa_world := skip_order w\<rparr>, Inr (Some (fst (EncodeSnapshot w)))))"
  using EncodeSnapshot_skip [of "world_tick (wa_world app)"]
  by (cases "EncodeSnapshot (world_tick (wa_world app))") (auto simp: game_Tick_def assms Let_def)

lemma HandleMessage_world:
  "\<exists>q. wa_world (fst (game_HandleMessage app s data)) = (wa_world app)\<lparr>w_PendingInputs := q\<rparr>"
  "wa_scheduler (fst (game_HandleMessage app s data)) = wa_scheduler app"
proof -
  have same: "\<exists>q. wa_world app = (wa_world app)\<lparr>w_PendingInputs := q\<rparr>"
    by (rule exI [of _ "w_PendingInputs (wa_world app)"]) simp
  have i: "(\<exists>q. wa_world (fst (handleInput app s d)) = (wa_world app)\<lparr>w_PendingInputs := q\<rparr>)
      \<and> wa_scheduler (fst (handleInput app s d)) = wa_scheduler app" for d
    using same by (auto simp: handleInput_def split: sum.splits option.splits)
  have a: "fst (handleActor2D app t d) = app" for t d
    by (simp add: handleActor2D_def split: sum.splits)
  show "\<exists>q. wa_world (fst (game_HandleMessage app s data)) = (wa_world app)\<lparr>w_PendingInputs := q\<rparr>"
    "wa_scheduler (fst (game_HandleMessage app s data)) = wa_scheduler app"
    using same i a by (auto simp: game_HandleMessage_def Let_def split: sum.splits)
qed

definition game_ok :: "WitheredApplication \<Rightarrow> bool" where
  "game_ok app \<longleftrightarrow> world_inv 1 (wa_world app) \<and> (\<forall>w. RunTick (wa_scheduler app) w = world_tick w)"

lemma game_ok_start:
  assumes "NewWitheredApplication orders rands = Some app" "rands_ok rands"
  shows "game_ok app"
proof -
  have "world_inv 1 (initial_world orders rands)"
    using assms(2) by (simp add: world_inv_def sessions_ok_def ids_ok_def entities_ok_def NewShootingWorld_def
        game_static_def view_def no_entity_def)
  with assms(1) show ?thesis unfolding NewWitheredApplication_eq by (auto simp: game_ok_def RunTick_def world_tick_def systems)
qed

lemma game_Tick_world:
  assumes "game_ok app"
  shows "view (wa_world (fst (game_Tick app))) = view (world_tick (wa_world app))"
    "w_Entities (wa_world (fst (game_Tick app))) = w_Entities (world_tick (wa_world app))"
    "w_NextEntityID (wa_world (fst (game_Tick app))) = w_NextEntityID (world_tick (wa_world app))"
    "world_inv lo (wa_world (fst (game_Tick app))) = world_inv lo (world_tick (wa_world app))"
    "wa_scheduler (fst (game_Tick app)) = wa_scheduler app"
  using assms by (simp_all add: game_ok_def game_Tick_eq Let_def)

lemma game_run_ok: "game_run app0 n app \<Longrightarrow> game_ok app0 \<Longrightarrow> game_ok app"
proof (induction rule: game_run.induct)
  case (join n app s)
  then show ?case using join_inv by (simp add: OnJoin_def game_ok_def)
next
  case (leave n app s)
  then show ?case using RemoveEntity_inv by (simp add: OnLeave_def game_ok_def split: option.splits)
next
  case (message n app s data)
  then show ?case using HandleMessage_world [of app s data] world_inv_inputs by (auto simp: game_ok_def)
next
  case (tick n app)
  then have ok: "game_ok app" by blast
  then have "world_inv 1 (wa_world app)" by (simp add: game_ok_def)
  from world_tick_grows [OF this tick.hyps(2)] ok show ?case
    by (simp add: game_ok_def [of "fst (game_Tick app)"] game_Tick_world) (simp add: game_ok_def)
qed

text \<open>Identifiers are not reused during a run: an entity that is gone stays gone.\<close>

definition old_id :: "EntityID \<Rightarrow> WitheredApplication \<Rightarrow> bool" where
  "old_id j app \<longleftrightarrow> j \<le> w_NextEntityID (wa_world app)"

lemma OnLeave_view:
  "view (wa_world (OnLeave app s)) j = view (wa_world app) j \<or> j \<notin> w_Entities (wa_world (OnLeave app s))"
  "w_Entities (wa_world (OnLeave app s)) \<subseteq> w_Entities (wa_world app)"
  "w_NextEntityID (wa_world (OnLeave app s)) = w_NextEntityID (wa_world app)"
  by (auto simp: OnLeave_def view_RemoveEntity RemoveEntity_frame split: option.splits)

lemma OnJoin_view:
  assumes "game_ok app" "old_id j app" "unat (w_NextEntityID (wa_world app)) + 1 < 2 ^ 16"
  shows "view (wa_world (OnJoin app s)) j = view (wa_world app) j" "old_id j (OnJoin app s)"
    "j \<in> w_Entities (wa_world (OnJoin app s)) \<longleftrightarrow> j \<in> w_Entities (wa_world app)"
proof -
  have "ids_ok (wa_world app)" using assms(1) by (simp add: game_ok_def world_inv_def)
  from fresh_id(2) [OF this assms(3)] assms(2) have "j < w_NextEntityID (wa_world app) + 1"
    by (simp add: old_id_def word_less_nat_alt word_le_nat_alt)
  then show "view (wa_world (OnJoin app s)) j = view (wa_world app) j" "old_id j (OnJoin app s)"
    "j \<in> w_Entities (wa_world (OnJoin app s)) \<longleftrightarrow> j \<in> w_Entities (wa_world app)"
    by (auto simp: OnJoin_def view_SpawnActor SpawnActor_frame old_id_def)
qed

lemma HandleMessage_view:
  "view (wa_world (fst (game_HandleMessage app s data))) = view (wa_world app)"
  "w_Entities (wa_world (fst (game_HandleMessage app s data))) = w_Entities (wa_world app)"
  "w_NextEntityID (wa_world (fst (game_HandleMessage app s data))) = w_NextEntityID (wa_world app)"
  using HandleMessage_world(1) [of app s data] by auto

subsection \<open>The fate of an entity\<close>

lemma move_entity_other:
  assumes "world_inv lo w" "\<not> has_state StateAlive w j"
  shows "view (move_entity field_max field_max e w) j = view w j"
proof -
  have "entities_ok lo w" using assms(1) by (simp add: world_inv_def)
  from move_entity_eq [OF this, of e] assms(2) show ?thesis by (auto simp: view_def)
qed

lemma has_state_view: "view w' j = view w j \<Longrightarrow> has_state st w' j = has_state st w j"
  using view_sel(3) [of w j] view_sel(3) [of w' j] by (simp add: has_state_def)

lemma input_Run_other:
  assumes "world_inv lo w" "\<not> has_state StateAlive w j"
  shows "view (input_Run w) j = view w j"
proof -
  have f: "world_inv lo w \<Longrightarrow> \<not> has_state StateAlive w j \<Longrightarrow> view (fold (move_entity field_max field_max) es w) j = view w j" for es w
  proof (induction es arbitrary: w)
    case (Cons e es)
    have v: "view (move_entity field_max field_max e w) j = view w j" by (rule move_entity_other [OF Cons.prems])
    have "\<not> has_state StateAlive (move_entity field_max field_max e w) j" unfolding has_state_view [OF v] by (rule Cons.prems(2))
    from Cons.IH [OF move_entity_inv(1) [OF Cons.prems(1)] this] show ?case by (simp only: fold_simps v)
  qed simp
  have s: "w_Static w = game_static" using assms(1) by (simp add: world_inv_def)
  have "\<not> has_state StateAlive (w\<lparr>w_PendingInputs := []\<rparr>) j" using assms(2) by (simp add: has_state_def)
  from f [OF world_inv_inputs [OF assms(1)] this] show ?thesis unfolding input_Run_eq [OF s] by simp
qed

lemma shoot_entity_other:
  assumes inv: "world_inv 1 w" and left: "i \<in> players w \<Longrightarrow> unat (w_NextEntityID w) + 1 < 2 ^ 16"
    and j: "j \<in> w_Entities w" "\<not> has_state StateAlive w j"
  shows "view (shoot_entity i w) j = view w j"
proof (cases "is_actor_tag (tag_of w i) \<and> has_state StateAlive w i")
  case True
  have e: "entities_ok 1 w" and ids: "ids_ok w" using inv by (simp_all add: world_inv_def)
  have "i \<in> players w" using True actor_tag_player [OF e] by blast
  then have "j \<noteq> w_NextEntityID w + 1" "j \<noteq> i" using fresh_id(1) [OF ids left] j True by auto
  then show ?thesis
    using True by (simp add: shoot_entity_eq Let_def view_set_cooldown view_SpawnBullet split: option.splits)
qed (auto simp: shoot_entity_eq)

lemma shoot_loop_other:
  assumes "world_inv 1 w" "distinct ids" "unat (w_NextEntityID w) + card (players w \<inter> set ids) < 2 ^ 16"
    "j \<in> w_Entities w" "\<not> has_state StateAlive w j"
  shows "view (for_keys shoot_entity ids w) j = view w j"
  using assms
proof (induction ids arbitrary: w)
  case (Cons i ids)
  define w1 where "w1 = (if i \<in> w_Entities w then shoot_entity i w else w)"
  define k where "k = (if i \<in> players w then 1 else 0 :: nat)"
  have "i \<notin> set ids" using Cons.prems(2) by simp
  then have card: "card (players w \<inter> set (i # ids)) = k + card (players w \<inter> set ids)"
    by (simp add: k_def Int_insert_right)
  have left: "i \<in> players w \<Longrightarrow> unat (w_NextEntityID w) + 1 < 2 ^ 16"
    using Cons.prems(3) unfolding card by (simp add: k_def)
  have g1: "grows k w w1"
    using shoot_entity_grows [OF Cons.prems(1) left] grows_refl [OF Cons.prems(1)] by (auto simp: w1_def k_def)
  have v: "view w1 j = view w j" using shoot_entity_other [OF Cons.prems(1) left Cons.prems(4,5)] by (simp add: w1_def)
  have "view (for_keys shoot_entity ids w1) j = view w1 j"
    using g1 Cons.prems card has_state_view [OF v, of StateAlive] by (intro Cons.IH) (auto simp: grows_def)
  with v show ?case by (simp add: w1_def)
qed simp

lemma shoot_Run_other:
  assumes inv: "world_inv 1 w" and left: "unat (w_NextEntityID w) + card (players w) < 2 ^ 16"
    and j: "j \<in> w_Entities w" "\<not> has_state StateAlive w j"
  shows "view (shoot_Run w) j = view w j"
proof -
  have "players w \<subseteq> set (range_keys (w_Entities w) (w_orders w 0))"
    using range_keys(2) [of "w_Entities w"] by (auto simp: players_def)
  then have p: "players (skip_order w) \<inter> set (range_keys (w_Entities w) (w_orders w 0)) = players w" by auto
  have e: "shoot_Run w = for_keys shoot_entity (range_keys (w_Entities w) (w_orders w 0)) (skip_order w)"
    by (simp add: shoot_Run_def for_entities_def next_order_def skip_order_def)
  show ?thesis unfolding e using shoot_loop_other [OF _ range_keys(1), of "skip_order w"] inv left j p by simp
qed

lemma collision_Run_view:
  assumes "world_inv 0 w" "i \<in> w_Entities (collision_Run w)"
  obtains n where "view (collision_Run w) i = (hurt ^^ n) (view w i)" "20 * n \<le> hp_of (view w i)"
proof -
  obtain hs w' where h: "hit_list (range_keys (w_Entities w) (w_orders w 0)) w hs w'"
    "collision_Run w = fold RemoveEntity (map fst hs) w'" using collision_Run_hits [OF assms(1)] by blast
  have "i \<notin> set (map fst hs)" using assms(2) unfolding h(2) fold_Remove by blast
  then have v: "view (collision_Run w) i = view w' i" unfolding h(2) fold_Remove by (simp only: if_False)
  have "view w' i = (hurt ^^ hits_on hs i) (view w i)" "hp_of (view w' i) + 20 * hits_on hs i = hp_of (view w i)"
    using h(1) unfolding hit_list_def hurt_by_def by blast+
  with v that [of "hits_on hs i"] show thesis by simp
qed

text \<open>One tick of a dead player whose time has not come, and of a bullet.\<close>

lemma has_state_dead: "en_LifeState (view w j) = Some \<lparr>ls_State = StateRespawning\<rparr> \<Longrightarrow> \<not> has_state StateAlive w j"
  by (simp add: has_state_def)

lemma tick_dead:
  assumes inv: "world_inv 1 w" and left: "unat (w_NextEntityID w) + card (players w) < 2 ^ 16"
    and j: "j \<in> w_Entities w" "player_ok (view w j)" "en_LifeState (view w j) = Some \<lparr>ls_State = StateRespawning\<rparr>"
      "en_Respawn (view w j) = Some t" "1 < t"
  shows "j \<in> w_Entities (world_tick w)" "view (world_tick w) j = (view w j)\<lparr>en_Respawn := Some (t - 1)\<rparr>"
proof -
  obtain w1 w2 w3 w4 w5 where s:
    "w1 = respawn_Run w" "w2 = input_Run w1" "w3 = shoot_Run w2" "w4 = bullet_Run w3" "w5 = collision_Run w4"
    "world_tick w = cleanup_Run w5"
    "world_inv 1 w1" "world_inv 1 w2" "world_inv 1 w3" "world_inv 0 w4" "world_inv 0 w5"
    "w_Entities w1 = w_Entities w" "w_Entities w2 = w_Entities w" "w_Entities w4 = w_Entities w3"
    "players w2 = players w" "players w5 = players w" "frame w1 = frame w" "frame w4 = frame w3"
    "unat (w_NextEntityID w2) + card (players w2) < 2 ^ 16" "grows (card (players w)) w2 w3"
    by (rule tick_stages [OF inv left])
  let ?e = "(view w j)\<lparr>en_Respawn := Some (t - 1)\<rparr>"
  have e2: "j \<in> w_Entities w2" and e3: "j \<in> w_Entities w3" using j(1) s(13,20) by (auto simp: grows_def)
  have v1: "view w1 j = ?e" using respawn_Run_spec(3) [OF inv j(1)] j(3-5) s(1) by (simp add: respawn_rel_def)
  have d1: "\<not> has_state StateAlive w1 j" by (rule has_state_dead) (simp add: v1 j(3) del: view_sel)
  have v2: "view w2 j = ?e" unfolding s(2) using input_Run_other [OF s(7) d1] v1 by simp
  have d2: "\<not> has_state StateAlive w2 j" by (rule has_state_dead) (simp add: v2 j(3) del: view_sel)
  have v3: "view w3 j = ?e" unfolding s(3) using shoot_Run_other [OF s(8,19) e2 d2] v2 by simp
  have pl: "player_ok ?e" "hp_of ?e = 0"
    using j(2-5) by (auto simp: player_ok_def player_alive_def player_dead_def hp_of_def simp del: view_sel)
  have v4: "view w4 j = ?e" using bullet_player [OF pl(1)] bullet_Run_spec(3) [OF s(9) e3] v3 s(4) by simp
  have tag: "w_Tag w4 j = Some TagPlayer" using v4 pl(1) view_sel(7) [of w4 j] by (auto simp: player_ok_def simp del: view_sel)
  have e4: "j \<in> players w4" using s(14) e3 tag by (simp add: players_def)
  then have e5: "j \<in> w_Entities w5" using collision_Run_inv(2) [OF s(10)] s(5) by (auto simp: players_def)
  obtain n where n: "view w5 j = (hurt ^^ n) (view w4 j)" "20 * n \<le> hp_of (view w4 j)"
    using collision_Run_view [OF s(10)] e5 unfolding s(5) by blast
  then have v5: "view w5 j = ?e" using v4 pl(2) by (simp del: view_sel)
  have t5: "w_Tag w5 j = Some TagPlayer" using v5 pl(1) view_sel(7) [of w5 j] by (auto simp: player_ok_def simp del: view_sel)
  show "j \<in> w_Entities (world_tick w)" "view (world_tick w) j = ?e"
    unfolding s(6) cleanup_Run_inv(6,7) [OF s(11)] using e5 t5 v5 by (simp_all del: view_sel)
qed

lemma tick_bullet:
  assumes inv: "world_inv 1 w" and left: "unat (w_NextEntityID w) + card (players w) < 2 ^ 16"
    and j: "j \<in> w_Entities w" "bullet_ok 1 (view w j)" "en_TTL (view w j) = Some t"
  shows "if j \<in> w_Entities (world_tick w) then bullet_ok 1 (view (world_tick w) j) \<and> en_TTL (view (world_tick w) j) = Some (t - 1) \<and> t \<noteq> 1
    else j \<le> w_NextEntityID w"
proof -
  obtain w1 w2 w3 w4 w5 where s:
    "w1 = respawn_Run w" "w2 = input_Run w1" "w3 = shoot_Run w2" "w4 = bullet_Run w3" "w5 = collision_Run w4"
    "world_tick w = cleanup_Run w5"
    "world_inv 1 w1" "world_inv 1 w2" "world_inv 1 w3" "world_inv 0 w4" "world_inv 0 w5"
    "w_Entities w1 = w_Entities w" "w_Entities w2 = w_Entities w" "w_Entities w4 = w_Entities w3"
    "players w2 = players w" "players w5 = players w" "frame w1 = frame w" "frame w4 = frame w3"
    "unat (w_NextEntityID w2) + card (players w2) < 2 ^ 16" "grows (card (players w)) w2 w3"
    by (rule tick_stages [OF inv left])
  have e2: "j \<in> w_Entities w2" and e3: "j \<in> w_Entities w3" using j(1) s(13,20) by (auto simp: grows_def)
  have alive: "\<not> has_state StateAlive w' j" if "view w' j = view w j" for w'
    using that j(2) view_sel(3) [of w' j] by (simp add: bullet_ok_def has_state_def del: view_sel)
  have v1: "view w1 j = view w j" using respawn_bullet [OF j(2)] respawn_Run_spec(3) [OF inv j(1)] s(1) by simp
  have v2: "view w2 j = view w j" unfolding s(2) using input_Run_other [OF s(7) alive [OF v1]] v1 by simp
  have v3: "view w3 j = view w j" unfolding s(3) using shoot_Run_other [OF s(8,19) e2 alive [OF v2]] v2 by simp
  have rel: "bullet_rel (view w j) (view w4 j)" using bullet_Run_spec(3) [OF s(9) e3] v3 s(4) by simp
  note b4 = bullet_moved [OF j(2) rel]
  have t4: "en_TTL (view w4 j) = Some (t - 1)" "en_Health (view w4 j) = None"
    using rel j(2,3) b4 by (auto simp: bullet_rel_def bullet_ok_def Let_def simp del: view_sel)
  show ?thesis
  proof (cases "j \<in> w_Entities (world_tick w)")
    case True
    then have e5: "j \<in> w_Entities w5" and v6: "view (world_tick w) j = view w5 j"
      unfolding s(6) cleanup_Run_inv(6,7) [OF s(11)] by auto
    obtain n where n: "view w5 j = (hurt ^^ n) (view w4 j)" "20 * n \<le> hp_of (view w4 j)"
      using collision_Run_view [OF s(10)] e5 unfolding s(5) by blast
    have v5: "view w5 j = view w4 j" using n t4(2) by (simp add: hp_of_def del: view_sel)
    have ok: "bullet_ok 1 (view (world_tick w) j)"
    proof -
      have "world_inv 1 (world_tick w)" using world_tick_grows [OF inv left] by blast
      then have "entities_ok 1 (world_tick w)" by (simp add: world_inv_def)
      moreover have "\<not> player_ok (view (world_tick w) j)"
        using player_bullet [of "view (world_tick w) j" 0] b4 v5 v6 by auto
      ultimately show ?thesis using True by (cases rule: entity_cases [of _ _ j]) auto
    qed
    have ttl: "en_TTL (view (world_tick w) j) = Some (t - 1)" using t4(1) v5 v6 by (simp only:)
    have "t \<noteq> 1" using ok ttl by (auto simp: bullet_ok_def simp del: view_sel)
    with True ok ttl show ?thesis by simp
  next
    case False
    have "ids_ok w" using inv by (simp add: world_inv_def)
    with False j(1) show ?thesis by (simp add: ids_ok_def)
  qed
qed

end
