(* ===== verification/Game_Props.thy ===== *)
theory Game_Props
  imports Game_Tick
begin

unbundle bit_operations_syntax

text \<open>
  The properties of the game over whole runs: the invariant, what becomes of dead players and of
  bullets whatever the clients do, and the two defects of the identifiers and the sessions.
\<close>

subsection \<open>Invariant\<close>

lemma game_start_ok:
  assumes "NewWitheredApplication orders rands = Some app0" "\<forall>n. f32_le 0 (rands n) \<and> f32_lt (rands n) (f32_ratio 1 1)"
  shows "game_ok app0"
  using game_ok_start [OF assms(1)] assms(2) by (simp add: rands_ok_def)

text \<open>
  C29: In every state a game reaches by joins, leaves, arbitrary messages and ticks, as long as
  identifiers are left, every entity is either a player or a bullet with exactly the components
  of its kind: a player stands within the field, is either alive with 20, 40, 60, 80 or 100 points
  and no respawn timer or dead with 0 points and a timer between 1 and 180 ticks; a bullet has a
  position and a velocity that are numbers, and between 1 and 120 ticks to live; sessions point
  to players of their own, and no component is left over from a removed entity.
\<close>

theorem game_invariant:
  assumes "NewWitheredApplication orders rands = Some app0"
    and "\<forall>n. f32_le 0 (rands n) \<and> f32_lt (rands n) (f32_ratio 1 1)"
    and "game_run app0 n app"
  shows "world_inv 1 (wa_world app)"
  using game_run_ok [OF assms(3) game_start_ok [OF assms(1,2)]] by (simp add: game_ok_def)

lemma game_ok_scheduler:
  assumes "NewWitheredApplication orders rands = Some app0" "wa_scheduler app = wa_scheduler app0" "world_inv 1 (wa_world app)"
  shows "game_ok app"
  using assms unfolding NewWitheredApplication_eq by (auto simp: game_ok_def RunTick_def world_tick_def systems)

definition ex_app :: WitheredApplication where
  "ex_app = the (NewWitheredApplication (\<lambda>_. []) (\<lambda>_. 0x3F000000))"

lemma ex_app: "NewWitheredApplication (\<lambda>_. []) (\<lambda>_. 0x3F000000) = Some ex_app"
    "\<forall>n :: nat. f32_le 0 0x3F000000 \<and> f32_lt 0x3F000000 (f32_ratio 1 1)"
  unfolding f32_consts
  by (simp_all add: ex_app_def NewWitheredApplication_eq f32_le_def f32_lt_def f32_key_def is_nan_def f32_mag_def f32_sign_def inf_mag_def)

lemma ex_app_world [simp]: "wa_world ex_app = initial_world (\<lambda>_. []) (\<lambda>_. 0x3F000000)"
  by (simp add: ex_app_def NewWitheredApplication_eq)

lemma players_join: "players (snd (SpawnActor s TagPlayer w)) \<subseteq> insert (w_NextEntityID w + 1) (players w)"
  unfolding players_view view_SpawnActor SpawnActor_frame by (auto split: if_splits)

lemma ex_run: "game_run ex_app 1 (fst (game_Tick (OnJoin ex_app ''s'')))"
proof -
  have r: "game_run ex_app 0 (OnJoin ex_app ''s'')"
    by (rule game_run.join [OF game_run.start]) (simp add: NewShootingWorld_def)
  have "players (wa_world ex_app) = {}" by (simp add: players_def NewShootingWorld_def)
  then have "players (wa_world (OnJoin ex_app ''s'')) \<subseteq> {w_NextEntityID (wa_world ex_app) + 1}"
    using players_join [of "''s''" "wa_world ex_app"] by (simp add: OnJoin_def)
  then have "card (players (wa_world (OnJoin ex_app ''s''))) \<le> card {w_NextEntityID (wa_world ex_app) + 1}"
    by (intro card_mono) auto
  then have "game_run ex_app (Suc 0) (fst (game_Tick (OnJoin ex_app ''s'')))"
    by (intro game_run.tick [OF r]) (simp add: OnJoin_def SpawnActor_frame NewShootingWorld_def)
  then show ?thesis by simp
qed

theorem game_invariant_witness:
  "world_inv 1 (wa_world (fst (game_Tick (OnJoin ex_app ''s''))))"
  by (rule game_invariant [OF ex_app(1) _ ex_run]) (use ex_app(2) in simp)

subsection \<open>Respawn\<close>

lemma dead_run:
  assumes run: "game_run app0 n app" and ok: "game_ok app0"
    and j: "j \<in> w_Entities (wa_world app0)" "player_ok (view (wa_world app0) j)"
      "w_LifeState (wa_world app0) j = Some \<lparr>ls_State = StateRespawning\<rparr>" "w_RespawnTimer (wa_world app0) j = Some t" "int n < t"
  shows "old_id j app \<and> (j \<in> w_Entities (wa_world app) \<longrightarrow> player_ok (view (wa_world app) j)
     \<and> en_LifeState (view (wa_world app) j) = Some \<lparr>ls_State = StateRespawning\<rparr>
     \<and> en_Respawn (view (wa_world app) j) = Some (t - int n))"
  using run j(5)
proof (induction rule: game_run.induct)
  case start
  have "ids_ok (wa_world app0)" using ok by (simp add: game_ok_def world_inv_def)
  with j show ?case by (simp add: old_id_def ids_ok_def)
next
  case (join n app s)
  from OnJoin_view [OF game_run_ok [OF join.hyps(1) ok] _ join.hyps(2)] join.IH [OF join.prems] show ?case by auto
next
  case (leave n app s)
  with OnLeave_view(1) [of app s j] OnLeave_view(2,3) [of app s] show ?case by (auto simp: old_id_def simp del: view_sel)
next
  case (message n app s data)
  with HandleMessage_view [of app s data] show ?case by (simp add: old_id_def)
next
  case (tick n app)
  then have n: "int n < t" "1 < t - int n" and IH: "old_id j app" "j \<in> w_Entities (wa_world app) \<Longrightarrow> player_ok (view (wa_world app) j)
     \<and> en_LifeState (view (wa_world app) j) = Some \<lparr>ls_State = StateRespawning\<rparr>
     \<and> en_Respawn (view (wa_world app) j) = Some (t - int n)" by auto
  have gok: "game_ok app" by (rule game_run_ok [OF tick.hyps(1) ok])
  then have inv: "world_inv 1 (wa_world app)" by (simp add: game_ok_def)
  note g = world_tick_grows [OF inv tick.hyps(2)]
  have old: "old_id j (fst (game_Tick app))" using g IH(1) unfolding old_id_def game_Tick_world [OF gok] by auto
  show ?case
  proof (cases "j \<in> w_Entities (wa_world app)")
    case True
    note I = IH(2) [OF True]
    note d = tick_dead [OF inv tick.hyps(2) True conjunct1 [OF I] conjunct1 [OF conjunct2 [OF I]] conjunct2 [OF conjunct2 [OF I]] n(2)]
    have inv': "world_inv 1 (world_tick (wa_world app))" using g by blast
    then have "entities_ok 1 (world_tick (wa_world app))" by (simp add: world_inv_def)
    then have "player_ok (view (world_tick (wa_world app)) j)"
      using I d by (cases rule: entity_cases [of _ _ j]) (auto simp: player_ok_def bullet_ok_def simp del: view_sel)
    with old d I show ?thesis unfolding game_Tick_world [OF gok] by (simp del: view_sel)
  next
    case False
    then have "j \<notin> w_Entities (world_tick (wa_world app))" using g IH(1) unfolding old_id_def by auto
    with old show ?thesis unfolding game_Tick_world [OF gok] by simp
  qed
qed

lemma respawn_now:
  assumes inv: "world_inv 1 w" and j: "j \<in> w_Entities w" "en_LifeState (view w j) = Some \<lparr>ls_State = StateRespawning\<rparr>"
      "en_Respawn (view w j) = Some 1"
  shows "w_LifeState (respawn_Run w) j = Some \<lparr>ls_State = StateAlive\<rparr> \<and> w_Health (respawn_Run w) j = Some \<lparr>HP = 100\<rparr>
    \<and> w_RespawnTimer (respawn_Run w) j = None
    \<and> (\<exists>p. w_Position (respawn_Run w) j = Some p \<and> in_box (f32_ratio 5 1) (f32_ratio 95 1) p)"
proof -
  have "respawn_rel (view w j) (view (respawn_Run w) j)" by (rule respawn_Run_spec(3) [OF inv j(1)])
  then obtain p where p: "in_box (f32_ratio 5 1) (f32_ratio 95 1) p" "view (respawn_Run w) j = (view w j)\<lparr>en_Position := Some p,
      en_Health := Some \<lparr>HP = 100\<rparr>, en_LifeState := Some \<lparr>ls_State = StateAlive\<rparr>, en_Respawn := None\<rparr>"
    using j(2,3) by (auto simp: respawn_rel_def Let_def simp del: view_sel)
  from arg_cong [OF p(2), of en_LifeState] arg_cong [OF p(2), of en_Health] arg_cong [OF p(2), of en_Respawn]
    arg_cong [OF p(2), of en_Position] p(1) show ?thesis by simp
qed

text \<open>
  C32: A player that was killed comes back: whatever clients join, leave and send in the meantime,
  and in whatever order the entities are visited, a player with \<open>t\<close> ticks on its respawn timer
  stays dead and out of reach for the next \<open>t - 1\<close> ticks while the timer counts down by one per
  tick, and the first system of the tick after them revives it with 100 points at a position
  at least 5 away from the border. The timer starts at 180, so this takes three seconds at 60
  ticks a second. Only its own leave can prevent it.
\<close>

theorem respawn_liveness:
  assumes "NewWitheredApplication orders rands = Some app0" and "wa_scheduler app = wa_scheduler app0"
    and "world_inv 1 (wa_world app)" and "j \<in> w_Entities (wa_world app)"
    and "w_LifeState (wa_world app) j = Some \<lparr>ls_State = StateRespawning\<rparr>" and "w_RespawnTimer (wa_world app) j = Some t"
    and "game_run app n app'" and "int n < t" and "j \<in> w_Entities (wa_world app')"
  shows "1 \<le> t \<and> t \<le> 180
    \<and> w_LifeState (wa_world app') j = Some \<lparr>ls_State = StateRespawning\<rparr> \<and> w_RespawnTimer (wa_world app') j = Some (t - int n)
    \<and> (int n = t - 1 \<longrightarrow>
        w_LifeState (respawn_Run (wa_world app')) j = Some \<lparr>ls_State = StateAlive\<rparr>
      \<and> w_Health (respawn_Run (wa_world app')) j = Some \<lparr>HP = 100\<rparr> \<and> w_RespawnTimer (respawn_Run (wa_world app')) j = None
      \<and> (\<exists>p. w_Position (respawn_Run (wa_world app')) j = Some p \<and> in_box (f32_ratio 5 1) (f32_ratio 95 1) p))"
proof -
  have ok: "game_ok app" by (rule game_ok_scheduler [OF assms(1-3)])
  have ok': "game_ok app'" by (rule game_run_ok [OF assms(7) ok])
  then have inv': "world_inv 1 (wa_world app')" by (simp add: game_ok_def)
  have "entities_ok 1 (wa_world app)" using assms(3) by (simp add: world_inv_def)
  then have pl: "player_ok (view (wa_world app) j)"
    using assms(4,5) by (cases rule: entity_cases [of _ _ j]) (auto simp: bullet_ok_def)
  then have t: "1 \<le> t \<and> t \<le> 180" using assms(5,6) by (auto simp: player_ok_def player_alive_def player_dead_def RespawnTicks_def)
  have d: "en_LifeState (view (wa_world app') j) = Some \<lparr>ls_State = StateRespawning\<rparr>"
    "en_Respawn (view (wa_world app') j) = Some (t - int n)"
    using dead_run [OF assms(7) ok assms(4) pl assms(5,6,8)] assms(9) by blast+
  have "int n = t - 1 \<Longrightarrow> en_Respawn (view (wa_world app') j) = Some 1" using d(2) by simp
  from respawn_now [OF inv' assms(9) d(1) this] d t show ?thesis by simp
qed

text \<open>A player that is to be revived by the next tick.\<close>

definition ex_dead :: WitheredApplication where
  "ex_dead = (let w = wa_world (OnJoin ex_app ''s'')
     in ex_app\<lparr>wa_world := w\<lparr>w_Health := [1 \<mapsto> \<lparr>HP = 0\<rparr>], w_LifeState := [1 \<mapsto> \<lparr>ls_State = StateRespawning\<rparr>],
          w_RespawnTimer := [1 \<mapsto> 1]\<rparr>\<rparr>)"

lemma ex_joined: "world_inv 1 (wa_world (OnJoin ex_app ''s''))" "w_Entities (wa_world (OnJoin ex_app ''s'')) = {1}"
    "view (wa_world (OnJoin ex_app ''s'')) 1 = no_entity\<lparr>en_Position := Some (fst (randomPosition (wa_world ex_app))),
        en_Health := Some \<lparr>HP = 100\<rparr>, en_LifeState := Some \<lparr>ls_State = StateAlive\<rparr>, en_Tag := Some TagPlayer,
        en_Cooldown := Some 0, en_Session := Some ''s''\<rparr>"
proof -
  have run: "game_run ex_app 0 (OnJoin ex_app ''s'')"
    by (rule game_run.join [OF game_run.start]) (simp add: NewShootingWorld_def)
  have "game_ok ex_app" by (rule game_start_ok [OF ex_app(1)]) (use ex_app(2) in simp)
  from game_run_ok [OF run this] show "world_inv 1 (wa_world (OnJoin ex_app ''s''))" by (simp add: game_ok_def)
  show "w_Entities (wa_world (OnJoin ex_app ''s'')) = {1}"
    by (simp add: OnJoin_def SpawnActor_frame NewShootingWorld_def)
  have "view (wa_world ex_app) 1 = no_entity" by (simp add: view_def no_entity_def NewShootingWorld_def)
  then show "view (wa_world (OnJoin ex_app ''s'')) 1 = no_entity\<lparr>en_Position := Some (fst (randomPosition (wa_world ex_app))),
        en_Health := Some \<lparr>HP = 100\<rparr>, en_LifeState := Some \<lparr>ls_State = StateAlive\<rparr>, en_Tag := Some TagPlayer,
        en_Cooldown := Some 0, en_Session := Some ''s''\<rparr>"
    by (simp add: OnJoin_def view_SpawnActor NewShootingWorld_def)
qed

lemma ex_player: "player_ok (view (wa_world (OnJoin ex_app ''s'')) 1)"
  using ex_joined(1,2) by (auto simp: world_inv_def entities_ok_def ex_joined(3) bullet_ok_def dest!: spec [of _ 1])

lemma ex_dead_inv: "world_inv 1 (wa_world ex_dead)" "w_Entities (wa_world ex_dead) = {1}"
proof -
  let ?w = "wa_world (OnJoin ex_app ''s'')"
  show e: "w_Entities (wa_world ex_dead) = {1}" using ex_joined(2) by (simp add: ex_dead_def Let_def)
  note pl = ex_player
  have v: "view (wa_world ex_dead) 1 = (view ?w 1)\<lparr>en_Health := Some \<lparr>HP = 0\<rparr>,
      en_LifeState := Some \<lparr>ls_State = StateRespawning\<rparr>, en_Respawn := Some 1\<rparr>"
    by (simp add: ex_dead_def Let_def view_def)
  have none: "view ?w i = no_entity" if "i \<noteq> 1" for i
    using ex_joined(1,2) that by (auto simp: world_inv_def entities_ok_def)
  show "world_inv 1 (wa_world ex_dead)"
  proof (rule world_inv_frame [OF ex_joined(1)])
    show "rands_ok (w_rands (wa_world ex_dead))" using ex_joined(1) by (simp add: world_inv_def ex_dead_def Let_def)
    show "(player_ok (view (wa_world ex_dead) i) \<or> bullet_ok 1 (view (wa_world ex_dead) i))
      \<and> en_Session (view (wa_world ex_dead) i) = en_Session (view ?w i)" if "i \<in> w_Entities ?w" for i
      using pl that unfolding ex_joined(2) by (auto simp: v player_ok_def player_dead_def RespawnTicks_def simp del: view_sel)
    show "view (wa_world ex_dead) i = view ?w i" if "i \<notin> w_Entities ?w" for i
    proof -
      have ne: "i \<noteq> 1" using that by (simp add: ex_joined(2))
      note n = none [OF ne]
      have "w_Health ?w i = None" "w_LifeState ?w i = None" "w_RespawnTimer ?w i = None"
        using arg_cong [OF n, of en_Health] arg_cong [OF n, of en_LifeState] arg_cong [OF n, of en_Respawn] by simp_all
      with ne show ?thesis by (simp add: ex_dead_def Let_def view_def)
    qed
  qed (simp_all add: ex_dead_def Let_def frame_def)
qed

theorem respawn_liveness_witness:
  "w_LifeState (respawn_Run (wa_world ex_dead)) 1 = Some \<lparr>ls_State = StateAlive\<rparr>
   \<and> w_Health (respawn_Run (wa_world ex_dead)) 1 = Some \<lparr>HP = 100\<rparr>"
proof -
  have s: "wa_scheduler ex_dead = wa_scheduler ex_app" "1 \<in> w_Entities (wa_world ex_dead)"
    "w_LifeState (wa_world ex_dead) 1 = Some \<lparr>ls_State = StateRespawning\<rparr>" "w_RespawnTimer (wa_world ex_dead) 1 = Some 1"
    using ex_dead_inv(2) by (simp_all add: ex_dead_def Let_def)
  show ?thesis
    using respawn_liveness [OF ex_app(1) s(1) ex_dead_inv(1) s(2-4) game_run.start _ s(2)] by simp
qed

subsection \<open>Bullets\<close>

lemma bullet_run:
  assumes run: "game_run app0 n app" and ok: "game_ok app0"
    and j: "j \<in> w_Entities (wa_world app0)" "bullet_ok 1 (view (wa_world app0) j)" "en_TTL (view (wa_world app0) j) = Some t"
  shows "old_id j app \<and> (j \<in> w_Entities (wa_world app) \<longrightarrow> bullet_ok 1 (view (wa_world app) j)
     \<and> (\<exists>t'. en_TTL (view (wa_world app) j) = Some t' \<and> unat t' + n = unat t))"
  using run
proof (induction rule: game_run.induct)
  case start
  have "ids_ok (wa_world app0)" using ok by (simp add: game_ok_def world_inv_def)
  with j show ?case by (simp add: old_id_def ids_ok_def)
next
  case (join n app s)
  from OnJoin_view [OF game_run_ok [OF join.hyps(1) ok] _ join.hyps(2)] join.IH show ?case by auto
next
  case (leave n app s)
  with OnLeave_view(1) [of app s j] OnLeave_view(2,3) [of app s] show ?case by (auto simp: old_id_def simp del: view_sel)
next
  case (message n app s data)
  with HandleMessage_view [of app s data] show ?case by (simp add: old_id_def)
next
  case (tick n app)
  have gok: "game_ok app" by (rule game_run_ok [OF tick.hyps(1) ok])
  then have inv: "world_inv 1 (wa_world app)" by (simp add: game_ok_def)
  note g = world_tick_grows [OF inv tick.hyps(2)]
  have old: "old_id j (fst (game_Tick app))" using g tick.IH unfolding old_id_def game_Tick_world [OF gok] by auto
  show ?case
  proof (cases "j \<in> w_Entities (wa_world (fst (game_Tick app)))")
    case True
    then have now: "j \<in> w_Entities (world_tick (wa_world app))" unfolding game_Tick_world [OF gok] .
    then have before: "j \<in> w_Entities (wa_world app)" using g tick.IH unfolding old_id_def by auto
    then obtain t' where t': "bullet_ok 1 (view (wa_world app) j)" "en_TTL (view (wa_world app) j) = Some t'" "unat t' + n = unat t"
      using tick.IH by blast
    have b: "bullet_ok 1 (view (world_tick (wa_world app)) j)" "en_TTL (view (world_tick (wa_world app)) j) = Some (t' - 1)"
      using tick_bullet [OF inv tick.hyps(2) before t'(1,2)] now by auto
    have "1 \<le> t'" using t'(1,2) by (auto simp: bullet_ok_def simp del: view_sel)
    then have "unat (t' - 1) + Suc n = unat t" using t'(3) by (simp add: unat_sub word_le_nat_alt)
    with b old show ?thesis unfolding game_Tick_world [OF gok] by blast
  qed (use old in blast)
qed

text \<open>
  C33: No bullet lives longer than 120 ticks: whatever happens besides, a bullet with \<open>t\<close> ticks to
  live is still there after \<open>n\<close> ticks only if \<open>n < t\<close>, and then has \<open>t - n\<close> ticks left; its
  identifier is not given to anything else in the meantime. Together with the limit on the
  rate of fire this bounds the size of the snapshots.
\<close>

theorem bullet_lifetime:
  assumes "NewWitheredApplication orders rands = Some app0" and "wa_scheduler app = wa_scheduler app0"
    and "world_inv 1 (wa_world app)" and "j \<in> w_Entities (wa_world app)"
    and "w_Tag (wa_world app) j = Some TagBullet" and "w_TTL (wa_world app) j = Some t" and "game_run app n app'"
  shows "unat t \<le> 120 \<and> (j \<in> w_Entities (wa_world app') \<longrightarrow>
    n < unat t \<and> w_Tag (wa_world app') j = Some TagBullet \<and> (\<exists>t'. w_TTL (wa_world app') j = Some t' \<and> unat t' + n = unat t))"
proof -
  have ok: "game_ok app" by (rule game_ok_scheduler [OF assms(1-3)])
  have "entities_ok 1 (wa_world app)" using assms(3) by (simp add: world_inv_def)
  then have b: "bullet_ok 1 (view (wa_world app) j)"
    using assms(4,5) by (cases rule: entity_cases [of _ _ j]) (auto simp: player_ok_def)
  then have "unat t \<le> 120" using assms(6) by (auto simp: bullet_ok_def BulletTTL_def word_le_nat_alt)
  moreover have "n < unat t \<and> w_Tag (wa_world app') j = Some TagBullet \<and> (\<exists>t'. w_TTL (wa_world app') j = Some t' \<and> unat t' + n = unat t)"
    if here: "j \<in> w_Entities (wa_world app')"
  proof -
    have t0: "en_TTL (view (wa_world app) j) = Some t" using assms(6) by simp
    obtain t' where t': "bullet_ok 1 (view (wa_world app') j)" "en_TTL (view (wa_world app') j) = Some t'" "unat t' + n = unat t"
      using bullet_run [OF assms(7) ok assms(4) b t0] here by blast
    have "0 < unat t'" using t'(1,2) by (auto simp: bullet_ok_def word_le_nat_alt)
    with t' show ?thesis by (auto simp: bullet_ok_def)
  qed
  ultimately show ?thesis by blast
qed

text \<open>A player and a bullet of it.\<close>

definition ex_bullet :: WitheredApplication where
  "ex_bullet = ex_app\<lparr>wa_world := snd (SpawnBullet 1 (pos_of (wa_world (OnJoin ex_app ''s'')) 1) \<lparr>vel_X = 0, vel_Y = 0\<rparr>
     (wa_world (OnJoin ex_app ''s'')))\<rparr>"

lemma ex_bullet: "world_inv 1 (wa_world ex_bullet)" "2 \<in> w_Entities (wa_world ex_bullet)"
    "w_Tag (wa_world ex_bullet) 2 = Some TagBullet" "w_TTL (wa_world ex_bullet) 2 = Some 120"
proof -
  let ?w = "wa_world (OnJoin ex_app ''s'')"
  have n: "w_NextEntityID ?w = 1" by (simp add: OnJoin_def SpawnActor_frame NewShootingWorld_def)
  have e: "wa_world ex_bullet = snd (SpawnBullet 1 (pos_of ?w 1) \<lparr>vel_X = 0, vel_Y = 0\<rparr> ?w)" by (simp add: ex_bullet_def)
  have box: "in_box 0 field_max (pos_of ?w 1)"
    using ex_player by (auto simp: player_ok_def at_def)
  have "grows 1 ?w (wa_world ex_bullet)"
    unfolding e by (rule grows_spawn [OF ex_joined(1) _ box]) (simp_all add: n)
  then show "world_inv 1 (wa_world ex_bullet)" by (simp add: grows_def)
  show "2 \<in> w_Entities (wa_world ex_bullet)" by (simp add: ex_bullet_def SpawnBullet_frame n)
  have "view (wa_world ex_bullet) 2 = (view ?w 2)\<lparr>en_Position := Some (pos_of ?w 1), en_Velocity := Some \<lparr>vel_X = 0, vel_Y = 0\<rparr>,
      en_TTL := Some BulletTTL, en_Owner := Some 1, en_Tag := Some TagBullet\<rparr>"
    by (simp add: ex_bullet_def view_SpawnBullet n)
  from arg_cong [OF this, of en_Tag] arg_cong [OF this, of en_TTL]
  show "w_Tag (wa_world ex_bullet) 2 = Some TagBullet" "w_TTL (wa_world ex_bullet) 2 = Some 120" by (simp_all add: BulletTTL_def)
qed

theorem bullet_lifetime_witness:
  "\<not> (\<exists>app'. game_run ex_bullet 120 app' \<and> 2 \<in> w_Entities (wa_world app'))"
proof (rule notI, elim exE conjE)
  fix app' assume r: "game_run ex_bullet 120 app'" and here: "2 \<in> w_Entities (wa_world app')"
  have "wa_scheduler ex_bullet = wa_scheduler ex_app" by (simp add: ex_bullet_def)
  from bullet_lifetime [OF ex_app(1) this ex_bullet r] here show False by simp
qed

subsection \<open>Sessions that join twice\<close>


subsection \<open>Identifiers that wrap around\<close>

lemma AllocEntity_funpow:
  "w_NextEntityID (((\<lambda>w. snd (AllocEntity w)) ^^ n) w) = w_NextEntityID w + of_nat n"
  by (induction n) (simp_all add: AllocEntity_def Let_def add.assoc add.commute)

text \<open>
  C35: \<open>EntityID\<close> has 16 bits and \<open>AllocEntity\<close> does not ask whether an identifier is in use: after
  65536 allocations the counter is where it was, and a bullet that is then spawned on the
  identifier \<open>i\<close> of a player turns the player into a bullet: it is no longer a target, no input
  changes its tag, and the clean-up of the expired bullet removes the player together with the
  entry of its session.
\<close>

theorem id_reuse_destroys_player:
  assumes "w_NextEntityID w + 1 = i" and "w_EntityToSession w i = Some s" and "w_SessionToEntity w s = Some i"
  shows "w_NextEntityID (((\<lambda>w. snd (AllocEntity w)) ^^ 65536) w) = w_NextEntityID w
    \<and> (let w' = snd (SpawnBullet ownr p v w)
    in w_Tag w' i = Some TagBullet \<and> w_TTL w' i = Some 120 \<and> w_Position w' i = Some p
    \<and> w_EntityToSession w' i = Some s
    \<and> w_SessionToEntity (RemoveEntity i w') s = None \<and> i \<notin> w_Entities (RemoveEntity i w'))"
proof -
  define w' where "w' = snd (SpawnBullet ownr p v w)"
  have v: "view w' i = (view w i)\<lparr>en_Position := Some p, en_Velocity := Some v,
        en_TTL := Some BulletTTL, en_Owner := Some ownr, en_Tag := Some TagBullet\<rparr>"
    using assms(1) by (simp add: w'_def view_SpawnBullet)
  have c: "w_Tag w' i = Some TagBullet" "w_TTL w' i = Some 120" "w_Position w' i = Some p" "w_EntityToSession w' i = Some s"
    using arg_cong [OF v, of en_Tag] arg_cong [OF v, of en_TTL] arg_cong [OF v, of en_Position]
      arg_cong [OF v, of en_Session] assms(2) by (simp_all add: BulletTTL_def)
  have "w_NextEntityID (((\<lambda>w. snd (AllocEntity w)) ^^ 65536) w) = w_NextEntityID w"
    unfolding AllocEntity_funpow by simp
  with c show ?thesis unfolding Let_def w'_def [symmetric] by (simp add: RemoveEntity_frame)
qed

text \<open>The world of one player whose counter has come round.\<close>

theorem id_reuse_destroys_player_witness:
  "w_SessionToEntity (RemoveEntity 1 (snd (SpawnBullet 9 \<lparr>pos_X = 0, pos_Y = 0\<rparr> \<lparr>vel_X = 0, vel_Y = 0\<rparr>
     ((wa_world (OnJoin ex_app ''s''))\<lparr>w_NextEntityID := 0\<rparr>)))) ''s'' = None"
proof -
  let ?w = "(wa_world (OnJoin ex_app ''s''))\<lparr>w_NextEntityID := 0\<rparr>"
  have "w_EntityToSession ?w 1 = Some ''s''" using arg_cong [OF ex_joined(3), of en_Session] by simp
  moreover have "w_SessionToEntity ?w ''s'' = Some 1"
    by (simp add: OnJoin_def SpawnActor_frame NewShootingWorld_def)
  ultimately show ?thesis using id_reuse_destroys_player [of ?w 1 "''s''"] unfolding Let_def by simp
qed

subsection \<open>A hit\<close>

text \<open>The bullet of \<open>ex_bullet\<close>, shot by somebody else.\<close>

definition ex_shot :: ShootingWorld where
  "ex_shot = (let w = wa_world (OnJoin ex_app ''s'') in snd (SpawnBullet 9 (pos_of w 1) \<lparr>vel_X = 0, vel_Y = 0\<rparr> w))"

lemma f32_sub_self: "is_finite x \<Longrightarrow> f32_sub x x = 0"
  by (simp add: f32_sub_def f32_add_def finite_cases Let_def f32_make_def is_inf_def)

lemma ex_shot: "world_inv 0 ex_shot" "struck ex_shot 2 1" "players ex_shot = {1}" "hp_of (view ex_shot 1) = 100"
    "w_Entities ex_shot = {1, 2}"
proof -
  let ?w = "wa_world (OnJoin ex_app ''s'')"
  have n: "w_NextEntityID ?w = 1" by (simp add: OnJoin_def SpawnActor_frame NewShootingWorld_def)
  have box: "in_box 0 field_max (pos_of ?w 1)" using ex_player by (auto simp: player_ok_def at_def)
  have g: "grows 1 ?w ex_shot"
    unfolding ex_shot_def Let_def by (rule grows_spawn [OF ex_joined(1) _ box]) (simp_all add: n)
  then have inv: "world_inv 1 ex_shot" by (simp add: grows_def)
  then show "world_inv 0 ex_shot" by (auto simp: world_inv_def entities_ok_def bullet_ok_def split: if_splits)
  have vw: "view ex_shot 1 = view ?w 1" "en_Position (view ex_shot 2) = Some (pos_of ?w 1)" "en_Tag (view ex_shot 2) = Some TagBullet"
    "en_Owner (view ex_shot 2) = Some 9"
    by (simp_all add: ex_shot_def Let_def view_SpawnBullet n del: view_sel)
  show e: "w_Entities ex_shot = {1, 2}" using ex_joined(2) by (auto simp: ex_shot_def Let_def SpawnBullet_frame n)
  have "players ?w = {1}" using ex_joined(2) arg_cong [OF ex_joined(3), of en_Tag] by (auto simp: players_def)
  then show p: "players ex_shot = {1}" using g by (simp add: grows_def)
  show "hp_of (view ex_shot 1) = 100" unfolding vw(1) ex_joined(3) by (simp add: hp_of_def)
  have pos: "pos_of ex_shot 1 = pos_of ?w 1" "pos_of ex_shot 2 = pos_of ?w 1"
    using arg_cong [OF vw(1), of en_Position] vw(2) by (simp_all add: at_def)
  have fin: "is_finite (pos_X (pos_of ?w 1))" "is_finite (pos_Y (pos_of ?w 1))"
    using box box_coordinate(1) by (auto simp: in_box_def)
  have "f32_le (dist_sq 0 0) hit_radius_sq"
    by (simp add: dist_sq_def hit_radius_sq_def BulletRadius_def ActorRadius_def) (simp add: f32_eval)
  then show "struck ex_shot 2 1"
    using vw(3,4) p e fin by (simp add: struck_def hits_def pos f32_sub_self)
qed

theorem collision_exact_witness:
  "hp_of (view (collision_Run ex_shot) 1) \<le> 80"
proof -
  obtain hs where hs: "\<forall>(b, a) \<in> set hs. struck ex_shot b a" "w_Entities (collision_Run ex_shot) = w_Entities ex_shot - set (map fst hs)"
    "\<forall>i \<in> w_Entities (collision_Run ex_shot). view (collision_Run ex_shot) i = (hurt ^^ hits_on hs i) (view ex_shot i)
         \<and> hp_of (view (collision_Run ex_shot) i) + 20 * hits_on hs i = hp_of (view ex_shot i)"
    "\<forall>b a. b \<in> w_Entities (collision_Run ex_shot) \<longrightarrow> struck ex_shot b a \<longrightarrow> hp_of (view (collision_Run ex_shot) a) = 0"
    using collision_exact [OF ex_shot(1)] by blast
  have "w_Tag ex_shot 1 = Some TagPlayer" using ex_shot(3) by (auto simp: players_def)
  then have "1 \<notin> set (map fst hs)" using hs(1) by (auto simp: struck_def)
  then have "1 \<in> w_Entities (collision_Run ex_shot)" unfolding hs(2) ex_shot(5) by blast
  with hs(3) have h: "hp_of (view (collision_Run ex_shot) 1) + 20 * hits_on hs 1 = 100" unfolding ex_shot(4) [symmetric] by blast
  show ?thesis
  proof (cases "2 \<in> w_Entities (collision_Run ex_shot)")
    case True
    with hs(4) ex_shot(2) show ?thesis by auto
  next
    case False
    then obtain a where a: "(2, a) \<in> set hs" using hs(2) ex_shot(5) by auto
    then have "a = 1" using hs(1) ex_shot(3) by (auto simp: struck_def)
    with a have "filter (\<lambda>(b, a). a = 1) hs \<noteq> []" by (auto simp: filter_empty_conv)
    then have "1 \<le> hits_on hs 1" by (simp add: hits_on_def Suc_le_eq)
    with h show ?thesis by simp
  qed
qed

end
