(* ===== verification/Snapshot.thy ===== *)
theory Snapshot
  imports Codec World_View "HOL-Library.Monad_Syntax"
begin

unbundle bit_operations_syntax

text \<open>
  What a snapshot says. \<open>decode_snapshot\<close> is the specification of the format of \<open>codec.go\<close>: a
  reader of the bytes that knows nothing of the world. A reader for a field returns the value and
  the rest of the bytes, or \<open>None\<close> when they run out; an optional field is read when its bit of
  the mask is set. \<open>snapshot_decodes\<close> is the round trip: what is read are the entities of
  the world in the order of their identifiers with the components a client may see, whatever order
  the runtime visited the map in.
\<close>

type_synonym 'a reader = "byte list \<Rightarrow> ('a \<times> byte list) option"

definition get8 :: "byte reader" where
  "get8 bs = (case bs of [] \<Rightarrow> None | b # rest \<Rightarrow> Some (b, rest))"

definition get16 :: "u16 reader" where
  "get16 bs = (if length bs < 2 then None else Some (Uint16 bs, drop 2 bs))"

definition get32 :: "u32 reader" where
  "get32 bs = (if length bs < 4 then None else Some (Uint32 bs, drop 4 bs))"

definition get_pair :: "(float32 \<Rightarrow> float32 \<Rightarrow> 'a) \<Rightarrow> 'a reader" where
  "get_pair mk bs = do { (x, bs) \<leftarrow> get32 bs; (y, bs) \<leftarrow> get32 bs; Some (mk x y, bs) }"

definition get_map :: "('a \<Rightarrow> 'b) \<Rightarrow> 'a reader \<Rightarrow> 'b reader" where
  "get_map f get bs = do { (x, bs) \<leftarrow> get bs; Some (f x, bs) }"

definition get_if :: "bool \<Rightarrow> 'a reader \<Rightarrow> 'a option reader" where
  "get_if present get bs = (if present then get_map Some get bs else Some (None, bs))"

definition decode_entity :: "(EntityID \<times> entity) reader" where
  "decode_entity bs = do {
     (i, bs) \<leftarrow> get16 bs;
     (mask, bs) \<leftarrow> get8 bs;
     (pos, bs) \<leftarrow> get_if (mask AND MPos \<noteq> 0) (get_pair (\<lambda>x y. \<lparr>pos_X = x, pos_Y = y\<rparr>)) bs;
     (vel, bs) \<leftarrow> get_if (mask AND MVel \<noteq> 0) (get_pair (\<lambda>x y. \<lparr>vel_X = x, vel_Y = y\<rparr>)) bs;
     (hp, bs) \<leftarrow> get_if (mask AND MHP \<noteq> 0) (get_map (\<lambda>h. \<lparr>HP = h\<rparr>) get8) bs;
     (life, bs) \<leftarrow> get_if (mask AND MLife \<noteq> 0) (get_map (\<lambda>s. \<lparr>ls_State = s\<rparr>) get8) bs;
     (ttl, bs) \<leftarrow> get_if (mask AND MTTL \<noteq> 0) get16 bs;
     (own, bs) \<leftarrow> get_if (mask AND MOwn \<noteq> 0) get16 bs;
     (tag, bs) \<leftarrow> get_if (mask AND MTag \<noteq> 0) get8 bs;
     Some ((i, \<lparr>en_Position = pos, en_Health = hp, en_LifeState = life, en_Velocity = vel, en_TTL = ttl,
       en_Owner = own, en_Tag = tag, en_Cooldown = None, en_Respawn = None, en_Session = None\<rparr>), bs) }"

primrec decode_entities :: "nat \<Rightarrow> (EntityID \<times> entity) list reader" where
  "decode_entities 0 bs = Some ([], bs)"
| "decode_entities (Suc n) bs = do {
     (e, bs) \<leftarrow> decode_entity bs;
     (es, bs) \<leftarrow> decode_entities n bs;
     Some (e # es, bs) }"

definition decode_snapshot :: "byte list \<Rightarrow> (EntityID \<times> entity) list option" where
  "decode_snapshot bs =
     (if take 2 bs \<noteq> [DataTypeSnapshot, 0] then None
      else do {
        (n, bs) \<leftarrow> get16 (drop 2 bs);
        (es, bs) \<leftarrow> decode_entities (unat n) bs;
        if bs = [] then Some es else None })"

text \<open>The cooldown, the respawn timer and the session of an entity are not on the wire.\<close>

definition wire :: "entity \<Rightarrow> entity" where
  "wire e = e\<lparr>en_Cooldown := None, en_Respawn := None, en_Session := None\<rparr>"

subsection \<open>Fields\<close>

named_theorems field_read

lemma get8_read [field_read]: "get8 ([b] @ rest) = Some (b, rest)" "get8 (b # rest) = Some (b, rest)"
  by (simp_all add: get8_def)

lemma get16_read [field_read]: "get16 (PutUint16 v @ rest) = Some (v, rest)"
  by (simp add: get16_def wire)

lemma get32_read [field_read]: "get32 (PutUint32 v @ rest) = Some (v, rest)"
  by (simp add: get32_def wire)

lemma get_pair_read [field_read]: "get_pair mk (PutUint32 x @ PutUint32 y @ rest) = Some (mk x y, rest)"
  by (simp add: get_pair_def field_read)

definition put_opt :: "('a \<Rightarrow> byte list) \<Rightarrow> 'a option \<Rightarrow> byte list" where
  "put_opt put m = (case m of None \<Rightarrow> [] | Some x \<Rightarrow> put x)"

lemma get_if_read:
  assumes "\<And>x. m = Some x \<Longrightarrow> get (put x @ rest) = Some (x, rest)"
  shows "get_if (\<exists>x. m = Some x) get (put_opt put m @ rest) = Some (m, rest)"
  using assms by (cases m) (simp_all add: get_if_def put_opt_def get_map_def)

lemma fields_read [field_read]:
  "get_if (\<exists>x. p = Some x) (get_pair (\<lambda>x y. \<lparr>pos_X = x, pos_Y = y\<rparr>))
     (put_opt (\<lambda>p. PutUint32 (pos_X p) @ PutUint32 (pos_Y p)) p @ rest) = Some (p, rest)"
  "get_if (\<exists>x. v = Some x) (get_pair (\<lambda>x y. \<lparr>vel_X = x, vel_Y = y\<rparr>))
     (put_opt (\<lambda>v. PutUint32 (vel_X v) @ PutUint32 (vel_Y v)) v @ rest) = Some (v, rest)"
  "get_if (\<exists>x. h = Some x) (get_map (\<lambda>h. \<lparr>HP = h\<rparr>) get8) (put_opt (\<lambda>h. [HP h]) h @ rest) = Some (h, rest)"
  "get_if (\<exists>x. l = Some x) (get_map (\<lambda>s. \<lparr>ls_State = s\<rparr>) get8) (put_opt (\<lambda>s. [ls_State s]) l @ rest) = Some (l, rest)"
  "get_if (\<exists>x. k = Some x) get16 (put_opt PutUint16 k @ rest) = Some (k, rest)"
  "get_if (\<exists>x. t = Some x) get8 (put_opt (\<lambda>t. [t]) t @ rest) = Some (t, rest)"
  by (rule get_if_read, simp add: get_map_def get_pair_read get8_read get16_read)+

lemma bit_masks:
  "bit MPos n \<longleftrightarrow> n = 0" "bit MVel n \<longleftrightarrow> n = 1" "bit MHP n \<longleftrightarrow> n = 2" "bit MLife n \<longleftrightarrow> n = 3"
  "bit MTTL n \<longleftrightarrow> n = 4" "bit MOwn n \<longleftrightarrow> n = 5" "bit MTag n \<longleftrightarrow> n = 6"
  unfolding masks bit_push_bit_iff bit_1_iff by (auto simp: possible_bit_def)

lemma nonzero_bit: "y \<noteq> 0 \<longleftrightarrow> (\<exists>n. bit y n)" for y :: byte
proof
  assume "y \<noteq> 0"
  then obtain n where "bit y n" using bit_word_eqI [of y 0] by auto
  then show "\<exists>n. bit y n" ..
qed auto

lemma mask_bit:
  "x AND MPos \<noteq> 0 \<longleftrightarrow> bit x 0" "x AND MVel \<noteq> 0 \<longleftrightarrow> bit x 1" "x AND MHP \<noteq> 0 \<longleftrightarrow> bit x 2"
  "x AND MLife \<noteq> 0 \<longleftrightarrow> bit x 3" "x AND MTTL \<noteq> 0 \<longleftrightarrow> bit x 4" "x AND MOwn \<noteq> 0 \<longleftrightarrow> bit x 5"
  "x AND MTag \<noteq> 0 \<longleftrightarrow> bit x 6"
  unfolding nonzero_bit bit_and_iff bit_masks by blast+

lemma bit_entity_mask:
  "bit (entity_mask w i) n \<longleftrightarrow> (n = 0 \<and> (\<exists>x. w_Position w i = Some x)) \<or> (n = 1 \<and> (\<exists>x. w_Velocity w i = Some x))
     \<or> (n = 2 \<and> (\<exists>x. w_Health w i = Some x)) \<or> (n = 3 \<and> (\<exists>x. w_LifeState w i = Some x))
     \<or> (n = 4 \<and> (\<exists>x. w_TTL w i = Some x)) \<or> (n = 5 \<and> (\<exists>x. w_Owner w i = Some x))
     \<or> (n = 6 \<and> (\<exists>x. w_Tag w i = Some x))"
proof -
  have b: "bit (if c then m OR k else m) n \<longleftrightarrow> bit m n \<or> c \<and> bit k n" for c and m k :: byte
    by (simp add: bit_or_iff)
  show ?thesis by (simp add: entity_mask_def Let_def b bit_masks) blast
qed

lemma present:
  "entity_mask w i AND MPos \<noteq> 0 \<longleftrightarrow> (\<exists>x. w_Position w i = Some x)"
  "entity_mask w i AND MVel \<noteq> 0 \<longleftrightarrow> (\<exists>x. w_Velocity w i = Some x)"
  "entity_mask w i AND MHP \<noteq> 0 \<longleftrightarrow> (\<exists>x. w_Health w i = Some x)"
  "entity_mask w i AND MLife \<noteq> 0 \<longleftrightarrow> (\<exists>x. w_LifeState w i = Some x)"
  "entity_mask w i AND MTTL \<noteq> 0 \<longleftrightarrow> (\<exists>x. w_TTL w i = Some x)"
  "entity_mask w i AND MOwn \<noteq> 0 \<longleftrightarrow> (\<exists>x. w_Owner w i = Some x)"
  "entity_mask w i AND MTag \<noteq> 0 \<longleftrightarrow> (\<exists>x. w_Tag w i = Some x)"
  unfolding mask_bit by (simp_all add: bit_entity_mask)

subsection \<open>Entities\<close>

definition entity_bytes :: "EntityID \<Rightarrow> byte \<Rightarrow> entity \<Rightarrow> byte list" where
  "entity_bytes i m e = PutUint16 i @ [m]
     @ put_opt (\<lambda>p. PutUint32 (pos_X p) @ PutUint32 (pos_Y p)) (en_Position e)
     @ put_opt (\<lambda>v. PutUint32 (vel_X v) @ PutUint32 (vel_Y v)) (en_Velocity e)
     @ put_opt (\<lambda>h. [HP h]) (en_Health e) @ put_opt (\<lambda>s. [ls_State s]) (en_LifeState e)
     @ put_opt PutUint16 (en_TTL e) @ put_opt PutUint16 (en_Owner e) @ put_opt (\<lambda>t. [t]) (en_Tag e)"

lemma append_if: "(if c then b @ x else b) = b @ (if c then x else [])" by simp

lemma put_opt_if:
  "(if \<exists>x. m = Some x then put (at m' z i) else []) = put_opt put m" if "m = m' i" for put :: "'a \<Rightarrow> byte list"
  using that by (auto simp: put_opt_def at_def split: option.splits)

lemma encodeEntity_bytes: "encodeEntity w i buf = buf @ entity_bytes i (entity_mask w i) (view w i)"
proof -
  note put =
    put_opt_if [where put = "\<lambda>p. PutUint32 (pos_X p) @ PutUint32 (pos_Y p)", OF refl]
    put_opt_if [where put = "\<lambda>v. PutUint32 (vel_X v) @ PutUint32 (vel_Y v)", OF refl]
    put_opt_if [where put = "\<lambda>h. [HP h]", OF refl] put_opt_if [where put = "\<lambda>s. [ls_State s]", OF refl]
    put_opt_if [where put = PutUint16, OF refl] put_opt_if [where put = "\<lambda>t. [t]", OF refl]
  show ?thesis
    unfolding encodeEntity_def Let_def present append_assoc append_if put
    by (simp add: entity_bytes_def)
qed

lemma decode_entity_bytes:
  "decode_entity (entity_bytes i (entity_mask w i) (view w i) @ rest) = Some ((i, wire (view w i)), rest)"
  unfolding decode_entity_def entity_bytes_def append_assoc
  by (simp add: field_read present wire_def view_def)

subsection \<open>The snapshot\<close>

lemma encode_entities:
  "fold (encodeEntity w) ids buf = buf @ concat (map (\<lambda>i. entity_bytes i (entity_mask w i) (view w i)) ids)"
  by (induction ids arbitrary: buf) (simp_all add: encodeEntity_bytes)

lemma decode_entities_bytes:
  "decode_entities (length ids) (concat (map (\<lambda>i. entity_bytes i (entity_mask w i) (view w i)) ids) @ rest)
     = Some (map (\<lambda>i. (i, wire (view w i))) ids, rest)"
  by (induction ids) (simp_all add: decode_entity_bytes)

lemma snapshot_ids:
  "sort (filter (\<lambda>i. i \<in> w_Entities w) (range_keys (w_Entities w) xs)) = sorted_list_of_set (w_Entities w)"
proof -
  have "set (filter (\<lambda>i. i \<in> w_Entities w) (range_keys (w_Entities w) xs)) = w_Entities w"
    using range_keys(2) [of "w_Entities w" xs] by auto
  moreover have "distinct (filter (\<lambda>i. i \<in> w_Entities w) (range_keys (w_Entities w) xs))"
    by (simp add: range_keys(1))
  ultimately show ?thesis by (metis sorted_list_of_set_sort_remdups distinct_remdups_id)
qed

lemma snapshot_count: "length (filter (\<lambda>i. i \<in> w_Entities w) (range_keys (w_Entities w) xs)) = card (w_Entities w)"
  by (metis length_sort snapshot_ids length_sorted_list_of_set)

lemma entity_mask_orders: "entity_mask (w\<lparr>w_orders := f\<rparr>) = entity_mask w"
  by (simp add: entity_mask_def fun_eq_iff)

lemma EncodeSnapshot_bytes:
  "fst (EncodeSnapshot w) = [DataTypeSnapshot, 0] @ PutUint16 (of_nat (card (w_Entities w)))
     @ concat (map (\<lambda>i. entity_bytes i (entity_mask w i) (view w i)) (sorted_list_of_set (w_Entities w)))"
  by (simp add: EncodeSnapshot_def encodeWitheredSnapshot_def Let_def split_def encode_entities snapshot_ids
      snapshot_count entity_mask_orders Encode_fields(1))

lemma decode_EncodeSnapshot:
  assumes "card (w_Entities w) < 2 ^ 16"
  shows "decode_snapshot (fst (EncodeSnapshot w))
    = Some (map (\<lambda>i. (i, wire (view w i))) (sorted_list_of_set (w_Entities w)))"
proof -
  have n: "unat (of_nat (card (w_Entities w)) :: u16) = length (sorted_list_of_set (w_Entities w))"
    using assms by (simp add: unat_of_nat)
  show ?thesis
    using decode_entities_bytes [of "sorted_list_of_set (w_Entities w)" w "[]"]
    unfolding EncodeSnapshot_bytes decode_snapshot_def by (simp add: get16_read n del: length_sorted_list_of_set)
qed

text \<open>
  C30: The snapshot of a world with fewer than 2 ^ 16 entities decodes to exactly its entities, in
  the order of their identifiers, each with the components a client may see. In particular
  the bytes do not depend on the order in which the runtime visits the maps.
\<close>

theorem snapshot_decodes:
  assumes "card (w_Entities w) < 2 ^ 16"
  shows "decode_snapshot (fst (EncodeSnapshot w))
    = Some (map (\<lambda>i. (i, wire (view w i))) (sorted_list_of_set (w_Entities w)))"
  by (rule decode_EncodeSnapshot [OF assms])

text \<open>A world with one bullet of entity 7.\<close>

definition ex_snapshot :: ShootingWorld where
  "ex_snapshot = snd (SpawnBullet 7 \<lparr>pos_X = 1, pos_Y = 2\<rparr> \<lparr>vel_X = 3, vel_Y = 4\<rparr>
     (NewShootingWorld (NewField \<lparr>mp_Width = 100, mp_Height = 100, mp_TileSize = f32_ratio 1 1, mp_Tiles = []\<rparr>)
       (\<lambda>_. [5, 1]) (\<lambda>_. 0)))"

lemma snapshot_decodes_witness:
  "card (w_Entities ex_snapshot) < 2 ^ 16 \<and> decode_snapshot (fst (EncodeSnapshot ex_snapshot))
     = Some [(1, no_entity\<lparr>en_Position := Some \<lparr>pos_X = 1, pos_Y = 2\<rparr>, en_Velocity := Some \<lparr>vel_X = 3, vel_Y = 4\<rparr>,
         en_TTL := Some 120, en_Owner := Some 7, en_Tag := Some TagBullet\<rparr>)]"
proof -
  have e: "w_Entities ex_snapshot = {1}"
    by (simp add: ex_snapshot_def SpawnBullet_frame NewShootingWorld_def)
  have v: "wire (view ex_snapshot 1) = no_entity\<lparr>en_Position := Some \<lparr>pos_X = 1, pos_Y = 2\<rparr>,
      en_Velocity := Some \<lparr>vel_X = 3, vel_Y = 4\<rparr>, en_TTL := Some 120, en_Owner := Some 7, en_Tag := Some TagBullet\<rparr>"
    by (simp add: ex_snapshot_def view_SpawnBullet NewShootingWorld_def wire_def view_def no_entity_def BulletTTL_def
        del: view_sel)
  show ?thesis using snapshot_decodes [of ex_snapshot] by (simp add: e v)
qed

end
