(* ===== verification/Room_Game.thy ===== *)
theory Room_Game
  imports Game_Props Snapshot
begin

unbundle bit_operations_syntax

text \<open>
  The room and its game together: the messages that reach the channel of a room become joins,
  leaves and inputs of the game, one tick of the room is one tick of the game, and what it
  broadcasts is the snapshot of the world. \<open>room_game\<close> is the invariant of the pair: the game
  is reachable, the registry of the room and the sessions of the game agree.
\<close>

definition room_game :: "WitheredApplication \<Rightarrow> nat \<Rightarrow> WitheredApplication Room \<Rightarrow> bool" where
  "room_game app0 n r \<longleftrightarrow> game_run app0 n (rm_app r) \<and> rm_sendCh r = []
     \<and> rm_registry r = dom (w_SessionToEntity (wa_world (rm_app r)))"

text \<open>The identifiers a tick of a room needs at most when \<open>k\<close> messages are waiting.\<close>

definition ids_left :: "nat \<Rightarrow> WitheredApplication \<Rightarrow> bool" where
  "ids_left k app \<longleftrightarrow> unat (w_NextEntityID (wa_world app)) + card (players (wa_world app)) + 2 * k < 2 ^ 16"

subsection \<open>Messages\<close>

lemma join_parts:
  assumes "game_ok app" "ids_left (Suc k) app"
  shows "ids_left k (OnJoin app s)"
    "dom (w_SessionToEntity (wa_world (OnJoin app s))) = insert s (dom (w_SessionToEntity (wa_world app)))"
proof -
  let ?w = "wa_world app"
  have left: "unat (w_NextEntityID ?w) + 1 < 2 ^ 16" using assms(2) by (simp add: ids_left_def)
  have "ids_ok ?w" using assms(1) by (simp add: game_ok_def world_inv_def)
  note n = fresh_id(2) [OF this left]
  have "card (players (snd (SpawnActor s TagPlayer ?w))) \<le> card (insert (w_NextEntityID ?w + 1) (players ?w))"
    by (rule card_mono [OF _ players_join]) simp
  also have "\<dots> \<le> card (players ?w) + 1" by (simp add: card_insert_if)
  finally show "ids_left k (OnJoin app s)" using assms(2) n by (simp add: ids_left_def OnJoin_def SpawnActor_frame)
  show "dom (w_SessionToEntity (wa_world (OnJoin app s))) = insert s (dom (w_SessionToEntity ?w))"
    by (simp add: OnJoin_def SpawnActor_frame)
qed

lemma leave_parts:
  assumes "game_ok app" "ids_left (Suc k) app"
  shows "ids_left k (OnLeave app s)"
    "dom (w_SessionToEntity (wa_world (OnLeave app s))) = dom (w_SessionToEntity (wa_world app)) - {s}"
proof -
  let ?w = "wa_world app"
  have "players (wa_world (OnLeave app s)) \<subseteq> players ?w"
    using OnLeave_view(1) [of app s] OnLeave_view(2) [of app s] unfolding players_view
    by (metis (mono_tags, lifting) mem_Collect_eq subset_iff)
  then have "card (players (wa_world (OnLeave app s))) \<le> card (players ?w)" by (intro card_mono) auto
  then show "ids_left k (OnLeave app s)" using assms(2) OnLeave_view(3) [of app s] by (simp add: ids_left_def)
  have "sessions_ok ?w" using assms(1) by (simp add: game_ok_def world_inv_def)
  then show "dom (w_SessionToEntity (wa_world (OnLeave app s))) = dom (w_SessionToEntity ?w) - {s}"
    by (auto simp: OnLeave_def RemoveEntity_frame sessions_ok_def split: option.splits if_splits)
qed

lemma message_parts:
  assumes "ids_left (Suc k) app"
  shows "ids_left k (fst (game_HandleMessage app s d))"
    "w_SessionToEntity (wa_world (fst (game_HandleMessage app s d))) = w_SessionToEntity (wa_world app)"
proof -
  obtain q where "wa_world (fst (game_HandleMessage app s d)) = (wa_world app)\<lparr>w_PendingInputs := q\<rparr>"
    using HandleMessage_world(1) by blast
  then show "ids_left k (fst (game_HandleMessage app s d))"
    "w_SessionToEntity (wa_world (fst (game_HandleMessage app s d))) = w_SessionToEntity (wa_world app)"
    using assms by (simp_all add: ids_left_def players_def)
qed

text \<open>The game keeps the contract of an application.\<close>

definition playing :: "WitheredApplication \<Rightarrow> nat \<Rightarrow> nat \<Rightarrow> WitheredApplication \<Rightarrow> bool" where
  "playing app0 n k app \<longleftrightarrow> game_ok app0 \<and> game_run app0 n app \<and> ids_left k app"

definition game_sessions :: "WitheredApplication \<Rightarrow> SessionID set" where
  "game_sessions app = dom (w_SessionToEntity (wa_world app))"

lemma playingD:
  assumes "playing app0 n (Suc k) app"
  shows "game_ok app" "game_run app0 n app" "ids_left (Suc k) app" "unat (w_NextEntityID (wa_world app)) + 1 < 2 ^ 16"
  using assms game_run_ok [of app0 n app] by (auto simp: playing_def ids_left_def)

interpretation game: application withered_app "playing app0 n" game_sessions for app0 n
proof
  fix k app s d
  assume p: "playing app0 n (Suc k) app"
  note D = playingD [OF p]
  have ok0: "game_ok app0" using p by (simp add: playing_def)
  show "playing app0 n k (app_OnJoin withered_app app s)
      \<and> game_sessions (app_OnJoin withered_app app s) = insert s (game_sessions app)"
    using ok0 game_run.join [OF D(2,4), of s] join_parts [OF D(1,3), of s]
    by (simp add: playing_def game_sessions_def withered_app_def)
  show "playing app0 n k (app_OnLeave withered_app app s)
      \<and> game_sessions (app_OnLeave withered_app app s) = game_sessions app - {s}"
    using ok0 game_run.leave [OF D(2), of s] leave_parts [OF D(1,3), of s]
    by (simp add: playing_def game_sessions_def withered_app_def)
  show "playing app0 n k (fst (app_HandleMessage withered_app app s d))
      \<and> game_sessions (fst (app_HandleMessage withered_app app s d)) = game_sessions app"
    using ok0 game_run.message [OF D(2), of s d] message_parts [OF D(3), of s d]
    by (simp add: playing_def game_sessions_def withered_app_def)
  show "playing app0 n k app" using p by (simp add: playing_def ids_left_def)
qed

lemma room_messages:
  assumes "game_ok app0" "room_game app0 n r" "ids_left (length msgs) (rm_app r)"
  shows "room_game app0 n (fold (room_HandleMessage withered_app) msgs r)
    \<and> ids_left 0 (rm_app (fold (room_HandleMessage withered_app) msgs r))"
  using game.messages_keep [of app0 n msgs r] assms
  by (simp add: game.in_step_def playing_def game_sessions_def room_game_def messages_sendCh)

subsection \<open>Ticks\<close>

lemma players_of_sessions:
  assumes "world_inv lo w" "w_SessionToEntity w s = Some i"
  shows "i \<in> w_Entities w" "en_Tag (view w i) = Some TagPlayer" "w_EntityToSession w i = Some s"
proof -
  have e: "entities_ok lo w" using assms(1) by (simp add: world_inv_def)
  show s: "w_EntityToSession w i = Some s" using assms by (simp add: world_inv_def sessions_ok_def)
  show "i \<in> w_Entities w" "en_Tag (view w i) = Some TagPlayer"
    using s by (cases rule: entity_cases [OF e, of i]; auto simp: bullet_ok_def player_ok_def dest: arg_cong [where f = en_Session])+
qed

lemma entities_card:
  assumes "ids_ok w"
  shows "card (w_Entities w) < 2 ^ 16"
proof -
  have "0 \<notin> w_Entities w" using assms by (auto simp: ids_ok_def)
  then have "w_Entities w \<subset> UNIV" by auto
  then have "card (w_Entities w) < card (UNIV :: u16 set)" by (rule psubset_card_mono [OF finite])
  then show ?thesis by (simp add: card_word)
qed

lemma view_skip_order: "view (skip_order w) = view w" by (simp add: skip_order_def)

text \<open>What the application does in a tick, as the room sees it.\<close>

lemma game_Tick_room:
  assumes "game_ok app0" "room_game app0 n r" "ids_left 0 (rm_app r)"
  defines "app \<equiv> fst (game_Tick (rm_app r))"
  shows "game_run app0 (Suc n) app" "world_inv 1 (wa_world app)"
    "w_SessionToEntity (wa_world app) = w_SessionToEntity (wa_world (rm_app r))"
    "w_Entities (wa_world app) = {} \<Longrightarrow> snd (game_Tick (rm_app r)) = Inr None"
    "w_Entities (wa_world app) \<noteq> {} \<Longrightarrow> \<exists>frame. snd (game_Tick (rm_app r)) = Inr (Some frame) \<and> decode_snapshot frame
       = Some (map (\<lambda>i. (i, wire (view (wa_world app) i))) (sorted_list_of_set (w_Entities (wa_world app))))"
proof -
  have run: "game_run app0 n (rm_app r)" using assms(2) by (simp add: room_game_def)
  note ok = game_run_ok [OF run assms(1)]
  have left: "unat (w_NextEntityID (wa_world (rm_app r))) + card (players (wa_world (rm_app r))) < 2 ^ 16"
    using assms(3) by (simp add: ids_left_def)
  show run': "game_run app0 (Suc n) app" unfolding app_def by (rule game_run.tick [OF run left])
  show inv: "world_inv 1 (wa_world app)" using game_run_ok [OF run' assms(1)] by (simp add: game_ok_def)
  have s: "RunTick (wa_scheduler (rm_app r)) w = world_tick w" for w using ok by (simp add: game_ok_def)
  note t = game_Tick_eq [of "rm_app r", OF s]
  have "world_inv 1 (wa_world (rm_app r))" using ok by (simp add: game_ok_def)
  from world_tick_grows [OF this left]
  show "w_SessionToEntity (wa_world app) = w_SessionToEntity (wa_world (rm_app r))"
    by (simp add: app_def t Let_def)
  have e: "w_Entities (wa_world app) = w_Entities (world_tick (wa_world (rm_app r)))"
    "view (wa_world app) = view (world_tick (wa_world (rm_app r)))"
    unfolding app_def by (simp_all add: game_Tick_world [OF ok])
  show "w_Entities (wa_world app) = {} \<Longrightarrow> snd (game_Tick (rm_app r)) = Inr None" unfolding e t by simp
  have "card (w_Entities (world_tick (wa_world (rm_app r)))) < 2 ^ 16"
    using entities_card [of "wa_world app"] inv e(1) by (simp add: world_inv_def)
  from decode_EncodeSnapshot [OF this]
  show "w_Entities (wa_world app) \<noteq> {} \<Longrightarrow> \<exists>frame. snd (game_Tick (rm_app r)) = Inr (Some frame) \<and> decode_snapshot frame
       = Some (map (\<lambda>i. (i, wire (view (wa_world app) i))) (sorted_list_of_set (w_Entities (wa_world app))))"
    unfolding e t by (simp add: Let_def)
qed

lemma room_tick_game:
  assumes "NewWitheredApplication map_orders rands = Some app0"
    and "\<forall>n. f32_le 0 (rands n) \<and> f32_lt (rands n) (f32_ratio 1 1)"
    and "room_game app0 n r" and "ps_wf p" and "ps_chans p msgCh = Some c" and "\<not> ch_closed c"
    and "ids_left (length (ch_buf c)) (rm_app r)"
    and "\<And>k. reg_List (rm_registry (fold (room_HandleMessage withered_app) (ch_buf c) r)) (orders k)"
  shows "\<exists>p' r'. room_tick withered_app (\<lambda>_. False) orders msgCh p r = Some (p', r')
    \<and> room_game app0 (Suc n) r' \<and> world_inv 1 (wa_world (rm_app r')) \<and> ps_subs p' = ps_subs p
    \<and> rm_registry r' = rm_registry (fold (room_HandleMessage withered_app) (ch_buf c) r)
    \<and> (if w_Entities (wa_world (rm_app r')) = {} then ps_chans p' = (ps_chans p)(msgCh \<mapsto> c\<lparr>ch_buf := []\<rparr>)
       else \<exists>frame es. ps_chans p' = delivered \<lparr>msg_SessionID = '''', msg_Data = frame\<rparr> (session_channels p (orders 0))
              ((ps_chans p)(msgCh \<mapsto> c\<lparr>ch_buf := []\<rparr>))
         \<and> decode_snapshot frame = Some es
         \<and> es = map (\<lambda>i. (i, wire (view (wa_world (rm_app r')) i))) (sorted_list_of_set (w_Entities (wa_world (rm_app r'))))
         \<and> (\<forall>s \<in> rm_registry r'. \<exists>i e. (i, e) \<in> set es \<and> en_Tag e = Some TagPlayer
              \<and> w_EntityToSession (wa_world (rm_app r')) i = Some s))"
proof -
  define r1 where "r1 = fold (room_HandleMessage withered_app) (ch_buf c) r"
  have ok: "game_ok app0" by (rule game_start_ok [OF assms(1,2)])
  have r1: "room_game app0 n r1" "ids_left 0 (rm_app r1)" using room_messages [OF ok assms(3,7)] by (simp_all add: r1_def)
  then have idle: "rm_sendCh r1 = []" by (simp add: room_game_def)
  define app where "app = fst (game_Tick (rm_app r1))"
  note t = game_Tick_room [OF ok r1, folded app_def]
  have "app_Tick withered_app (rm_app r1) = (app, snd (game_Tick (rm_app r1)))" by (simp add: withered_app_def app_def)
  from room_tick_ok [where orders = orders, OF assms(4-6,8) this [unfolded r1_def]]
  obtain p' where tick: "room_tick withered_app (\<lambda>_. False) orders msgCh p r = Some (p', r1\<lparr>rm_sendCh := [], rm_app := app\<rparr>)"
    "ps_subs p' = ps_subs p" and chans: "ps_chans p' = (case snd (game_Tick (rm_app r1)) of
             Inr (Some data) \<Rightarrow> delivered \<lparr>msg_SessionID = '''', msg_Data = data\<rparr> (session_channels p (orders 0))
                                  ((ps_chans p)(msgCh \<mapsto> c\<lparr>ch_buf := []\<rparr>))
           | _ \<Rightarrow> (ps_chans p)(msgCh \<mapsto> c\<lparr>ch_buf := []\<rparr>))"
    using idle unfolding r1_def by auto
  let ?r = "r1\<lparr>rm_sendCh := [], rm_app := app\<rparr>"
  have room: "room_game app0 (Suc n) ?r" using r1(1) t(1,3) by (simp add: room_game_def)
  let ?es = "map (\<lambda>i. (i, wire (view (wa_world app) i))) (sorted_list_of_set (w_Entities (wa_world app)))"
  have self: "\<exists>i e. (i, e) \<in> set ?es \<and> en_Tag e = Some TagPlayer \<and> w_EntityToSession (wa_world app) i = Some s"
    if reg: "s \<in> rm_registry ?r" for s
  proof -
    obtain i where "w_SessionToEntity (wa_world app) s = Some i" using reg room by (auto simp: room_game_def)
    note i = players_of_sessions [OF t(2) this]
    then have "(i, wire (view (wa_world app) i)) \<in> set ?es" by simp
    moreover have "en_Tag (wire (view (wa_world app) i)) = Some TagPlayer" using i(2) by (simp add: wire_def)
    ultimately show ?thesis using i(3) by blast
  qed
  show ?thesis
  proof (cases "w_Entities (wa_world app) = {}")
    case True
    with tick chans room t(2,4) show ?thesis by (simp add: r1_def)
  next
    case False
    obtain frame where f: "snd (game_Tick (rm_app r1)) = Inr (Some frame)" "decode_snapshot frame = Some ?es"
      using t(5) [OF False] by blast
    have "ps_chans p' = delivered \<lparr>msg_SessionID = '''', msg_Data = frame\<rparr> (session_channels p (orders 0))
        ((ps_chans p)(msgCh \<mapsto> c\<lparr>ch_buf := []\<rparr>))" using chans f(1) by simp
    with f(2) self have "\<exists>frame es. ps_chans p' = delivered \<lparr>msg_SessionID = '''', msg_Data = frame\<rparr>
        (session_channels p (orders 0)) ((ps_chans p)(msgCh \<mapsto> c\<lparr>ch_buf := []\<rparr>))
      \<and> decode_snapshot frame = Some es \<and> es = ?es
      \<and> (\<forall>s \<in> rm_registry ?r. \<exists>i e. (i, e) \<in> set es \<and> en_Tag e = Some TagPlayer
           \<and> w_EntityToSession (wa_world app) i = Some s)" by blast
    with tick room t(2) False show ?thesis
      by (intro exI [of _ p'] exI [of _ ?r]) (simp add: r1_def)
  qed
qed

text \<open>
  C28: One tick of a room that runs the game, for any messages of any clients that are waiting: it
  comes to an end, the game makes exactly one tick (so its invariant is kept), and the registry
  of the room and the sessions of the game stay the same set. When the world is not empty,
  one frame is put into the channels of exactly the registered sessions; it decodes to the
  entities of the world, and every registered session has its own player in it. When the
  world is empty nothing is sent.
\<close>

theorem room_serves_game:
  assumes "NewWitheredApplication map_orders rands = Some app0"
    and "\<forall>n. f32_le 0 (rands n) \<and> f32_lt (rands n) (f32_ratio 1 1)"
    and "room_game app0 n r" and "ps_wf p" and "ps_chans p msgCh = Some c" and "\<not> ch_closed c"
    and "ids_left (length (ch_buf c)) (rm_app r)"
    and "\<And>k. reg_List (rm_registry (fold (room_HandleMessage withered_app) (ch_buf c) r)) (orders k)"
  shows "\<exists>p' r'. room_tick withered_app (\<lambda>_. False) orders msgCh p r = Some (p', r')
    \<and> room_game app0 (Suc n) r' \<and> world_inv 1 (wa_world (rm_app r')) \<and> ps_subs p' = ps_subs p
    \<and> rm_registry r' = rm_registry (fold (room_HandleMessage withered_app) (ch_buf c) r)
    \<and> (if w_Entities (wa_world (rm_app r')) = {} then ps_chans p' = (ps_chans p)(msgCh \<mapsto> c\<lparr>ch_buf := []\<rparr>)
       else \<exists>frame es. ps_chans p' = delivered \<lparr>msg_SessionID = '''', msg_Data = frame\<rparr> (session_channels p (orders 0))
              ((ps_chans p)(msgCh \<mapsto> c\<lparr>ch_buf := []\<rparr>))
         \<and> decode_snapshot frame = Some es
         \<and> es = map (\<lambda>i. (i, wire (view (wa_world (rm_app r')) i))) (sorted_list_of_set (w_Entities (wa_world (rm_app r'))))
         \<and> (\<forall>s \<in> rm_registry r'. \<exists>i e. (i, e) \<in> set es \<and> en_Tag e = Some TagPlayer
              \<and> w_EntityToSession (wa_world (rm_app r')) i = Some s))"
  by (rule room_tick_game [OF assms])

text \<open>The same for one client whose channel is not full.\<close>

lemma room_tick_own_player:
  assumes "NewWitheredApplication map_orders rands = Some app0"
    and "\<forall>n. f32_le 0 (rands n) \<and> f32_lt (rands n) (f32_ratio 1 1)"
    and "room_game app0 n r" and "ps_wf p" and "ps_chans p msgCh = Some c" and "\<not> ch_closed c"
    and "ids_left (length (ch_buf c)) (rm_app r)"
    and order: "\<And>k. reg_List (rm_registry (fold (room_HandleMessage withered_app) (ch_buf c) r)) (orders k)"
    and s: "s \<in> rm_registry (fold (room_HandleMessage withered_app) (ch_buf c) r)"
    and ch: "ch \<in> set (subscribers p (session_topic s))" "ps_chans p ch = Some c'" "length (ch_buf c') < DefaultChannelBuffer"
      "ch \<noteq> msgCh"
  shows "\<exists>p' r' frame es i e. room_tick withered_app (\<lambda>_. False) orders msgCh p r = Some (p', r')
    \<and> room_game app0 (Suc n) r' \<and> s \<in> rm_registry r'
    \<and> ps_chans p' ch = Some (c'\<lparr>ch_buf := ch_buf c' @ [\<lparr>msg_SessionID = '''', msg_Data = frame\<rparr>]\<rparr>)
    \<and> decode_snapshot frame = Some es \<and> (i, e) \<in> set es \<and> en_Tag e = Some TagPlayer
    \<and> w_EntityToSession (wa_world (rm_app r')) i = Some s"
proof -
  note served = room_tick_game [where orders = orders, OF assms(1-8)]
  obtain p' r' where t: "room_tick withered_app (\<lambda>_. False) orders msgCh p r = Some (p', r')" "room_game app0 (Suc n) r'"
    "world_inv 1 (wa_world (rm_app r'))" "rm_registry r' = rm_registry (fold (room_HandleMessage withered_app) (ch_buf c) r)"
    "if w_Entities (wa_world (rm_app r')) = {} then ps_chans p' = (ps_chans p)(msgCh \<mapsto> c\<lparr>ch_buf := []\<rparr>)
       else \<exists>frame es. ps_chans p' = delivered \<lparr>msg_SessionID = '''', msg_Data = frame\<rparr> (session_channels p (orders 0))
              ((ps_chans p)(msgCh \<mapsto> c\<lparr>ch_buf := []\<rparr>))
         \<and> decode_snapshot frame = Some es
         \<and> es = map (\<lambda>i. (i, wire (view (wa_world (rm_app r')) i))) (sorted_list_of_set (w_Entities (wa_world (rm_app r'))))
         \<and> (\<forall>s \<in> rm_registry r'. \<exists>i e. (i, e) \<in> set es \<and> en_Tag e = Some TagPlayer
              \<and> w_EntityToSession (wa_world (rm_app r')) i = Some s)"
    using served by (elim exE conjE) (rule that)
  have reg: "s \<in> rm_registry r'" using s unfolding t(4) .
  then have "s \<in> dom (w_SessionToEntity (wa_world (rm_app r')))" using t(2) unfolding room_game_def by blast
  then have ne: "w_Entities (wa_world (rm_app r')) \<noteq> {}" using players_of_sessions(1) [OF t(3)] by blast
  obtain frame es where u: "ps_chans p' = delivered \<lparr>msg_SessionID = '''', msg_Data = frame\<rparr> (session_channels p (orders 0))
      ((ps_chans p)(msgCh \<mapsto> c\<lparr>ch_buf := []\<rparr>))" "decode_snapshot frame = Some es"
      "\<forall>s \<in> rm_registry r'. \<exists>i e. (i, e) \<in> set es \<and> en_Tag e = Some TagPlayer
         \<and> w_EntityToSession (wa_world (rm_app r')) i = Some s"
    using t(5) unfolding if_not_P [OF ne] by (elim exE conjE) (rule that)
  have "s \<in> set (orders 0)" using order [of 0] s by (simp add: reg_List_def)
  then have "ch \<in> set (session_channels p (orders 0))" using ch(1) by (auto simp: session_channels_def)
  then have "ps_chans p' ch = Some (c'\<lparr>ch_buf := ch_buf c' @ [\<lparr>msg_SessionID = '''', msg_Data = frame\<rparr>]\<rparr>)"
    unfolding u(1) using ch(2-4) by (simp add: delivered_def)
  with t(1,2) reg u(2,3) show ?thesis by blast
qed

text \<open>A room with one client: the join message is waiting.\<close>

abbreviation ex_join :: Message where
  "ex_join \<equiv> \<lparr>msg_SessionID = ''s'', msg_Data = room_payload ''r'' RoomMsgTypeJoin []\<rparr>"

abbreviation ex_room :: "WitheredApplication Room" where
  "ex_room \<equiv> NewRoom (replicate 16 0) {} ex_app"

lemma ex_room_joined: "room_HandleMessage withered_app ex_join ex_room = ex_room\<lparr>rm_registry := {''s''}, rm_app := OnJoin ex_app ''s''\<rparr>"
  unfolding withered_app_def by (subst room_HandleMessage_payload) (simp_all add: NewRoom_def)

lemma ex_room_registry: "reg_List (rm_registry (fold (room_HandleMessage withered_app) [ex_join] ex_room)) [''s'']"
  by (simp add: ex_room_joined reg_List_def)

lemma ex_room_game: "room_game ex_app 0 ex_room"
  by (simp add: room_game_def NewRoom_def game_run.start NewShootingWorld_def)

lemma ex_room_ids: "ids_left (length [ex_join]) (rm_app ex_room)"
  by (simp add: NewRoom_def NewShootingWorld_def ids_left_def players_def)

theorem room_serves_game_witness:
  "\<exists>p. ps_wf p \<and> (\<exists>p' r' frame es i e. room_tick withered_app (\<lambda>_. False) (\<lambda>_. [''s'']) 0 p ex_room = Some (p', r')
      \<and> rm_registry r' = {''s''}
      \<and> ps_chans p' 1 = Some \<lparr>ch_buf = [\<lparr>msg_SessionID = '''', msg_Data = frame\<rparr>], ch_closed = False\<rparr>
      \<and> decode_snapshot frame = Some es \<and> (i, e) \<in> set es \<and> en_Tag e = Some TagPlayer
      \<and> w_EntityToSession (wa_world (rm_app r')) i = Some ''s'')"
proof -
  let ?c = "\<lparr>ch_buf = [ex_join], ch_closed = False\<rparr>"
  obtain p where p: "ps_wf p" "ps_chans p 0 = Some ?c" "ps_chans p 1 = Some \<lparr>ch_buf = [], ch_closed = False\<rparr>"
    "subscribers p ''session:s'' = [1]" by (rule ex_channels)
  have rands: "\<forall>n :: nat. f32_le 0 0x3F000000 \<and> f32_lt 0x3F000000 (f32_ratio 1 1)" by (rule ex_app(2))
  have open_ids: "\<not> ch_closed ?c" "ids_left (length (ch_buf ?c)) (rm_app ex_room)"
    "reg_List (rm_registry (fold (room_HandleMessage withered_app) (ch_buf ?c) ex_room)) [''s'']"
    unfolding chan.simps by (simp, rule ex_room_ids, rule ex_room_registry)
  note served = room_serves_game [where orders = "\<lambda>_. [''s'']", OF ex_app(1) rands ex_room_game p(1,2) open_ids]
  obtain p' r' where t: "room_tick withered_app (\<lambda>_. False) (\<lambda>_. [''s'']) 0 p ex_room = Some (p', r')" "room_game ex_app (Suc 0) r'"
    "world_inv 1 (wa_world (rm_app r'))" "rm_registry r' = rm_registry (fold (room_HandleMessage withered_app) (ch_buf ?c) ex_room)"
    "if w_Entities (wa_world (rm_app r')) = {} then ps_chans p' = (ps_chans p)(0 \<mapsto> ?c\<lparr>ch_buf := []\<rparr>)
       else \<exists>frame es. ps_chans p' = delivered \<lparr>msg_SessionID = '''', msg_Data = frame\<rparr> (session_channels p [''s''])
              ((ps_chans p)(0 \<mapsto> ?c\<lparr>ch_buf := []\<rparr>))
         \<and> decode_snapshot frame = Some es
         \<and> es = map (\<lambda>i. (i, wire (view (wa_world (rm_app r')) i))) (sorted_list_of_set (w_Entities (wa_world (rm_app r'))))
         \<and> (\<forall>s \<in> rm_registry r'. \<exists>i e. (i, e) \<in> set es \<and> en_Tag e = Some TagPlayer
              \<and> w_EntityToSession (wa_world (rm_app r')) i = Some s)"
    using served by (elim exE conjE) (rule that)
  have reg: "rm_registry r' = {''s''}" unfolding t(4) chan.simps fold_simps ex_room_joined by simp
  have "''s'' \<in> dom (w_SessionToEntity (wa_world (rm_app r')))" using t(2) reg unfolding room_game_def by blast
  then obtain i0 where "w_SessionToEntity (wa_world (rm_app r')) ''s'' = Some i0" by blast
  then have ne: "w_Entities (wa_world (rm_app r')) \<noteq> {}" using players_of_sessions(1) [OF t(3)] by blast
  obtain frame es where u: "ps_chans p' = delivered \<lparr>msg_SessionID = '''', msg_Data = frame\<rparr> (session_channels p [''s''])
      ((ps_chans p)(0 \<mapsto> ?c\<lparr>ch_buf := []\<rparr>))" "decode_snapshot frame = Some es"
      "\<forall>s \<in> rm_registry r'. \<exists>i e. (i, e) \<in> set es \<and> en_Tag e = Some TagPlayer
         \<and> w_EntityToSession (wa_world (rm_app r')) i = Some s"
    using t(5) unfolding if_not_P [OF ne] by (elim exE conjE) (rule that)
  obtain i e where e: "(i, e) \<in> set es" "en_Tag e = Some TagPlayer" "w_EntityToSession (wa_world (rm_app r')) i = Some ''s''"
    using u(3) unfolding reg by blast
  have "session_channels p [''s''] = [1]" using p(4) by (simp add: session_channels_def)
  then have "ps_chans p' 1 = Some \<lparr>ch_buf = [\<lparr>msg_SessionID = '''', msg_Data = frame\<rparr>], ch_closed = False\<rparr>"
    unfolding u(1) using p(3) by (simp add: delivered_def DefaultChannelBuffer_def)
  with p(1) t(1) reg u(2) e show ?thesis by (intro exI conjI)
qed

end
