(* ===== verification/Endpoint.thy ===== *)
theory Endpoint
  imports Room
begin

text \<open>
  The endpoint of one client connection: \<open>server/domain/session_endpoint.go\<close>, \<open>connection.go\<close>,
  \<open>endpoint_events.go\<close> and \<open>heartbeat_service.go\<close>. Its four loops and the heartbeat run
  concurrently; \<open>ep_step\<close> has one step per iteration of a loop, and a read in progress is a
  state of its own, because the read may still return data after the endpoint was closed. The
  transport is an argument of the steps: the data or the error it returns. A panic, or a send
  to the control channel that blocks, is \<open>None\<close>.
\<close>

datatype EndpointError = ErrSessionAlreadyAttached | ErrSessionNotAttached | ErrBackpressure | ErrInitializationFailed

datatype endpointEventKind = unknownEvent | evPong | evClose

record endpointEvent =
  ee_kind :: endpointEventKind
  ee_err :: "string option"

record Connection =
  cn_SessionID :: SessionID
  cn_ConnectionID :: u64
  cn_closed :: bool

text \<open>\<open>connectionIDCounter.Add(1)\<close> wraps around at \<open>2^64\<close>.\<close>

definition NewConnection :: "SessionID \<Rightarrow> u64 \<Rightarrow> Connection \<times> u64" where
  "NewConnection sid counter =
     (let counter = counter + 1 in (\<lparr>cn_SessionID = sid, cn_ConnectionID = counter, cn_closed = False\<rparr>, counter))"

definition cn_Close :: "Connection \<Rightarrow> Connection" where
  "cn_Close c = c\<lparr>cn_closed := True\<rparr>"

record SessionEndpoint =
  ep_session :: Session
  ep_conn :: Connection
  ep_roomID :: string
  ep_ctrlCh :: "endpointEvent list"
  ep_writeCh :: "byte list list"
  ep_closed :: bool
  ep_cancelled :: bool
  ep_msgCh :: nat
  ep_inRead :: bool
  ep_readLoop :: bool
  ep_writeLoop :: bool
  ep_subLoop :: bool

text \<open>The arguments may be nil. The loops are not running yet, there is no subscription.\<close>

definition NewSessionEndpoint ::
  "Session option \<Rightarrow> Connection option \<Rightarrow> unit option \<Rightarrow> SimpleRoomManager option \<Rightarrow> EndpointError + SessionEndpoint" where
  "NewSessionEndpoint session connection pubsub roomManager =
     (case session of
        None \<Rightarrow> Inl ErrInitializationFailed
      | Some s \<Rightarrow>
     (case connection of
        None \<Rightarrow> Inl ErrInitializationFailed
      | Some c \<Rightarrow>
          if pubsub = None then Inl ErrInitializationFailed
          else if roomManager = None then Inl ErrInitializationFailed
          else Inr \<lparr>ep_session = s, ep_conn = c, ep_roomID = '''', ep_ctrlCh = [], ep_writeCh = [],
                    ep_closed = False, ep_cancelled = False, ep_msgCh = 0, ep_inRead = False,
                    ep_readLoop = False, ep_writeLoop = False, ep_subLoop = False\<rparr>))"

definition Send :: "byte list \<Rightarrow> SessionEndpoint \<Rightarrow> SessionEndpoint \<times> EndpointError option" where
  "Send data se =
     (if length (ep_writeCh se) < 1024 then (se\<lparr>ep_writeCh := ep_writeCh se @ [data]\<rparr>, None)
      else (se, Some ErrBackpressure))"

text \<open>
  The start of \<open>Run\<close>: subscribe to the own topic, start the loops, send the assign message. A
  full channel would end \<open>Run\<close> with the error.
\<close>

definition run_start :: "nat \<Rightarrow> SimplePubSub \<times> SessionEndpoint \<Rightarrow> SimplePubSub \<times> SessionEndpoint \<times> EndpointError option" where
  "run_start grow st =
     (let (p, se) = st;
          (p, msgCh) = ps_Subscribe grow (session_topic (se_id (ep_session se))) p;
          se = se\<lparr>ep_msgCh := msgCh, ep_readLoop := True, ep_writeLoop := True, ep_subLoop := True\<rparr>;
          assignMsg = EncodeAssign (SessionID_Bytes (se_id (ep_session se)));
          (se, err) = Send assignMsg se
      in (p, se, err))"

text \<open>
  The end of \<open>Run\<close>: when all loops have returned (none of them reports an error), the deferred call
  gives the subscription back.
\<close>

definition run_end :: "SimplePubSub \<times> SessionEndpoint \<Rightarrow> SimplePubSub option" where
  "run_end st =
     (let (p, se) = st
      in if ep_cancelled se \<and> \<not> ep_inRead se \<and> \<not> ep_readLoop se \<and> \<not> ep_writeLoop se \<and> \<not> ep_subLoop se
         then ps_Unsubscribe (session_topic (se_id (ep_session se))) (ep_msgCh se) p
         else None)"

text \<open>
  \<open>sendCtrlEvent\<close> waits for room in the channel or for the end of the context; \<open>pick\<close> is the
  choice of the select when both are ready. \<open>None\<close>: it blocks.
\<close>

definition sendCtrlEvent :: "bool \<Rightarrow> endpointEvent \<Rightarrow> SessionEndpoint \<Rightarrow> SessionEndpoint option" where
  "sendCtrlEvent pick ev se =
     (let room = (length (ep_ctrlCh se) < 16)
      in if ep_cancelled se \<and> (pick \<or> \<not> room) then Some se
         else if room then Some (se\<lparr>ep_ctrlCh := ep_ctrlCh se @ [ev]\<rparr>)
         else None)"

definition ep_Close :: "bool \<Rightarrow> SessionEndpoint \<Rightarrow> SessionEndpoint option" where
  "ep_Close pick se = sendCtrlEvent pick \<lparr>ee_kind = evClose, ee_err = None\<rparr> se"

text \<open>\<open>close\<close>: leave the room, cancel the context, close session and connection.\<close>

definition leave_data :: "string \<Rightarrow> byte list" where
  "leave_data roomID =
     (let leavePayload = EncodeRoomMessage roomID RoomMsgTypeLeave [];
          hdrLen = (case ParseTransportHeader leavePayload of Inl _ \<Rightarrow> 0 | Inr (_, _, n) \<Rightarrow> n)
      in drop hdrLen leavePayload)"

definition close_endpoint ::
  "(nat \<Rightarrow> bool) \<Rightarrow> SimplePubSub \<times> SessionEndpoint \<Rightarrow> (SimplePubSub \<times> SessionEndpoint) option" where
  "close_endpoint stop st =
     (let (p, se) = st
      in if ep_closed se then Some (p, se)
         else
           (let se = se\<lparr>ep_closed := True\<rparr>
            in do {
              (p, se) \<leftarrow>
                (if ep_roomID se \<noteq> '''' then
                   do {
                     p \<leftarrow> Publish stop (''room:'' @ ep_roomID se)
                            \<lparr>msg_SessionID = se_id (ep_session se), msg_Data = leave_data (ep_roomID se)\<rparr> p;
                     Some (p, se\<lparr>ep_roomID := ''''\<rparr>)
                   }
                 else Some (p, se));
              Some (p, se\<lparr>ep_cancelled := True, ep_session := fst (Session_Close (ep_session se)),
                          ep_conn := cn_Close (ep_conn se)\<rparr>)
            }))"

definition handleData ::
  "(nat \<Rightarrow> bool) \<Rightarrow> bool \<Rightarrow> byte list \<Rightarrow> SimplePubSub \<times> SessionEndpoint \<Rightarrow> (SimplePubSub \<times> SessionEndpoint) option" where
  "handleData stop pick data st =
     (let (p, se) = st
      in case ParseTransportHeader data of
           Inl _ \<Rightarrow> Some (p, se)
         | Inr (msgType, totalLen, hdrLen) \<Rightarrow>
             if hdrLen + unat totalLen > length data then Some (p, se)
             else
               (let payload = go_slice hdrLen (hdrLen + unat totalLen) data
                in if msgType = MsgTypePong then
                     map_option (Pair p) (sendCtrlEvent pick \<lparr>ee_kind = evPong, ee_err = None\<rparr> se)
                   else if msgType = MsgTypeRoomMessage then
                     (case ParseRoomID payload of
                        Inl _ \<Rightarrow> Some (p, se)
                      | Inr (roomID, n) \<Rightarrow>
                          (case ParseRoomHeader (drop n payload) of
                             Inl _ \<Rightarrow> Some (p, se)
                           | Inr (roomMsgType, _) \<Rightarrow>
                               (let se = (if roomMsgType = RoomMsgTypeJoin then se\<lparr>ep_roomID := roomID\<rparr> else se)
                                in do {
                                  p \<leftarrow> Publish stop (''room:'' @ roomID)
                                         \<lparr>msg_SessionID = se_id (ep_session se), msg_Data = payload\<rparr> p;
                                  Some (p, if roomMsgType = RoomMsgTypeLeave then se\<lparr>ep_roomID := ''''\<rparr> else se)
                                })))
                   else Some (p, se)))"

definition handleControlEvent ::
  "(nat \<Rightarrow> bool) \<Rightarrow> int64 \<Rightarrow> endpointEvent \<Rightarrow> SimplePubSub \<times> SessionEndpoint \<Rightarrow> (SimplePubSub \<times> SessionEndpoint) option" where
  "handleControlEvent stop now ev st =
     (case ee_kind ev of
        evClose \<Rightarrow> close_endpoint stop st
      | evPong \<Rightarrow> (let (p, se) = st in Some (p, se\<lparr>ep_session := TouchPong now (ep_session se)\<rparr>))
      | unknownEvent \<Rightarrow> Some st)"

text \<open>Forwarding a message of the own topic, and a ping: a full write channel drops them.\<close>

definition forward :: "byte list \<Rightarrow> SessionEndpoint \<Rightarrow> SessionEndpoint" where
  "forward data se =
     (if length (ep_writeCh se) < 1024 then se\<lparr>ep_writeCh := ep_writeCh se @ [data]\<rparr> else se)"

definition heartbeat :: "SessionEndpoint \<Rightarrow> SessionEndpoint" where
  "heartbeat se = forward EncodePing se"

definition idle_timeout :: int64 where "idle_timeout = 30 * 1000000000"

text \<open>One iteration of each loop.\<close>

inductive ep_step :: "SimplePubSub \<times> SessionEndpoint \<Rightarrow> SimplePubSub \<times> SessionEndpoint \<Rightarrow> bool" where
  read_begin: "ep_readLoop se \<Longrightarrow> \<not> ep_cancelled se \<Longrightarrow> ep_step (p, se) (p, se\<lparr>ep_inRead := True\<rparr>)"
| read_end: "ep_readLoop se \<Longrightarrow> ep_cancelled se \<Longrightarrow> \<not> ep_inRead se \<Longrightarrow> ep_step (p, se) (p, se\<lparr>ep_readLoop := False\<rparr>)"
| read_data: "ep_inRead se
    \<Longrightarrow> handleData stop pick data (p, se\<lparr>ep_inRead := False, ep_session := TouchRead now (ep_session se)\<rparr>) = Some st
    \<Longrightarrow> ep_step (p, se) st"
| read_error: "ep_inRead se
    \<Longrightarrow> sendCtrlEvent pick \<lparr>ee_kind = evClose, ee_err = Some e\<rparr> (se\<lparr>ep_inRead := False, ep_readLoop := False\<rparr>) = Some se'
    \<Longrightarrow> ep_step (p, se) (p, se')"
| write_ok: "ep_writeLoop se \<Longrightarrow> ep_writeCh se = d # ds
    \<Longrightarrow> ep_step (p, se) (p, se\<lparr>ep_writeCh := ds, ep_session := TouchWrite now (ep_session se)\<rparr>)"
| write_error: "ep_writeLoop se \<Longrightarrow> ep_writeCh se = d # ds
    \<Longrightarrow> sendCtrlEvent pick \<lparr>ee_kind = evClose, ee_err = Some e\<rparr> (se\<lparr>ep_writeCh := ds, ep_writeLoop := False\<rparr>) = Some se'
    \<Longrightarrow> ep_step (p, se) (p, se')"
| write_end: "ep_writeLoop se \<Longrightarrow> ep_cancelled se \<Longrightarrow> ep_step (p, se) (p, se\<lparr>ep_writeLoop := False\<rparr>)"
| sub: "ep_subLoop se \<Longrightarrow> try_recv (ep_msgCh se) p = Some (p', msg, ok)
    \<Longrightarrow> ep_step (p, se) (p', if ok then forward (msg_Data msg) se else se\<lparr>ep_subLoop := False\<rparr>)"
| sub_end: "ep_subLoop se \<Longrightarrow> ep_cancelled se \<Longrightarrow> ep_step (p, se) (p, se\<lparr>ep_subLoop := False\<rparr>)"
| control: "ep_ctrlCh se = ev # evs \<Longrightarrow> handleControlEvent stop now ev (p, se\<lparr>ep_ctrlCh := evs\<rparr>) = Some st
    \<Longrightarrow> ep_step (p, se) st"
| idle: "IsIdle nows (ep_session se) idle_timeout = (True, reason)
    \<Longrightarrow> handleControlEvent stop now \<lparr>ee_kind = evClose, ee_err = Some (IdleReason_String reason)\<rparr> (p, se) = Some st
    \<Longrightarrow> ep_step (p, se) st"
| ping: "ep_step (p, se) (p, heartbeat se)"
| request_close: "ep_Close pick se = Some se' \<Longrightarrow> ep_step (p, se) (p, se')"

text \<open>
  The states an endpoint reaches after \<open>run_start\<close>. Between its own steps the rest of the server
  may change the publish/subscribe service in any way (\<open>other\<close>).
\<close>

inductive ep_reach :: "SessionEndpoint \<Rightarrow> SimplePubSub \<times> SessionEndpoint \<Rightarrow> bool" for se0 where
  start: "run_start grow (p, se0) = (p', se, None) \<Longrightarrow> ep_reach se0 (p', se)"
| step: "ep_reach se0 st \<Longrightarrow> ep_step st st' \<Longrightarrow> ep_reach se0 st'"
| other: "ep_reach se0 (p, se) \<Longrightarrow> ep_reach se0 (q, se)"

subsection \<open>The invariant of an endpoint\<close>

definition ep_inv :: "SessionEndpoint \<Rightarrow> bool" where
  "ep_inv se \<longleftrightarrow> length (ep_ctrlCh se) \<le> 16 \<and> length (ep_writeCh se) \<le> 1024
     \<and> (ep_closed se \<longleftrightarrow> ep_cancelled se)
     \<and> (ep_closed se \<longleftrightarrow> se_closed (ep_session se)) \<and> (ep_closed se \<longleftrightarrow> cn_closed (ep_conn se))
     \<and> cn_SessionID (ep_conn se) = se_id (ep_session se)"

lemma sendCtrlEvent_inv:
  assumes "sendCtrlEvent pick ev se = Some se'" "ep_inv se"
  shows "ep_inv se' \<and> ep_session se' = ep_session se"
  using assms by (auto simp: sendCtrlEvent_def ep_inv_def Let_def split: if_splits)

lemma forward_inv: "ep_inv se \<Longrightarrow> ep_inv (forward d se)" "ep_session (forward d se) = ep_session se"
  by (auto simp: forward_def ep_inv_def)

lemma close_endpoint_inv:
  assumes "close_endpoint stop (p, se) = Some (p', se')" "ep_inv se"
  shows "ep_inv se' \<and> ep_closed se' \<and> se_id (ep_session se') = se_id (ep_session se)"
  using assms
  by (auto simp: close_endpoint_def Let_def ep_inv_def Session_Close_def cn_Close_def
      split: if_splits bind_splits)

lemma handleData_inv:
  assumes "handleData stop pick data (p, se) = Some (p', se')" "ep_inv se"
  shows "ep_inv se' \<and> ep_session se' = ep_session se"
proof -
  have room: "ep_inv (se\<lparr>ep_roomID := i\<rparr>)" for i using assms(2) by (auto simp: ep_inv_def)
  show ?thesis
    using assms(1) assms(2) room sendCtrlEvent_inv [OF _ assms(2)]
    by (auto simp: handleData_def Let_def split: sum.splits if_splits bind_splits)
qed

lemma handleControlEvent_inv:
  assumes "handleControlEvent stop now ev (p, se) = Some (p', se')" "ep_inv se"
  shows "ep_inv se' \<and> se_id (ep_session se') = se_id (ep_session se)"
  using assms close_endpoint_inv [of stop p se p' se']
  by (cases "ee_kind ev") (auto simp: handleControlEvent_def ep_inv_def TouchPong_def)

lemma ep_inv_updates:
  assumes "ep_inv se"
  shows "ep_inv (se\<lparr>ep_inRead := b\<rparr>)" "ep_inv (se\<lparr>ep_readLoop := b\<rparr>)" "ep_inv (se\<lparr>ep_writeLoop := b\<rparr>)"
    "ep_inv (se\<lparr>ep_subLoop := b\<rparr>)" "ep_inv (se\<lparr>ep_session := TouchRead n (ep_session se)\<rparr>)"
    "ep_inv (se\<lparr>ep_session := TouchWrite n (ep_session se)\<rparr>)"
    "ep_ctrlCh se = ev # evs \<Longrightarrow> ep_inv (se\<lparr>ep_ctrlCh := evs\<rparr>)"
    "ep_writeCh se = d # ds \<Longrightarrow> ep_inv (se\<lparr>ep_writeCh := ds\<rparr>)"
  using assms by (auto simp: ep_inv_def TouchRead_def TouchWrite_def)

lemma ep_step_inv:
  assumes "ep_step (p, se) (p', se')" "ep_inv se"
  shows "ep_inv se' \<and> se_id (ep_session se') = se_id (ep_session se)"
  using assms
proof (induction "(p, se)" "(p', se')" rule: ep_step.induct)
  case (read_data stop pick data now)
  have "ep_inv (se\<lparr>ep_inRead := False, ep_session := TouchRead now (ep_session se)\<rparr>)"
    using ep_inv_updates(5) [OF ep_inv_updates(1) [OF read_data.prems], of now False] by simp
  with handleData_inv [OF read_data.hyps(2)] show ?case by (simp add: TouchRead_def)
next
  case (read_error pick e)
  have "ep_inv (se\<lparr>ep_inRead := False, ep_readLoop := False\<rparr>)"
    using ep_inv_updates(2) [OF ep_inv_updates(1) [OF read_error.prems]] by simp
  with sendCtrlEvent_inv [OF read_error.hyps(2)] show ?case by simp
next
  case (write_error d ds pick e)
  have "ep_inv (se\<lparr>ep_writeCh := ds, ep_writeLoop := False\<rparr>)"
    using ep_inv_updates(3) [OF ep_inv_updates(8) [OF write_error.prems write_error.hyps(2)]] by simp
  with sendCtrlEvent_inv [OF write_error.hyps(3)] show ?case by simp
next
  case (control ev evs stop now)
  with handleControlEvent_inv [OF control.hyps(2) ep_inv_updates(7) [OF control.prems control.hyps(1)]] show ?case by simp
next
  case (idle nows reason stop now)
  with handleControlEvent_inv [OF idle.hyps(2) idle.prems] show ?case by simp
next
  case (request_close pick)
  with sendCtrlEvent_inv [OF _ request_close.prems] show ?case by (auto simp: ep_Close_def)
next
  case (write_ok d ds now)
  then show ?case by (auto simp: ep_inv_def TouchWrite_def)
qed (auto simp: heartbeat_def ep_inv_updates forward_inv)

text \<open>
  Whatever the client sends and whatever fails, and however the loops and the rest of the
  server interleave, an endpoint keeps its channels within their capacities, and endpoint,
  context, session and connection are closed together. It keeps the session it was made for.
\<close>

theorem endpoint_invariant:
  assumes "ep_reach se0 (p, se)" and "NewSessionEndpoint (Some s) (Some c) (Some ()) (Some m) = Inr se0"
    and "cn_SessionID c = se_id s" "\<not> cn_closed c" "\<not> se_closed s"
  shows "length (ep_ctrlCh se) \<le> 16 \<and> length (ep_writeCh se) \<le> 1024
    \<and> (ep_closed se \<longleftrightarrow> ep_cancelled se) \<and> (ep_closed se \<longleftrightarrow> se_closed (ep_session se))
    \<and> (ep_closed se \<longleftrightarrow> cn_closed (ep_conn se)) \<and> se_id (ep_session se) = se_id s"
proof -
  have "ep_inv (snd st) \<and> se_id (ep_session (snd st)) = se_id s" if "ep_reach se0 st" for st
    using that
  proof (induction rule: ep_reach.induct)
    case (start grow p p' se)
    then show ?case
      using assms(2-5) by (auto simp: NewSessionEndpoint_def run_start_def Send_def ep_inv_def split: prod.splits)
  next
    case (step st st')
    then show ?case using ep_step_inv [of "fst st" "snd st" "fst st'" "snd st'"] by simp
  qed simp
  from this [OF assms(1)] show ?thesis by (auto simp: ep_inv_def)
qed

definition ex_session :: Session where
  "ex_session = NewSession (replicate 16 7) 0"

definition ex_endpoint :: SessionEndpoint where
  "ex_endpoint = \<lparr>ep_session = ex_session, ep_conn = fst (NewConnection (se_id ex_session) 0), ep_roomID = '''',
     ep_ctrlCh = [], ep_writeCh = [], ep_closed = False, ep_cancelled = False, ep_msgCh = 0, ep_inRead = False,
     ep_readLoop = False, ep_writeLoop = False, ep_subLoop = False\<rparr>"

theorem endpoint_invariant_witness:
  "\<exists>p se. ep_reach ex_endpoint (p, se) \<and> ep_closed se \<and> ep_cancelled se \<and> cn_closed (ep_conn se)"
proof -
  let ?s = "ex_endpoint\<lparr>ep_msgCh := 0, ep_readLoop := True, ep_writeLoop := True, ep_subLoop := True,
    ep_writeCh := [EncodeAssign (SessionID_Bytes (se_id ex_session))]\<rparr>"
  let ?ev = "\<lparr>ee_kind = evClose, ee_err = None\<rparr>"
  obtain p where start: "run_start 0 (NewSimplePubSub, ex_endpoint) = (p, ?s, None)"
    by (simp add: run_start_def ps_Subscribe_def NewSimplePubSub_def Send_def ex_endpoint_def)
  have r1: "ep_reach ex_endpoint (p, ?s)" by (rule ep_reach.start [OF start])
  have "ep_Close False ?s = Some (?s\<lparr>ep_ctrlCh := [?ev]\<rparr>)"
    by (simp add: ep_Close_def sendCtrlEvent_def ex_endpoint_def)
  then have r2: "ep_reach ex_endpoint (p, ?s\<lparr>ep_ctrlCh := [?ev]\<rparr>)"
    by (intro ep_reach.step [OF r1] ep_step.request_close)
  have "handleControlEvent (\<lambda>_. False) 0 ?ev (p, ?s)
      = Some (p, ?s\<lparr>ep_closed := True, ep_cancelled := True, ep_session := fst (Session_Close ex_session),
          ep_conn := cn_Close (ep_conn ex_endpoint)\<rparr>)" (is "_ = Some (p, ?e)")
    by (simp add: handleControlEvent_def close_endpoint_def ex_endpoint_def)
  then have r3: "ep_reach ex_endpoint (p, ?e)"
    by (intro ep_reach.step [OF r2] ep_step.control [where ev = ?ev and evs = "[]"]) (simp_all add: ex_endpoint_def)
  have "NewSessionEndpoint (Some ex_session) (Some (ep_conn ex_endpoint)) (Some ()) (Some (NewSimpleRoomManager [])) = Inr ex_endpoint"
    by (simp add: NewSessionEndpoint_def ex_endpoint_def)
  from endpoint_invariant [OF r3 this] r3 show ?thesis
    by (intro exI [of _ p] exI [of _ ?e])
      (simp add: ex_endpoint_def NewConnection_def ex_session_def NewSession_def)
qed

subsection \<open>Messages to a room\<close>

text \<open>A message on the wire: what \<open>handleData\<close> makes of the encoding of a room message.\<close>

lemma handleData_room_message:
  assumes len: "length (room_payload roomID t d) < 2 ^ 62" and t: "unat t < 2 ^ 62"
  shows "handleData stop pick (EncodeRoomMessage roomID t d @ rest) (p, se) =
    (let se = (if t = RoomMsgTypeJoin then se\<lparr>ep_roomID := roomID\<rparr> else se)
     in map_option (\<lambda>p. (p, if t = RoomMsgTypeLeave then se\<lparr>ep_roomID := ''''\<rparr> else se))
          (Publish stop (''room:'' @ roomID) \<lparr>msg_SessionID = se_id (ep_session se), msg_Data = room_payload roomID t d\<rparr> p))"
proof -
  let ?n = "length (room_payload roomID t d)"
  have l: "length roomID < 2 ^ 62" using len by (simp add: room_payload_def)
  have u: "unat (of_nat ?n :: u64) = ?n" by (rule unat_length [OF len])
  have hdr: "ParseTransportHeader (EncodeRoomMessage roomID t d @ rest)
      = Inr (MsgTypeRoomMessage, of_nat ?n, VarintLen MsgTypeRoomMessage + VarintLen (of_nat ?n))"
    using Parse_TransportHeader [of MsgTypeRoomMessage "of_nat ?n" "room_payload roomID t d @ rest"] u len
    by (simp add: EncodeRoomMessage_payload msg_types)
  have le: "length (EncodeRoomMessage roomID t d @ rest)
      = VarintLen MsgTypeRoomMessage + VarintLen (of_nat ?n) + ?n + length rest"
    by (simp add: EncodeRoomMessage_payload AppendVarint_buf [of "AppendVarint _ _"])
  have pay: "go_slice (VarintLen MsgTypeRoomMessage + VarintLen (of_nat ?n))
      (VarintLen MsgTypeRoomMessage + VarintLen (of_nat ?n) + ?n) (EncodeRoomMessage roomID t d @ rest) = room_payload roomID t d"
    by (simp add: go_slice_def EncodeRoomMessage_payload AppendVarint_buf [of "AppendVarint _ _"])
  show ?thesis
    using hdr le pay u Parse_room_payload [OF l t, of d]
    by (auto simp: handleData_def Let_def MsgTypeRoomMessage_def MsgTypePong_def
        split: bind_splits option.splits)
qed

lemma leave_data_payload:
  assumes "length (room_payload roomID RoomMsgTypeLeave []) < 2 ^ 62"
  shows "leave_data roomID = room_payload roomID RoomMsgTypeLeave []"
proof -
  let ?n = "length (room_payload roomID RoomMsgTypeLeave [])"
  have "ParseTransportHeader (EncodeRoomMessage roomID RoomMsgTypeLeave [])
      = Inr (MsgTypeRoomMessage, of_nat ?n, VarintLen MsgTypeRoomMessage + VarintLen (of_nat ?n))"
    using Parse_TransportHeader [of MsgTypeRoomMessage "of_nat ?n" "room_payload roomID RoomMsgTypeLeave []"]
      unat_length [OF assms] assms
    by (simp add: EncodeRoomMessage_payload msg_types)
  then show ?thesis
    by (simp add: leave_data_def EncodeRoomMessage_payload AppendVarint_buf [of "AppendVarint _ _"])
qed

abbreviation room_topic :: "string \<Rightarrow> Topic" where
  "room_topic roomID \<equiv> ''room:'' @ roomID"

definition room_msg :: "SessionEndpoint \<Rightarrow> string \<Rightarrow> RoomMsgType \<Rightarrow> byte list \<Rightarrow> Message" where
  "room_msg se roomID t d = \<lparr>msg_SessionID = se_id (ep_session se), msg_Data = room_payload roomID t d\<rparr>"

lemma handleData_delivers:
  assumes wf: "ps_wf p" and len: "length (room_payload roomID t d) < 2 ^ 62" and t: "unat t < 2 ^ 62"
  shows "\<exists>p'. handleData (\<lambda>_. False) pick (EncodeRoomMessage roomID t d @ rest) (p, se)
      = Some (p', if t = RoomMsgTypeJoin then se\<lparr>ep_roomID := roomID\<rparr>
                  else if t = RoomMsgTypeLeave then se\<lparr>ep_roomID := ''''\<rparr> else se)
    \<and> ps_wf p' \<and> ps_subs p' = ps_subs p
    \<and> ps_chans p' = delivered (room_msg se roomID t d) (subscribers p (room_topic roomID)) (ps_chans p)"
  using handleData_room_message [OF len t, of "\<lambda>_. False" pick rest p se] Publish_ok [OF wf, of "room_topic roomID" "room_msg se roomID t d"]
  by (auto simp: room_msg_def Let_def msg_types)

lemma close_delivers:
  assumes wf: "ps_wf p" and "\<not> ep_closed se" "ep_roomID se \<noteq> ''''"
    and len: "length (room_payload (ep_roomID se) RoomMsgTypeLeave []) < 2 ^ 62"
  shows "\<exists>p' se'. close_endpoint (\<lambda>_. False) (p, se) = Some (p', se') \<and> ep_closed se' \<and> ep_cancelled se' \<and> ep_roomID se' = ''''
    \<and> ps_wf p' \<and> ps_subs p' = ps_subs p
    \<and> ps_chans p' = delivered (room_msg se (ep_roomID se) RoomMsgTypeLeave []) (subscribers p (room_topic (ep_roomID se))) (ps_chans p)"
  using assms(2,3) leave_data_payload [OF len]
    Publish_ok [OF wf, of "room_topic (ep_roomID se)" "room_msg se (ep_roomID se) RoomMsgTypeLeave []"]
  by (auto simp: close_endpoint_def room_msg_def Let_def)

lemma delivered_one:
  "ps_chans p ch = Some c \<Longrightarrow> length (ch_buf c) < DefaultChannelBuffer \<Longrightarrow> ch \<in> set L
     \<Longrightarrow> delivered m L (ps_chans p) ch = Some (c\<lparr>ch_buf := ch_buf c @ [m]\<rparr>)"
  by (simp add: delivered_def)

text \<open>
  From the wire to the application. When a room listens on its topic with a channel that is
  not full, the bytes \<open>EncodeRoomMessage\<close> makes of an application message, read by an endpoint
  with anything behind them, put exactly one message into the room's channel, and handling that
  message hands the room's application the sender's session identifier and the very payload
  that was encoded. A join message registers the sender and calls \<open>OnJoin\<close>, a leave message
  unregisters it and calls \<open>OnLeave\<close>, and the endpoint remembers or forgets the room.
\<close>

theorem room_message_end_to_end:
  assumes wf: "ps_wf p" and room: "subs_of (ps_subs p) (''room:'' @ roomID) = [rc]"
    and c: "ps_chans p rc = Some c" "length (ch_buf c) < DefaultChannelBuffer"
    and len: "length roomID + length d < 2 ^ 61"
    and t: "t \<in> {RoomMsgTypeJoin, RoomMsgTypeLeave, RoomMsgTypeAppData}"
  shows "\<exists>p' m. handleData (\<lambda>_. False) pick (EncodeRoomMessage roomID t d @ rest) (p, se)
        = Some (p', if t = RoomMsgTypeJoin then se\<lparr>ep_roomID := roomID\<rparr>
                    else if t = RoomMsgTypeLeave then se\<lparr>ep_roomID := ''''\<rparr> else se)
      \<and> ps_wf p' \<and> ps_chans p' rc = Some (c\<lparr>ch_buf := ch_buf c @ [m]\<rparr>)
      \<and> room_HandleMessage app m r =
          (let sid = se_id (ep_session se)
           in if t = RoomMsgTypeJoin then r\<lparr>rm_registry := insert sid (rm_registry r), rm_app := app_OnJoin app (rm_app r) sid\<rparr>
              else if t = RoomMsgTypeLeave then r\<lparr>rm_registry := rm_registry r - {sid}, rm_app := app_OnLeave app (rm_app r) sid\<rparr>
              else r\<lparr>rm_app := fst (app_HandleMessage app (rm_app r) sid d)\<rparr>)"
proof -
  have small: "VarintLen v \<le> 8" for v by (simp add: VarintLen_def)
  have "length (room_payload roomID t d) < 2 ^ 62"
    using len small [of "of_nat (length roomID)"] small [of t] by (simp add: room_payload_def)
  moreover have "unat t < 2 ^ 62" using t by (auto simp: msg_types)
  ultimately obtain p' where p': "handleData (\<lambda>_. False) pick (EncodeRoomMessage roomID t d @ rest) (p, se)
      = Some (p', if t = RoomMsgTypeJoin then se\<lparr>ep_roomID := roomID\<rparr>
                  else if t = RoomMsgTypeLeave then se\<lparr>ep_roomID := ''''\<rparr> else se)" "ps_wf p'"
    "ps_chans p' = delivered (room_msg se roomID t d) [rc] (ps_chans p)"
    using handleData_delivers [OF wf, of roomID t d pick rest se] room by auto
  have "ps_chans p' rc = Some (c\<lparr>ch_buf := ch_buf c @ [room_msg se roomID t d]\<rparr>)"
    using delivered_one [OF c, of "[rc]" "room_msg se roomID t d"] p'(3) by simp
  moreover have "length roomID < 2 ^ 62" using len by simp
  note room_HandleMessage_payload [OF this, of app "se_id (ep_session se)" d r]
  ultimately show ?thesis
    using p'(1,2) t by (intro exI [of _ p'] exI [of _ "room_msg se roomID t d"]) (auto simp: room_msg_def msg_types Let_def)
qed

definition ex_room_service :: SimplePubSub where
  "ex_room_service = fst (ps_Subscribe 0 ''room:r'' NewSimplePubSub)"

lemma ex_room_service:
  "ps_wf ex_room_service" "subs_of (ps_subs ex_room_service) ''room:r'' = [0]"
  "ps_chans ex_room_service 0 = Some \<lparr>ch_buf = [], ch_closed = False\<rparr>"
  using ps_Subscribe_wf [OF ps_wf_New, of 0 "''room:r''" ex_room_service 0]
  by (simp_all add: ex_room_service_def ps_Subscribe_def NewSimplePubSub_def map_append_def go_append_def no_slices_def subs_of_def)

theorem room_message_end_to_end_witness:
  "\<exists>p' m. handleData (\<lambda>_. False) False (EncodeRoomMessage ''r'' RoomMsgTypeAppData [1, 2] @ [9]) (ex_room_service, ex_endpoint)
       = Some (p', ex_endpoint)
     \<and> ps_chans p' 0 = Some \<lparr>ch_buf = [m], ch_closed = False\<rparr>
     \<and> room_HandleMessage echo_app m (NewRoom [] {} None) = (NewRoom [] {} None)\<lparr>rm_app := Some [1, 2]\<rparr>"
  using room_message_end_to_end [OF ex_room_service(1), of "''r''", unfolded append_Cons append_Nil,
      OF ex_room_service(2,3), of "[1, 2]" RoomMsgTypeAppData False "[9]" ex_endpoint echo_app "NewRoom [] {} None"]
  by (auto simp: DefaultChannelBuffer_def msg_types echo_app_def echo_HandleMessage_def)

text \<open>
  Closing an endpoint that is in a room tells the room: the leave message is in the room's
  channel, and handling it unregisters the session and calls \<open>OnLeave\<close>. The endpoint is
  closed and closing it again does nothing.
\<close>

theorem close_leaves_room:
  assumes wf: "ps_wf p" and room: "subs_of (ps_subs p) (''room:'' @ ep_roomID se) = [rc]"
    and c: "ps_chans p rc = Some c" "length (ch_buf c) < DefaultChannelBuffer"
    and se: "\<not> ep_closed se" "ep_roomID se \<noteq> ''''" "length (ep_roomID se) < 2 ^ 61"
  shows "\<exists>p' se' m. close_endpoint (\<lambda>_. False) (p, se) = Some (p', se') \<and> ps_wf p'
      \<and> ep_closed se' \<and> ep_roomID se' = '''' \<and> close_endpoint stop (p', se') = Some (p', se')
      \<and> ps_chans p' rc = Some (c\<lparr>ch_buf := ch_buf c @ [m]\<rparr>)
      \<and> room_HandleMessage app m r = r\<lparr>rm_registry := rm_registry r - {se_id (ep_session se)},
            rm_app := app_OnLeave app (rm_app r) (se_id (ep_session se))\<rparr>"
proof -
  have small: "VarintLen v \<le> 8" for v by (simp add: VarintLen_def)
  have "length (room_payload (ep_roomID se) RoomMsgTypeLeave []) < 2 ^ 62"
    using se(3) small [of "of_nat (length (ep_roomID se))"] small [of RoomMsgTypeLeave] by (simp add: room_payload_def)
  from close_delivers [OF wf se(1,2) this] room obtain p' se' where
    p': "close_endpoint (\<lambda>_. False) (p, se) = Some (p', se')" "ps_wf p'" "ep_closed se'" "ep_roomID se' = ''''"
    "ps_chans p' = delivered (room_msg se (ep_roomID se) RoomMsgTypeLeave []) [rc] (ps_chans p)" by auto
  have "ps_chans p' rc = Some (c\<lparr>ch_buf := ch_buf c @ [room_msg se (ep_roomID se) RoomMsgTypeLeave []]\<rparr>)"
    using delivered_one [OF c, of "[rc]"] p'(5) by simp
  moreover have "length (ep_roomID se) < 2 ^ 62" using se(3) by simp
  note room_HandleMessage_payload(2) [OF this, of app "se_id (ep_session se)" "[]" r]
  moreover have "close_endpoint stop (p', se') = Some (p', se')" using p'(3) by (simp add: close_endpoint_def)
  ultimately show ?thesis
    using p' by (intro exI [of _ p'] exI [of _ se'] exI [of _ "room_msg se (ep_roomID se) RoomMsgTypeLeave []"])
      (simp add: room_msg_def)
qed

theorem close_leaves_room_witness:
  "\<exists>p' se' m. close_endpoint (\<lambda>_. False) (ex_room_service, ex_endpoint\<lparr>ep_roomID := ''r''\<rparr>) = Some (p', se')
     \<and> ep_closed se' \<and> ps_chans p' 0 = Some \<lparr>ch_buf = [m], ch_closed = False\<rparr>
     \<and> rm_registry (room_HandleMessage echo_app m (NewRoom [] {se_id ex_session} None)) = {}"
proof -
  let ?c = "\<lparr>ch_buf = [], ch_closed = False\<rparr>"
  have "\<not> ep_closed ex_endpoint" "length (ch_buf ?c) < DefaultChannelBuffer"
    by (simp_all add: ex_endpoint_def DefaultChannelBuffer_def)
  with close_leaves_room [OF ex_room_service(1), of "ex_endpoint\<lparr>ep_roomID := ''r''\<rparr>" 0 ?c "\<lambda>_. False" echo_app
      "NewRoom [] {se_id ex_session} None"] ex_room_service(2,3)
  show ?thesis by (auto simp: NewRoom_def ex_endpoint_def)
qed

text \<open>
  An endpoint remembers one room only. A client that joins a second room and then
  disconnects is never removed from the first: on closing, the first room's channel has the join
  message and no leave message.
\<close>

theorem second_join_leaks_first_room:
  assumes wf: "ps_wf p" and rooms: "subs_of (ps_subs p) (''room:'' @ a) = [ca]" "subs_of (ps_subs p) (''room:'' @ b) = [cb]"
    and ne: "ca \<noteq> cb" and c: "ps_chans p ca = Some c" "length (ch_buf c) < DefaultChannelBuffer"
    and se: "\<not> ep_closed se" "b \<noteq> ''''" "length a < 2 ^ 61" "length b < 2 ^ 61"
  shows "\<exists>p1 se1 p2 se2 p3 se3. handleData (\<lambda>_. False) x (EncodeRoomMessage a RoomMsgTypeJoin []) (p, se) = Some (p1, se1)
    \<and> handleData (\<lambda>_. False) y (EncodeRoomMessage b RoomMsgTypeJoin []) (p1, se1) = Some (p2, se2)
    \<and> close_endpoint (\<lambda>_. False) (p2, se2) = Some (p3, se3) \<and> ep_closed se3
    \<and> ps_chans p3 ca = Some (c\<lparr>ch_buf := ch_buf c @ [room_msg se a RoomMsgTypeJoin []]\<rparr>)"
proof -
  have small: "VarintLen v \<le> 8" for v by (simp add: VarintLen_def)
  have len: "length (room_payload i t []) < 2 ^ 62" if "length i < 2 ^ 61" for i t
    using that small [of "of_nat (length i)"] small [of t] by (simp add: room_payload_def)
  have j: "unat RoomMsgTypeJoin < 2 ^ 62" by (simp add: msg_types)
  obtain p1 where p1: "handleData (\<lambda>_. False) x (EncodeRoomMessage a RoomMsgTypeJoin []) (p, se) = Some (p1, se\<lparr>ep_roomID := a\<rparr>)"
    "ps_wf p1" "ps_subs p1 = ps_subs p" "ps_chans p1 = delivered (room_msg se a RoomMsgTypeJoin []) [ca] (ps_chans p)"
    using handleData_delivers [OF wf len [OF se(3)] j, of x "[]" se] rooms by auto
  let ?se1 = "se\<lparr>ep_roomID := a\<rparr>"
  let ?se2 = "se\<lparr>ep_roomID := b\<rparr>"
  obtain p2 where p2: "handleData (\<lambda>_. False) y (EncodeRoomMessage b RoomMsgTypeJoin []) (p1, ?se1) = Some (p2, ?se2)"
    "ps_wf p2" "ps_subs p2 = ps_subs p" "ps_chans p2 = delivered (room_msg ?se1 b RoomMsgTypeJoin []) [cb] (ps_chans p1)"
    using handleData_delivers [OF p1(2) len [OF se(4)] j, of y "[]" ?se1] rooms p1(3) by auto
  obtain p3 se3 where p3: "close_endpoint (\<lambda>_. False) (p2, ?se2) = Some (p3, se3)" "ep_closed se3"
    "ps_chans p3 = delivered (room_msg ?se2 b RoomMsgTypeLeave []) [cb] (ps_chans p2)"
    using close_delivers [OF p2(2), of ?se2] len [OF se(4)] se(1,2) rooms p2(3) by auto
  have other: "delivered m [cb] chans ca = chans ca" for m chans
    using ne by (cases "chans ca") (auto simp: delivered_def)
  have "ps_chans p3 ca = Some (c\<lparr>ch_buf := ch_buf c @ [room_msg se a RoomMsgTypeJoin []]\<rparr>)"
    using delivered_one [OF c, of "[ca]"] by (simp add: p3(3) p2(4) p1(4) other)
  with p1(1) p2(1) p3(1,2) show ?thesis by blast
qed

theorem second_join_leaks_first_room_witness:
  "\<exists>p a b ca p1 se1 p2 se2 p3 se3. ps_wf p \<and> a \<noteq> b \<and> subs_of (ps_subs p) (''room:'' @ a) = [ca]
    \<and> handleData (\<lambda>_. False) False (EncodeRoomMessage a RoomMsgTypeJoin []) (p, ex_endpoint) = Some (p1, se1)
    \<and> handleData (\<lambda>_. False) False (EncodeRoomMessage b RoomMsgTypeJoin []) (p1, se1) = Some (p2, se2)
    \<and> close_endpoint (\<lambda>_. False) (p2, se2) = Some (p3, se3)
    \<and> ps_chans p3 ca = Some \<lparr>ch_buf = [room_msg ex_endpoint a RoomMsgTypeJoin []], ch_closed = False\<rparr>"
proof -
  obtain p where sub: "ps_Subscribe 0 ''room:b'' ex_room_service = (p, 1)"
    by (simp add: ps_Subscribe_def ex_room_service_def NewSimplePubSub_def)
  note w = ps_Subscribe_wf [OF ex_room_service(1) sub]
  have b0: "subs_of (ps_subs ex_room_service) ''room:b'' = []"
    by (simp add: ex_room_service_def ps_Subscribe_def NewSimplePubSub_def map_append_def go_append_def no_slices_def subs_of_def)
  let ?c = "\<lparr>ch_buf = [], ch_closed = False\<rparr>"
  have subs: "subs_of (ps_subs p) (''room:'' @ ''r'') = [0]" "subs_of (ps_subs p) (''room:'' @ ''b'') = [1]"
    "ps_chans p 0 = Some ?c" using w b0 ex_room_service(2,3) by auto
  have ep: "\<not> ep_closed ex_endpoint" "length (ch_buf ?c) < DefaultChannelBuffer"
    by (simp_all add: ex_endpoint_def DefaultChannelBuffer_def)
  have wf: "ps_wf p" using w by blast
  obtain p1 se1 p2 se2 p3 se3 where
    "handleData (\<lambda>_. False) False (EncodeRoomMessage ''r'' RoomMsgTypeJoin []) (p, ex_endpoint) = Some (p1, se1)"
    "handleData (\<lambda>_. False) False (EncodeRoomMessage ''b'' RoomMsgTypeJoin []) (p1, se1) = Some (p2, se2)"
    "close_endpoint (\<lambda>_. False) (p2, se2) = Some (p3, se3)"
    "ps_chans p3 0 = Some \<lparr>ch_buf = [room_msg ex_endpoint ''r'' RoomMsgTypeJoin []], ch_closed = False\<rparr>"
    using second_join_leaks_first_room [OF wf subs(1,2) _ subs(3) ep(2,1), of False False] by auto
  moreover have "''r'' \<noteq> ''b''" by simp
  ultimately show ?thesis using wf subs(1) by blast
qed

end
