(* ===== verification/Client.thy ===== *)
theory Client
  imports Room_Game Endpoint
begin

unbundle bit_operations_syntax

text \<open>
  The two ends of a connection to \<open>withered\<close>: the wiring of the server in \<open>cmd/main.go\<close> and the
  acceptance of a connection in \<open>handler/accept.go\<close>, and the client of the repository, the
  load-test bot of \<open>cmd/bot/main.go\<close>.

  \<^item> What the WebSocket library returns (a dialled or accepted connection, the bytes or the
    error of a read, the outcome of a write) are arguments. \<open>BotRead\<close> and \<open>BotTick\<close> are the
    iterations of the two loops of a bot in the order in which they happen; the loop that is still
    running after the first error does so under a cancelled context and writes nothing more.
  \<^item> \<open>bot_wrap s e\<close> is \<open>fmt.Errorf(s + ": %w", e)\<close>.
  \<^item> \<open>cmd/main.go\<close> starts the room in a goroutine; \<open>boot\<close> is the state once it has subscribed.
\<close>

subsection \<open>The server\<close>

definition GetEnvDefault :: "(string \<Rightarrow> string) \<Rightarrow> string \<Rightarrow> string \<Rightarrow> string" where
  "GetEnvDefault Getenv key defaultValue =
     (let value = Getenv key in if value = '''' then defaultValue else value)"

definition listen_addr :: "(string \<Rightarrow> string) \<Rightarrow> string" where
  "listen_addr Getenv =
     (let addr = GetEnvDefault Getenv ''ADDR'' ''localhost'';
          port = GetEnvDefault Getenv ''PORT'' ''9090''
      in addr @ '':'' @ port)"

definition main_defaultRoomID :: RoomID where
  "main_defaultRoomID = [0, 0, 0, 0, 0, 0, 0, 0, 0, 0, 0, 0, 0, 0, 0, 1]"

definition boot :: "(nat \<Rightarrow> EntityID list) \<Rightarrow> (nat \<Rightarrow> float32) \<Rightarrow> nat
    \<Rightarrow> (SimplePubSub \<times> nat \<times> SimpleRoomManager \<times> WitheredApplication Room) option" where
  "boot orders rands grow =
     do {
       let pubsub = NewSimplePubSub;
       let roomManager = NewSimpleRoomManager main_defaultRoomID;
       app \<leftarrow> NewWitheredApplication orders rands;
       let registry = NewLocalSessionRegistry;
       let room = NewRoom main_defaultRoomID registry app;
       let (pubsub, msgCh) = room_start grow room pubsub;
       Some (pubsub, msgCh, roomManager, room)
     }"

text \<open>
  \<open>accepted\<close>: the result of \<open>websocket.Accept\<close>. The endpoint is returned as it is when its loops have
  started, with the error of \<open>Run\<close>.
\<close>

definition accept_ServeHTTP ::
  "bool \<Rightarrow> byte list \<Rightarrow> int64 \<Rightarrow> nat \<Rightarrow> SimpleRoomManager \<Rightarrow> u64 \<times> SimplePubSub
     \<Rightarrow> (u64 \<times> SimplePubSub) \<times> (SessionEndpoint \<times> EndpointError option) option" where
  "accept_ServeHTTP accepted random now grow roomManager st =
     (if \<not> accepted then (st, None)
      else let (counter, pubsub) = st;
               session = NewSession random now;
               (connection, counter) = NewConnection (se_id session) counter
           in case NewSessionEndpoint (Some session) (Some connection) (Some ()) (Some roomManager) of
                Inl _ \<Rightarrow> ((counter, pubsub), None)
              | Inr endpoint \<Rightarrow>
                  let (pubsub, endpoint, err) = run_start grow (pubsub, endpoint)
                  in ((counter, pubsub), Some (endpoint, err)))"

subsection \<open>The bot\<close>

definition bot_defaultRoomID :: string where
  "bot_defaultRoomID = ''00000000000000000000000000000001''"

datatype bot_error = bot_conn string | bot_protocol ProtocolError | bot_not_assign MsgType | bot_wrap string bot_error

definition randomKeyMask :: "u32 \<Rightarrow> u32" where
  "randomKeyMask r = r AND (16 - 1)"

definition encodeInputPayload :: "u32 \<Rightarrow> byte list" where
  "encodeInputPayload keyMask =
     (let buf = replicate 6 0;
          buf = buf[0 := 0];
          buf = buf[1 := 0]
      in put_at 2 (PutUint32 keyMask) buf)"

definition waitAssign :: "string + byte list \<Rightarrow> bot_error option" where
  "waitAssign r =
     (case r of
        Inl err \<Rightarrow> Some (bot_conn err)
      | Inr data \<Rightarrow>
          (case ParseTransportHeader data of
             Inl err \<Rightarrow> Some (bot_protocol err)
           | Inr (msgType, _, _) \<Rightarrow> if msgType \<noteq> MsgTypeAssign then Some (bot_not_assign msgType) else None))"

text \<open>One iteration of each loop: the frames it writes, and the error that ends the loop.\<close>

definition bot_read :: "string + byte list \<Rightarrow> string option \<Rightarrow> byte list list \<times> bot_error option" where
  "bot_read r w =
     (case r of
        Inl err \<Rightarrow> ([], Some (bot_wrap ''read'' (bot_conn err)))
      | Inr data \<Rightarrow>
          if length data < 1 then ([], None)
          else (case ParseTransportHeader data of
                  Inl _ \<Rightarrow> ([], None)
                | Inr (msgType, _, _) \<Rightarrow>
                    if msgType = MsgTypePing then ([EncodePong], map_option (bot_wrap ''pong'' \<circ> bot_conn) w)
                    else ([], None)))"

definition bot_write :: "u32 \<Rightarrow> string option \<Rightarrow> byte list list \<times> bot_error option" where
  "bot_write r w =
     (let keyMask = randomKeyMask r;
          appPayload = encodeInputPayload keyMask;
          msg = EncodeRoomMessage bot_defaultRoomID RoomMsgTypeAppData appPayload
      in ([msg], map_option (bot_wrap ''write'' \<circ> bot_conn) w))"

datatype bot_event = BotRead "string + byte list" "string option" | BotTick u32 "string option"

fun bot_loops :: "bot_event list \<Rightarrow> byte list list \<times> bot_error option" where
  "bot_loops [] = ([], None)"
| "bot_loops (ev # evs) =
     (let (out, err) = (case ev of BotRead r w \<Rightarrow> bot_read r w | BotTick r w \<Rightarrow> bot_write r w)
      in if err \<noteq> None then (out, err)
         else let (out', err) = bot_loops evs in (out @ out', err))"

text \<open>
  The frames a bot writes, its result, and what it adds to the counter of connected bots. The last
  event is followed by the end of the context.
\<close>

definition runBot ::
  "string option \<Rightarrow> string + byte list \<Rightarrow> string option \<Rightarrow> bot_event list \<Rightarrow> byte list list \<times> bot_error option \<times> int" where
  "runBot dial assign join evs =
     (case dial of
        Some err \<Rightarrow> ([], Some (bot_wrap ''dial'' (bot_conn err)), 0)
      | None \<Rightarrow>
          (case waitAssign assign of
             Some err \<Rightarrow> ([], Some (bot_wrap ''assign'' err), 1)
           | None \<Rightarrow>
               let joinMsg = EncodeRoomMessage bot_defaultRoomID RoomMsgTypeJoin []
               in (case join of
                     Some err \<Rightarrow> ([joinMsg], Some (bot_wrap ''join'' (bot_conn err)), 1)
                   | None \<Rightarrow>
                       let (out, err) = bot_loops evs;
                           leaveMsg = EncodeRoomMessage bot_defaultRoomID RoomMsgTypeLeave []
                       in (joinMsg # out @ [leaveMsg], err, 1))))"

record bot_stats =
  bs_connected :: int
  bs_errors :: int

definition launch_bot ::
  "string option \<Rightarrow> string + byte list \<Rightarrow> string option \<Rightarrow> bot_event list \<Rightarrow> bot_stats \<Rightarrow> bot_stats" where
  "launch_bot dial assign join evs s =
     (let (_, err, n) = runBot dial assign join evs;
          s = s\<lparr>bs_connected := bs_connected s + n\<rparr>;
          s = (if err \<noteq> None then s\<lparr>bs_errors := bs_errors s + 1\<rparr> else s)
      in s\<lparr>bs_connected := bs_connected s + -1\<rparr>)"

subsection \<open>Properties of the bot\<close>

lemma room_id_of_bot: "RoomID_String main_defaultRoomID = bot_defaultRoomID"
  by code_simp

text \<open>
  The counter of connected bots is wrong after a failed dial: the goroutine takes one off that
  \<open>runBot\<close> has not added.
\<close>

lemma failed_dial_miscounts:
  "bs_connected (launch_bot (Some err) assign join evs s) = bs_connected s - 1"
  by (simp add: launch_bot_def runBot_def)

lemma bot_counts: "bs_connected (launch_bot None assign join evs s) = bs_connected s"
  by (auto simp: launch_bot_def runBot_def Let_def split: option.splits prod.splits)

lemma randomKeyMask_less: "randomKeyMask r < 16"
proof -
  have "randomKeyMask r \<le> 15" using word_and_le1 [of r 15] by (simp add: randomKeyMask_def)
  then show ?thesis by (simp add: word_less_nat_alt word_le_nat_alt)
qed

text \<open>What a bot writes between its join and its leave.\<close>

definition bot_frame :: "byte list \<Rightarrow> bool" where
  "bot_frame f \<longleftrightarrow> f = EncodePong
     \<or> (\<exists>k < 16. f = EncodeRoomMessage bot_defaultRoomID RoomMsgTypeAppData (encodeInputPayload k))"

lemma bot_loops_frames: "bot_loops evs = (out, err) \<Longrightarrow> f \<in> set out \<Longrightarrow> bot_frame f"
proof (induction evs arbitrary: out)
  case (Cons ev evs)
  have "bot_frame f" if "f \<in> set (fst (case ev of BotRead r w \<Rightarrow> bot_read r w | BotTick r w \<Rightarrow> bot_write r w))"
    using that randomKeyMask_less
    by (cases ev) (auto simp: bot_read_def bot_write_def bot_frame_def Let_def split: sum.splits if_splits)
  with Cons show ?case by (auto simp: Let_def split: prod.splits if_splits)
qed simp

lemma runBot_frames:
  assumes "waitAssign assign = None"
  shows "\<exists>out err. runBot None assign None evs
      = (EncodeRoomMessage bot_defaultRoomID RoomMsgTypeJoin [] # out @ [EncodeRoomMessage bot_defaultRoomID RoomMsgTypeLeave []], err, 1)
    \<and> (\<forall>f \<in> set out. bot_frame f)"
  using assms bot_loops_frames [of evs] by (cases "bot_loops evs") (simp add: runBot_def Let_def)

lemma encodeInputPayload_bytes: "encodeInputPayload k = [0, 0] @ PutUint32 k"
  by (simp add: encodeInputPayload_def put_at_def numeral_eq_Suc)

lemma bot_input_parsed:
  assumes "w_SessionToEntity (wa_world app) s = Some i"
  shows "fst (game_HandleMessage app s (encodeInputPayload k)) = app\<lparr>wa_world := (wa_world app)
    \<lparr>w_PendingInputs := w_PendingInputs (wa_world app) @ [\<lparr>in_EntityID = i, in_KeyMask = k\<rparr>]\<rparr>\<rparr>"
proof -
  have "ParsePayloadHeader (encodeInputPayload k) = Inr \<lparr>DataType = DataTypeInput, SubType = 0\<rparr>"
    by (simp add: encodeInputPayload_bytes ParsePayloadHeader_def PayloadHeaderSize_def DataTypeInput_def)
  moreover have "drop PayloadHeaderSize (encodeInputPayload k) = InputPayload_Encode \<lparr>KeyMask = k\<rparr> @ []"
    by (simp add: encodeInputPayload_bytes PayloadHeaderSize_def Encode_fields)
  moreover have "ParseInputPayload (InputPayload_Encode \<lparr>KeyMask = k\<rparr> @ []) = Inr \<lparr>KeyMask = k\<rparr>"
    by (rule input.dec_enc)
  ultimately show ?thesis using assms
    by (simp add: game_HandleMessage_def handleInput_def Push_def)
qed

subsection \<open>A started server\<close>

lemma boot_ok:
  assumes "NewWitheredApplication orders rands = Some app"
  obtains p where "boot orders rands grow = Some (p, 0, NewSimpleRoomManager main_defaultRoomID, NewRoom main_defaultRoomID {} app)"
    "ps_wf p" "subscribers p = (\<lambda>_. [])(''room:'' @ RoomID_String main_defaultRoomID := [0])"
    "ps_chans p = [0 \<mapsto> \<lparr>ch_buf = [], ch_closed = False\<rparr>]"
proof -
  let ?topic = "''room:'' @ RoomID_String main_defaultRoomID"
  obtain p ch where sub: "ps_Subscribe grow ?topic NewSimplePubSub = (p, ch)" by fastforce
  then have "ch = 0" by (auto simp: ps_Subscribe_def NewSimplePubSub_def Let_def)
  moreover have "subscribers NewSimplePubSub = (\<lambda>_. [])"
    by (simp add: NewSimplePubSub_def subs_of_def no_slices_def fun_eq_iff)
  moreover have "ps_chans NewSimplePubSub = Map.empty" by (simp add: NewSimplePubSub_def)
  ultimately show thesis
    using ps_Subscribe_wf [OF ps_wf_New sub] sub assms
    by (intro that [of p]) (simp_all add: boot_def room_start_def NewRoom_def NewLocalSessionRegistry_def)
qed

lemma accept_ok:
  assumes "ps_wf p"
  obtains p' se where "accept_ServeHTTP True random now grow m (counter, p) = ((counter + 1, p'), Some (se, None))"
    "ps_wf p'" "se_id (ep_session se) = NewSessionID random" "ps_chans p (ep_msgCh se) = None"
    "subscribers p' = (subscribers p)(''session:'' @ NewSessionID random
       := subscribers p (''session:'' @ NewSessionID random) @ [ep_msgCh se])"
    "ps_chans p' = (ps_chans p)(ep_msgCh se \<mapsto> \<lparr>ch_buf = [], ch_closed = False\<rparr>)"
proof -
  let ?topic = "''session:'' @ NewSessionID random"
  obtain p' ch where sub: "ps_Subscribe grow ?topic p = (p', ch)" by fastforce
  define se where "se = \<lparr>ep_session = NewSession random now, ep_conn = fst (NewConnection (NewSessionID random) counter),
    ep_roomID = '''', ep_ctrlCh = [], ep_writeCh = [EncodeAssign (SessionID_Bytes (NewSessionID random))], ep_closed = False,
    ep_cancelled = False, ep_msgCh = ch, ep_inRead = False, ep_readLoop = True, ep_writeLoop = True, ep_subLoop = True\<rparr>"
  have "accept_ServeHTTP True random now grow m (counter, p) = ((counter + 1, p'), Some (se, None))"
    using sub by (simp add: accept_ServeHTTP_def NewSessionEndpoint_def run_start_def Send_def NewConnection_def NewSession_def se_def Let_def)
  then show thesis
    using ps_Subscribe_wf [OF assms sub] by (intro that [of p' se]) (simp_all add: se_def NewSession_def)
qed

text \<open>
  C27: A bot gets into the game, end to end. The join frame of a bot, read by the endpoint of its
  connection, reaches the room the server has started (the room identifier of the bot is the
  topic of that room), and the next tick of the room, with whatever else is waiting there,
  registers the session, spawns a player for it and puts into the channel of the session exactly one
  frame, which decodes to a snapshot with the player of this session.
\<close>

theorem bot_joins_game:
  assumes "NewWitheredApplication map_orders rands = Some app0"
    and "\<forall>n. f32_le 0 (rands n) \<and> f32_lt (rands n) (f32_ratio 1 1)"
    and "room_game app0 n r" and "ps_wf p"
    and "subs_of (ps_subs p) (''room:'' @ RoomID_String main_defaultRoomID) = [msgCh]" and "ps_chans p msgCh = Some c"
    and "length (ch_buf c) < DefaultChannelBuffer" and "ids_left (length (ch_buf c) + 1) (rm_app r)"
    and "ep_msgCh se \<in> set (subs_of (ps_subs p) (''session:'' @ se_id (ep_session se)))"
    and "ps_chans p (ep_msgCh se) = Some c'" and "length (ch_buf c') < DefaultChannelBuffer"
    and "\<And>k. reg_List (insert (se_id (ep_session se)) (rm_registry (fold (room_HandleMessage withered_app) (ch_buf c) r))) (orders k)"
  shows "\<exists>p1 p2 r' frame es i e.
      handleData (\<lambda>_. False) pick (EncodeRoomMessage bot_defaultRoomID RoomMsgTypeJoin []) (p, se)
        = Some (p1, se\<lparr>ep_roomID := bot_defaultRoomID\<rparr>)
    \<and> room_tick withered_app (\<lambda>_. False) orders msgCh p1 r = Some (p2, r')
    \<and> room_game app0 (Suc n) r' \<and> se_id (ep_session se) \<in> rm_registry r'
    \<and> ps_chans p2 (ep_msgCh se) = Some (c'\<lparr>ch_buf := ch_buf c' @ [\<lparr>msg_SessionID = '''', msg_Data = frame\<rparr>]\<rparr>)
    \<and> decode_snapshot frame = Some es \<and> (i, e) \<in> set es \<and> en_Tag e = Some TagPlayer
    \<and> w_EntityToSession (wa_world (rm_app r')) i = Some (se_id (ep_session se))"
proof -
  let ?sid = "se_id (ep_session se)"
  let ?m = "room_msg se bot_defaultRoomID RoomMsgTypeJoin []"
  let ?c = "c\<lparr>ch_buf := ch_buf c @ [?m]\<rparr>"
  have small: "VarintLen v \<le> 8" for v by (simp add: VarintLen_def)
  have len: "length (room_payload bot_defaultRoomID RoomMsgTypeJoin []) < 2 ^ 62" "length bot_defaultRoomID < 2 ^ 62"
    using small [of "of_nat (length bot_defaultRoomID)"] small [of RoomMsgTypeJoin]
    by (simp_all add: room_payload_def bot_defaultRoomID_def)
  note subs = assms(5,9) [unfolded room_id_of_bot]
  obtain p1 where p1: "handleData (\<lambda>_. False) pick (EncodeRoomMessage bot_defaultRoomID RoomMsgTypeJoin []) (p, se)
      = Some (p1, se\<lparr>ep_roomID := bot_defaultRoomID\<rparr>)" "ps_wf p1" "ps_subs p1 = ps_subs p"
    "ps_chans p1 = delivered ?m [msgCh] (ps_chans p)"
    using handleData_delivers [OF assms(4) len(1), of pick "[]" se] subs(1) by (auto simp: msg_types)
  have ch: "ps_chans p1 msgCh = Some ?c" using delivered_one [OF assms(6,7), of "[msgCh]" ?m] p1(4) by simp
  have "\<not> ch_closed c" using ps_wfD(4) [OF assms(4), of msgCh "''room:'' @ bot_defaultRoomID"] subs(1) assms(6) by auto
  then have op: "\<not> ch_closed ?c" by simp
  have ne: "ep_msgCh se \<noteq> msgCh"
    using ps_wfD(3) [OF assms(4), of msgCh "''room:'' @ bot_defaultRoomID" "''session:'' @ ?sid"] subs by auto
  then have own: "ps_chans p1 (ep_msgCh se) = Some c'" using p1(4) assms(10) by (simp add: delivered_def)
  have reg: "rm_registry (fold (room_HandleMessage withered_app) (ch_buf ?c) r)
      = insert ?sid (rm_registry (fold (room_HandleMessage withered_app) (ch_buf c) r))"
    by (simp add: room_msg_def room_HandleMessage_payload(1) [OF len(2)])
  have ids: "ids_left (length (ch_buf ?c)) (rm_app r)" using assms(8) by simp
  have ord: "reg_List (rm_registry (fold (room_HandleMessage withered_app) (ch_buf ?c) r)) (orders k)" for k
    unfolding reg by (rule assms(12))
  have "?sid \<in> rm_registry (fold (room_HandleMessage withered_app) (ch_buf ?c) r)" unfolding reg by simp
  moreover have "ep_msgCh se \<in> set (subs_of (ps_subs p1) (''session:'' @ ?sid))" using subs(2) p1(3) by simp
  ultimately show ?thesis
    using room_tick_own_player [where orders = orders, OF assms(1-3) p1(2) ch op ids ord _ _ own assms(11) ne] p1(1) by blast
qed

text \<open>The first client of a server that has just started.\<close>

theorem bot_joins_game_witness:
  "\<exists>p0 r p se p1 p2 r' frame es i e.
      boot (\<lambda>_. []) (\<lambda>_. 0x3F000000) 0 = Some (p0, 0, NewSimpleRoomManager main_defaultRoomID, r)
    \<and> accept_ServeHTTP True (replicate 16 7) 0 0 (NewSimpleRoomManager main_defaultRoomID) (0, p0) = ((1, p), Some (se, None))
    \<and> handleData (\<lambda>_. False) False (EncodeRoomMessage bot_defaultRoomID RoomMsgTypeJoin []) (p, se)
        = Some (p1, se\<lparr>ep_roomID := bot_defaultRoomID\<rparr>)
    \<and> room_tick withered_app (\<lambda>_. False) (\<lambda>_. [se_id (ep_session se)]) 0 p1 r = Some (p2, r')
    \<and> ps_chans p2 (ep_msgCh se) = Some \<lparr>ch_buf = [\<lparr>msg_SessionID = '''', msg_Data = frame\<rparr>], ch_closed = False\<rparr>
    \<and> decode_snapshot frame = Some es \<and> (i, e) \<in> set es \<and> en_Tag e = Some TagPlayer
    \<and> w_EntityToSession (wa_world (rm_app r')) i = Some (se_id (ep_session se))"
proof -
  let ?c = "\<lparr>ch_buf = [], ch_closed = False\<rparr>"
  let ?r = "NewRoom main_defaultRoomID {} ex_app"
  obtain p0 where p0: "boot (\<lambda>_. []) (\<lambda>_. 0x3F000000) 0 = Some (p0, 0, NewSimpleRoomManager main_defaultRoomID, ?r)"
    "ps_wf p0" "subscribers p0 = (\<lambda>_. [])(''room:'' @ RoomID_String main_defaultRoomID := [0])" "ps_chans p0 = [0 \<mapsto> ?c]"
    by (rule boot_ok [OF ex_app(1)])
  obtain p se where p: "accept_ServeHTTP True (replicate 16 7) 0 0 (NewSimpleRoomManager main_defaultRoomID) (0, p0)
      = ((0 + 1, p), Some (se, None))" "ps_wf p" "se_id (ep_session se) = NewSessionID (replicate 16 7)"
    "ps_chans p0 (ep_msgCh se) = None" "subscribers p = (subscribers p0)(''session:'' @ NewSessionID (replicate 16 7)
       := subscribers p0 (''session:'' @ NewSessionID (replicate 16 7)) @ [ep_msgCh se])"
    "ps_chans p = (ps_chans p0)(ep_msgCh se \<mapsto> ?c)" by (rule accept_ok [OF p0(2)])
  have ch: "ep_msgCh se \<noteq> 0" using p(4) p0(4) by (auto split: if_splits)
  have subs: "subscribers p (''room:'' @ RoomID_String main_defaultRoomID) = [0]"
    "ep_msgCh se \<in> set (subscribers p (''session:'' @ se_id (ep_session se)))"
    "ps_chans p 0 = Some ?c" "ps_chans p (ep_msgCh se) = Some ?c"
    using p(3,5,6) p0(3,4) ch by simp_all
  have g: "room_game ex_app 0 ?r" "ids_left (length (ch_buf ?c) + 1) (rm_app ?r)"
    by (simp_all add: room_game_def NewRoom_def game_run.start NewShootingWorld_def ids_left_def players_def)
  have lt: "length (ch_buf ?c) < DefaultChannelBuffer" by (simp add: DefaultChannelBuffer_def)
  have ord: "reg_List (insert (se_id (ep_session se)) (rm_registry (fold (room_HandleMessage withered_app) (ch_buf ?c) ?r)))
      [se_id (ep_session se)]" by (simp add: reg_List_def NewRoom_def)
  have rands: "\<forall>n :: nat. f32_le 0 0x3F000000 \<and> f32_lt 0x3F000000 (f32_ratio 1 1)" by (rule ex_app(2))
  note joins = bot_joins_game [where orders = "\<lambda>_. [se_id (ep_session se)]" and pick = False and se = se,
      OF ex_app(1) rands g(1) p(2) subs(1,3) lt g(2) subs(2,4) lt ord]
  then obtain p1 p2 r' frame es i e where j:
    "handleData (\<lambda>_. False) False (EncodeRoomMessage bot_defaultRoomID RoomMsgTypeJoin []) (p, se)
        = Some (p1, se\<lparr>ep_roomID := bot_defaultRoomID\<rparr>)"
    "room_tick withered_app (\<lambda>_. False) (\<lambda>_. [se_id (ep_session se)]) 0 p1 ?r = Some (p2, r')"
    "ps_chans p2 (ep_msgCh se) = Some (?c\<lparr>ch_buf := ch_buf ?c @ [\<lparr>msg_SessionID = '''', msg_Data = frame\<rparr>]\<rparr>)"
    "decode_snapshot frame = Some es" "(i, e) \<in> set es" "en_Tag e = Some TagPlayer"
    "w_EntityToSession (wa_world (rm_app r')) i = Some (se_id (ep_session se))" by (elim exE conjE) (rule that)
  have "ps_chans p2 (ep_msgCh se) = Some \<lparr>ch_buf = [\<lparr>msg_SessionID = '''', msg_Data = frame\<rparr>], ch_closed = False\<rparr>"
    using j(3) by simp
  with p0(1) p(1) [unfolded add_0] j(1,2,4-7) show ?thesis by (intro exI conjI)
qed

end
