(* ===== verification/Withered_Process.thy ===== *)
theory Withered_Process
  imports Client
begin

text \<open>
  The processes of \<open>withered\<close> around \<open>Client\<close>: the HTTP server of \<open>server/server.go\<close> with its routes and the
  adapter of the WebSocket library, \<open>main\<close> of \<open>cmd/main.go\<close> until its exit, and \<open>main\<close> of the load-test bot,
  which launches the bots one after the other. The methods of \<open>http.Server\<close> and of a WebSocket connection are
  what they return; signals and timers are events in the order in which they happen.
\<close>

subsection \<open>The server and its routes\<close>

datatype serve_error = ServerClosed | ServeError string

record http_server =
  hs_Addr :: string
  hs_ListenAndServe :: "serve_error option"
  hs_Shutdown :: "string option"
  hs_Close :: "string option"

text \<open>\<open>lib\<close> holds the outcomes of the methods of the server that is made here.\<close>

definition NewServer :: "http_server \<Rightarrow> string \<Rightarrow> http_server" where
  "NewServer lib addr = lib\<lparr>hs_Addr := addr\<rparr>"

datatype withered_route = RouteWS | RouteHealth | RouteNone

definition Route :: "string \<Rightarrow> withered_route" where
  "Route path = (if path = ''/ws'' then RouteWS else if path = ''/health'' then RouteHealth else RouteNone)"

definition health_status :: nat where
  "health_status = 200"

text \<open>
  A request: what the WebSocket route does to the counter of connections and the publish/subscribe. \<open>status\<close> is the
  status that \<open>websocket.Accept\<close> sends, 101 when it accepts.
\<close>

definition withered_serve ::
  "string \<Rightarrow> nat \<Rightarrow> byte list \<Rightarrow> int64 \<Rightarrow> nat \<Rightarrow> SimpleRoomManager \<Rightarrow> u64 \<times> SimplePubSub
     \<Rightarrow> (u64 \<times> SimplePubSub) \<times> nat \<times> (SessionEndpoint \<times> EndpointError option) option" where
  "withered_serve path status random now grow roomManager st =
     (case Route path of
        RouteWS \<Rightarrow>
          (let (st', ep) = accept_ServeHTTP (status = 101) random now grow roomManager st
           in (st', status, ep))
      | RouteHealth \<Rightarrow> (st, health_status, None)
      | RouteNone \<Rightarrow> (st, 404, None))"

subsection \<open>The adapter of the WebSocket library\<close>

datatype ws_message_type = MessageText | MessageBinary

definition wsTransport_Read :: "string + ws_message_type \<times> byte list \<Rightarrow> string + byte list" where
  "wsTransport_Read r = (case r of Inl err \<Rightarrow> Inl err | Inr (_, data) \<Rightarrow> Inr data)"

definition wsTransport_Write :: "(ws_message_type \<Rightarrow> byte list \<Rightarrow> 'r) \<Rightarrow> byte list \<Rightarrow> 'r" where
  "wsTransport_Write conn_Write data = conn_Write MessageBinary data"

definition wsTransport_Close :: "(int \<Rightarrow> string \<Rightarrow> 'r) \<Rightarrow> 32 word \<Rightarrow> string \<Rightarrow> 'r" where
  "wsTransport_Close conn_Close code reason = conn_Close (sint code) reason"

subsection \<open>The main function of the server\<close>

text \<open>
  The log lines are the ones that \<open>main\<close> writes at a level the logger lets through (warnings and above).
  \<open>RoomReturns\<close> and \<open>ServeReturns\<close> are the ends of the two goroutines, \<open>Signalled\<close> the end of the context.
\<close>

datatype main_event = RoomReturns "string option" | ServeReturns serve_error | Signalled

fun log_default :: "int \<Rightarrow> string \<Rightarrow> string list" where
  "log_default level line = (if 4 \<le> level then [line] else [])"

definition main_shutdown :: "http_server \<Rightarrow> string list" where
  "main_shutdown s =
     log_default 0 ''shutdown initiated''
     @ (case hs_Shutdown s of
          None \<Rightarrow> []
        | Some _ \<Rightarrow> log_default 8 ''graceful shutdown failed''
                     @ (case hs_Close s of None \<Rightarrow> [] | Some _ \<Rightarrow> log_default 8 ''forced close failed''))
     @ log_default 0 ''server shutdown complete''"

text \<open>The lines and the exit code; \<open>None\<close> while the process runs.\<close>

fun main_wait :: "http_server \<Rightarrow> main_event list \<Rightarrow> string list \<times> nat option" where
  "main_wait s [] = ([], None)"
| "main_wait s (RoomReturns err # es) =
     (let (lines, code) = main_wait s es
      in (case err of None \<Rightarrow> lines | Some _ \<Rightarrow> log_default 8 ''room error'' @ lines, code))"
| "main_wait s (ServeReturns err # es) =
     (case err of ServerClosed \<Rightarrow> main_wait s es
      | ServeError e \<Rightarrow> ([''http single error: '' @ e], Some 1))"
| "main_wait s (Signalled # es) = (main_shutdown s, Some 0)"

text \<open>A panic of the start ends the process with exit code 2.\<close>

definition withered_main ::
  "(string \<Rightarrow> string) \<Rightarrow> (nat \<Rightarrow> EntityID list) \<Rightarrow> (nat \<Rightarrow> float32) \<Rightarrow> nat \<Rightarrow> http_server \<Rightarrow> main_event list
     \<Rightarrow> string list \<times> nat option" where
  "withered_main Getenv orders rands grow lib es =
     (case boot orders rands grow of
        None \<Rightarrow> ([], Some 2)
      | Some _ \<Rightarrow>
          (let s = NewServer lib (listen_addr Getenv);
               (lines, code) = main_wait s es
           in (log_default 0 (''server listening'' @ hs_Addr s) @ lines, code)))"

subsection \<open>The main function of the bot\<close>

definition digit_of :: "char \<Rightarrow> int option" where
  "digit_of c = (let n = (of_char c :: nat) in if 48 \<le> n \<and> n \<le> 57 then Some (int n - 48) else None)"

fun decimal :: "int \<Rightarrow> string \<Rightarrow> int option" where
  "decimal acc [] = Some acc"
| "decimal acc (c # cs) = (case digit_of c of None \<Rightarrow> None | Some d \<Rightarrow> decimal (10 * acc + d) cs)"

text \<open>
  \<open>strconv.Atoi\<close>: the value and whether there was an error. A text that is no number gives 0, a number that
  does not fit gives the nearest 64-bit integer.
\<close>

definition Atoi :: "string \<Rightarrow> int \<times> bool" where
  "Atoi s =
     (let (neg, ds) = (case s of CHR ''-'' # r \<Rightarrow> (True, r) | CHR ''+'' # r \<Rightarrow> (False, r) | _ \<Rightarrow> (False, s))
      in if ds = [] then (0, True)
         else (case decimal 0 ds of
                 None \<Rightarrow> (0, True)
               | Some n \<Rightarrow>
                   if \<not> neg \<and> n \<ge> 2 ^ 63 then (2 ^ 63 - 1, True)
                   else if neg \<and> n > 2 ^ 63 then (- (2 ^ 63), True)
                   else (if neg then - n else n, False)))"

datatype bot_wait = Elapsed | Cancelled

record bot_run =
  br_dial :: "string option"
  br_assign :: "string + byte list"
  br_join :: "string option"
  br_events :: "bot_event list"

text \<open>
  The loop over the bots: which were launched, and whether the loop came to its end. \<open>w i\<close> is the outcome of
  the wait after bot \<open>i\<close>. The lines say how far it has come.
\<close>

function launch_loop :: "int \<Rightarrow> int \<Rightarrow> (int \<Rightarrow> bot_wait) \<Rightarrow> int list \<times> int list \<times> bool" where
  "launch_loop i n w =
     (if i \<ge> n then ([], [], True)
      else let lines = (if (i + 1) mod 1000 = 0 then [i + 1] else [])
           in case w i of
                Cancelled \<Rightarrow> ([i], lines, False)
              | Elapsed \<Rightarrow>
                  let (launched, lines', completed) = launch_loop (i + 1) n w
                  in (i # launched, lines @ lines', completed))"
  by pat_completeness auto
termination by (relation "measure (\<lambda>(i, n, _). nat (n - i))") auto

declare launch_loop.simps [simp del]

text \<open>The counters when every launched bot has ended.\<close>

definition bot_main :: "(string \<Rightarrow> string) \<Rightarrow> (int \<Rightarrow> bot_wait) \<Rightarrow> (int \<Rightarrow> bot_run) \<Rightarrow> int list \<times> bool \<times> bot_stats" where
  "bot_main Getenv w runs =
     (let botCount = fst (Atoi (GetEnvDefault Getenv ''BOT_COUNT'' ''3''));
          (launched, lines, completed) = launch_loop 0 botCount w;
          stats = foldl (\<lambda>s i. launch_bot (br_dial (runs i)) (br_assign (runs i)) (br_join (runs i)) (br_events (runs i)) s)
                    \<lparr>bs_connected = 0, bs_errors = 0\<rparr> launched
      in (launched, completed, stats))"

subsection \<open>Properties\<close>

text \<open>Only a request for \<open>/ws\<close> that is accepted touches the server.\<close>

lemma withered_serve_state:
  assumes "withered_serve path status random now grow m st = (st', code, ep)" "st' \<noteq> st \<or> ep \<noteq> None"
  shows "path = ''/ws'' \<and> status = 101 \<and> code = 101"
  using assms
  by (auto simp: withered_serve_def Route_def accept_ServeHTTP_def split: withered_route.splits if_splits prod.splits)

text \<open>
  The process ends with 0 exactly when a signal comes before the listener fails, and the room and the
  closing of the listener never end it.
\<close>

fun survives :: "main_event \<Rightarrow> bool" where
  "survives (RoomReturns _) = True"
| "survives (ServeReturns ServerClosed) = True"
| "survives (ServeReturns (ServeError _)) = False"
| "survives Signalled = False"

lemma main_wait_exit:
  "snd (main_wait s es) = (case dropWhile survives es of [] \<Rightarrow> None | e # _ \<Rightarrow> Some (if e = Signalled then 0 else 1))"
proof (induction es)
  case (Cons e es)
  show ?case
  proof (cases e)
    case (ServeReturns err)
    with Cons show ?thesis by (cases err) simp_all
  qed (use Cons in \<open>simp_all add: split_def Let_def\<close>)
qed simp

lemma forced_close_logged:
  "''forced close failed'' \<in> set (main_shutdown s) \<longleftrightarrow> hs_Shutdown s \<noteq> None \<and> hs_Close s \<noteq> None"
  by (cases "hs_Shutdown s"; cases "hs_Close s") (simp_all add: main_shutdown_def)

text \<open>The bots are launched in the order of their numbers, without a gap.\<close>

lemma launch_loop_launched:
  "launch_loop i n w = (launched, lines, completed) \<Longrightarrow>
     (\<exists>k. launched = [i..k - 1] \<and> i \<le> max i k \<and> k \<le> max i n \<and> (completed \<longrightarrow> k = max i n)
        \<and> (\<forall>j. i \<le> j \<and> j < k - 1 \<longrightarrow> w j = Elapsed) \<and> (\<not> completed \<longrightarrow> i < k \<and> w (k - 1) = Cancelled))"
proof (induction i n w arbitrary: launched lines completed rule: launch_loop.induct)
  case (1 i n w)
  show ?case
  proof (cases "i \<ge> n")
    case True
    with "1.prems" show ?thesis by (intro exI [of _ i]) (auto simp: launch_loop.simps [of i])
  next
    case False
    show ?thesis
    proof (cases "w i")
      case Cancelled
      with False "1.prems" show ?thesis by (intro exI [of _ "i + 1"]) (auto simp: launch_loop.simps [of i])
    next
      case Elapsed
      obtain la li d where r: "launch_loop (i + 1) n w = (la, li, d)" by (cases "launch_loop (i + 1) n w")
      from "1.IH" [OF False refl Elapsed r] obtain k where k: "la = [i + 1..k - 1]" "i + 1 \<le> max (i + 1) k"
        "k \<le> max (i + 1) n" "d \<longrightarrow> k = max (i + 1) n" "\<forall>j. i + 1 \<le> j \<and> j < k - 1 \<longrightarrow> w j = Elapsed"
        "\<not> d \<longrightarrow> i + 1 < k \<and> w (k - 1) = Cancelled" by blast
      have eq: "launched = i # la" "completed = d"
        using False Elapsed r "1.prems" by (auto simp: launch_loop.simps [of i] Let_def)
      let ?k = "max (i + 1) k"
      have "launched = [i..?k - 1]" using k(1) eq(1) by (auto simp: upto_rec1 max_def)
      moreover have "w j = Elapsed" if "i \<le> j" "j < ?k - 1" for j
        using k(5) Elapsed that by (cases "j = i") (auto simp: max_def split: if_splits)
      ultimately show ?thesis using k(2-4,6) eq(2) False by (intro exI [of _ ?k]) (auto simp: max_def split: if_splits)
    qed
  qed
qed

text \<open>The counters in the end: one below zero for every bot whose dial failed.\<close>

lemma foldl_launch:
  "bs_connected (foldl (\<lambda>s i. launch_bot (br_dial (runs i)) (br_assign (runs i)) (br_join (runs i)) (br_events (runs i)) s) s is)
    = bs_connected s - int (length (filter (\<lambda>i. br_dial (runs i) \<noteq> None) is))"
proof (induction "is" arbitrary: s)
  case (Cons i "is")
  then show ?case using failed_dial_miscounts bot_counts by (cases "br_dial (runs i)") simp_all
qed simp

lemma bot_main_counts:
  assumes "bot_main Getenv w runs = (launched, completed, stats)"
  shows "bs_connected stats = - int (length (filter (\<lambda>i. br_dial (runs i) \<noteq> None) launched))"
  using assms foldl_launch [of runs "\<lparr>bs_connected = 0, bs_errors = 0\<rparr>" launched]
  by (auto simp: bot_main_def Let_def split: prod.splits)

text \<open>
  Every bot that \<open>BOT_COUNT\<close> asks for is launched when nothing cancels the context: the bots
  \<open>0, \<dots>, n - 1\<close>, in this order, where a text that is no number counts as 0. When all of them have ended,
  the counter of connected bots is not zero but minus the number of failed dials.
\<close>

theorem bots_launched:
  assumes "\<And>i. w i = Elapsed"
  shows "\<exists>stats. bot_main Getenv w runs = ([0..fst (Atoi (GetEnvDefault Getenv ''BOT_COUNT'' ''3'')) - 1], True, stats)
    \<and> bs_connected stats = - int (length (filter (\<lambda>i. br_dial (runs i) \<noteq> None)
        [0..fst (Atoi (GetEnvDefault Getenv ''BOT_COUNT'' ''3'')) - 1]))"
proof -
  let ?n = "fst (Atoi (GetEnvDefault Getenv ''BOT_COUNT'' ''3''))"
  obtain launched lines d where l: "launch_loop 0 ?n w = (launched, lines, d)" by (cases "launch_loop 0 ?n w")
  from launch_loop_launched [OF l] obtain k where k: "launched = [0..k - 1]" "d \<longrightarrow> k = max 0 ?n" "\<not> d \<longrightarrow> w (k - 1) = Cancelled"
    by blast
  have d: d using k(3) assms by auto
  have launched: "launched = [0..?n - 1]" using k(1,2) d by (auto simp: max_def)
  obtain stats where "bot_main Getenv w runs = (launched, d, stats)"
    using l by (simp add: bot_main_def Let_def)
  with bot_main_counts launched d show ?thesis by auto
qed

end
