(* ===== verification/Withered_Server.thy ===== *)
theory Withered_Server
  imports Withered_Process
begin

text \<open>
  The running server of \<open>withered\<close>: \<open>cmd/main.go\<close> with the room it starts, the HTTP requests, and one
  endpoint for each connection, all over one publish/subscribe service. \<open>withered_step\<close> takes one step of one
  part: a request, one iteration of a loop of one endpoint, the end of \<open>Run\<close>, a tick of the room, the end of the
  room. A call of \<open>Publish\<close> is one step (theory \<open>Pubsub\<close> has its interleavings). The connections stay in the
  list when they have ended, so the list is also the record of who has been accepted.
\<close>

subsection \<open>The state and its steps\<close>

record client_conn =
  cc_ep :: SessionEndpoint
  cc_running :: bool

record withered_state =
  wd_counter :: u64
  wd_pubsub :: SimplePubSub
  wd_manager :: SimpleRoomManager
  wd_msgCh :: nat
  wd_room :: "WitheredApplication Room"
  wd_up :: bool
  wd_clients :: "client_conn list"

definition withered_start :: "(nat \<Rightarrow> EntityID list) \<Rightarrow> (nat \<Rightarrow> float32) \<Rightarrow> nat \<Rightarrow> withered_state option" where
  "withered_start orders rands grow =
     do {
       (pubsub, msgCh, roomManager, room) \<leftarrow> boot orders rands grow;
       Some \<lparr>wd_counter = 0, wd_pubsub = pubsub, wd_manager = roomManager, wd_msgCh = msgCh, wd_room = room,
             wd_up = True, wd_clients = []\<rparr>
     }"

text \<open>The connection a request has made. \<open>Run\<close> never fails at its start (\<open>accept_runs\<close> below).\<close>

fun new_clients :: "(SessionEndpoint \<times> EndpointError option) option \<Rightarrow> client_conn list" where
  "new_clients (Some (se, None)) = [\<lparr>cc_ep = se, cc_running = True\<rparr>]"
| "new_clients _ = []"

inductive withered_step :: "withered_state \<Rightarrow> withered_state \<Rightarrow> bool" where
  request: "withered_serve path status random now grow (wd_manager s) (wd_counter s, wd_pubsub s) = ((counter, p), code, ep)
    \<Longrightarrow> withered_step s (s\<lparr>wd_counter := counter, wd_pubsub := p, wd_clients := wd_clients s @ new_clients ep\<rparr>)"
| endpoint: "i < length (wd_clients s) \<Longrightarrow> cc_running (wd_clients s ! i)
    \<Longrightarrow> ep_step (wd_pubsub s, cc_ep (wd_clients s ! i)) (p, se)
    \<Longrightarrow> withered_step s (s\<lparr>wd_pubsub := p, wd_clients := (wd_clients s)[i := \<lparr>cc_ep = se, cc_running = True\<rparr>]\<rparr>)"
| return: "i < length (wd_clients s) \<Longrightarrow> cc_running (wd_clients s ! i)
    \<Longrightarrow> run_end (wd_pubsub s, cc_ep (wd_clients s ! i)) = Some p
    \<Longrightarrow> withered_step s (s\<lparr>wd_pubsub := p,
          wd_clients := (wd_clients s)[i := \<lparr>cc_ep = cc_ep (wd_clients s ! i), cc_running = False\<rparr>]\<rparr>)"
| tick: "wd_up s \<Longrightarrow> room_tick withered_app stop orders (wd_msgCh s) (wd_pubsub s) (wd_room s) = Some (p, r)
    \<Longrightarrow> (\<And>n. reg_List (rm_registry r) (orders n))
    \<Longrightarrow> withered_step s (s\<lparr>wd_pubsub := p, wd_room := r\<rparr>)"
| stop: "wd_up s \<Longrightarrow> room_stop (wd_room s) (wd_msgCh s) (wd_pubsub s) = Some p
    \<Longrightarrow> withered_step s (s\<lparr>wd_pubsub := p, wd_up := False\<rparr>)"

text \<open>The states reached by steps from states with \<open>K\<close>.\<close>

inductive withered_reach :: "(withered_state \<Rightarrow> bool) \<Rightarrow> withered_state \<Rightarrow> withered_state \<Rightarrow> bool" for K s0 where
  start: "withered_reach K s0 s0"
| step: "withered_reach K s0 s \<Longrightarrow> K s \<Longrightarrow> withered_step s s' \<Longrightarrow> withered_reach K s0 s'"

abbreviation cc_id :: "client_conn \<Rightarrow> SessionID" where
  "cc_id c \<equiv> se_id (ep_session (cc_ep c))"

abbreviation cc_ch :: "client_conn \<Rightarrow> nat" where
  "cc_ch c \<equiv> ep_msgCh (cc_ep c)"

text \<open>The identifiers of all sessions the server has ever accepted, and the messages that wait for the room.\<close>

definition accepted_ids :: "withered_state \<Rightarrow> SessionID set" where
  "accepted_ids s = cc_id ` set (wd_clients s)"

definition waiting :: "withered_state \<Rightarrow> Message list" where
  "waiting s = (case ps_chans (wd_pubsub s) (wd_msgCh s) of None \<Rightarrow> [] | Some c \<Rightarrow> ch_buf c)"

subsection \<open>What an endpoint does to the service\<close>

text \<open>Nothing but adding messages in the name of its own session, or taking messages away.\<close>

definition adds_only :: "SessionID \<Rightarrow> SimplePubSub \<Rightarrow> SimplePubSub \<Rightarrow> bool" where
  "adds_only sid p p' \<longleftrightarrow> ps_wf p' \<and> ps_subs p' = ps_subs p
     \<and> (\<forall>ch. rel_option (\<lambda>c c'. \<forall>m \<in> set (ch_buf c'). m \<in> set (ch_buf c) \<or> msg_SessionID m = sid)
            (ps_chans p ch) (ps_chans p' ch))"

lemma adds_only_refl: "ps_wf p \<Longrightarrow> adds_only sid p p"
  by (simp add: adds_only_def option.rel_refl)

lemma adds_only_delivered:
  assumes "ps_wf p'" "ps_subs p' = ps_subs p" "ps_chans p' = delivered m L (ps_chans p)"
  shows "adds_only (msg_SessionID m) p p'"
proof -
  have "rel_option (\<lambda>c c'. \<forall>x \<in> set (ch_buf c'). x \<in> set (ch_buf c) \<or> msg_SessionID x = msg_SessionID m)
      (ps_chans p ch) (ps_chans p' ch)" for ch
    unfolding assms(3) delivered_def by (cases "ps_chans p ch") auto
  with assms show ?thesis by (simp add: adds_only_def)
qed

lemma adds_only_Publish:
  assumes "ps_wf p" "Publish stop topic m p = Some p'"
  shows "adds_only (msg_SessionID m) p p'"
  using Publish_any [OF assms(1), of stop topic m] assms(2) adds_only_delivered by fastforce

lemma adds_only_recv:
  assumes wf: "ps_wf p" and recv: "try_recv ch p = Some (p', m, ok)"
  shows "adds_only sid p p'"
proof -
  obtain c where c: "ps_chans p ch = Some c" using recv by (auto simp: try_recv_def split: option.splits)
  show ?thesis
  proof (cases "ch_buf c")
    case Nil
    with c recv wf show ?thesis by (auto simp: try_recv_def adds_only_refl split: if_splits)
  next
    case (Cons x ms)
    with c recv have p': "p' = p\<lparr>ps_chans := (ps_chans p)(ch \<mapsto> c\<lparr>ch_buf := ms\<rparr>)\<rparr>" by (simp add: try_recv_def)
    have "ps_wf p'" unfolding p' using ps_wf_buf [OF wf c] ps_wfD(6) [OF wf c] Cons by simp
    moreover have "rel_option (\<lambda>c c'. \<forall>m \<in> set (ch_buf c'). m \<in> set (ch_buf c) \<or> msg_SessionID m = sid)
        (ps_chans p x) (ps_chans p' x)" for x
      using c Cons by (cases "ps_chans p x") (auto simp: p')
    ultimately show ?thesis by (simp add: adds_only_def p')
  qed
qed

lemma close_endpoint_effect:
  assumes "close_endpoint stop (p, se) = Some (p', se')" "ps_wf p"
  shows "adds_only (se_id (ep_session se)) p p' \<and> ep_msgCh se' = ep_msgCh se"
  using assms(1) adds_only_refl [OF assms(2)] adds_only_Publish [OF assms(2)]
  by (fastforce simp: close_endpoint_def Let_def split: if_splits bind_splits)

lemma sendCtrlEvent_effect: "sendCtrlEvent pick ev se = Some se' \<Longrightarrow> ep_msgCh se' = ep_msgCh se \<and> ep_session se' = ep_session se"
  by (auto simp: sendCtrlEvent_def Let_def split: if_splits)

lemma handleData_effect:
  assumes "handleData stop pick data (p, se) = Some (p', se')" "ps_wf p"
  shows "adds_only (se_id (ep_session se)) p p' \<and> ep_msgCh se' = ep_msgCh se"
  using assms(1) adds_only_refl [OF assms(2)] sendCtrlEvent_effect [of pick _ se] adds_only_Publish [OF assms(2)]
  by (fastforce simp: handleData_def Let_def split: sum.splits if_splits bind_splits)

lemma handleControlEvent_effect:
  assumes "handleControlEvent stop now ev (p, se) = Some (p', se')" "ps_wf p"
  shows "adds_only (se_id (ep_session se)) p p' \<and> ep_msgCh se' = ep_msgCh se"
  using assms close_endpoint_effect [of stop p se p' se'] adds_only_refl [OF assms(2)]
  by (cases "ee_kind ev") (auto simp: handleControlEvent_def)

lemma ep_step_effect:
  assumes "ep_step (p, se) (p', se')" "ps_wf p"
  shows "adds_only (se_id (ep_session se)) p p' \<and> ep_msgCh se' = ep_msgCh se"
  using assms
proof (induction "(p, se)" "(p', se')" rule: ep_step.induct)
  case (read_data stop pick data now)
  from handleData_effect [OF read_data.hyps(2) read_data.prems] show ?case by (simp add: TouchRead_def)
next
  case (read_error pick e)
  with sendCtrlEvent_effect [OF read_error.hyps(2)] show ?case by (simp add: adds_only_refl)
next
  case (write_error d ds pick e)
  with sendCtrlEvent_effect [OF write_error.hyps(3)] show ?case by (simp add: adds_only_refl)
next
  case (control ev evs stop now)
  from handleControlEvent_effect [OF control.hyps(2) control.prems] show ?case by simp
next
  case (idle nows reason stop now)
  from handleControlEvent_effect [OF idle.hyps(2) idle.prems] show ?case .
next
  case (request_close pick)
  with sendCtrlEvent_effect show ?case unfolding ep_Close_def by (simp add: adds_only_refl)
next
  case (sub msg ok)
  from adds_only_recv [OF sub.prems sub.hyps(2)] sub.hyps(3) show ?case by (auto simp: forward_def split: if_splits)
qed (auto simp: adds_only_refl heartbeat_def forward_def)

subsection \<open>What a tick of the room does to the service\<close>

text \<open>Publishing to topics of sessions leaves the other channels as they are.\<close>

definition sends_to_sessions :: "SimplePubSub \<Rightarrow> SimplePubSub \<Rightarrow> bool" where
  "sends_to_sessions p p' \<longleftrightarrow> ps_wf p' \<and> ps_subs p' = ps_subs p \<and> dom (ps_chans p') = dom (ps_chans p)
     \<and> (\<forall>ch. (\<forall>sid. ch \<notin> set (subscribers p (session_topic sid))) \<longrightarrow> ps_chans p' ch = ps_chans p ch)"

lemma sends_to_sessions_trans:
  "sends_to_sessions p p1 \<Longrightarrow> sends_to_sessions p1 p2 \<Longrightarrow> sends_to_sessions p p2"
  by (simp add: sends_to_sessions_def)

lemma Publish_to_session:
  assumes "ps_wf p"
  shows "\<exists>p'. Publish stop (session_topic sid) m p = Some p' \<and> sends_to_sessions p p'"
proof -
  obtain p' L where p': "Publish stop (session_topic sid) m p = Some p'" "ps_wf p'" "ps_subs p' = ps_subs p"
    "ps_chans p' = delivered m L (ps_chans p)" "set L \<subseteq> set (subscribers p (session_topic sid))"
    using Publish_any [OF assms, of stop "session_topic sid" m] by blast
  have same: "ps_chans p' ch = ps_chans p ch" if out: "\<forall>sid. ch \<notin> set (subscribers p (session_topic sid))" for ch
  proof -
    have "ch \<notin> set L" using out p'(5) by blast
    then show ?thesis by (simp add: p'(4) delivered_def option.map_ident)
  qed
  have "dom (ps_chans p') = dom (ps_chans p)" unfolding p'(4) delivered_def by auto
  with p'(1-3) same show ?thesis unfolding sends_to_sessions_def by blast
qed

lemma br_Broadcast_any:
  "ps_wf p \<Longrightarrow> \<exists>p'. br_Broadcast stop order data p = Some p' \<and> sends_to_sessions p p'"
proof (induction order arbitrary: p)
  case Nil
  then show ?case by (simp add: sends_to_sessions_def)
next
  case (Cons sid order)
  obtain p1 where p1: "Publish stop (session_topic sid) \<lparr>msg_SessionID = '''', msg_Data = data\<rparr> p = Some p1" "sends_to_sessions p p1"
    using Publish_to_session [OF Cons.prems] by blast
  then have "ps_wf p1" by (simp add: sends_to_sessions_def)
  from Cons.IH [OF this] p1 show ?case by (auto intro: sends_to_sessions_trans)
qed

text \<open>
  A tick of a room with nothing to send comes to an end, whatever the context does. It empties the channel of
  the room and changes no other channel but those of sessions.
\<close>

lemma room_tick_any:
  fixes app :: "'a Application"
  assumes wf: "ps_wf p" and c: "ps_chans p msgCh = Some c" "\<not> ch_closed c"
    and own: "\<And>sid. msgCh \<notin> set (subscribers p (session_topic sid))" and idle: "rm_sendCh r = []"
  defines "r1 \<equiv> fold (room_HandleMessage app) (ch_buf c) r"
  shows "\<exists>p'. room_tick app stop orders msgCh p r = Some (p', r1\<lparr>rm_sendCh := [], rm_app := fst (app_Tick app (rm_app r1))\<rparr>)
    \<and> ps_wf p' \<and> ps_subs p' = ps_subs p \<and> dom (ps_chans p') = dom (ps_chans p)
    \<and> ps_chans p' msgCh = Some (c\<lparr>ch_buf := []\<rparr>)"
proof -
  let ?p = "p\<lparr>ps_chans := (ps_chans p)(msgCh \<mapsto> c\<lparr>ch_buf := []\<rparr>)\<rparr>"
  have wf': "ps_wf ?p" using ps_wf_buf [OF wf c(1)] by simp
  have recv: "receive_loop app msgCh p r = Some (?p, r1)" unfolding r1_def by (rule receive_loop_ok [OF c])
  have none: "rm_sendCh r1 = []" unfolding r1_def by (simp add: messages_sendCh idle)
  have bc: "\<exists>p'. br_Broadcast stop (orders 0) data ?p = Some p' \<and> sends_to_sessions ?p p'" for data
    by (rule br_Broadcast_any [OF wf'])
  have res: "ps_wf p' \<and> ps_subs p' = ps_subs p \<and> dom (ps_chans p') = dom (ps_chans p) \<and> ps_chans p' msgCh = Some (c\<lparr>ch_buf := []\<rparr>)"
    if "sends_to_sessions ?p p'" for p'
    using that own c(1) by (auto simp: sends_to_sessions_def)
  have self: "sends_to_sessions ?p ?p" using wf' by (simp add: sends_to_sessions_def)
  obtain a out where t: "app_Tick app (rm_app r1) = (a, out)" by (cases "app_Tick app (rm_app r1)")
  show ?thesis
  proof (cases "\<exists>data. out = Inr (Some data)")
    case True
    then obtain data where d: "out = Inr (Some data)" by blast
    obtain p' where p': "br_Broadcast stop (orders 0) data ?p = Some p'" "sends_to_sessions ?p p'" using bc by blast
    have "room_tick app stop orders msgCh p r = Some (p', r1\<lparr>rm_sendCh := [], rm_app := a\<rparr>)"
      using p'(1) by (simp add: room_tick_def recv none t d)
    with res [OF p'(2)] t show ?thesis by auto
  next
    case False
    then have "room_tick app stop orders msgCh p r = Some (?p, r1\<lparr>rm_sendCh := [], rm_app := a\<rparr>)"
      by (auto simp: room_tick_def recv none t Let_def split: sum.splits option.splits)
    with res [OF self] t show ?thesis by auto
  qed
qed

lemma messages_registry:
  "rm_registry (fold (room_HandleMessage A) msgs r) \<subseteq> rm_registry r \<union> msg_SessionID ` set msgs"
proof (induction msgs arbitrary: r)
  case (Cons m msgs)
  have "rm_registry (room_HandleMessage A m r) \<subseteq> insert (msg_SessionID m) (rm_registry r)"
    by (cases rule: room_message_cases [of A m r]) auto
  with Cons [of "room_HandleMessage A m r"] show ?case by auto
qed simp

text \<open>Only a session's own messages take it out of the registry.\<close>

lemma messages_keep_other:
  assumes "sid \<in> rm_registry r" "\<forall>m \<in> set msgs. msg_SessionID m \<noteq> sid"
  shows "sid \<in> rm_registry (fold (room_HandleMessage A) msgs r)"
  using assms
proof (induction msgs arbitrary: r)
  case (Cons m msgs)
  have "sid \<in> rm_registry (room_HandleMessage A m r)"
    using Cons.prems by (cases rule: room_message_cases [of A m r]) auto
  with Cons show ?case by simp
qed simp

subsection \<open>The invariant of the server\<close>

text \<open>The channels of the connections of a session that are running.\<close>

definition cc_sub :: "client_conn \<Rightarrow> bool \<times> SessionID \<times> nat" where
  "cc_sub c = (cc_running c, cc_id c, cc_ch c)"

definition open_channels :: "client_conn list \<Rightarrow> SessionID \<Rightarrow> nat set" where
  "open_channels cs sid = {ch. (True, sid, ch) \<in> cc_sub ` set cs}"

definition withered_inv :: "withered_state \<Rightarrow> bool" where
  "withered_inv s \<longleftrightarrow> ps_wf (wd_pubsub s) \<and> rm_ID (wd_room s) = main_defaultRoomID \<and> rm_sendCh (wd_room s) = []
     \<and> subscribers (wd_pubsub s) (room_topic (RoomID_String main_defaultRoomID)) = (if wd_up s then [wd_msgCh s] else [])
     \<and> (\<forall>sid. set (subscribers (wd_pubsub s) (session_topic sid)) = open_channels (wd_clients s) sid)
     \<and> distinct (wd_msgCh s # map cc_ch (wd_clients s))
     \<and> insert (wd_msgCh s) (cc_ch ` set (wd_clients s)) \<subseteq> dom (ps_chans (wd_pubsub s))
     \<and> (\<forall>c \<in> set (wd_clients s). ep_inv (cc_ep c) \<and> (\<not> cc_running c \<longrightarrow> ep_closed (cc_ep c)))
     \<and> msg_SessionID ` set (waiting s) \<subseteq> accepted_ids s \<and> rm_registry (wd_room s) \<subseteq> accepted_ids s"

lemma withered_invD:
  assumes "withered_inv s"
  shows "ps_wf (wd_pubsub s)" "rm_ID (wd_room s) = main_defaultRoomID" "rm_sendCh (wd_room s) = []"
    "subscribers (wd_pubsub s) (room_topic (RoomID_String main_defaultRoomID)) = (if wd_up s then [wd_msgCh s] else [])"
    "set (subscribers (wd_pubsub s) (session_topic sid)) = open_channels (wd_clients s) sid"
    "distinct (map cc_ch (wd_clients s))" "wd_msgCh s \<notin> cc_ch ` set (wd_clients s)"
    "wd_msgCh s \<in> dom (ps_chans (wd_pubsub s))" "c \<in> set (wd_clients s) \<Longrightarrow> cc_ch c \<in> dom (ps_chans (wd_pubsub s))"
    "c \<in> set (wd_clients s) \<Longrightarrow> ep_inv (cc_ep c)" "c \<in> set (wd_clients s) \<Longrightarrow> \<not> cc_running c \<Longrightarrow> ep_closed (cc_ep c)"
    "msg_SessionID ` set (waiting s) \<subseteq> accepted_ids s" "rm_registry (wd_room s) \<subseteq> accepted_ids s"
  using assms unfolding withered_inv_def by (simp_all add: image_subset_iff)

lemma open_channels_append: "open_channels (cs @ [c]) sid = open_channels cs sid \<union> (if cc_running c \<and> cc_id c = sid then {cc_ch c} else {})"
  by (auto simp: open_channels_def cc_sub_def)

lemma open_channels_sub: "open_channels cs sid \<subseteq> cc_ch ` set cs"
  by (auto simp: open_channels_def cc_sub_def)

lemma open_channels_nth:
  "ch \<in> open_channels cs sid \<longleftrightarrow> (\<exists>j < length cs. cc_running (cs ! j) \<and> cc_id (cs ! j) = sid \<and> cc_ch (cs ! j) = ch)"
proof -
  have "ch \<in> open_channels cs sid \<longleftrightarrow> (\<exists>c \<in> set cs. cc_running c \<and> cc_id c = sid \<and> cc_ch c = ch)"
    by (auto simp: open_channels_def cc_sub_def)
  then show ?thesis by (metis in_set_conv_nth)
qed

lemma update_same:
  assumes "i < length cs" "f c = f (cs ! i)"
  shows "map f (cs[i := c]) = map f cs" "f ` set (cs[i := c]) = f ` set cs"
proof -
  show eq: "map f (cs[i := c]) = map f cs"
    using assms by (metis list_update_id map_update)
  show "f ` set (cs[i := c]) = f ` set cs" using arg_cong [OF eq, of set] by simp
qed

lemma open_channels_end:
  assumes i: "i < length cs" and d: "distinct (map cc_ch cs)" and c: "c = \<lparr>cc_ep = cc_ep (cs ! i), cc_running = False\<rparr>"
  shows "open_channels (cs[i := c]) sid
    = (if sid = cc_id (cs ! i) then open_channels cs sid - {cc_ch (cs ! i)} else open_channels cs sid)"
proof -
  have ne: "cc_ch (cs ! j) \<noteq> cc_ch (cs ! i)" if "j < length cs" "j \<noteq> i" for j
    using d i that by (auto simp: distinct_conv_nth)
  have "ch \<in> open_channels (cs[i := c]) sid \<longleftrightarrow> ch \<in> open_channels cs sid \<and> \<not> (sid = cc_id (cs ! i) \<and> ch = cc_ch (cs ! i))" for ch
  proof -
    have "cc_running (cs[i := c] ! j) \<and> cc_id (cs[i := c] ! j) = sid \<and> cc_ch (cs[i := c] ! j) = ch
        \<longleftrightarrow> j \<noteq> i \<and> cc_running (cs ! j) \<and> cc_id (cs ! j) = sid \<and> cc_ch (cs ! j) = ch" if "j < length cs" for j
      using that i by (auto simp: c nth_list_update)
    then have "ch \<in> open_channels (cs[i := c]) sid
        \<longleftrightarrow> (\<exists>j < length cs. j \<noteq> i \<and> cc_running (cs ! j) \<and> cc_id (cs ! j) = sid \<and> cc_ch (cs ! j) = ch)"
      by (simp only: open_channels_nth length_list_update cong: conj_cong)
    then show ?thesis unfolding open_channels_nth using ne by metis
  qed
  then show ?thesis by auto
qed

text \<open>Requests.\<close>

lemma accept_runs:
  assumes "ps_wf p0" "withered_serve path status random now grow m (counter0, p0) = ((counter, p), code, ep)"
  obtains (none) "counter = counter0" "p = p0" "ep = None"
    | (new) se where "ep = Some (se, None)" "ps_wf p" "ep_inv se" "ps_chans p0 (ep_msgCh se) = None"
      "subscribers p = (subscribers p0)(session_topic (se_id (ep_session se))
         := subscribers p0 (session_topic (se_id (ep_session se))) @ [ep_msgCh se])"
      "ps_chans p = (ps_chans p0)(ep_msgCh se \<mapsto> \<lparr>ch_buf = [], ch_closed = False\<rparr>)"
proof (cases "Route path = RouteWS \<and> status = 101")
  case True
  obtain p' se where a: "accept_ServeHTTP True random now grow m (counter0, p0) = ((counter0 + 1, p'), Some (se, None))"
    "ps_wf p'" "se_id (ep_session se) = NewSessionID random" "ps_chans p0 (ep_msgCh se) = None"
    "subscribers p' = (subscribers p0)(session_topic (NewSessionID random)
       := subscribers p0 (session_topic (NewSessionID random)) @ [ep_msgCh se])"
    "ps_chans p' = (ps_chans p0)(ep_msgCh se \<mapsto> \<lparr>ch_buf = [], ch_closed = False\<rparr>)" by (rule accept_ok [OF assms(1)])
  have "ep_inv se"
    using a(1) by (auto simp: accept_ServeHTTP_def NewSessionEndpoint_def run_start_def Send_def NewConnection_def
        NewSession_def ep_inv_def Let_def split: prod.splits)
  with True a assms(2) show thesis by (intro new [of se]) (auto simp: withered_serve_def)
next
  case False
  with assms(2) show thesis
    by (intro none) (auto simp: withered_serve_def accept_ServeHTTP_def split: withered_route.splits)
qed

lemma waiting_adds:
  assumes "adds_only sid (wd_pubsub s) p" "wd_msgCh s' = wd_msgCh s" "wd_pubsub s' = p"
  shows "set (waiting s') \<subseteq> set (waiting s) \<union> {m. msg_SessionID m = sid}"
proof -
  have "rel_option (\<lambda>c c'. \<forall>m \<in> set (ch_buf c'). m \<in> set (ch_buf c) \<or> msg_SessionID m = sid)
      (ps_chans (wd_pubsub s) (wd_msgCh s)) (ps_chans p (wd_msgCh s))" using assms(1) by (simp add: adds_only_def)
  then show ?thesis
    using assms(2,3) by (cases "ps_chans (wd_pubsub s) (wd_msgCh s)"; cases "ps_chans p (wd_msgCh s)") (auto simp: waiting_def)
qed

lemma adds_only_dom:
  assumes "adds_only sid p p'"
  shows "dom (ps_chans p') = dom (ps_chans p)"
proof -
  have "ps_chans p' ch = None \<longleftrightarrow> ps_chans p ch = None" for ch
  proof -
    have "rel_option (\<lambda>c c'. \<forall>m \<in> set (ch_buf c'). m \<in> set (ch_buf c) \<or> msg_SessionID m = sid)
        (ps_chans p ch) (ps_chans p' ch)" using assms by (simp add: adds_only_def)
    then show ?thesis by (cases "ps_chans p ch"; cases "ps_chans p' ch") simp_all
  qed
  then show ?thesis by (auto simp: set_eq_iff dom_def)
qed

text \<open>What a step has to keep when it accepts nobody.\<close>

lemma inv_keep:
  assumes inv: "withered_inv s" and wf: "ps_wf (wd_pubsub s')"
    and dom: "dom (ps_chans (wd_pubsub s')) = dom (ps_chans (wd_pubsub s))"
    and room: "subscribers (wd_pubsub s') (room_topic (RoomID_String main_defaultRoomID)) = (if wd_up s' then [wd_msgCh s'] else [])"
    and sess: "\<And>sid. set (subscribers (wd_pubsub s') (session_topic sid)) = open_channels (wd_clients s') sid"
    and chs: "map cc_ch (wd_clients s') = map cc_ch (wd_clients s)" and ids: "map cc_id (wd_clients s') = map cc_id (wd_clients s)"
    and clients: "\<And>c. c \<in> set (wd_clients s') \<Longrightarrow> ep_inv (cc_ep c) \<and> (\<not> cc_running c \<longrightarrow> ep_closed (cc_ep c))"
    and r: "wd_msgCh s' = wd_msgCh s" "rm_ID (wd_room s') = rm_ID (wd_room s)" "rm_sendCh (wd_room s') = []"
    and wait: "msg_SessionID ` set (waiting s') \<subseteq> accepted_ids s" "rm_registry (wd_room s') \<subseteq> accepted_ids s"
  shows "withered_inv s'" "accepted_ids s' = accepted_ids s"
proof -
  show acc: "accepted_ids s' = accepted_ids s" using arg_cong [OF ids, of set] by (simp add: accepted_ids_def)
  have ch: "cc_ch ` set (wd_clients s') = cc_ch ` set (wd_clients s)" using arg_cong [OF chs, of set] by simp
  have "distinct (wd_msgCh s' # map cc_ch (wd_clients s'))"
    using withered_invD(6,7) [OF inv] unfolding chs r(1) by (simp add: image_iff)
  moreover have "insert (wd_msgCh s') (cc_ch ` set (wd_clients s')) \<subseteq> dom (ps_chans (wd_pubsub s'))"
    unfolding dom ch r(1) using withered_invD(8,9) [OF inv] by blast
  ultimately show "withered_inv s'"
    unfolding withered_inv_def acc using wf room sess clients r(2,3) wait withered_invD(2) [OF inv] by auto
qed

lemma inv_endpoint:
  assumes inv: "withered_inv s" and i: "i < length (wd_clients s)" "cc_running (wd_clients s ! i)"
    and step: "ep_step (wd_pubsub s, cc_ep (wd_clients s ! i)) (p, se)"
    and s': "s' = s\<lparr>wd_pubsub := p, wd_clients := (wd_clients s)[i := \<lparr>cc_ep = se, cc_running = True\<rparr>]\<rparr>"
  shows "withered_inv s'" "set (waiting s') \<subseteq> set (waiting s) \<union> {m. msg_SessionID m = cc_id (wd_clients s ! i)}"
    "map cc_sub (wd_clients s') = map cc_sub (wd_clients s)"
proof -
  let ?c = "wd_clients s ! i" and ?c' = "\<lparr>cc_ep = se, cc_running = True\<rparr>"
  have ci: "?c \<in> set (wd_clients s)" using i(1) by simp
  have eff: "adds_only (cc_id ?c) (wd_pubsub s) p" "ep_msgCh se = cc_ch ?c"
    using ep_step_effect [OF step withered_invD(1) [OF inv]] by simp_all
  have inv': "ep_inv se" "se_id (ep_session se) = cc_id ?c"
    using ep_step_inv [OF step withered_invD(10) [OF inv ci]] by simp_all
  have subs: "ps_subs p = ps_subs (wd_pubsub s)" "ps_wf p" using eff(1) by (simp_all add: adds_only_def)
  have eq: "cc_sub ?c' = cc_sub ?c" "cc_ch ?c' = cc_ch ?c" "cc_id ?c' = cc_id ?c"
    using i(2) eff(2) inv'(2) by (simp_all add: cc_sub_def)
  show sub: "map cc_sub (wd_clients s') = map cc_sub (wd_clients s)" using update_same(1) [of i "wd_clients s" cc_sub ?c', OF i(1) eq(1)] by (simp add: s')
  have op: "open_channels (wd_clients s') sid = open_channels (wd_clients s) sid" for sid
    using arg_cong [OF sub, of set] by (simp add: open_channels_def)
  show w: "set (waiting s') \<subseteq> set (waiting s) \<union> {m. msg_SessionID m = cc_id ?c}"
    by (rule waiting_adds [OF eff(1)]) (simp_all add: s')
  have acc: "cc_id ?c \<in> accepted_ids s" using ci by (simp add: accepted_ids_def)
  show "withered_inv s'"
  proof (rule inv_keep(1) [OF inv])
    show "ep_inv (cc_ep c) \<and> (\<not> cc_running c \<longrightarrow> ep_closed (cc_ep c))" if "c \<in> set (wd_clients s')" for c
    proof (cases "c = ?c'")
      case False
      then have "c \<in> set (wd_clients s)" using that set_update_subset_insert [of "wd_clients s" i ?c'] by (auto simp: s')
      then show ?thesis using withered_invD(10,11) [OF inv] by blast
    qed (simp add: inv'(1))
    show "msg_SessionID ` set (waiting s') \<subseteq> accepted_ids s"
    proof (rule image_subsetI)
      fix m assume "m \<in> set (waiting s')"
      then consider "m \<in> set (waiting s)" | "msg_SessionID m = cc_id ?c" using w by blast
      then show "msg_SessionID m \<in> accepted_ids s"
        by cases (use acc withered_invD(12) [OF inv] in \<open>simp_all add: image_subset_iff\<close>)
    qed
    show "map cc_ch (wd_clients s') = map cc_ch (wd_clients s)" "map cc_id (wd_clients s') = map cc_id (wd_clients s)"
      using update_same(1) [of i "wd_clients s" cc_ch ?c', OF i(1) eq(2)]
        update_same(1) [of i "wd_clients s" cc_id ?c', OF i(1) eq(3)] by (simp_all add: s')
    show "set (subscribers (wd_pubsub s') (session_topic sid)) = open_channels (wd_clients s') sid" for sid
      unfolding op using withered_invD(5) [OF inv, of sid] subs(1) by (simp add: s')
  qed (use withered_invD(3,4,13) [OF inv] subs adds_only_dom [OF eff(1)] in \<open>simp_all add: s'\<close>)
qed

lemma inv_return:
  assumes inv: "withered_inv s" and i: "i < length (wd_clients s)" "cc_running (wd_clients s ! i)"
    and fin: "run_end (wd_pubsub s, cc_ep (wd_clients s ! i)) = Some p"
    and s': "s' = s\<lparr>wd_pubsub := p, wd_clients := (wd_clients s)[i := \<lparr>cc_ep = cc_ep (wd_clients s ! i), cc_running = False\<rparr>]\<rparr>"
  shows "withered_inv s'" "waiting s' = waiting s"
proof -
  let ?c = "wd_clients s ! i" and ?c' = "\<lparr>cc_ep = cc_ep (wd_clients s ! i), cc_running = False\<rparr>" and ?p = "wd_pubsub s"
  let ?topic = "session_topic (cc_id ?c)"
  have ci: "?c \<in> set (wd_clients s)" using i(1) by simp
  note wf = withered_invD(1) [OF inv]
  have un: "ps_Unsubscribe ?topic (cc_ch ?c) ?p = Some p" and can: "ep_cancelled (cc_ep ?c)"
    using fin by (simp_all add: run_end_def split: if_splits)
  have p: "ps_wf p" "subscribers p = (subscribers ?p)(?topic := remove1 (cc_ch ?c) (subscribers ?p ?topic))"
    "ps_chans p x = (if x = cc_ch ?c \<and> cc_ch ?c \<in> set (subscribers ?p ?topic)
          then map_option (ch_closed_update (\<lambda>_. True)) (ps_chans ?p x) else ps_chans ?p x)" for x
    using ps_Unsubscribe_wf [OF wf, of ?topic "cc_ch ?c"] un by auto
  have dom: "dom (ps_chans p) = dom (ps_chans ?p)" by (auto simp: p(3) split: if_splits)
  have "wd_msgCh s \<noteq> cc_ch ?c" using withered_invD(7) [OF inv] ci by auto
  then show w: "waiting s' = waiting s" by (simp add: waiting_def p(3) s')
  have op: "set (subscribers p (session_topic sid)) = open_channels (wd_clients s') sid" for sid
    using open_channels_end [OF i(1) withered_invD(6) [OF inv] refl, of sid] withered_invD(5) [OF inv, of sid] ps_wfD(2) [OF wf]
    by (cases "sid = cc_id ?c") (simp_all add: p(2) s')
  have closed: "ep_closed (cc_ep ?c)" using can withered_invD(10) [OF inv ci] by (simp add: ep_inv_def)
  show "withered_inv s'"
  proof (rule inv_keep(1) [OF inv])
    show "ep_inv (cc_ep c) \<and> (\<not> cc_running c \<longrightarrow> ep_closed (cc_ep c))" if "c \<in> set (wd_clients s')" for c
    proof (cases "c = ?c'")
      case False
      then have "c \<in> set (wd_clients s)" using that set_update_subset_insert [of "wd_clients s" i ?c'] by (auto simp: s')
      then show ?thesis using withered_invD(10,11) [OF inv] by blast
    qed (simp add: closed withered_invD(10) [OF inv ci])
    show "map cc_ch (wd_clients s') = map cc_ch (wd_clients s)" "map cc_id (wd_clients s') = map cc_id (wd_clients s)"
      using update_same(1) [OF i(1), of cc_ch ?c'] update_same(1) [OF i(1), of cc_id ?c'] by (simp_all add: s')
    show "subscribers (wd_pubsub s') (room_topic (RoomID_String main_defaultRoomID)) = (if wd_up s' then [wd_msgCh s'] else [])"
      using withered_invD(4) [OF inv] p(2) by (simp add: s')
    show "set (subscribers (wd_pubsub s') (session_topic sid)) = open_channels (wd_clients s') sid" for sid
      using op [of sid] by (simp add: s')
  qed (use withered_invD(2,3,12,13) [OF inv] p(1) dom w in \<open>simp_all add: s'\<close>)
qed

lemma inv_tick:
  assumes inv: "withered_inv s" and up: "wd_up s"
  shows "\<exists>p. room_tick withered_app stop orders (wd_msgCh s) (wd_pubsub s) (wd_room s)
      = Some (p, (let r = fold (room_HandleMessage withered_app) (waiting s) (wd_room s)
                  in r\<lparr>rm_app := fst (game_Tick (rm_app r))\<rparr>))
    \<and> (\<forall>r. s' = s\<lparr>wd_pubsub := p, wd_room := r\<rparr> \<and> rm_ID r = rm_ID (wd_room s) \<and> rm_sendCh r = [] \<and> rm_registry r \<subseteq> accepted_ids s
        \<longrightarrow> withered_inv s' \<and> waiting s' = [])"
proof -
  let ?p = "wd_pubsub s" and ?r = "fold (room_HandleMessage withered_app) (waiting s) (wd_room s)"
  note wf = withered_invD(1) [OF inv]
  have sub: "wd_msgCh s \<in> set (subscribers ?p (room_topic (RoomID_String main_defaultRoomID)))"
    using withered_invD(4) [OF inv] up by simp
  obtain c where c: "ps_chans ?p (wd_msgCh s) = Some c" "\<not> ch_closed c" using ps_wfD(4) [OF wf sub] by blast
  have buf: "ch_buf c = waiting s" using c(1) by (simp add: waiting_def)
  have own: "wd_msgCh s \<notin> set (subscribers ?p (session_topic sid))" for sid
    using ps_wfD(3) [OF wf sub, of "session_topic sid"] by auto
  obtain p where p: "room_tick withered_app stop orders (wd_msgCh s) ?p (wd_room s)
      = Some (p, ?r\<lparr>rm_sendCh := [], rm_app := fst (app_Tick withered_app (rm_app ?r))\<rparr>)"
    "ps_wf p" "ps_subs p = ps_subs ?p" "dom (ps_chans p) = dom (ps_chans ?p)" "ps_chans p (wd_msgCh s) = Some (c\<lparr>ch_buf := []\<rparr>)"
    using room_tick_any [OF wf c own withered_invD(3) [OF inv], of withered_app stop orders] unfolding buf by blast
  have "rm_sendCh ?r = []" by (simp add: messages_sendCh withered_invD(3) [OF inv])
  then have "?r\<lparr>rm_sendCh := [], rm_app := a\<rparr> = ?r\<lparr>rm_app := a\<rparr>" for a by simp
  moreover have "withered_inv s'" "waiting s' = []"
    if s': "s' = s\<lparr>wd_pubsub := p, wd_room := r\<rparr>" and r: "rm_ID r = rm_ID (wd_room s)" "rm_sendCh r = []"
      "rm_registry r \<subseteq> accepted_ids s" for r
  proof -
    show w: "waiting s' = []" by (simp add: waiting_def s' p(5))
    show "withered_inv s'"
      by (rule inv_keep(1) [OF inv]) (use withered_invD [OF inv] p r w in \<open>simp_all add: s'\<close>)
  qed
  ultimately show ?thesis using p(1) by (intro exI [of _ p]) (auto simp: withered_app_def Let_def)
qed

lemma messages_ID: "rm_ID (fold (room_HandleMessage A) msgs r) = rm_ID r"
proof (induction msgs arbitrary: r)
  case (Cons m msgs)
  have "rm_ID (room_HandleMessage A m r) = rm_ID r" by (cases rule: room_message_cases [of A m r]) simp_all
  with Cons show ?case by simp
qed simp

lemma inv_request:
  assumes inv: "withered_inv s"
    and serve: "withered_serve path status random now grow (wd_manager s) (wd_counter s, wd_pubsub s) = ((counter, p), code, ep)"
    and s': "s' = s\<lparr>wd_counter := counter, wd_pubsub := p, wd_clients := wd_clients s @ new_clients ep\<rparr>"
  shows "withered_inv s'" "waiting s' = waiting s"
proof -
  note D = withered_invD [OF inv]
  have "withered_inv s' \<and> waiting s' = waiting s"
    using serve
  proof (cases rule: accept_runs [OF D(1) serve, case_names none new])
    case none
    with inv show ?thesis by (simp add: s' withered_inv_def waiting_def accepted_ids_def)
  next
    case (new se)
    let ?c = "\<lparr>cc_ep = se, cc_running = True\<rparr>"
    have cs: "wd_clients s' = wd_clients s @ [?c]" using new(1) by (simp add: s')
    have fresh: "cc_ch ?c \<notin> dom (ps_chans (wd_pubsub s))" using new(4) by auto
    have known: "cc_ch ` set (wd_clients s) \<subseteq> dom (ps_chans (wd_pubsub s))" using D(9) by (rule image_subsetI)
    then have old: "wd_msgCh s \<noteq> cc_ch ?c" "cc_ch ?c \<notin> cc_ch ` set (wd_clients s)" using fresh D(8) by auto
    have w: "waiting s' = waiting s" using old(1) by (simp add: waiting_def s' new(6))
    have acc: "accepted_ids s' = insert (cc_id ?c) (accepted_ids s)" by (simp add: accepted_ids_def cs)
    have room: "subscribers p (room_topic (RoomID_String main_defaultRoomID)) = (if wd_up s then [wd_msgCh s] else [])"
      using D(4) by (simp add: new(5))
    have sess: "set (subscribers p (session_topic sid)) = open_channels (wd_clients s') sid" for sid
      using D(5) [of sid] by (auto simp: new(5) cs open_channels_append)
    have d: "distinct (wd_msgCh s # map cc_ch (wd_clients s'))" using D(6,7) old by (auto simp: cs)
    have dom: "insert (wd_msgCh s) (cc_ch ` set (wd_clients s')) \<subseteq> dom (ps_chans p)" using D(8) known by (auto simp: cs new(6))
    have ok: "ep_inv (cc_ep c) \<and> (\<not> cc_running c \<longrightarrow> ep_closed (cc_ep c))" if "c \<in> set (wd_clients s')" for c
      using that D(10,11) [of c] new(3) by (auto simp: cs)
    show ?thesis
      unfolding withered_inv_def acc w using new(2) room sess d dom ok D(2,3,12,13) by (auto simp: s')
  qed
  then show "withered_inv s'" "waiting s' = waiting s" by simp_all
qed

lemma inv_stop:
  assumes inv: "withered_inv s" and up: "wd_up s" and fin: "room_stop (wd_room s) (wd_msgCh s) (wd_pubsub s) = Some p"
    and s': "s' = s\<lparr>wd_pubsub := p, wd_up := False\<rparr>"
  shows "withered_inv s'" "waiting s' = waiting s"
proof -
  let ?p = "wd_pubsub s" and ?topic = "room_topic (RoomID_String main_defaultRoomID)"
  note D = withered_invD [OF inv]
  have "ps_Unsubscribe ?topic (wd_msgCh s) ?p = Some p" using fin D(2) by (simp add: room_stop_def)
  then have p: "ps_wf p" "subscribers p = (subscribers ?p)(?topic := remove1 (wd_msgCh s) (subscribers ?p ?topic))"
    "ps_chans p x = (if x = wd_msgCh s \<and> wd_msgCh s \<in> set (subscribers ?p ?topic)
          then map_option (ch_closed_update (\<lambda>_. True)) (ps_chans ?p x) else ps_chans ?p x)" for x
    using ps_Unsubscribe_wf [OF D(1), of ?topic "wd_msgCh s"] by auto
  have dom: "dom (ps_chans p) = dom (ps_chans ?p)" by (auto simp: p(3) split: if_splits)
  show w: "waiting s' = waiting s"
    by (cases "ps_chans ?p (wd_msgCh s)") (simp_all add: waiting_def p(3) s')
  show "withered_inv s'"
  proof (rule inv_keep(1) [OF inv])
    show "subscribers (wd_pubsub s') ?topic = (if wd_up s' then [wd_msgCh s'] else [])" using D(4) up by (simp add: s' p(2))
    show "set (subscribers (wd_pubsub s') (session_topic sid)) = open_channels (wd_clients s') sid" for sid
      using D(5) [of sid] by (simp add: s' p(2))
    show "ep_inv (cc_ep c) \<and> (\<not> cc_running c \<longrightarrow> ep_closed (cc_ep c))" if "c \<in> set (wd_clients s')" for c
      using that D(10,11) [of c] by (simp add: s')
  qed (use D(2,3,12,13) p(1) dom w in \<open>simp_all add: s'\<close>)
qed

text \<open>A tick, with the room after it.\<close>

lemma tick_room:
  assumes inv: "withered_inv s" and up: "wd_up s"
    and tick: "room_tick withered_app stop orders (wd_msgCh s) (wd_pubsub s) (wd_room s) = Some (p, r)"
    and s': "s' = s\<lparr>wd_pubsub := p, wd_room := r\<rparr>"
  shows "withered_inv s'" "waiting s' = []"
    "rm_registry r = rm_registry (fold (room_HandleMessage withered_app) (waiting s) (wd_room s))"
    "rm_app r = fst (game_Tick (rm_app (fold (room_HandleMessage withered_app) (waiting s) (wd_room s))))"
proof -
  let ?r = "fold (room_HandleMessage withered_app) (waiting s) (wd_room s)"
  note D = withered_invD [OF inv]
  have r: "r = ?r\<lparr>rm_app := fst (game_Tick (rm_app ?r))\<rparr>"
    using inv_tick [OF inv up, of stop orders] tick by (auto simp: Let_def)
  show reg: "rm_registry r = rm_registry ?r" "rm_app r = fst (game_Tick (rm_app ?r))" by (subst r; simp)+
  have "rm_ID r = rm_ID (wd_room s)" "rm_sendCh r = []"
    by (subst r; simp add: messages_ID messages_sendCh D(3))+
  moreover have "rm_registry r \<subseteq> accepted_ids s"
    unfolding reg(1) using messages_registry [of withered_app "waiting s" "wd_room s"] D(12,13) by blast
  ultimately show "withered_inv s'" "waiting s' = []"
    using inv_tick [OF inv up, of stop orders s'] tick by (auto simp: s')
qed

lemma withered_step_inv:
  assumes "withered_step s s'" "withered_inv s"
  shows "withered_inv s'"
  using assms
proof (cases rule: withered_step.cases)
  case (request path status random now grow counter p code ep)
  show ?thesis by (rule inv_request(1) [OF assms(2) request(2,1)])
next
  case (endpoint i p se)
  show ?thesis by (rule inv_endpoint(1) [OF assms(2) endpoint(2-4,1)])
next
  case (return i p)
  show ?thesis by (rule inv_return(1) [OF assms(2) return(2-4,1)])
next
  case (tick stop orders p r)
  show ?thesis by (rule tick_room(1) [OF assms(2) tick(2,3,1)])
next
  case (stop p)
  show ?thesis by (rule inv_stop(1) [OF assms(2) stop(2,3,1)])
qed

lemma withered_start_ok:
  assumes "withered_start orders rands grow = Some s0"
  obtains app where "NewWitheredApplication orders rands = Some app" "wd_room s0 = NewRoom main_defaultRoomID {} app"
    "wd_clients s0 = []" "wd_up s0" "withered_inv s0" "waiting s0 = []"
proof -
  obtain app where app: "NewWitheredApplication orders rands = Some app"
    using assms by (auto simp: withered_start_def boot_def Let_def split: bind_splits prod.splits)
  obtain p where p: "boot orders rands grow = Some (p, 0, NewSimpleRoomManager main_defaultRoomID, NewRoom main_defaultRoomID {} app)"
    "ps_wf p" "subscribers p = (\<lambda>_. [])(''room:'' @ RoomID_String main_defaultRoomID := [0])"
    "ps_chans p = [0 \<mapsto> \<lparr>ch_buf = [], ch_closed = False\<rparr>]" by (rule boot_ok [OF app])
  have s0: "s0 = \<lparr>wd_counter = 0, wd_pubsub = p, wd_manager = NewSimpleRoomManager main_defaultRoomID, wd_msgCh = 0,
      wd_room = NewRoom main_defaultRoomID {} app, wd_up = True, wd_clients = []\<rparr>"
    using assms p(1) by (simp add: withered_start_def)
  have w: "waiting s0 = []" by (simp add: waiting_def s0 p(4))
  have "withered_inv s0"
    unfolding withered_inv_def w using p(2-4) by (simp add: s0 open_channels_def NewRoom_def)
  with app w show thesis by (intro that [of app]) (simp_all add: s0)
qed

lemma withered_reach_inv:
  assumes "withered_start orders rands grow = Some s0" "withered_reach K s0 s"
  shows "withered_inv s"
  using assms(2)
proof (induction rule: withered_reach.induct)
  case start
  show ?case by (rule withered_start_ok [OF assms(1)])
next
  case (step s s')
  show ?case by (rule withered_step_inv [OF step.hyps(3) step.IH])
qed

subsection \<open>What the server keeps\<close>


subsection \<open>The game of the server\<close>

lemma game_step:
  assumes app: "game_ok app0" and inv: "withered_inv s" and step: "withered_step s s'"
    and left: "ids_left (length (waiting s)) (rm_app (wd_room s))" and game: "room_game app0 n (wd_room s)"
  shows "\<exists>n. room_game app0 n (wd_room s')"
  using step
proof (cases rule: withered_step.cases)
  case (tick stop orders p r)
  let ?r = "fold (room_HandleMessage withered_app) (waiting s) (wd_room s)"
  note r = tick_room [OF inv tick(2,3,1)]
  have g: "room_game app0 n ?r" "ids_left 0 (rm_app ?r)" using room_messages [OF app game left] by simp_all
  note t = game_Tick_room [OF app g]
  have "rm_sendCh r = []" using withered_invD(3) [OF r(1)] tick(1) by simp
  then have "room_game app0 (Suc n) r"
    using t(1,3) g(1) r(3,4) by (simp add: room_game_def)
  with tick(1) show ?thesis by auto
qed (use game in auto)

text \<open>
  C25: As long as the 16-bit identifiers of the game have not run out (the code has no guard against that), the
  room of the running server plays a correct game in every reachable state: the application is reachable
  by joins, leaves, inputs and ticks, so it keeps the invariant of the game; the sessions with a player are
  exactly the registered ones; and every player belongs to a session the server has accepted.
\<close>

theorem withered_server_game:
  assumes "withered_start map_orders rands grow = Some s0" and "withered_reach K s0 s"
    and "\<forall>n. f32_le 0 (rands n) \<and> f32_lt (rands n) (f32_ratio 1 1)"
    and "\<And>s. K s \<Longrightarrow> ids_left (length (waiting s)) (rm_app (wd_room s))"
  shows "\<exists>app0 n. NewWitheredApplication map_orders rands = Some app0 \<and> game_run app0 n (rm_app (wd_room s))
    \<and> world_inv 1 (wa_world (rm_app (wd_room s)))
    \<and> rm_registry (wd_room s) = dom (w_SessionToEntity (wa_world (rm_app (wd_room s))))
    \<and> (\<forall>sid i. w_SessionToEntity (wa_world (rm_app (wd_room s))) sid = Some i
         \<longrightarrow> sid \<in> accepted_ids s \<and> i \<in> players (wa_world (rm_app (wd_room s))))"
proof -
  obtain app0 where app0: "NewWitheredApplication map_orders rands = Some app0" "wd_room s0 = NewRoom main_defaultRoomID {} app0"
    by (rule withered_start_ok [OF assms(1)])
  have ok: "game_ok app0" by (rule game_start_ok [OF app0(1) assms(3)])
  have "\<exists>n. room_game app0 n (wd_room s)"
    using assms(2)
  proof (induction rule: withered_reach.induct)
    case start
    have "w_SessionToEntity (wa_world app0) = Map.empty"
      using app0(1) by (auto simp: NewWitheredApplication_eq NewShootingWorld_def)
    then show ?case by (intro exI [of _ 0]) (simp add: app0(2) room_game_def NewRoom_def game_run.start)
  next
    case (step s s')
    then obtain n where "room_game app0 n (wd_room s)" by blast
    from game_step [OF ok withered_reach_inv [OF assms(1) step.hyps(1)] step.hyps(3) assms(4) [OF step.hyps(2)] this]
    show ?case .
  qed
  then obtain n where g: "game_run app0 n (rm_app (wd_room s))"
    "rm_registry (wd_room s) = dom (w_SessionToEntity (wa_world (rm_app (wd_room s))))" by (auto simp: room_game_def)
  have inv: "world_inv 1 (wa_world (rm_app (wd_room s)))" using game_run_ok [OF g(1) ok] by (simp add: game_ok_def)
  have "sid \<in> accepted_ids s \<and> i \<in> players (wa_world (rm_app (wd_room s)))"
    if "w_SessionToEntity (wa_world (rm_app (wd_room s))) sid = Some i" for sid i
    using that players_of_sessions(1,2) [OF inv that] withered_invD(13) [OF withered_reach_inv [OF assms(1,2)]] g(2)
    by (auto simp: players_view)
  with app0(1) g inv show ?thesis by blast
qed

subsection \<open>A session that outlives its connection\<close>

text \<open>Identifiers are only added, at the end.\<close>

lemma step_ids:
  assumes "withered_step s s'" "withered_inv s"
  shows "\<exists>new. map cc_id (wd_clients s') = map cc_id (wd_clients s) @ new"
  using assms
proof (cases rule: withered_step.cases)
  case (endpoint i p se)
  let ?c = "\<lparr>cc_ep = se, cc_running = True\<rparr>"
  have "cc_id ?c = cc_id (wd_clients s ! i)"
    using ep_step_inv [OF endpoint(4)] withered_invD(10) [OF assms(2), of "wd_clients s ! i"] endpoint(2) by simp
  from update_same(1) [of i "wd_clients s" cc_id ?c, OF endpoint(2) this] endpoint(1) show ?thesis by simp
next
  case (return i p)
  let ?c = "\<lparr>cc_ep = cc_ep (wd_clients s ! i), cc_running = False\<rparr>"
  have "cc_id ?c = cc_id (wd_clients s ! i)" by simp
  from update_same(1) [of i "wd_clients s" cc_id ?c, OF return(2) this] return(1) show ?thesis by simp
qed auto

text \<open>
  A session that is in the registry although no connection of it is running and no message of it is
  waiting. Nothing takes it out, unless its random identifier is given out once more.
\<close>

definition ghost :: "SessionID \<Rightarrow> withered_state \<Rightarrow> bool" where
  "ghost sid s \<longleftrightarrow> sid \<in> rm_registry (wd_room s) \<and> (\<forall>c \<in> set (wd_clients s). cc_running c \<longrightarrow> cc_id c \<noteq> sid)
     \<and> (\<forall>m \<in> set (waiting s). msg_SessionID m \<noteq> sid)"

lemma ghost_step:
  assumes step: "withered_step s s'" and inv: "withered_inv s" and g: "ghost sid s"
    and new: "map cc_id (wd_clients s') = map cc_id (wd_clients s) @ new" "sid \<notin> set new"
  shows "ghost sid s'"
  using step
proof (cases rule: withered_step.cases)
  case (request path status random now grow counter p code ep)
  have "set (map cc_id (new_clients ep)) = set new" using new(1) request(1) by simp
  then have "cc_id c \<noteq> sid" if "c \<in> set (new_clients ep)" for c using new(2) that by auto
  then show ?thesis using g inv_request(2) [OF inv request(2,1)] request(1) by (auto simp: ghost_def)
next
  case (endpoint i p se)
  let ?c = "wd_clients s ! i"
  have ci: "?c \<in> set (wd_clients s)" using endpoint(2) by simp
  then have ne: "cc_id ?c \<noteq> sid" using g endpoint(3) by (simp add: ghost_def)
  note e = inv_endpoint(2,3) [OF inv endpoint(2-4,1)]
  have "msg_SessionID m \<noteq> sid" if "m \<in> set (waiting s')" for m
  proof -
    consider "m \<in> set (waiting s)" | "msg_SessionID m = cc_id ?c" using e(1) \<open>m \<in> set (waiting s')\<close> by blast
    then show ?thesis by cases (use g ne in \<open>simp_all add: ghost_def\<close>)
  qed
  moreover have "cc_id c \<noteq> sid" if c: "c \<in> set (wd_clients s')" "cc_running c" for c
  proof -
    have "cc_sub c \<in> set (map cc_sub (wd_clients s'))" using c(1) by simp
    then obtain c0 where c0: "c0 \<in> set (wd_clients s)" "cc_sub c = cc_sub c0" unfolding e(2) by auto
    then have "cc_running c0" "cc_id c0 = cc_id c" using c(2) by (simp_all add: cc_sub_def)
    with c0(1) g show ?thesis by (auto simp: ghost_def)
  qed
  ultimately show ?thesis using g endpoint(1) by (simp add: ghost_def)
next
  case (return i p)
  let ?c' = "\<lparr>cc_ep = cc_ep (wd_clients s ! i), cc_running = False\<rparr>"
  have "cc_id c \<noteq> sid" if "c \<in> set (wd_clients s')" "cc_running c" for c
  proof -
    have "c \<noteq> ?c'" using that(2) by auto
    then have "c \<in> set (wd_clients s)" using that(1) set_update_subset_insert [of "wd_clients s" i ?c'] by (auto simp: return(1))
    with g that(2) show ?thesis by (simp add: ghost_def)
  qed
  then show ?thesis using g inv_return(2) [OF inv return(2-4,1)] return(1) by (simp add: ghost_def)
next
  case (tick stop orders p r)
  note t = tick_room [OF inv tick(2,3,1)]
  have "sid \<in> rm_registry r"
    unfolding t(3) by (rule messages_keep_other) (use g in \<open>simp_all add: ghost_def\<close>)
  then show ?thesis using g t(2) tick(1) by (simp add: ghost_def)
next
  case (stop p)
  then show ?thesis using g inv_stop(2) [OF inv stop(2,3,1)] by (simp add: ghost_def)
qed

lemma ghost_stays:
  assumes "withered_reach K s s'" "withered_inv s" "ghost sid s"
    and "sid \<notin> set (drop (length (wd_clients s)) (map cc_id (wd_clients s')))"
  shows "ghost sid s'"
proof -
  have "withered_inv s' \<and> (\<exists>new. map cc_id (wd_clients s') = map cc_id (wd_clients s) @ new \<and> (sid \<notin> set new \<longrightarrow> ghost sid s'))"
    using assms(1)
  proof (induction rule: withered_reach.induct)
    case start
    show ?case using assms(2,3) by simp
  next
    case (step s1 s2)
    then obtain new1 where inv: "withered_inv s1" and new1: "map cc_id (wd_clients s1) = map cc_id (wd_clients s) @ new1"
      "sid \<notin> set new1 \<longrightarrow> ghost sid s1" by blast
    obtain new2 where new2: "map cc_id (wd_clients s2) = map cc_id (wd_clients s1) @ new2" using step_ids [OF step.hyps(3) inv] by blast
    then have "map cc_id (wd_clients s2) = map cc_id (wd_clients s) @ new1 @ new2" by (simp add: new1(1))
    moreover have "ghost sid s2" if "sid \<notin> set (new1 @ new2)"
      by (rule ghost_step [OF step.hyps(3) inv _ new2]) (use that new1(2) in auto)
    ultimately show ?case using withered_step_inv [OF step.hyps(3) inv] by blast
  qed
  then obtain new where "map cc_id (wd_clients s') = map cc_id (wd_clients s) @ new" "sid \<notin> set new \<longrightarrow> ghost sid s'" by blast
  with assms(4) show ?thesis by simp
qed

text \<open>
  The life of an endpoint whose client sends a join frame and goes: the frame has been read when the endpoint is
  closed (nobody has to leave a room yet), it is handled afterwards, and then all loops end.
\<close>

lemma late_join:
  assumes wf: "ps_wf p" and se: "\<not> ep_closed se" "\<not> ep_cancelled se" "ep_roomID se = ''''" "ep_ctrlCh se = []"
    "ep_readLoop se" "ep_writeLoop se" "ep_subLoop se"
  obtains p' se' where "ep_step\<^sup>*\<^sup>* (p, se) (p', se')" "ps_wf p'" "ps_subs p' = ps_subs p"
    "ps_chans p' = delivered (room_msg se bot_defaultRoomID RoomMsgTypeJoin []) (subscribers p (room_topic bot_defaultRoomID)) (ps_chans p)"
    "ep_closed se'" "se_id (ep_session se') = se_id (ep_session se)" "ep_msgCh se' = ep_msgCh se"
    "ep_cancelled se'" "\<not> ep_inRead se'" "\<not> ep_readLoop se'" "\<not> ep_writeLoop se'" "\<not> ep_subLoop se'"
proof -
  let ?ev = "\<lparr>ee_kind = evClose, ee_err = None\<rparr>"
  define e1 where "e1 = se\<lparr>ep_inRead := True\<rparr>"
  define e2 where "e2 = e1\<lparr>ep_ctrlCh := [?ev]\<rparr>"
  define e3 where "e3 = e2\<lparr>ep_ctrlCh := [], ep_closed := True, ep_cancelled := True, ep_session := fst (Session_Close (ep_session se)),
    ep_conn := cn_Close (ep_conn se)\<rparr>"
  define e4 where "e4 = e3\<lparr>ep_inRead := False, ep_session := TouchRead 0 (ep_session e3)\<rparr>"
  define e5 where "e5 = e4\<lparr>ep_roomID := bot_defaultRoomID\<rparr>"
  note defs = e1_def e2_def e3_def e4_def e5_def
  have id: "se_id (ep_session e4) = se_id (ep_session se)" by (simp add: defs TouchRead_def Session_Close_def)
  have small: "VarintLen v \<le> 8" for v by (simp add: VarintLen_def)
  have len: "length (room_payload bot_defaultRoomID RoomMsgTypeJoin []) < 2 ^ 62"
    using small [of "of_nat (length bot_defaultRoomID)"] small [of RoomMsgTypeJoin]
    by (simp add: room_payload_def bot_defaultRoomID_def)
  have "unat RoomMsgTypeJoin < 2 ^ 62" by (simp add: msg_types)
  from handleData_delivers [OF wf len this, of False "[]" e4] obtain p' where p':
    "handleData (\<lambda>_. False) False (EncodeRoomMessage bot_defaultRoomID RoomMsgTypeJoin []) (p, e4) = Some (p', e5)" "ps_wf p'"
    "ps_subs p' = ps_subs p" "ps_chans p' = delivered (room_msg e4 bot_defaultRoomID RoomMsgTypeJoin [])
       (subscribers p (room_topic bot_defaultRoomID)) (ps_chans p)" by (auto simp: e5_def)
  have s1: "ep_step (p, se) (p, e1)" unfolding e1_def by (rule ep_step.read_begin) (use se in simp_all)
  have s2: "ep_step (p, e1) (p, e2)"
    by (rule ep_step.request_close [where pick = False]) (use se in \<open>simp add: defs ep_Close_def sendCtrlEvent_def\<close>)
  have s3: "ep_step (p, e2) (p, e3)"
    by (rule ep_step.control [where ev = ?ev and evs = "[]" and stop = "\<lambda>_. False" and now = 0])
      (use se in \<open>simp_all add: defs handleControlEvent_def close_endpoint_def\<close>)
  have s4: "ep_step (p, e3) (p', e5)"
    by (rule ep_step.read_data [OF _ p'(1) [unfolded e4_def]]) (simp add: defs)
  have s5: "ep_step (p', e5) (p', e5\<lparr>ep_readLoop := False\<rparr>)" by (rule ep_step.read_end) (use se in \<open>simp_all add: defs\<close>)
  have s6: "ep_step (p', e5\<lparr>ep_readLoop := False\<rparr>) (p', e5\<lparr>ep_readLoop := False, ep_writeLoop := False\<rparr>)"
    using ep_step.write_end [of "e5\<lparr>ep_readLoop := False\<rparr>" p'] se by (simp add: defs)
  have s7: "ep_step (p', e5\<lparr>ep_readLoop := False, ep_writeLoop := False\<rparr>)
      (p', e5\<lparr>ep_readLoop := False, ep_writeLoop := False, ep_subLoop := False\<rparr>)"
    using ep_step.sub_end [of "e5\<lparr>ep_readLoop := False, ep_writeLoop := False\<rparr>" p'] se by (simp add: defs)
  have "ep_step\<^sup>*\<^sup>* (p, se) (p', e5\<lparr>ep_readLoop := False, ep_writeLoop := False, ep_subLoop := False\<rparr>)"
    using s1 s2 s3 s4 s5 s6 s7 by (meson converse_rtranclp_into_rtranclp r_into_rtranclp)
  then show thesis
    by (rule that) (use p' id in \<open>simp_all add: room_msg_def defs TouchRead_def\<close>)
qed

lemma reach_endpoint:
  assumes "ep_step\<^sup>*\<^sup>* (wd_pubsub s, cc_ep (wd_clients s ! i)) (p', se')"
    and i: "i < length (wd_clients s)" "cc_running (wd_clients s ! i)" and reach: "withered_reach (\<lambda>_. True) s0 s"
  shows "withered_reach (\<lambda>_. True) s0 (s\<lparr>wd_pubsub := p', wd_clients := (wd_clients s)[i := \<lparr>cc_ep = se', cc_running = True\<rparr>]\<rparr>)"
  using assms(1)
proof (induction rule: rtranclp_induct2)
  case refl
  have "\<lparr>cc_ep = cc_ep (wd_clients s ! i), cc_running = True\<rparr> = wd_clients s ! i"
    using i(2) by (cases "wd_clients s ! i") simp
  with reach show ?case by simp
next
  case (step p1 se1 p2 se2)
  let ?s = "s\<lparr>wd_pubsub := p1, wd_clients := (wd_clients s)[i := \<lparr>cc_ep = se1, cc_running = True\<rparr>]\<rparr>"
  have "withered_step ?s (?s\<lparr>wd_pubsub := p2, wd_clients := (wd_clients ?s)[i := \<lparr>cc_ep = se2, cc_running = True\<rparr>]\<rparr>)"
    by (rule withered_step.endpoint) (use i step.hyps(2) in simp_all)
  from withered_reach.step [OF step.IH TrueI this] show ?case by simp
qed

text \<open>A started server with one client that has not sent anything yet.\<close>

lemma one_client:
  assumes "withered_start map_orders rands grow = Some s0"
  obtains s c where "withered_reach (\<lambda>_. True) s0 s" "withered_step s0 s" "wd_clients s = [c]" "cc_running c" "wd_up s"
    "waiting s = []" "rm_registry (wd_room s) = {}" "wd_room s = wd_room s0"
    "\<not> ep_closed (cc_ep c)" "\<not> ep_cancelled (cc_ep c)" "ep_roomID (cc_ep c) = ''''" "ep_ctrlCh (cc_ep c) = []"
    "ep_readLoop (cc_ep c)" "ep_writeLoop (cc_ep c)" "ep_subLoop (cc_ep c)"
proof -
  obtain app where s0: "wd_room s0 = NewRoom main_defaultRoomID {} app" "wd_clients s0 = []" "wd_up s0" "withered_inv s0" "waiting s0 = []"
    by (rule withered_start_ok [OF assms])
  obtain p se where a: "accept_ServeHTTP True (replicate 16 7) 0 0 (wd_manager s0) (wd_counter s0, wd_pubsub s0)
      = ((wd_counter s0 + 1, p), Some (se, None))" by (rule accept_ok [OF withered_invD(1) [OF s0(4)]])
  have flags: "\<not> ep_closed se" "\<not> ep_cancelled se" "ep_roomID se = ''''" "ep_ctrlCh se = []" "ep_readLoop se" "ep_writeLoop se" "ep_subLoop se"
    using a by (auto simp: accept_ServeHTTP_def NewSessionEndpoint_def run_start_def Send_def Let_def split: prod.splits)
  have serve: "withered_serve ''/ws'' 101 (replicate 16 7) 0 0 (wd_manager s0) (wd_counter s0, wd_pubsub s0)
      = ((wd_counter s0 + 1, p), 101, Some (se, None))" by (simp add: withered_serve_def Route_def a)
  let ?s = "s0\<lparr>wd_counter := wd_counter s0 + 1, wd_pubsub := p, wd_clients := wd_clients s0 @ new_clients (Some (se, None))\<rparr>"
  have step: "withered_step s0 ?s" by (rule withered_step.request [OF serve])
  have "waiting ?s = []" using inv_request(2) [OF s0(4) serve refl] s0(5) by simp
  with withered_reach.step [OF withered_reach.start TrueI step] step flags s0(1-3) show thesis
    by (intro that [of ?s "\<lparr>cc_ep = se, cc_running = True\<rparr>"]) (simp_all add: NewRoom_def)
qed

text \<open>
  C26: A session that outlives its connection. \<open>handleData\<close> does not look at whether the endpoint has been
  closed, and \<open>close\<close> sends a leave message only for a room that has been noted by then. So a client that joins
  while its endpoint is being closed stays in the room: the server reaches a state in which the only
  connection has ended and nothing is waiting, and its session is registered; and it stays registered in
  every state after that, whatever anybody does, unless its random identifier is given out a second time.
\<close>

theorem late_join_ghost:
  assumes "withered_start map_orders rands grow = Some s0"
  shows "\<exists>s c. withered_reach (\<lambda>_. True) s0 s \<and> wd_clients s = [c] \<and> \<not> cc_running c \<and> ep_closed (cc_ep c) \<and> waiting s = []
    \<and> cc_id c \<in> rm_registry (wd_room s)
    \<and> (\<forall>s'. withered_reach (\<lambda>_. True) s s' \<and> cc_id c \<notin> set (drop 1 (map cc_id (wd_clients s')))
         \<longrightarrow> cc_id c \<in> rm_registry (wd_room s'))"
proof -
  obtain s1 c where s1: "withered_reach (\<lambda>_. True) s0 s1" "wd_clients s1 = [c]" "cc_running c" "wd_up s1" "waiting s1 = []"
    "rm_registry (wd_room s1) = {}"
    and flags: "\<not> ep_closed (cc_ep c)" "\<not> ep_cancelled (cc_ep c)" "ep_roomID (cc_ep c) = ''''" "ep_ctrlCh (cc_ep c) = []"
    "ep_readLoop (cc_ep c)" "ep_writeLoop (cc_ep c)" "ep_subLoop (cc_ep c)" by (rule one_client [OF assms])
  let ?m = "room_msg (cc_ep c) bot_defaultRoomID RoomMsgTypeJoin []"
  note inv1 = withered_reach_inv [OF assms s1(1)]
  obtain p se where j: "ep_step\<^sup>*\<^sup>* (wd_pubsub s1, cc_ep c) (p, se)" "ps_wf p"
    "ps_chans p = delivered ?m (subscribers (wd_pubsub s1) (room_topic bot_defaultRoomID)) (ps_chans (wd_pubsub s1))"
    "ep_closed se" "se_id (ep_session se) = cc_id c" "ep_cancelled se" "\<not> ep_inRead se" "\<not> ep_readLoop se" "\<not> ep_writeLoop se" "\<not> ep_subLoop se"
    by (rule late_join [OF withered_invD(1) [OF inv1] flags])
  define s2 where "s2 = s1\<lparr>wd_pubsub := p, wd_clients := (wd_clients s1)[0 := \<lparr>cc_ep = se, cc_running = True\<rparr>]\<rparr>"
  have r2: "withered_reach (\<lambda>_. True) s0 s2"
    unfolding s2_def by (rule reach_endpoint) (use s1 j(1) in simp_all)
  note inv2 = withered_reach_inv [OF assms r2]
  obtain ch where ch: "ps_chans (wd_pubsub s1) (wd_msgCh s1) = Some ch" "ch_buf ch = []"
    using withered_invD(8) [OF inv1] s1(5) by (auto simp: waiting_def)
  have w2: "waiting s2 = [?m]"
    using withered_invD(4) [OF inv1] s1(4) ch delivered_one [OF ch(1), of "[wd_msgCh s1]" ?m]
    by (simp add: waiting_def s2_def j(3) room_id_of_bot DefaultChannelBuffer_def)
  have cs2: "wd_clients s2 = [\<lparr>cc_ep = se, cc_running = True\<rparr>]" by (simp add: s2_def s1(2))
  obtain p3 where p3: "run_end (wd_pubsub s2, cc_ep (wd_clients s2 ! 0)) = Some p3"
    using ps_Unsubscribe_wf [OF j(2), of "session_topic (cc_id c)" "ep_msgCh se"] j by (auto simp: run_end_def cs2 s2_def s1(2))
  define s3 where "s3 = s2\<lparr>wd_pubsub := p3, wd_clients := (wd_clients s2)[0 := \<lparr>cc_ep = cc_ep (wd_clients s2 ! 0), cc_running = False\<rparr>]\<rparr>"
  have i: "0 < length (wd_clients s2)" "cc_running (wd_clients s2 ! 0)" by (simp_all add: cs2)
  have r3: "withered_reach (\<lambda>_. True) s0 s3"
    unfolding s3_def by (rule withered_reach.step [OF r2 TrueI withered_step.return [OF i p3]])
  note inv3 = withered_reach_inv [OF assms r3]
  have up3: "wd_up s3" using s1(4) by (simp add: s3_def s2_def)
  have w3: "waiting s3 = [?m]" using inv_return(2) [OF inv2 i p3 s3_def] w2 by simp
  let ?orders = "\<lambda>_. [cc_id c]"
  obtain p4 r where t: "room_tick withered_app (\<lambda>_. False) ?orders (wd_msgCh s3) (wd_pubsub s3) (wd_room s3) = Some (p4, r)"
    using inv_tick [OF inv3 up3, of "\<lambda>_. False" ?orders] by blast
  define s4 where "s4 = s3\<lparr>wd_pubsub := p4, wd_room := r\<rparr>"
  note t4 = tick_room [OF inv3 up3 t s4_def]
  have "length bot_defaultRoomID < 2 ^ 62" by (simp add: bot_defaultRoomID_def)
  note join = room_HandleMessage_payload(1) [OF this, of withered_app "cc_id c" "[]" "wd_room s3"]
  have reg: "rm_registry r = {cc_id c}"
    using join s1(6) unfolding t4(3) w3 by (simp add: room_msg_def s3_def s2_def)
  have ord: "reg_List (rm_registry r) (?orders n)" for n :: nat by (simp add: reg reg_List_def)
  have r4: "withered_reach (\<lambda>_. True) s0 s4"
    unfolding s4_def by (rule withered_reach.step [OF r3 TrueI withered_step.tick [OF up3 t ord]])
  have c4: "wd_clients s4 = [\<lparr>cc_ep = se, cc_running = False\<rparr>]" by (simp add: s4_def s3_def cs2)
  have "wd_room s4 = r" by (simp add: s4_def)
  then have g: "ghost (cc_id c) s4" using t4(2) reg by (simp add: ghost_def c4)
  have "cc_id c \<in> rm_registry (wd_room s')"
    if "withered_reach (\<lambda>_. True) s4 s'" "cc_id c \<notin> set (drop 1 (map cc_id (wd_clients s')))" for s'
    using ghost_stays [OF that(1) t4(1) g] that(2) by (simp add: c4 ghost_def)
  with r4 c4 t4(2) g j(4,5) show ?thesis
    by (intro exI [of _ s4] exI [of _ "\<lparr>cc_ep = se, cc_running = False\<rparr>"]) (simp add: ghost_def)
qed

lemma ex_started: "\<exists>s0. withered_start (\<lambda>_. []) (\<lambda>_. 0x3F000000) 0 = Some s0"
proof -
  obtain p where "boot (\<lambda>_. []) (\<lambda>_. 0x3F000000) 0 = Some (p, 0, NewSimpleRoomManager main_defaultRoomID, NewRoom main_defaultRoomID {} ex_app)"
    by (rule boot_ok [OF ex_app(1)])
  then show ?thesis by (simp add: withered_start_def)
qed

theorem late_join_ghost_witness:
  "\<exists>s0 s c. withered_start (\<lambda>_. []) (\<lambda>_. 0x3F000000) 0 = Some s0 \<and> withered_reach (\<lambda>_. True) s0 s
     \<and> wd_clients s = [c] \<and> \<not> cc_running c \<and> cc_id c \<in> rm_registry (wd_room s)"
proof -
  obtain s0 where s0: "withered_start (\<lambda>_. []) (\<lambda>_. 0x3F000000) 0 = Some s0" using ex_started by blast
  from late_join_ghost [OF s0] s0 show ?thesis by blast
qed


theorem withered_server_game_witness:
  "\<exists>s0 s c n. withered_start (\<lambda>_. []) (\<lambda>_. 0x3F000000) 0 = Some s0 \<and> withered_step s0 s \<and> wd_clients s = [c]
     \<and> game_run ex_app n (rm_app (wd_room s)) \<and> w_SessionToEntity (wa_world (rm_app (wd_room s))) (cc_id c) = None"
proof -
  obtain s0 where s0: "withered_start (\<lambda>_. []) (\<lambda>_. 0x3F000000) 0 = Some s0" using ex_started by blast
  obtain s c where s: "withered_step s0 s" "wd_clients s = [c]" "rm_registry (wd_room s) = {}" by (rule one_client [OF s0])
  let ?K = "\<lambda>s. ids_left (length (waiting s)) (rm_app (wd_room s))"
  obtain app where app: "NewWitheredApplication (\<lambda>_. []) (\<lambda>_. 0x3F000000) = Some app" "wd_room s0 = NewRoom main_defaultRoomID {} app"
    "waiting s0 = []" by (rule withered_start_ok [OF s0])
  have "?K s0" using app ex_app(1) by (simp add: NewRoom_def NewShootingWorld_def ids_left_def players_def)
  then have "withered_reach ?K s0 s" using s(1) by (intro withered_reach.step [OF withered_reach.start])
  from withered_server_game [OF s0 this ex_app(2)] s0 s ex_app(1) show ?thesis by auto
qed

end
