(* ===== verification/Tile_Map.thy ===== *)
theory Tile_Map
  imports World
begin

text \<open>
  The tile maps of \<open>map.go\<close>: on a well-formed map the index computations stay inside the slice
  and different coordinates have different indices, so reading and writing tiles is total.
\<close>

definition map_ok :: "Map \<Rightarrow> bool" where
  "map_ok m \<longleftrightarrow> 0 \<le> mp_Width m \<and> 0 \<le> mp_Height m \<and> length (mp_Tiles m) = nat (mp_Width m * mp_Height m)"

lemma tile_index:
  assumes "map_ok m" "\<not> out_of_map m x y"
  shows "nat (y * mp_Width m + x) < length (mp_Tiles m)"
proof -
  have "y * mp_Width m + x < (y + 1) * mp_Width m" using assms(2) by (simp add: out_of_map_def algebra_simps)
  also have "\<dots> \<le> mp_Height m * mp_Width m" using assms by (intro mult_right_mono) (auto simp: out_of_map_def map_ok_def)
  finally have "y * mp_Width m + x < mp_Width m * mp_Height m" by (simp add: mult.commute)
  moreover have "0 \<le> y * mp_Width m + x" using assms by (auto simp: out_of_map_def map_ok_def)
  ultimately show ?thesis using assms(1) by (simp add: map_ok_def)
qed

lemma tile_index_inj:
  assumes "map_ok m" "\<not> out_of_map m x y" "\<not> out_of_map m x' y'" "nat (y * mp_Width m + x) = nat (y' * mp_Width m + x')"
  shows "x = x' \<and> y = y'"
proof -
  have b: "0 \<le> x" "x < mp_Width m" "0 \<le> x'" "x' < mp_Width m" "0 \<le> y" "0 \<le> y'"
    using assms(2,3) by (auto simp: out_of_map_def)
  then have "y * mp_Width m + x = y' * mp_Width m + x'" using assms(4) by (simp add: nat_eq_iff2 split: if_splits)
  then have "(y * mp_Width m + x) mod mp_Width m = (y' * mp_Width m + x') mod mp_Width m"
    "(y * mp_Width m + x) div mp_Width m = (y' * mp_Width m + x') div mp_Width m" by simp_all
  with b show ?thesis by simp
qed

lemma GetTile_eq:
  "map_ok m \<Longrightarrow> GetTile m x y = Some (if out_of_map m x y then TileWall else mp_Tiles m ! nat (y * mp_Width m + x))"
  using tile_index [of m x y] by (simp add: GetTile_def Let_def)

lemma SetTile_eq:
  "map_ok m \<Longrightarrow> SetTile x y tile m = Some
     (if out_of_map m x y then (m, Some (TileOutOfRangeError x y (mp_Width m) (mp_Height m)))
      else (m\<lparr>mp_Tiles := (mp_Tiles m)[nat (y * mp_Width m + x) := tile]\<rparr>, None))"
  using tile_index [of m x y] by (simp add: SetTile_def Let_def)

lemma GetTile_updated:
  assumes ok: "map_ok m" and xy: "\<not> out_of_map m x y"
  shows "GetTile (m\<lparr>mp_Tiles := (mp_Tiles m)[nat (y * mp_Width m + x) := tile]\<rparr>) x' y'
    = (if x' = x \<and> y' = y then Some tile else GetTile m x' y')"
proof -
  define m' where "m' = m\<lparr>mp_Tiles := (mp_Tiles m)[nat (y * mp_Width m + x) := tile]\<rparr>"
  have ok': "map_ok m'" and out: "out_of_map m' a b = out_of_map m a b" for a b
    using ok by (simp_all add: m'_def map_ok_def out_of_map_def)
  have "GetTile m' x' y' = (if x' = x \<and> y' = y then Some tile else GetTile m x' y')"
    using tile_index_inj [OF ok xy, of x' y'] tile_index [OF ok xy] xy
    unfolding GetTile_eq [OF ok'] GetTile_eq [OF ok] out by (auto simp: m'_def nth_list_update)
  then show ?thesis by (simp add: m'_def)
qed

lemma NewMap_eq:
  assumes "0 \<le> wd" "0 \<le> ht"
  shows "\<exists>m0. NewMap wd ht ts = Some m0 \<and> map_ok m0 \<and> (\<forall>x' y'. \<not> out_of_map m0 x' y' \<longrightarrow> GetTile m0 x' y' = Some TileEmpty)"
proof -
  define m0 where "m0 = \<lparr>mp_Width = wd, mp_Height = ht, mp_TileSize = ts, mp_Tiles = replicate (nat (wd * ht)) TileEmpty\<rparr>"
  have ok: "map_ok m0" using assms by (simp add: m0_def map_ok_def)
  have "NewMap wd ht ts = Some m0"
    using mult_nonneg_nonneg [OF assms] by (simp add: NewMap_def m0_def)
  moreover have "GetTile m0 x' y' = Some TileEmpty" if "\<not> out_of_map m0 x' y'" for x' y'
    using tile_index [OF ok that] that unfolding GetTile_eq [OF ok] by (simp add: m0_def)
  ultimately show ?thesis using ok by blast
qed



end
